(* ===== verification/Prelude.thy ===== *)
theory Prelude
  imports Main "HOL-Library.Word"
begin

text \<open>
  What every component shares: Go's 64-bit signed integers as words read through \<open>sint\<close>,
  instants and durations, UUIDs, the strings package and \<open>strconv\<close> as far as the
  sources use them, and the collections of facts the other theories add to.

  \<^item> \<open>i64\<close> is Go's \<open>int64\<close>: addition and subtraction wrap, comparisons are signed.
  \<^item> \<open>time\<close> is a \<open>time.Time\<close> as its distance in nanoseconds from Go's zero time, so
    \<open>IsZero\<close> is \<open>t = 0\<close>, \<open>Before\<close> is \<open><\<close>, \<open>Add\<close> is \<open>+\<close> and \<open>UTC\<close>, which
    changes the location but not the instant, is the identity.
  \<^item> \<open>uuid\<close> is the 16 bytes of a \<open>uuid.UUID\<close>; \<open>uuid.Nil\<close> is zero.
  \<^item> a Go string is its list of bytes.
\<close>

type_synonym i64 = "64 word"
type_synonym time = int
type_synonym duration = int
type_synonym uuid = "128 word"

abbreviation (input) uuid_Nil :: uuid where
  "uuid_Nil \<equiv> 0"

abbreviation (input) time_zero :: time where
  "time_zero \<equiv> 0"

named_theorems wp "weakest-precondition rules of the operations of the model"
named_theorems money_simps "evaluation rules of the money component"

section \<open>Signed 64-bit integers\<close>

definition max_i64 :: i64 where
  "max_i64 = 0x7FFFFFFFFFFFFFFF"

definition min_i64 :: i64 where
  "min_i64 = 0x8000000000000000"

lemma sint_max_i64 [simp]: "sint max_i64 = 2 ^ 63 - 1"
  by (simp add: max_i64_def)

lemma sint_min_i64 [simp]: "sint min_i64 = - (2 ^ 63)"
  by (simp add: min_i64_def)

lemma i64_range: "- (2 ^ 63) \<le> sint (a :: i64)" "sint (a :: i64) < 2 ^ 63"
  using sint_ge [of a] sint_lt [of a] by simp_all

lemma i64_less: "a <s b \<longleftrightarrow> sint a < sint (b :: i64)"
  by (simp add: word_sless_alt)

lemma i64_le: "a \<le>s b \<longleftrightarrow> sint a \<le> sint (b :: i64)"
  by (simp add: word_sle_eq)

text \<open>Two's complement wrap-around as an integer function, and the operations in terms of it.\<close>

definition wrap64 :: "int \<Rightarrow> int" where
  "wrap64 x = (x + 2 ^ 63) mod 2 ^ 64 - 2 ^ 63"

lemma sint_of_int_i64: "sint (of_int x :: i64) = wrap64 x"
  by (simp add: wrap64_def sint_sbintrunc' signed_take_bit_eq_take_bit_shift take_bit_eq_mod)

lemma sint_add_i64: "sint (a + b :: i64) = wrap64 (sint a + sint b)"
  using sint_of_int_i64 [of "sint a + sint b"] by simp

lemma sint_sub_i64: "sint (a - b :: i64) = wrap64 (sint a - sint b)"
  using sint_of_int_i64 [of "sint a - sint b"] by simp

lemma sint_uminus_i64: "sint (- a :: i64) = wrap64 (- sint a)"
  using sint_of_int_i64 [of "- sint a"] by simp

lemma sint_mult_i64: "sint (a * b :: i64) = wrap64 (sint a * sint b)"
  using sint_of_int_i64 [of "sint a * sint b"] by simp

lemma wrap64_id: "- (2 ^ 63) \<le> x \<Longrightarrow> x < 2 ^ 63 \<Longrightarrow> wrap64 x = x"
  by (simp add: wrap64_def)

lemma wrap64_over: "2 ^ 63 \<le> x \<Longrightarrow> x < 2 ^ 64 + 2 ^ 63 \<Longrightarrow> wrap64 x = x - 2 ^ 64"
proof -
  assume a: "2 ^ 63 \<le> x" "x < 2 ^ 64 + 2 ^ 63"
  have "(x + 2 ^ 63) mod 2 ^ 64 = x - 2 ^ 63"
    by (rule int_mod_pos_eq [where q = 1]) (use a in simp_all)
  then show ?thesis by (simp add: wrap64_def)
qed

lemma wrap64_under: "- (2 ^ 64) - 2 ^ 63 \<le> x \<Longrightarrow> x < - (2 ^ 63) \<Longrightarrow> wrap64 x = x + 2 ^ 64"
proof -
  assume a: "- (2 ^ 64) - 2 ^ 63 \<le> x" "x < - (2 ^ 63)"
  have "(x + 2 ^ 63) mod 2 ^ 64 = x + 2 ^ 63 + 2 ^ 64"
    by (rule int_mod_pos_eq [where q = "-1"]) (use a in simp_all)
  then show ?thesis by (simp add: wrap64_def)
qed

lemma i64_eqI: "sint a = sint b \<Longrightarrow> a = (b :: i64)"
  by (simp add: signed_word_eqI)

lemma i64_eq_iff: "a = b \<longleftrightarrow> sint a = sint (b :: i64)"
  by (auto intro: i64_eqI)

end
