(* ===== verification/GoStd.thy ===== *)
theory GoStd
  imports Prelude
begin

text \<open>
  The part of Go's standard library the service computes with: decimal digits as
  \<open>strconv.FormatUint\<close> and \<open>strconv.ParseInt\<close> treat them, the decoding of UTF-8 that
  \<open>for range\<close> over a string performs, and the blank test behind \<open>strings.TrimSpace\<close>.
  Facts: parsing undoes formatting, and formatted numbers have the canonical shape.
\<close>

section \<open>Decimal digits\<close>

definition is_digit :: "char \<Rightarrow> bool" where
  "is_digit c \<longleftrightarrow> 48 \<le> (of_char c :: nat) \<and> (of_char c :: nat) \<le> 57"

definition digit_val :: "char \<Rightarrow> nat" where
  "digit_val c = of_char c - 48"

definition digit_char :: "nat \<Rightarrow> char" where
  "digit_char d = char_of (48 + d)"

lemma of_char_digit [simp]: "d < 10 \<Longrightarrow> (of_char (digit_char d) :: nat) = 48 + d"
  by (simp add: digit_char_def)

lemma digit_char_is_digit [simp]: "d < 10 \<Longrightarrow> is_digit (digit_char d)"
  by (simp add: is_digit_def)

lemma digit_val_char [simp]: "d < 10 \<Longrightarrow> digit_val (digit_char d) = d"
  by (simp add: digit_val_def)

lemma digit_char_eq_iff: "d < 10 \<Longrightarrow> e < 10 \<Longrightarrow> digit_char d = digit_char e \<longleftrightarrow> d = e"
  by (metis digit_val_char)

lemma is_digit_val_less: "is_digit c \<Longrightarrow> digit_val c < 10"
  unfolding is_digit_def digit_val_def by arith

lemma digit_char_eqI: "d < 10 \<Longrightarrow> (of_char c :: nat) = 48 + d \<Longrightarrow> digit_char d = c"
  by (rule of_char_eq_iff [where 'a = nat, THEN iffD1]) simp

lemma digit_char_zero: "digit_char 0 = CHR ''0''"
  by (rule digit_char_eqI) simp_all

lemma digit_char_1: "digit_char 1 = CHR ''1''"
  by (rule digit_char_eqI) simp_all

lemma digit_char_2: "digit_char 2 = CHR ''2''"
  by (rule digit_char_eqI) simp_all

lemma digit_char_3: "digit_char 3 = CHR ''3''"
  by (rule digit_char_eqI) simp_all

lemma digit_char_4: "digit_char 4 = CHR ''4''"
  by (rule digit_char_eqI) simp_all

lemma digit_char_5: "digit_char 5 = CHR ''5''"
  by (rule digit_char_eqI) simp_all

lemma digit_char_6: "digit_char 6 = CHR ''6''"
  by (rule digit_char_eqI) simp_all

lemma digit_char_7: "digit_char 7 = CHR ''7''"
  by (rule digit_char_eqI) simp_all

lemma digit_char_8: "digit_char 8 = CHR ''8''"
  by (rule digit_char_eqI) simp_all

lemma digit_char_9: "digit_char 9 = CHR ''9''"
  by (rule digit_char_eqI) simp_all

lemmas digit_char_numerals = digit_char_zero digit_char_1 digit_char_2 digit_char_3 digit_char_4
  digit_char_5 digit_char_6 digit_char_7 digit_char_8 digit_char_9

lemma digit_char_val: "is_digit c \<Longrightarrow> digit_char (digit_val c) = c"
  by (simp add: is_digit_def digit_val_def digit_char_def)

definition digits_val :: "string \<Rightarrow> nat" where
  "digits_val s = foldl (\<lambda>a c. 10 * a + digit_val c) 0 s"

lemma digits_val_Nil [simp]: "digits_val [] = 0"
  by (simp add: digits_val_def)

lemma digits_val_snoc [simp]: "digits_val (s @ [c]) = 10 * digits_val s + digit_val c"
  by (simp add: digits_val_def)

lemma digits_val_bound: "list_all is_digit s \<Longrightarrow> digits_val s < 10 ^ length s"
proof (induction s rule: rev_induct)
  case (snoc c s)
  from snoc.prems have "is_digit c" "list_all is_digit s" by simp_all
  with snoc.IH is_digit_val_less [of c] show ?case by simp
qed simp

fun format_uint :: "nat \<Rightarrow> string" where
  "format_uint n = (if n < 10 then [digit_char n] else format_uint (n div 10) @ [digit_char (n mod 10)])"

declare format_uint.simps [simp del]

lemma format_uint_small: "n < 10 \<Longrightarrow> format_uint n = [digit_char n]"
  by (simp add: format_uint.simps)

lemma format_uint_step: "10 \<le> n \<Longrightarrow> format_uint n = format_uint (n div 10) @ [digit_char (n mod 10)]"
  by (subst format_uint.simps) simp

lemma format_uint_digits [simp]: "list_all is_digit (format_uint n)"
proof (induction n rule: format_uint.induct)
  case (1 n)
  then show ?case by (cases "n < 10") (simp_all add: format_uint_small format_uint_step)
qed

lemma digits_val_format_uint [simp]: "digits_val (format_uint n) = n"
proof (induction n rule: format_uint.induct)
  case (1 n)
  then show ?case
    by (cases "n < 10") (simp_all add: format_uint_small format_uint_step digits_val_def)
qed

lemma format_uint_not_Nil [simp]: "format_uint n \<noteq> []"
  by (cases "n < 10") (simp_all add: format_uint_small format_uint_step)

lemma length_format_uint: "n < 10 ^ k \<Longrightarrow> 0 < k \<Longrightarrow> length (format_uint n) \<le> k"
proof (induction n arbitrary: k rule: format_uint.induct)
  case (1 n)
  show ?case
  proof (cases "n < 10")
    case True
    with 1(3) show ?thesis by (simp add: format_uint_small)
  next
    case False
    then obtain k' where k: "k = Suc k'" "0 < k'"
      using 1(2,3) by (cases k; cases "k - 1") auto
    from 1(2) k have "n div 10 < 10 ^ k'" by (simp add: less_mult_imp_div_less mult.commute)
    with 1(1) [OF False] k show ?thesis using False by (simp add: format_uint_step)
  qed
qed

lemma hd_format_uint: "0 < n \<Longrightarrow> hd (format_uint n) \<noteq> CHR ''0''"
proof (induction n rule: format_uint.induct)
  case (1 n)
  note z = digit_char_zero [symmetric]
  show ?case
  proof (cases "n < 10")
    case True
    with 1(2) show ?thesis unfolding z by (simp add: format_uint_small digit_char_eq_iff)
  next
    case False
    with 1(1) [OF False] show ?thesis by (simp add: format_uint_step)
  qed
qed

lemma digits_val_append: "digits_val (s @ t) = digits_val s * 10 ^ length t + digits_val t"
proof (induction t rule: rev_induct)
  case (snoc c t)
  have "digits_val (s @ t @ [c]) = 10 * digits_val (s @ t) + digit_val c"
    using digits_val_snoc [of "s @ t" c] by simp
  with snoc show ?case by (simp add: algebra_simps)
qed simp

text \<open>A number is the formatting of its value exactly when it has no superfluous leading zero.\<close>

lemma format_digits_val:
  "list_all is_digit s \<Longrightarrow> s \<noteq> [] \<Longrightarrow> (length s = 1 \<or> hd s \<noteq> CHR ''0'') \<Longrightarrow> format_uint (digits_val s) = s"
proof (induction s rule: rev_induct)
  case (snoc c s)
  have c: "is_digit c" and s: "list_all is_digit s" using snoc.prems by simp_all
  show ?case
  proof (cases "s = []")
    case True
    with c show ?thesis
      by (simp add: digits_val_def format_uint_small is_digit_val_less digit_char_val)
  next
    case False
    with snoc.prems have hd: "hd s \<noteq> CHR ''0''" by auto
    have IH: "format_uint (digits_val s) = s" using snoc.IH s False hd by simp
    have "digits_val s \<noteq> 0"
    proof
      assume "digits_val s = 0"
      with IH have "s = [digit_char 0]" by (simp add: format_uint_small)
      with hd show False by (simp add: digit_char_zero)
    qed
    with c IH show ?thesis
      by (simp add: format_uint_step is_digit_val_less digit_char_val)
  qed
qed simp

section \<open>strconv.ParseInt and strconv.FormatInt in base 10\<close>

text \<open>\<open>None\<close> is the error, a syntax error and a value out of range alike: no caller tells them apart.\<close>

definition parse_int64 :: "string \<Rightarrow> i64 option" where
  "parse_int64 s =
     (let neg = (case s of c # _ \<Rightarrow> c = CHR ''-'' | [] \<Rightarrow> False);
          body = (case s of c # r \<Rightarrow> if c = CHR ''-'' \<or> c = CHR ''+'' then r else s | [] \<Rightarrow> s);
          n = digits_val body
      in if body = [] \<or> \<not> list_all is_digit body then None
         else if neg then (if n \<le> 2 ^ 63 then Some (- of_nat n) else None)
         else (if n < 2 ^ 63 then Some (of_nat n) else None))"

definition format_int64 :: "i64 \<Rightarrow> string" where
  "format_int64 v = (if v <s 0 then CHR ''-'' # format_uint (nat (- sint v)) else format_uint (nat (sint v)))"

lemma digit_not_sign: "is_digit c \<Longrightarrow> c \<noteq> CHR ''-'' \<and> c \<noteq> CHR ''+''"
  by (auto simp: is_digit_def)

lemma parse_int64_digits:
  assumes "list_all is_digit s" and "s \<noteq> []"
  shows "parse_int64 s = (if digits_val s < 2 ^ 63 then Some (of_nat (digits_val s)) else None)"
  using assms by (cases s) (auto simp: parse_int64_def Let_def digit_not_sign)

lemma sint_of_nat_i64: "n < 2 ^ 63 \<Longrightarrow> sint (of_nat n :: i64) = int n"
  using sint_of_int_i64 [of "int n"] wrap64_id [of "int n"] by simp

lemma parse_format_int64: "0 \<le> sint v \<Longrightarrow> parse_int64 (format_int64 v) = Some v"
proof -
  assume v: "0 \<le> sint v"
  have n: "nat (sint v) < 2 ^ 63" using v i64_range(2) [of v] by simp
  have "parse_int64 (format_int64 v) = Some (of_nat (nat (sint v)))"
    using v n by (simp add: format_int64_def i64_less parse_int64_digits)
  moreover have "of_nat (nat (sint v)) = v"
    using v n by (intro i64_eqI) (simp add: sint_of_nat_i64)
  ultimately show ?thesis by simp
qed

section \<open>Runes\<close>

text \<open>
  \<open>for _, r := range s\<close>: a well-formed UTF-8 sequence yields its code point, any other byte
  yields \<open>RuneError\<close> and is skipped alone. Overlong forms, surrogates and values above
  \<open>0x10FFFF\<close> are not well formed.
\<close>

definition rune_error :: nat where
  "rune_error = 0xFFFD"

definition cont :: "char \<Rightarrow> bool" where
  "cont c \<longleftrightarrow> 128 \<le> (of_char c :: nat) \<and> (of_char c :: nat) \<le> 191"

definition low6 :: "char \<Rightarrow> nat" where
  "low6 c = of_char c - 128"

fun decode_rune :: "string \<Rightarrow> nat \<times> nat" where
  "decode_rune [] = (rune_error, 0)"
| "decode_rune (a # s) =
     (let x = (of_char a :: nat) in
      if x < 128 then (x, 1)
      else if 0xC2 \<le> x \<and> x \<le> 0xDF then
        (case s of b # _ \<Rightarrow> if cont b then ((x - 0xC0) * 64 + low6 b, 2) else (rune_error, 1)
         | _ \<Rightarrow> (rune_error, 1))
      else if 0xE0 \<le> x \<and> x \<le> 0xEF then
        (case s of b # c # _ \<Rightarrow>
           if cont b \<and> cont c \<and> (x = 0xE0 \<longrightarrow> 0xA0 \<le> (of_char b :: nat))
              \<and> (x = 0xED \<longrightarrow> (of_char b :: nat) \<le> 0x9F)
           then ((x - 0xE0) * 4096 + low6 b * 64 + low6 c, 3) else (rune_error, 1)
         | _ \<Rightarrow> (rune_error, 1))
      else if 0xF0 \<le> x \<and> x \<le> 0xF4 then
        (case s of b # c # d # _ \<Rightarrow>
           if cont b \<and> cont c \<and> cont d \<and> (x = 0xF0 \<longrightarrow> 0x90 \<le> (of_char b :: nat))
              \<and> (x = 0xF4 \<longrightarrow> (of_char b :: nat) \<le> 0x8F)
           then ((x - 0xF0) * 262144 + low6 b * 4096 + low6 c * 64 + low6 d, 4)
           else (rune_error, 1)
         | _ \<Rightarrow> (rune_error, 1))
      else (rune_error, 1))"

lemma decode_rune_width: "s \<noteq> [] \<Longrightarrow> 0 < snd (decode_rune s)"
  by (cases s) (auto simp: Let_def split: list.splits)

function runes :: "string \<Rightarrow> nat list" where
  "runes s = (if s = [] then [] else fst (decode_rune s) # runes (drop (snd (decode_rune s)) s))"
  by pat_completeness auto
termination
  by (relation "measure length") (auto simp: decode_rune_width)

declare runes.simps [simp del]

lemma runes_Nil [simp]: "runes [] = []"
  by (simp add: runes.simps)

lemma runes_ascii: "(of_char c :: nat) < 128 \<Longrightarrow> runes (c # s) = of_char c # runes s"
  by (subst runes.simps) (simp add: Let_def)

text \<open>\<open>unicode.IsSpace\<close> and \<open>unicode.IsControl\<close> on a code point.\<close>

definition is_space :: "nat \<Rightarrow> bool" where
  "is_space r \<longleftrightarrow> r \<in> {9, 10, 11, 12, 13, 32, 0x85, 0xA0, 0x1680, 0x2028, 0x2029, 0x202F, 0x205F, 0x3000}
     \<or> 0x2000 \<le> r \<and> r \<le> 0x200A"

definition is_control :: "nat \<Rightarrow> bool" where
  "is_control r \<longleftrightarrow> r < 32 \<or> 127 \<le> r \<and> r < 160"

text \<open>\<open>strings.TrimSpace(s) == ""\<close>, and \<open>s == strings.TrimSpace(s)\<close>.\<close>

definition blank :: "string \<Rightarrow> bool" where
  "blank s \<longleftrightarrow> list_all is_space (runes s)"

definition trimmed :: "string \<Rightarrow> bool" where
  "trimmed s \<longleftrightarrow> (let rs = runes s in rs = [] \<or> \<not> is_space (hd rs) \<and> \<not> is_space (last rs))"

lemma blank_Nil [simp]: "blank []"
  by (simp add: blank_def)

text \<open>Lower-case hexadecimal, the alphabet of a SHA-256 in the payload-hash pattern.\<close>

definition is_lower_hex :: "char \<Rightarrow> bool" where
  "is_lower_hex c \<longleftrightarrow> is_digit c \<or> (97 \<le> (of_char c :: nat) \<and> (of_char c :: nat) \<le> 102)"

definition hash_pattern :: "string \<Rightarrow> bool" where
  "hash_pattern s \<longleftrightarrow> length s = 64 \<and> list_all is_lower_hex s"

section \<open>JSON text\<close>

text \<open>
  A string as \<open>encoding/json\<close> writes it. The flag is \<open>SetEscapeHTML\<close>: when it holds, the
  three characters that matter to HTML are escaped too. Bytes that are not UTF-8 become the
  escape of \<open>U+FFFD\<close>, and the two line separators are always escaped.
\<close>

definition hex_char :: "nat \<Rightarrow> char" where
  "hex_char d = (if d < 10 then digit_char d else char_of (87 + d))"

definition json_char :: "bool \<Rightarrow> char \<Rightarrow> string" where
  "json_char html c =
     (let x = (of_char c :: nat) in
      if x = 34 \<or> x = 92 then [CHR 0x5C, c]
      else if x = 8 then [CHR 0x5C, CHR ''b'']
      else if x = 12 then [CHR 0x5C, CHR ''f'']
      else if x = 10 then [CHR 0x5C, CHR ''n'']
      else if x = 13 then [CHR 0x5C, CHR ''r'']
      else if x = 9 then [CHR 0x5C, CHR ''t'']
      else if x < 32 \<or> html \<and> (x = 60 \<or> x = 62 \<or> x = 38)
        then [CHR 0x5C, CHR ''u'', CHR ''0'', CHR ''0'', hex_char (x div 16), hex_char (x mod 16)]
      else [c])"

definition json_unit :: "bool \<Rightarrow> string \<Rightarrow> string" where
  "json_unit html s =
     (let r = fst (decode_rune s); n = snd (decode_rune s) in
      if r < 128 then json_char html (hd s)
      else if r = rune_error \<and> n = 1 then CHR 0x5C # ''ufffd''
      else if r = 0x2028 then CHR 0x5C # ''u2028''
      else if r = 0x2029 then CHR 0x5C # ''u2029''
      else take n s)"

function json_body :: "bool \<Rightarrow> string \<Rightarrow> string" where
  "json_body html s =
     (if s = [] then [] else json_unit html s @ json_body html (drop (snd (decode_rune s)) s))"
  by pat_completeness auto
termination
  by (relation "measure (\<lambda>(h, s). length s)") (auto simp: decode_rune_width)

declare json_body.simps [simp del]

definition json_string :: "bool \<Rightarrow> string \<Rightarrow> string" where
  "json_string html s = [CHR 0x22] @ json_body html s @ [CHR 0x22]"

lemma json_body_Nil [simp]: "json_body html [] = []"
  by (simp add: json_body.simps)

lemma json_body_plain:
  "(of_char c :: nat) < 128 \<Longrightarrow> json_body html (c # s) = json_char html c @ json_body html s"
  by (subst json_body.simps) (simp add: Let_def json_unit_def)

text \<open>Characters that need no escape under either setting.\<close>

definition plain_char :: "char \<Rightarrow> bool" where
  "plain_char c \<longleftrightarrow> 32 \<le> (of_char c :: nat) \<and> (of_char c :: nat) < 128
     \<and> (of_char c :: nat) \<notin> {34, 92, 60, 62, 38}"

lemma json_body_plain_string: "list_all plain_char s \<Longrightarrow> json_body html s = s"
proof (induction s)
  case (Cons c s)
  then have "json_char html c = [c]" by (auto simp: plain_char_def json_char_def Let_def)
  with Cons show ?case by (simp add: json_body_plain plain_char_def)
qed simp

lemma digit_plain: "is_digit c \<Longrightarrow> plain_char c"
  by (auto simp: is_digit_def plain_char_def)

text \<open>A JSON value after the decoder has read its text; an object keeps the order of its members.\<close>

datatype json = JNull | JBool bool | JNum string | JStr string
  | JArr "json list" | JObj "(string \<times> json) list"

text \<open>
  Member names are matched to field names without regard to case, and of several members for
  one field the last wins. Field names are ASCII, so of Unicode's simple folding only the two
  characters outside ASCII that fold into it matter: the long s, \<open>C5 BF\<close>, and the Kelvin sign,
  \<open>E2 84 AA\<close>.
\<close>

definition lower_char :: "char \<Rightarrow> char" where
  "lower_char c = (if 65 \<le> (of_char c :: nat) \<and> (of_char c :: nat) \<le> 90
     then char_of ((of_char c :: nat) + 32) else c)"

fun fold_name :: "string \<Rightarrow> string" where
  "fold_name [] = []"
| "fold_name (c # s) =
     (if (of_char c :: nat) = 0xC5 \<and> take 1 s = [CHR 0xBF] then CHR ''s'' # fold_name (drop 1 s)
      else if (of_char c :: nat) = 0xE2 \<and> take 2 s = [CHR 0x84, CHR 0xAA] then CHR ''k'' # fold_name (drop 2 s)
      else lower_char c # fold_name s)"

lemma fold_name_ascii [simp]: "(of_char c :: nat) < 128 \<Longrightarrow> fold_name (c # s) = lower_char c # fold_name s"
  by simp

declare fold_name.simps(2) [simp del]

definition json_members :: "string \<Rightarrow> (string \<times> json) list \<Rightarrow> json list" where
  "json_members name ms = map snd (filter (\<lambda>(k, v). fold_name k = fold_name name) ms)"

definition json_member :: "string \<Rightarrow> (string \<times> json) list \<Rightarrow> json option" where
  "json_member name ms = (let vs = json_members name ms in if vs = [] then None else Some (last vs))"

text \<open>
  Decoding members into a \<open>string\<close> field, in order: a string sets it, \<open>null\<close> leaves it, any
  other value is a type error.
\<close>

definition json_string_field :: "string \<Rightarrow> (string \<times> json) list \<Rightarrow> string option" where
  "json_string_field name ms =
     foldl (\<lambda>acc v. case acc of None \<Rightarrow> None
                    | Some s \<Rightarrow> (case v of JStr t \<Rightarrow> Some t | JNull \<Rightarrow> Some s | _ \<Rightarrow> None))
       (Some []) (json_members name ms)"

end
