(* ===== verification/JsonText.thy ===== *)
theory JsonText
  imports GoStd
begin

text \<open>
  Reading JSON as \<open>encoding/json\<close> does: from the bytes of a body to a value and the bytes after
  it. Strings are decoded with their escapes, surrogate pairs and invalid UTF-8, which becomes
  U+FFFD; a number keeps its text. The fuel bounds the nesting and the number of members by the
  length of the text; a lemma shows that it is enough. The scanner's limit of ten thousand
  nested values is left out: no contract of the service nests so deep, so such a text is refused
  in any case.
\<close>

section \<open>Characters\<close>

definition code :: "char \<Rightarrow> nat" where
  "code c = of_char c"

definition is_json_space :: "char \<Rightarrow> bool" where
  "is_json_space c \<longleftrightarrow> code c \<in> {32, 9, 10, 13}"

fun skip_space :: "string \<Rightarrow> string" where
  "skip_space [] = []"
| "skip_space (c # s) = (if is_json_space c then skip_space s else c # s)"

text \<open>UTF-8, as \<open>utf8.EncodeRune\<close> writes it.\<close>

definition encode_rune :: "nat \<Rightarrow> string" where
  "encode_rune r =
     (let r = (if 0x10FFFF < r \<or> 0xD800 \<le> r \<and> r \<le> 0xDFFF then rune_error else r) in
      if r < 0x80 then [char_of r]
      else if r < 0x800 then [char_of (0xC0 + r div 64), char_of (0x80 + r mod 64)]
      else if r < 0x10000 then [char_of (0xE0 + r div 4096), char_of (0x80 + r div 64 mod 64), char_of (0x80 + r mod 64)]
      else [char_of (0xF0 + r div 262144), char_of (0x80 + r div 4096 mod 64), char_of (0x80 + r div 64 mod 64),
            char_of (0x80 + r mod 64)])"

section \<open>Strings\<close>

definition hex_digit :: "char \<Rightarrow> nat option" where
  "hex_digit c =
     (let x = code c in
      if 48 \<le> x \<and> x \<le> 57 then Some (x - 48)
      else if 97 \<le> x \<and> x \<le> 102 then Some (x - 87)
      else if 65 \<le> x \<and> x \<le> 70 then Some (x - 55) else None)"

definition hex4 :: "string \<Rightarrow> nat option" where
  "hex4 s =
     (case map hex_digit (take 4 s) of
        [Some a, Some b, Some c, Some d] \<Rightarrow> Some (((a * 16 + b) * 16 + c) * 16 + d)
      | _ \<Rightarrow> None)"

text \<open>The escape after a backslash: what it stands for and how many bytes it takes.\<close>

definition surrogate_pair :: "nat \<Rightarrow> string \<Rightarrow> nat option" where
  "surrogate_pair high s =
     (if 2 \<le> length s \<and> code (s ! 0) = 92 \<and> code (s ! 1) = 117 then
        (case hex4 (drop 2 s) of
           Some low \<Rightarrow>
             if 0xD800 \<le> high \<and> high < 0xDC00 \<and> 0xDC00 \<le> low \<and> low < 0xE000
             then Some (0x10000 + (high - 0xD800) * 1024 + (low - 0xDC00)) else None
         | None \<Rightarrow> None)
      else None)"

definition unicode_escape :: "string \<Rightarrow> (string \<times> nat) option" where
  "unicode_escape s =
     (case hex4 s of
        None \<Rightarrow> None
      | Some r \<Rightarrow>
          (case surrogate_pair r (drop 4 s) of
             Some whole \<Rightarrow> Some (encode_rune whole, 11)
           | None \<Rightarrow> Some (encode_rune r, 5)))"

definition json_escape :: "string \<Rightarrow> (string \<times> nat) option" where
  "json_escape s =
     (case s of
        [] \<Rightarrow> None
      | c # r \<Rightarrow>
          (let x = code c in
           if x = 34 \<or> x = 92 \<or> x = 47 then Some ([c], 1)
           else if x = 98 then Some ([char_of (8 :: nat)], 1)
           else if x = 102 then Some ([char_of (12 :: nat)], 1)
           else if x = 110 then Some ([char_of (10 :: nat)], 1)
           else if x = 114 then Some ([char_of (13 :: nat)], 1)
           else if x = 116 then Some ([char_of (9 :: nat)], 1)
           else if x = 117 then unicode_escape r else None))"

text \<open>The rest of a string after its opening quote.\<close>

function json_text :: "string \<Rightarrow> (string \<times> string) option" where
  "json_text s =
     (case s of
        [] \<Rightarrow> None
      | c # r \<Rightarrow>
          if code c = 34 then Some ([], r)
          else if code c < 32 then None
          else if code c = 92 then
            (case json_escape r of
               None \<Rightarrow> None
             | Some (t, n) \<Rightarrow> map_option (\<lambda>(u, rest). (t @ u, rest)) (json_text (drop n r)))
          else
            map_option (\<lambda>(u, rest). (encode_rune (fst (decode_rune s)) @ u, rest))
              (json_text (drop (snd (decode_rune s)) s)))"
  by pat_completeness auto
termination
proof (relation "measure length")
  fix s c r assume "s = c # r" "code c \<noteq> 34" "\<not> code c < 32" "code c \<noteq> 92"
  then show "(drop (snd (decode_rune s)) s, s) \<in> measure length"
    using decode_rune_width [of s] by (simp del: decode_rune.simps)
qed auto

declare json_text.simps [simp del]

section \<open>Numbers\<close>

definition digits_of :: "string \<Rightarrow> string" where
  "digits_of s = takeWhile is_digit s"

text \<open>The length of the number a text begins with.\<close>

definition fraction_length :: "string \<Rightarrow> nat option" where
  "fraction_length s =
     (case s of
        c # r \<Rightarrow> if c = CHR ''.'' then (if digits_of r = [] then None else Some (1 + length (digits_of r))) else Some 0
      | [] \<Rightarrow> Some 0)"

definition exponent_length :: "string \<Rightarrow> nat option" where
  "exponent_length s =
     (case s of
        c # r \<Rightarrow>
          if c = CHR ''e'' \<or> c = CHR ''E'' then
            (let signed = (r \<noteq> [] \<and> (hd r = CHR ''+'' \<or> hd r = CHR ''-''));
                 ds = digits_of (if signed then tl r else r) in
             if ds = [] then None else Some (1 + (if signed then 1 else 0) + length ds))
          else Some 0
      | [] \<Rightarrow> Some 0)"

definition number_length :: "string \<Rightarrow> nat option" where
  "number_length s =
     (let minus = (if s \<noteq> [] \<and> hd s = CHR ''-'' then 1 else 0);
          ds = digits_of (drop minus s);
          whole = (if ds \<noteq> [] \<and> hd ds = CHR ''0'' then 1 else length ds) in
      if ds = [] then None
      else (case fraction_length (drop (minus + whole) s) of
          None \<Rightarrow> None
        | Some f \<Rightarrow> map_option (\<lambda>e. minus + whole + f + e) (exponent_length (drop (minus + whole + f) s))))"

section \<open>Values\<close>

definition literal :: "string \<Rightarrow> json \<Rightarrow> string \<Rightarrow> (json \<times> string) option" where
  "literal w v s = (if take (length w) s = w then Some (v, drop (length w) s) else None)"

definition simple_value :: "string \<Rightarrow> (json \<times> string) option" where
  "simple_value s =
     (case s of
        [] \<Rightarrow> None
      | c # r \<Rightarrow>
          if code c = 34 then map_option (\<lambda>(t, rest). (JStr t, rest)) (json_text r)
          else if c = CHR ''t'' then literal ''true'' (JBool True) s
          else if c = CHR ''f'' then literal ''false'' (JBool False) s
          else if c = CHR ''n'' then literal ''null'' JNull s
          else map_option (\<lambda>n. (JNum (take n s), drop n s)) (number_length s))"

text \<open>
  The first argument is fuel. An array is read after its bracket with the elements so far, an
  object after its brace with the members so far.
\<close>

fun json_value :: "nat \<Rightarrow> string \<Rightarrow> (json \<times> string) option"
  and json_elements :: "nat \<Rightarrow> json list \<Rightarrow> string \<Rightarrow> (json \<times> string) option"
  and json_object :: "nat \<Rightarrow> (string \<times> json) list \<Rightarrow> string \<Rightarrow> (json \<times> string) option" where
  "json_value 0 s = None"
| "json_value (Suc n) s =
     (case skip_space s of
        [] \<Rightarrow> None
      | c # r \<Rightarrow>
          if c = CHR ''['' then
            (case skip_space r of
               [] \<Rightarrow> None
             | d # r' \<Rightarrow> if d = CHR '']'' then Some (JArr [], r') else json_elements n [] (d # r'))
          else if c = CHR ''{'' then
            (case skip_space r of
               [] \<Rightarrow> None
             | d # r' \<Rightarrow> if d = CHR ''}'' then Some (JObj [], r') else json_object n [] (d # r'))
          else simple_value (c # r))"
| "json_elements 0 vs s = None"
| "json_elements (Suc n) vs s =
     (case json_value n s of
        None \<Rightarrow> None
      | Some (v, rest) \<Rightarrow>
          (case skip_space rest of
             [] \<Rightarrow> None
           | c # r \<Rightarrow>
               if c = CHR '','' then json_elements n (vs @ [v]) r
               else if c = CHR '']'' then Some (JArr (vs @ [v]), r) else None))"
| "json_object 0 ms s = None"
| "json_object (Suc n) ms s =
     (case skip_space s of
        [] \<Rightarrow> None
      | q # s1 \<Rightarrow>
          if code q \<noteq> 34 then None
          else (case json_text s1 of
              None \<Rightarrow> None
            | Some (k, s2) \<Rightarrow>
                (case skip_space s2 of
                   [] \<Rightarrow> None
                 | c # s3 \<Rightarrow>
                     if c \<noteq> CHR '':'' then None
                     else (case json_value n s3 of
                         None \<Rightarrow> None
                       | Some (v, rest) \<Rightarrow>
                           (case skip_space rest of
                              [] \<Rightarrow> None
                            | d # r \<Rightarrow>
                                if d = CHR '','' then json_object n (ms @ [(k, v)]) r
                                else if d = CHR ''}'' then Some (JObj (ms @ [(k, v)]), r) else None)))))"

text \<open>A decoder's first value and what follows it.\<close>

definition json_first :: "string \<Rightarrow> (json \<times> string) option" where
  "json_first s = json_value (Suc (length s)) s"

text \<open>The one value of a body that holds exactly one document.\<close>

definition json_document :: "string \<Rightarrow> json option" where
  "json_document s =
     (case json_first s of
        None \<Rightarrow> None
      | Some (v, rest) \<Rightarrow> if skip_space rest = [] then Some v else None)"

section \<open>The fuel is enough\<close>

lemma skip_space_length: "length (skip_space s) \<le> length s"
  by (induction s) auto

lemma skip_space_Cons: "skip_space s = c # r \<Longrightarrow> length r < length s"
  using skip_space_length [of s] by simp

lemma json_text_rest: "json_text s = Some (t, r) \<Longrightarrow> length r < length s"
proof (induction s arbitrary: t rule: json_text.induct)
  case (1 s)
  show ?case
  proof (cases s)
    case Nil
    then show ?thesis using "1.prems" by (simp add: json_text.simps)
  next
    case (Cons c rest)
    consider "code c = 34" | "code c < 32" | "code c = 92" | "code c \<noteq> 34" "\<not> code c < 32" "code c \<noteq> 92" by fastforce
    then show ?thesis
    proof cases
      case 3
      then obtain u n v where "json_escape rest = Some (u, n)" "json_text (drop n rest) = Some (v, r)"
        using "1.prems" Cons by (subst (asm) json_text.simps) (auto split: option.splits)
      with "1.IH"(1) [OF Cons] 3 show ?thesis using Cons by force
    next
      case 4
      then obtain v where "json_text (drop (snd (decode_rune s)) s) = Some (v, r)"
        using "1.prems" Cons by (subst (asm) json_text.simps) (auto simp del: decode_rune.simps)
      from "1.IH"(2) [OF Cons _ _ _ this] 4 show ?thesis by simp
    qed (use "1.prems" Cons in \<open>subst (asm) json_text.simps, simp\<close>)+
  qed
qed

lemma number_length_pos: "number_length s = Some n \<Longrightarrow> 0 < n"
  by (auto simp: number_length_def Let_def split: option.splits if_splits)

lemma simple_value_rest: "simple_value s = Some (v, r) \<Longrightarrow> length r < length s"
  by (auto simp: simple_value_def literal_def split: list.splits if_splits dest: json_text_rest number_length_pos)

text \<open>What a round of the readers does, when it succeeds.\<close>

lemma json_value_Suc:
  assumes "json_value (Suc n) s = Some (v, r)"
  obtains c t where "skip_space s = c # t"
    "length r < length t \<and> (\<forall>k. json_value (Suc k) s = Some (v, r))
     \<or> c = CHR ''['' \<and> (\<exists>d t'. skip_space t = d # t' \<and> json_elements n [] (d # t') = Some (v, r)
          \<and> (\<forall>k. json_value (Suc k) s = json_elements k [] (d # t')))
     \<or> c = CHR ''{'' \<and> (\<exists>d t'. skip_space t = d # t' \<and> json_object n [] (d # t') = Some (v, r)
          \<and> (\<forall>k. json_value (Suc k) s = json_object k [] (d # t')))
     \<or> simple_value (c # t) = Some (v, r) \<and> (\<forall>k. json_value (Suc k) s = Some (v, r))"
proof -
  obtain c t where ct: "skip_space s = c # t" using assms by (cases "skip_space s") simp_all
  show thesis
  proof (rule that [OF ct])
    have o: "length t' < length t" if "skip_space t = d # t'" for d t' using skip_space_Cons [OF that] .
    show "length r < length t \<and> (\<forall>k. json_value (Suc k) s = Some (v, r))
     \<or> c = CHR ''['' \<and> (\<exists>d t'. skip_space t = d # t' \<and> json_elements n [] (d # t') = Some (v, r)
          \<and> (\<forall>k. json_value (Suc k) s = json_elements k [] (d # t')))
     \<or> c = CHR ''{'' \<and> (\<exists>d t'. skip_space t = d # t' \<and> json_object n [] (d # t') = Some (v, r)
          \<and> (\<forall>k. json_value (Suc k) s = json_object k [] (d # t')))
     \<or> simple_value (c # t) = Some (v, r) \<and> (\<forall>k. json_value (Suc k) s = Some (v, r))"
      using assms ct o by (cases "skip_space t") (simp_all split: if_splits)
  qed
qed

lemma json_elements_Suc:
  assumes "json_elements (Suc n) vs s = Some (v, r)"
  obtains x rest c t where "json_value n s = Some (x, rest)" "skip_space rest = c # t"
    "c = CHR '','' \<and> json_elements n (vs @ [x]) t = Some (v, r)
       \<and> (\<forall>k. json_value k s = Some (x, rest) \<longrightarrow> json_elements (Suc k) vs s = json_elements k (vs @ [x]) t)
     \<or> r = t \<and> (\<forall>k. json_value k s = Some (x, rest) \<longrightarrow> json_elements (Suc k) vs s = Some (v, r))"
  using assms by (auto split: option.splits list.splits if_splits)

lemma json_object_Suc:
  assumes "json_object (Suc n) ms s = Some (v, r)"
  obtains q s1 k s2 c s3 x rest d t where "skip_space s = q # s1" "json_text s1 = Some (k, s2)" "skip_space s2 = c # s3"
    "json_value n s3 = Some (x, rest)" "skip_space rest = d # t"
    "d = CHR '','' \<and> json_object n (ms @ [(k, x)]) t = Some (v, r)
       \<and> (\<forall>j. json_value j s3 = Some (x, rest) \<longrightarrow> json_object (Suc j) ms s = json_object j (ms @ [(k, x)]) t)
     \<or> r = t \<and> (\<forall>j. json_value j s3 = Some (x, rest) \<longrightarrow> json_object (Suc j) ms s = Some (v, r))"
  using assms by (auto split: option.splits list.splits if_splits)

declare json_value.simps [simp del] json_elements.simps [simp del] json_object.simps [simp del]

lemma reader_no_fuel [simp]: "json_value 0 s = None" "json_elements 0 vs s = None" "json_object 0 ms s = None"
  by (simp_all add: json_value.simps json_elements.simps json_object.simps)

text \<open>
  A reader consumes at least one byte, and any fuel from the number of bytes it consumes on
  gives the same result.
\<close>

definition settled :: "(nat \<Rightarrow> (json \<times> string) option) \<Rightarrow> string \<Rightarrow> json \<Rightarrow> string \<Rightarrow> bool" where
  "settled f s v r \<longleftrightarrow> length r < length s \<and> (\<forall>n \<ge> length s - length r. f n = Some (v, r))"

lemma settledI:
  assumes "length r < length s" "\<And>k. length s \<le> Suc k + length r \<Longrightarrow> f (Suc k) = Some (v, r)"
  shows "settled f s v r"
proof -
  have "f n = Some (v, r)" if "length s - length r \<le> n" for n
    using assms that by (cases n) simp_all
  with assms(1) show ?thesis by (simp add: settled_def)
qed

lemma settledD: "settled f s v r \<Longrightarrow> length s \<le> n + length r \<Longrightarrow> f n = Some (v, r)" "settled f s v r \<Longrightarrow> length r < length s"
  by (simp_all add: settled_def)

lemma readers_settled:
  "json_value m s = Some (v, r) \<Longrightarrow> settled (\<lambda>n. json_value n s) s v r"
  "json_elements m vs s = Some (v, r) \<Longrightarrow> settled (\<lambda>n. json_elements n vs s) s v r"
  "json_object m ms s = Some (v, r) \<Longrightarrow> settled (\<lambda>n. json_object n ms s) s v r"
proof (induction m arbitrary: s v r vs ms)
  case (Suc m)
  {
    case 1
    then obtain c t where ct: "skip_space s = c # t" and cases: "length r < length t \<and> (\<forall>k. json_value (Suc k) s = Some (v, r))
     \<or> c = CHR ''['' \<and> (\<exists>d t'. skip_space t = d # t' \<and> json_elements m [] (d # t') = Some (v, r)
          \<and> (\<forall>k. json_value (Suc k) s = json_elements k [] (d # t')))
     \<or> c = CHR ''{'' \<and> (\<exists>d t'. skip_space t = d # t' \<and> json_object m [] (d # t') = Some (v, r)
          \<and> (\<forall>k. json_value (Suc k) s = json_object k [] (d # t')))
     \<or> simple_value (c # t) = Some (v, r) \<and> (\<forall>k. json_value (Suc k) s = Some (v, r))"
      by (rule json_value_Suc)
    have l: "length t < length s" using skip_space_Cons [OF ct] .
    have inner: "settled (\<lambda>n. json_value n s) s v r"
      if "skip_space t = d # t'" "settled f (d # t') v r" "\<forall>k. json_value (Suc k) s = f k" for d t' f
    proof -
      have "length (d # t') \<le> length t" using skip_space_length [of t] that(1) by simp
      then show ?thesis using settledD(2) [OF that(2)] settledD(1) [OF that(2)] that(3) l
        by (intro settledI) auto
    qed
    from cases show ?case
    proof (elim disjE conjE exE)
      assume "length r < length t" "\<forall>k. json_value (Suc k) s = Some (v, r)"
      then show ?case using l by (intro settledI) simp_all
    next
      fix d t' assume "skip_space t = d # t'" "json_elements m [] (d # t') = Some (v, r)"
        "\<forall>k. json_value (Suc k) s = json_elements k [] (d # t')"
      then show ?case using inner Suc.IH(2) by blast
    next
      fix d t' assume "skip_space t = d # t'" "json_object m [] (d # t') = Some (v, r)"
        "\<forall>k. json_value (Suc k) s = json_object k [] (d # t')"
      then show ?case using inner Suc.IH(3) by blast
    next
      assume "simple_value (c # t) = Some (v, r)" "\<forall>k. json_value (Suc k) s = Some (v, r)"
      then show ?case using l simple_value_rest [of "c # t" v r] by (intro settledI) simp_all
    qed
  next
    case 2
    then obtain x rest c t where e: "json_value m s = Some (x, rest)" "skip_space rest = c # t"
      "c = CHR '','' \<and> json_elements m (vs @ [x]) t = Some (v, r)
         \<and> (\<forall>k. json_value k s = Some (x, rest) \<longrightarrow> json_elements (Suc k) vs s = json_elements k (vs @ [x]) t)
       \<or> r = t \<and> (\<forall>k. json_value k s = Some (x, rest) \<longrightarrow> json_elements (Suc k) vs s = Some (v, r))"
      by (rule json_elements_Suc)
    note x = Suc.IH(1) [OF e(1)]
    note l = skip_space_Cons [OF e(2)] settledD(2) [OF x]
    from e(3) show ?case
    proof (elim disjE conjE)
      assume t: "json_elements m (vs @ [x]) t = Some (v, r)"
        "\<forall>k. json_value k s = Some (x, rest) \<longrightarrow> json_elements (Suc k) vs s = json_elements k (vs @ [x]) t"
      note y = Suc.IH(2) [OF t(1)]
      show ?case using l settledD(1) [OF x] settledD(1) [OF y] settledD(2) [OF y] t(2) by (intro settledI) auto
    next
      assume "r = t" "\<forall>k. json_value k s = Some (x, rest) \<longrightarrow> json_elements (Suc k) vs s = Some (v, r)"
      then show ?case using l settledD(1) [OF x] by (intro settledI) auto
    qed
  next
    case 3
    then obtain q s1 k s2 c s3 x rest d t where e: "skip_space s = q # s1" "json_text s1 = Some (k, s2)" "skip_space s2 = c # s3"
      "json_value m s3 = Some (x, rest)" "skip_space rest = d # t"
      "d = CHR '','' \<and> json_object m (ms @ [(k, x)]) t = Some (v, r)
         \<and> (\<forall>j. json_value j s3 = Some (x, rest) \<longrightarrow> json_object (Suc j) ms s = json_object j (ms @ [(k, x)]) t)
       \<or> r = t \<and> (\<forall>j. json_value j s3 = Some (x, rest) \<longrightarrow> json_object (Suc j) ms s = Some (v, r))"
      by (rule json_object_Suc)
    note x = Suc.IH(1) [OF e(4)]
    note l = skip_space_Cons [OF e(1)] json_text_rest [OF e(2)] skip_space_Cons [OF e(3)] settledD(2) [OF x] skip_space_Cons [OF e(5)]
    from e(6) show ?case
    proof (elim disjE conjE)
      assume t: "json_object m (ms @ [(k, x)]) t = Some (v, r)"
        "\<forall>j. json_value j s3 = Some (x, rest) \<longrightarrow> json_object (Suc j) ms s = json_object j (ms @ [(k, x)]) t"
      note y = Suc.IH(3) [OF t(1)]
      show ?case using l settledD(1) [OF x] settledD(1) [OF y] settledD(2) [OF y] t(2) by (intro settledI) auto
    next
      assume "r = t" "\<forall>j. json_value j s3 = Some (x, rest) \<longrightarrow> json_object (Suc j) ms s = Some (v, r)"
      then show ?case using l settledD(1) [OF x] by (intro settledI) auto
    qed
  }
qed simp_all

lemma json_first_iff: "json_first s = Some (v, r) \<longleftrightarrow> (\<exists>n. json_value n s = Some (v, r))"
proof -
  have "json_value (Suc (length s)) s = Some (v, r)" if "json_value n s = Some (v, r)" for n
    by (rule settledD(1) [OF readers_settled(1) [OF that]]) simp
  then show ?thesis unfolding json_first_def by blast
qed

end
