(* ===== verification/JsonPrint.thy ===== *)
theory JsonPrint
  imports JsonText
begin

text \<open>
  Writing a JSON value as \<open>encoding/json\<close> does, and the round trip: reading what was written gives
  the value back, whatever follows it, when its strings are valid UTF-8 and its numbers are
  numbers. So two values are written alike only when they are equal.
\<close>

section \<open>UTF-8\<close>

text \<open>The text does not begin with a byte that is no part of a well-formed sequence.\<close>

definition good_rune :: "string \<Rightarrow> bool" where
  "good_rune s \<longleftrightarrow> s \<noteq> [] \<and> \<not> (fst (decode_rune s) = rune_error \<and> snd (decode_rune s) = 1)"

function valid_utf8 :: "string \<Rightarrow> bool" where
  "valid_utf8 s = (if s = [] then True else if \<not> good_rune s then False else valid_utf8 (drop (snd (decode_rune s)) s))"
  by pat_completeness auto
termination
  by (relation "measure length") (auto simp: decode_rune_width)

declare valid_utf8.simps [simp del]

lemma low6_cont: "cont c \<Longrightarrow> low6 c < 64" "cont c \<Longrightarrow> 128 + low6 c = of_char c" "cont c \<Longrightarrow> char_of (128 + low6 c) = c"
  by (auto simp: cont_def low6_def)

lemma shift6: "l < 64 \<Longrightarrow> (a * 64 + l) div 64 = a" "l < 64 \<Longrightarrow> (a * 64 + l) mod 64 = (l :: nat)"
  by simp_all

lemma char_of_code: "x = of_char c \<Longrightarrow> char_of (x :: nat) = c"
  by simp

text \<open>A well-formed sequence is what encoding its code point gives, and stands for itself in any context.\<close>

lemma rune2:
  assumes "0xC2 \<le> x" "x \<le> 0xDF" "l < 64"
  shows "encode_rune ((x - 0xC0) * 64 + l) = [char_of x, char_of (128 + l)]"
proof -
  let ?r = "(x - 0xC0) * 64 + l"
  have r: "0x80 \<le> ?r" "?r < 0x800" using assms by auto
  have "0xC0 + ?r div 64 = x" "?r mod 64 = l" using assms shift6 [of l "x - 0xC0"] by simp_all
  then show ?thesis using r by (simp add: encode_rune_def Let_def)
qed

lemma rune3:
  assumes "a < 16" "k < 64" "l < 64" "a = 0 \<longrightarrow> 0x20 \<le> k" "a = 13 \<longrightarrow> k < 0x20"
  shows "encode_rune (a * 4096 + k * 64 + l) = [char_of (0xE0 + a), char_of (128 + k), char_of (128 + l)]"
proof -
  let ?r = "(a * 64 + k) * 64 + l"
  have e: "a * 4096 + k * 64 + l = ?r" by simp
  have r64: "?r div 64 = a * 64 + k" "?r mod 64 = l" using shift6 [OF assms(3), of "a * 64 + k"] by blast+
  have "?r div 4096 = ?r div 64 div 64" by (simp only: div_mult2_eq [symmetric]) simp
  then have d: "?r div 4096 = a" "?r div 64 mod 64 = k" using shift6 [OF assms(2), of a] r64(1) by metis+
  have "a = 0 \<or> a = 13 \<or> 1 \<le> a \<and> a < 13 \<or> 14 \<le> a" by arith
  then have b: "0x800 \<le> ?r" "?r < 0x10000" "\<not> (0xD800 \<le> ?r \<and> ?r \<le> 0xDFFF)" using assms by auto
  then have "(?r < 0x80) = False" "(?r < 0x800) = False" "(?r < 0x10000) = True"
    "(0x10FFFF < ?r \<or> 0xD800 \<le> ?r \<and> ?r \<le> 0xDFFF) = False" by auto
  then show ?thesis unfolding e encode_rune_def Let_def by (simp only: r64 d if_False if_True shift6 [OF assms(2)])
qed

lemma rune4:
  assumes "a < 5" "j < 64" "k < 64" "l < 64" "a = 0 \<longrightarrow> 0x10 \<le> j" "a = 4 \<longrightarrow> j < 0x10"
  shows "encode_rune (a * 262144 + j * 4096 + k * 64 + l)
    = [char_of (0xF0 + a), char_of (128 + j), char_of (128 + k), char_of (128 + l)]"
proof -
  let ?r = "((a * 64 + j) * 64 + k) * 64 + l"
  have e: "a * 262144 + j * 4096 + k * 64 + l = ?r" by simp
  have r64: "?r div 64 = (a * 64 + j) * 64 + k" "?r mod 64 = l" using shift6 [OF assms(4), of "(a * 64 + j) * 64 + k"] by blast+
  have "?r div 4096 = ?r div 64 div 64" "?r div 262144 = ?r div 64 div 64 div 64" by (simp_all only: div_mult2_eq [symmetric]) simp_all
  then have d: "?r div 262144 = a" "?r div 4096 mod 64 = j" "?r div 64 mod 64 = k"
    using shift6 [OF assms(3), of "a * 64 + j"] shift6 [OF assms(2), of a] r64(1) by metis+
  have "a = 0 \<or> a = 4 \<or> 1 \<le> a \<and> a < 4" using assms(1) by arith
  then have b: "0x10000 \<le> ?r" "?r \<le> 0x10FFFF" using assms by auto
  then have "(?r < 0x80) = False" "(?r < 0x800) = False" "(?r < 0x10000) = False"
    "(0x10FFFF < ?r \<or> 0xD800 \<le> ?r \<and> ?r \<le> 0xDFFF) = False" by auto
  then show ?thesis unfolding e encode_rune_def Let_def by (simp only: r64 d if_False shift6 [OF assms(3)])
qed

lemma good_rune_encode:
  assumes "good_rune s"
  shows "encode_rune (fst (decode_rune s)) = take (snd (decode_rune s)) s"
    and "decode_rune (take (snd (decode_rune s)) s @ t) = decode_rune s"
    and "snd (decode_rune s) \<le> length s" and "(of_char (hd s) :: nat) < 128 \<longleftrightarrow> snd (decode_rune s) = 1"
proof -
  obtain a u where s: "s = a # u" using assms by (cases s) (simp_all add: good_rune_def)
  let ?x = "of_char a :: nat"
  note bad = assms [unfolded s good_rune_def]
  have "encode_rune (fst (decode_rune s)) = take (snd (decode_rune s)) s
      \<and> decode_rune (take (snd (decode_rune s)) s @ t) = decode_rune s
      \<and> snd (decode_rune s) \<le> length s \<and> ((of_char (hd s) :: nat) < 128 \<longleftrightarrow> snd (decode_rune s) = 1)"
  proof -
    consider "?x < 128" | "0xC2 \<le> ?x" "?x \<le> 0xDF" | "0xE0 \<le> ?x" "?x \<le> 0xEF" | "0xF0 \<le> ?x" "?x \<le> 0xF4"
      using bad by (force simp: Let_def split: if_splits)
    then show ?thesis
    proof cases
      case 1
      then show ?thesis by (simp add: s Let_def encode_rune_def)
    next
      case 2
      with bad obtain b v where u: "u = b # v" "cont b" by (cases u) (auto simp: Let_def split: if_splits)
      with 2 rune2 [of ?x "low6 b"] show ?thesis by (simp add: s Let_def low6_cont)
    next
      case 3
      with bad obtain b c v where u: "u = b # c # v" "cont b" "cont c" "?x = 0xE0 \<longrightarrow> 0xA0 \<le> (of_char b :: nat)"
          "?x = 0xED \<longrightarrow> (of_char b :: nat) \<le> 0x9F"
        by (auto simp: Let_def split: if_splits list.splits)
      have "encode_rune ((?x - 0xE0) * 4096 + low6 b * 64 + low6 c)
          = [char_of (0xE0 + (?x - 0xE0)), char_of (128 + low6 b), char_of (128 + low6 c)]"
        by (rule rune3) (use 3 u low6_cont(1) [OF u(2)] low6_cont(1) [OF u(3)] in \<open>auto simp: low6_def\<close>)
      with 3 u show ?thesis by (simp add: s Let_def low6_cont)
    next
      case 4
      with bad obtain b c d v where u: "u = b # c # d # v" "cont b" "cont c" "cont d" "?x = 0xF0 \<longrightarrow> 0x90 \<le> (of_char b :: nat)"
          "?x = 0xF4 \<longrightarrow> (of_char b :: nat) \<le> 0x8F"
        by (auto simp: Let_def split: if_splits list.splits)
      have "encode_rune ((?x - 0xF0) * 262144 + low6 b * 4096 + low6 c * 64 + low6 d)
          = [char_of (0xF0 + (?x - 0xF0)), char_of (128 + low6 b), char_of (128 + low6 c), char_of (128 + low6 d)]"
        by (rule rune4) (use 4 u low6_cont(1) [OF u(2)] low6_cont(1) [OF u(3)] low6_cont(1) [OF u(4)] in \<open>auto simp: low6_def\<close>)
      with 4 u show ?thesis by (simp add: s Let_def low6_cont)
    qed
  qed
  then show "encode_rune (fst (decode_rune s)) = take (snd (decode_rune s)) s"
    and "decode_rune (take (snd (decode_rune s)) s @ t) = decode_rune s"
    and "snd (decode_rune s) \<le> length s" and "(of_char (hd s) :: nat) < 128 \<longleftrightarrow> snd (decode_rune s) = 1" by simp_all
qed

section \<open>Strings\<close>

lemma hex_digit_char: "d < 16 \<Longrightarrow> hex_digit (hex_char d) = Some d"
  by (auto simp: hex_digit_def hex_char_def code_def Let_def)

lemma hex4_low: "x < 256 \<Longrightarrow> hex4 (CHR ''0'' # CHR ''0'' # hex_char (x div 16) # hex_char (x mod 16) # t) = Some x"
proof -
  have "hex_digit CHR ''0'' = Some 0" by (simp add: hex_digit_def code_def)
  moreover assume "x < 256"
  ultimately show ?thesis by (simp add: hex4_def hex_digit_char)
qed

lemma json_text_escape:
  "json_escape r = Some (u, n) \<Longrightarrow>
   json_text (CHR 0x5C # r) = map_option (\<lambda>(v, rest). (u @ v, rest)) (json_text (drop n r))"
  by (subst json_text.simps) (simp add: code_def)

lemma unicode_escape_low:
  assumes "hex4 s = Some x" "x < 0xD800" shows "unicode_escape s = Some (encode_rune x, 5)"
proof -
  have "surrogate_pair x t = None" for t
    using assms(2) by (auto simp: surrogate_pair_def split: option.split)
  then show ?thesis by (simp add: unicode_escape_def assms(1))
qed

lemma json_escape_u: "unicode_escape r = Some p \<Longrightarrow> json_escape (CHR ''u'' # r) = Some p"
  by (simp add: json_escape_def code_def)

text \<open>A character below 128 is read back from what is written for it.\<close>

lemma json_text_char:
  assumes "(of_char c :: nat) < 128"
  shows "json_text (json_char html c @ t) = map_option (\<lambda>(v, rest). (c # v, rest)) (json_text t)"
proof -
  let ?x = "of_char c :: nat"
  have c: "char_of ?x = c" by simp
  consider "?x = 34 \<or> ?x = 92" | "?x = 8" | "?x = 12" | "?x = 10" | "?x = 13" | "?x = 9"
    | "?x \<notin> {34, 92, 8, 12, 10, 13, 9}" "?x < 32 \<or> html \<and> (?x = 60 \<or> ?x = 62 \<or> ?x = 38)"
    | "?x \<notin> {34, 92, 8, 12, 10, 13, 9}" "\<not> (?x < 32 \<or> html \<and> (?x = 60 \<or> ?x = 62 \<or> ?x = 38))" by blast
  then show ?thesis
  proof cases
    case 7
    have "hex4 (CHR ''0'' # CHR ''0'' # hex_char (?x div 16) # hex_char (?x mod 16) # t) = Some ?x"
      using assms by (intro hex4_low) simp
    from json_escape_u [OF unicode_escape_low [OF this]] 7 assms
    have e: "json_escape (CHR ''u'' # CHR ''0'' # CHR ''0'' # hex_char (?x div 16) # hex_char (?x mod 16) # t) = Some ([c], 5)"
      by (simp add: encode_rune_def)
    show ?thesis using json_text_escape [OF e] 7 by (simp add: json_char_def Let_def)
  next
    case 8
    then have j: "json_char html c = [c]" by (auto simp: json_char_def Let_def)
    have "decode_rune (c # t) = (?x, 1)" using assms by (simp add: Let_def)
    then show ?thesis unfolding j using 8(2) assms
      by (subst json_text.simps) (use 8 in \<open>auto simp: code_def encode_rune_def\<close>)
  qed (use c in \<open>auto simp: json_char_def Let_def json_escape_def code_def json_text_escape\<close>)
qed

declare decode_rune.simps [simp del]

lemma json_text_unit:
  assumes "good_rune s"
  shows "json_text (json_unit html s @ t) = map_option (\<lambda>(v, rest). (take (snd (decode_rune s)) s @ v, rest)) (json_text t)"
proof -
  let ?r = "fst (decode_rune s)" and ?n = "snd (decode_rune s)"
  note enc = good_rune_encode [OF assms]
  obtain a u where s: "s = a # u" using assms by (cases s) (simp_all add: good_rune_def)
  have n: "0 < ?n" using assms by (auto simp: good_rune_def decode_rune_width)
  have low: "(of_char a :: nat) < 128 \<and> ?n = 1" if "?r < 128"
  proof -
    have "length (take ?n s) = 1" unfolding enc(1) [symmetric] using that by (simp add: encode_rune_def)
    then have "?n = 1" using enc(3) by simp
    then show ?thesis using enc(4) by (simp add: s)
  qed
  consider "?r < 128" | "\<not> ?r < 128" "?r = 0x2028 \<or> ?r = 0x2029" | "\<not> ?r < 128" "?r \<noteq> 0x2028" "?r \<noteq> 0x2029" by blast
  then show ?thesis
  proof cases
    case 1
    then show ?thesis using json_text_char [of a html t] low by (simp add: json_unit_def Let_def s)
  next
    case 2
    let ?e = "if ?r = 0x2028 then ''u2028'' else ''u2029''"
    have u: "json_unit html s = CHR 0x5C # ?e" using 2 assms by (auto simp: json_unit_def Let_def good_rune_def rune_error_def)
    have "hex4 (tl ?e @ t) = Some ?r" using 2 by (auto simp: hex4_def hex_digit_def code_def)
    then have "unicode_escape (tl ?e @ t) = Some (encode_rune ?r, 5)" by (rule unicode_escape_low) (use 2 in auto)
    then have "json_escape (?e @ t) = Some (encode_rune ?r, 5)" using json_escape_u [of "tl ?e @ t"] by (auto split: if_splits)
    from json_text_escape [OF this] show ?thesis unfolding u using enc(1) by auto
  next
    case 3
    have u: "json_unit html s = take ?n s" using 3 assms by (auto simp: json_unit_def Let_def good_rune_def)
    obtain k where k: "?n = Suc k" using n by (cases ?n) auto
    have a: "\<not> (of_char a :: nat) < 128" using 3(1) by (auto simp: s decode_rune.simps Let_def)
    have d: "drop ?n (take ?n s @ t) = t" using enc(3) by simp
    show ?thesis unfolding u
      by (subst json_text.simps) (use a enc d k in \<open>auto simp: s code_def\<close>)
  qed
qed

lemma json_text_body:
  "valid_utf8 s \<Longrightarrow> json_text (json_body html s @ CHR 0x22 # t) = Some (s, t)"
proof (induction s rule: valid_utf8.induct)
  case (1 s)
  show ?case
  proof (cases "s = []")
    case True
    then show ?thesis by (subst json_text.simps) (simp add: code_def)
  next
    case False
    then have g: "good_rune s" "valid_utf8 (drop (snd (decode_rune s)) s)"
      using "1.prems" by (simp_all add: valid_utf8.simps [of s] split: if_splits)
    have "json_body html s = json_unit html s @ json_body html (drop (snd (decode_rune s)) s)"
      using False by (subst json_body.simps) simp
    then show ?thesis using "1.IH" False g by (simp add: json_text_unit)
  qed
qed

lemma valid_utf8_ascii: "(of_char c :: nat) < 128 \<Longrightarrow> valid_utf8 (c # s) \<longleftrightarrow> valid_utf8 s"
  by (subst valid_utf8.simps) (simp add: good_rune_def decode_rune.simps Let_def rune_error_def)

lemma valid_utf8_Nil [simp]: "valid_utf8 []"
  by (simp add: valid_utf8.simps)

lemma plain_valid: "list_all plain_char s \<Longrightarrow> valid_utf8 s"
  by (induction s) (simp_all add: valid_utf8_ascii plain_char_def)

section \<open>Values\<close>

fun joined :: "string list \<Rightarrow> string" where
  "joined [] = []"
| "joined [s] = s"
| "joined (s # t # ss) = s @ '','' @ joined (t # ss)"

fun json_print :: "bool \<Rightarrow> json \<Rightarrow> string" where
  "json_print html JNull = ''null''"
| "json_print html (JBool b) = (if b then ''true'' else ''false'')"
| "json_print html (JNum t) = t"
| "json_print html (JStr s) = json_string html s"
| "json_print html (JArr vs) = ''['' @ joined (map (json_print html) vs) @ '']''"
| "json_print html (JObj ms) = ''{'' @ joined (map (\<lambda>(k, v). json_string html k @ '':'' @ json_print html v) ms) @ ''}''"

text \<open>The values of the service: their strings are UTF-8 and a number is a natural one.\<close>

fun writable :: "json \<Rightarrow> bool" where
  "writable (JNum t) \<longleftrightarrow> t \<noteq> [] \<and> list_all is_digit t \<and> (hd t = CHR ''0'' \<longrightarrow> length t = 1)"
| "writable (JStr s) \<longleftrightarrow> valid_utf8 s"
| "writable (JArr vs) \<longleftrightarrow> list_all writable vs"
| "writable (JObj ms) \<longleftrightarrow> list_all (\<lambda>(k, v). valid_utf8 k \<and> writable v) ms"
| "writable _ \<longleftrightarrow> True"

section \<open>Reading what was written\<close>

definition reads_value :: "string \<Rightarrow> json \<Rightarrow> string \<Rightarrow> bool" where
  "reads_value s v r \<longleftrightarrow> (\<exists>n. json_value n s = Some (v, r))"

definition reads_elements :: "json list \<Rightarrow> string \<Rightarrow> json \<Rightarrow> string \<Rightarrow> bool" where
  "reads_elements vs s v r \<longleftrightarrow> (\<exists>n. json_elements n vs s = Some (v, r))"

definition reads_object :: "(string \<times> json) list \<Rightarrow> string \<Rightarrow> json \<Rightarrow> string \<Rightarrow> bool" where
  "reads_object ms s v r \<longleftrightarrow> (\<exists>n. json_object n ms s = Some (v, r))"

lemma enough_fuel:
  "reads_value s v r \<Longrightarrow> length s \<le> n \<Longrightarrow> json_value n s = Some (v, r)"
  "reads_elements vs s v r \<Longrightarrow> length s \<le> n \<Longrightarrow> json_elements n vs s = Some (v, r)"
  "reads_object ms s v r \<Longrightarrow> length s \<le> n \<Longrightarrow> json_object n ms s = Some (v, r)"
  unfolding reads_value_def reads_elements_def reads_object_def
  by (auto dest!: readers_settled simp: settled_def)

lemma no_space: "\<not> is_json_space c \<Longrightarrow> skip_space (c # s) = c # s"
  by simp

lemma structural [simp]: "\<not> is_json_space CHR '',''" "\<not> is_json_space CHR '']''" "\<not> is_json_space CHR ''}''"
  "\<not> is_json_space CHR '':''" "\<not> is_json_space CHR 0x22" "\<not> is_json_space CHR ''[''" "\<not> is_json_space CHR ''{''"
  by (simp_all add: is_json_space_def code_def)

lemma elements_end:
  assumes "reads_value s v (CHR '']'' # r)" shows "reads_elements vs s (JArr (vs @ [v])) r"
  using enough_fuel(1) [OF assms, of "length s"] unfolding reads_elements_def
  by (intro exI [of _ "Suc (length s)"]) (simp add: json_elements.simps)

lemma elements_step:
  assumes "reads_value s v (CHR '','' # t)" "reads_elements (vs @ [v]) t w r" shows "reads_elements vs s w r"
proof -
  let ?n = "length s + length t"
  have "json_value ?n s = Some (v, CHR '','' # t)" "json_elements ?n (vs @ [v]) t = Some (w, r)"
    using enough_fuel(1) [OF assms(1), of ?n] enough_fuel(2) [OF assms(2), of ?n] by simp_all
  then have "json_elements (Suc ?n) vs s = Some (w, r)" by (simp add: json_elements.simps)
  then show ?thesis unfolding reads_elements_def by blast
qed

lemma object_member:
  assumes "valid_utf8 k" "reads_value s v (d # t)"
    and "d = CHR ''}'' \<and> w = JObj (ms @ [(k, v)]) \<and> r = t \<or> d = CHR '','' \<and> reads_object (ms @ [(k, v)]) t w r"
  shows "reads_object ms (json_string html k @ CHR '':'' # s) w r"
proof -
  let ?n = "length s + length t"
  have v: "json_value ?n s = Some (v, d # t)" by (rule enough_fuel(1) [OF assms(2)]) simp
  have k: "json_text (json_body html k @ CHR 0x22 # CHR '':'' # s) = Some (k, CHR '':'' # s)"
    by (rule json_text_body [OF assms(1)])
  have "json_object (Suc ?n) ms (json_string html k @ CHR '':'' # s) = Some (w, r)"
  proof (use assms(3) in \<open>elim disjE conjE\<close>)
    assume "d = CHR '','' " and o: "reads_object (ms @ [(k, v)]) t w r"
    moreover have "json_object ?n (ms @ [(k, v)]) t = Some (w, r)" by (rule enough_fuel(3) [OF o]) simp
    ultimately show ?thesis using v k by (simp add: json_object.simps json_string_def code_def)
  qed (use v k in \<open>simp add: json_object.simps json_string_def code_def\<close>)
  then show ?thesis unfolding reads_object_def by blast
qed

text \<open>What may follow a value so that a number ends there.\<close>

definition delimited :: "string \<Rightarrow> bool" where
  "delimited r \<longleftrightarrow> r = [] \<or> \<not> is_digit (hd r) \<and> hd r \<noteq> CHR ''.'' \<and> hd r \<noteq> CHR ''e'' \<and> hd r \<noteq> CHR ''E''"

lemma delimited_simps [simp]: "delimited []" "delimited (CHR '','' # r)" "delimited (CHR '']'' # r)" "delimited (CHR ''}'' # r)"
  by (simp_all add: delimited_def is_digit_def)

lemma number_read:
  assumes "t \<noteq> []" "list_all is_digit t" "hd t = CHR ''0'' \<longrightarrow> length t = 1" "delimited r"
  shows "number_length (t @ r) = Some (length t)"
proof -
  have "takeWhile is_digit (t @ r) = t @ takeWhile is_digit r" by (rule takeWhile_append2) (use assms(2) in \<open>simp add: list_all_iff\<close>)
  moreover have "takeWhile is_digit r = []" using assms(4) by (cases r) (auto simp: delimited_def)
  ultimately have d: "digits_of (t @ r) = t" by (simp add: digits_of_def)
  have m: "hd t \<noteq> CHR ''-''" using assms(1,2) by (cases t) (auto simp: is_digit_def)
  have f: "fraction_length r = Some 0" "exponent_length r = Some 0"
    using assms(4) by (cases r; simp add: fraction_length_def exponent_length_def delimited_def)+
  show ?thesis using assms(1,3) d m f by (simp add: number_length_def)
qed

lemma print_hd:
  assumes "writable v"
  obtains c s where "json_print html v = c # s" "\<not> is_json_space c" "c \<noteq> CHR '']''"
proof (cases v)
  case (JNum t)
  with assms obtain c s where t: "t = c # s" "is_digit c" by (cases t) auto
  then have "\<not> is_json_space c" "c \<noteq> CHR '']''" by (auto simp: is_json_space_def code_def is_digit_def)
  with t JNum show thesis by (intro that) simp_all
next
  case (JBool b)
  then show thesis using that by (cases b) (simp_all add: is_json_space_def code_def)
qed (use that in \<open>auto simp: json_string_def is_json_space_def code_def\<close>)

lemma read_simple:
  assumes "s = c # t" "\<not> is_json_space c" "c \<noteq> CHR ''[''" "c \<noteq> CHR ''{''" "simple_value s = Some (v, r)"
  shows "reads_value s v r"
  unfolding reads_value_def by (rule exI [of _ "Suc 0"]) (use assms in \<open>simp add: json_value.simps\<close>)

lemma read_array:
  assumes "vs \<noteq> []" "\<And>v r. v \<in> set vs \<Longrightarrow> delimited r \<Longrightarrow> reads_value (json_print html v @ r) v r"
  shows "reads_elements acc (joined (map (json_print html) vs) @ CHR '']'' # r) (JArr (acc @ vs)) r"
  using assms
proof (induction vs arbitrary: acc)
  case (Cons v vs)
  note v = Cons.prems(2) [of v]
  show ?case
  proof (cases vs)
    case Nil
    then show ?thesis using elements_end [OF v] by simp
  next
    case (Cons w ws)
    have "reads_elements (acc @ [v]) (joined (map (json_print html) vs) @ CHR '']'' # r) (JArr ((acc @ [v]) @ vs)) r"
      by (rule Cons.IH) (use Cons Cons.prems(2) in simp_all)
    from elements_step [OF v this] show ?thesis using Cons by simp
  qed
qed simp

definition print_member :: "bool \<Rightarrow> string \<times> json \<Rightarrow> string" where
  "print_member html = (\<lambda>(k, v). json_string html k @ '':'' @ json_print html v)"

lemma read_members:
  assumes "ms \<noteq> []" "\<And>k v r. (k, v) \<in> set ms \<Longrightarrow> valid_utf8 k \<and> (delimited r \<longrightarrow> reads_value (json_print html v @ r) v r)"
  shows "reads_object acc (joined (map (print_member html) ms) @ CHR ''}'' # r) (JObj (acc @ ms)) r"
  using assms
proof (induction ms arbitrary: acc)
  case (Cons m ms)
  obtain k v where m: "m = (k, v)" by fastforce
  have k: "valid_utf8 k" and v: "\<And>r. delimited r \<Longrightarrow> reads_value (json_print html v @ r) v r"
    using Cons.prems(2) [of k v] m by auto
  show ?case
  proof (cases ms)
    case Nil
    have "reads_value (json_print html v @ CHR ''}'' # r) v (CHR ''}'' # r)" by (rule v) simp
    from object_member [OF k this] Nil m show ?thesis by (simp add: print_member_def)
  next
    case (Cons w ws)
    let ?t = "joined (map (print_member html) ms) @ CHR ''}'' # r"
    have "reads_object (acc @ [(k, v)]) ?t (JObj ((acc @ [(k, v)]) @ ms)) r"
      by (rule Cons.IH) (use Cons Cons.prems(2) in auto)
    moreover have "reads_value (json_print html v @ CHR '','' # ?t) v (CHR '','' # ?t)" by (rule v) simp
    ultimately show ?thesis using object_member [OF k, of "json_print html v @ CHR '','' # ?t" v "CHR '',''" ?t] Cons m
      by (simp add: print_member_def)
  qed
qed simp

lemma read_printed: "writable v \<Longrightarrow> delimited r \<Longrightarrow> reads_value (json_print html v @ r) v r"
proof (induction v arbitrary: r)
  case (JNum t)
  then have n: "number_length (t @ r) = Some (length t)" by (intro number_read) auto
  from JNum.prems obtain c u where t: "t = c # u" "is_digit c" by (cases t) auto
  have c: "\<not> is_json_space c" "c \<noteq> CHR ''[''" "c \<noteq> CHR ''{''" "code c \<noteq> 34" "c \<noteq> CHR ''t''" "c \<noteq> CHR ''f''" "c \<noteq> CHR ''n''"
    using t(2) by (auto simp: is_json_space_def code_def is_digit_def)
  then have "simple_value (t @ r) = Some (JNum t, r)" using n by (simp add: simple_value_def t)
  then show ?case using c by (simp add: t read_simple)
next
  case (JStr s)
  then have "simple_value (json_print html (JStr s) @ r) = Some (JStr s, r)"
    by (simp add: simple_value_def json_string_def code_def json_text_body)
  then show ?case by (intro read_simple) (auto simp: json_string_def)
next
  case (JArr vs)
  show ?case
  proof (cases vs)
    case Nil
    then show ?thesis unfolding reads_value_def by (intro exI [of _ "Suc 0"]) (simp add: json_value.simps)
  next
    case (Cons v us)
    let ?t = "joined (map (json_print html) vs) @ CHR '']'' # r"
    have "writable v" using JArr.prems Cons by simp
    then obtain c w where p: "json_print html v = c # w" "\<not> is_json_space c" "c \<noteq> CHR '']''" by (rule print_hd)
    have t: "\<exists>u. ?t = c # u" using p Cons by (cases us) simp_all
    have "reads_elements [] ?t (JArr ([] @ vs)) r"
      by (rule read_array) (use JArr Cons in \<open>auto simp: list_all_iff\<close>)
    then obtain n where "json_elements n [] ?t = Some (JArr vs, r)" by (auto simp: reads_elements_def)
    then have "json_value (Suc n) (CHR ''['' # ?t) = Some (JArr vs, r)"
      using t p by (auto simp: json_value.simps)
    then show ?thesis unfolding reads_value_def by auto
  qed
next
  case (JObj ms)
  show ?case
  proof (cases ms)
    case Nil
    then show ?thesis unfolding reads_value_def by (intro exI [of _ "Suc 0"]) (simp add: json_value.simps)
  next
    case (Cons m us)
    let ?t = "joined (map (print_member html) ms) @ CHR ''}'' # r"
    have t: "\<exists>u. ?t = CHR 0x22 # u" using Cons by (cases us) (simp_all add: print_member_def json_string_def split: prod.split)
    have "reads_object [] ?t (JObj ([] @ ms)) r"
      by (rule read_members) (use JObj Cons in \<open>fastforce simp: list_all_iff\<close>)+
    then obtain n where "json_object n [] ?t = Some (JObj ms, r)" by (auto simp: reads_object_def)
    then have "json_value (Suc n) (CHR ''{'' # ?t) = Some (JObj ms, r)"
      using t by (auto simp: json_value.simps)
    then show ?thesis unfolding reads_value_def by (auto simp: print_member_def)
  qed
qed (auto simp: simple_value_def literal_def code_def is_json_space_def intro!: read_simple)

lemma json_first_printed: "writable v \<Longrightarrow> delimited r \<Longrightarrow> json_first (json_print html v @ r) = Some (v, r)"
  unfolding json_first_iff using read_printed [of v r html] by (simp add: reads_value_def)

lemma json_print_inj: "\<lbrakk>json_print html v = json_print html w; writable v; writable w\<rbrakk> \<Longrightarrow> v = w"
  using json_first_printed [of v "[]" html] json_first_printed [of w "[]" html] by simp

end
