(* ===== verification/Errors.thy ===== *)
theory Errors
  imports Prelude
begin

text \<open>
  The error values of the service, one datatype per package that declares sentinels, and
  Go's error chains: \<open>fmt.Errorf\<close> with \<open>%w\<close> builds an \<open>EWrap\<close>, a listener's \<open>Rejection\<close>
  unwraps to its cause, \<open>errors.Is\<close> and \<open>errors.As\<close> search the chain. A function that returns \<open>(T, error)\<close> is modelled by a value of
  \<open>'a result\<close>: \<open>Inl\<close> the error, \<open>Inr\<close> the value. Messages of wrapped errors are not
  part of the model; what they wrap is.
\<close>

section \<open>Sentinels\<close>

datatype money_err = MoneyInvalidAmount | MoneyInvalidCurrency | MoneyCurrencyMismatch
  | MoneyOverflow | MoneyNegative

datatype wallet_err = WalletMissingIdentifier | WalletMissingTimestamp | WalletInvalidAmount
  | WalletNegativeBalance | WalletInsufficientFunds | WalletInvalidDirection
  | WalletInvalidVersion | WalletInconsistentLedgerEntry

datatype wallet_store_err = WalletNotFound | WalletAlreadyExists | WalletVersionChanged

datatype wagering_err = WageringMissingIdentifier | WageringMissingTimestamp
  | WageringMissingField | WageringInvalidKind | WageringInvalidOrigin | WageringInvalidStatus
  | WageringInvalidFailureCode | WageringInvalidAmount | WageringInvalidPayloadHash
  | WageringReferenceRequired | WageringReferenceForbidden | WageringTransitionNotAllowed
  | WageringInvalidSnapshot | WageringNotFound

datatype event_err = EventMissingIdentifier | EventMissingTimestamp | EventMissingField

datatype messaging_err = MessagingMissingIdentifier | MessagingMissingTimestamp
  | MessagingMissingField | MessagingInvalidOutcome

datatype repo_err = RepoTransient | RepoLockTimeout | RepoCommitOutcomeUnknown | RepoRecoveredPanic

text \<open>The SQLSTATE codes the service tells apart; every other code is \<open>PgOther\<close>.\<close>

datatype pg_code = PgSerializationFailure | PgDeadlockDetected | PgLockNotAvailable
  | PgQueryCanceled | PgAdminShutdown | PgCrashShutdown | PgCannotConnectNow
  | PgUniqueViolation | PgForeignKeyViolation | PgCheckViolation | PgRestrictViolation
  | PgIntegrityViolation | PgOther string

datatype conflict_kind = ConflictIdempotencyKey | ConflictExternalID

text \<open>A field that failed validation, with the message it is reported under.\<close>

type_synonym field_error = "string \<times> string"

datatype go_error =
    EMoney money_err
  | EWallet wallet_err
  | EWalletStore wallet_store_err
  | EWagering wagering_err
  | EEvent event_err
  | EMessaging messaging_err
  | EPayloadMismatch
  | ERepo repo_err
  | ERetryable
  | ECanceled
  | EDeadlineExceeded
  | EPg pg_code string
  | EDriver string
  | EConflict conflict_kind uuid
  | EWalletConflict uuid
  | EValidation "field_error list"
  | ENoPendingWork
  | EText string
  | EPanic
  | EUnknownOutcome
  | ERejection string go_error
  | EWrap "go_error list"

section \<open>errors.Is and errors.As\<close>

fun errors_is :: "go_error \<Rightarrow> go_error \<Rightarrow> bool" where
  "errors_is (ERejection r e) t \<longleftrightarrow> ERejection r e = t \<or> errors_is e t"
| "errors_is (EWrap es) t \<longleftrightarrow> EWrap es = t \<or> list_ex (\<lambda>e. errors_is e t) es"
| "errors_is e t \<longleftrightarrow> e = t"

fun first_some :: "('a \<Rightarrow> 'b option) \<Rightarrow> 'a list \<Rightarrow> 'b option" where
  "first_some f [] = None"
| "first_some f (x # xs) = (case f x of Some y \<Rightarrow> Some y | None \<Rightarrow> first_some f xs)"

lemma first_some_cong [fundef_cong]:
  "xs = ys \<Longrightarrow> (\<And>x. x \<in> set ys \<Longrightarrow> f x = g x) \<Longrightarrow> first_some f xs = first_some g ys"
  by (induction ys arbitrary: xs) (auto split: option.splits)

fun as_pg :: "go_error \<Rightarrow> (pg_code \<times> string) option" where
  "as_pg (EPg c n) = Some (c, n)"
| "as_pg (EWrap es) = first_some as_pg es"
| "as_pg (ERejection r e) = as_pg e"
| "as_pg _ = None"

fun as_conflict :: "go_error \<Rightarrow> (conflict_kind \<times> uuid) option" where
  "as_conflict (EConflict k i) = Some (k, i)"
| "as_conflict (EWrap es) = first_some as_conflict es"
| "as_conflict (ERejection r e) = as_conflict e"
| "as_conflict _ = None"

fun as_wallet_conflict :: "go_error \<Rightarrow> uuid option" where
  "as_wallet_conflict (EWalletConflict i) = Some i"
| "as_wallet_conflict (EWrap es) = first_some as_wallet_conflict es"
| "as_wallet_conflict (ERejection r e) = as_wallet_conflict e"
| "as_wallet_conflict _ = None"

fun as_validation :: "go_error \<Rightarrow> field_error list option" where
  "as_validation (EValidation fs) = Some fs"
| "as_validation (EWrap es) = first_some as_validation es"
| "as_validation (ERejection r e) = as_validation e"
| "as_validation _ = None"

fun as_rejection :: "go_error \<Rightarrow> (string \<times> go_error) option" where
  "as_rejection (ERejection r e) = Some (r, e)"
| "as_rejection (EWrap es) = first_some as_rejection es"
| "as_rejection _ = None"

section \<open>Results\<close>

type_synonym 'a result = "go_error + 'a"

definition bindR :: "'a result \<Rightarrow> ('a \<Rightarrow> 'b result) \<Rightarrow> 'b result" where
  "bindR r f = (case r of Inl e \<Rightarrow> Inl e | Inr x \<Rightarrow> f x)"

definition guardR :: "bool \<Rightarrow> go_error \<Rightarrow> unit result" where
  "guardR bad e = (if bad then Inl e else Inr ())"

lemma bindR_simps [simp]: "bindR (Inl e) f = Inl e" "bindR (Inr x) f = f x"
  by (simp_all add: bindR_def)

lemma bindR_eq_Inr: "bindR r f = Inr y \<longleftrightarrow> (\<exists>x. r = Inr x \<and> f x = Inr y)"
  by (cases r) simp_all

lemma bindR_eq_Inl: "bindR r f = Inl e \<longleftrightarrow> r = Inl e \<or> (\<exists>x. r = Inr x \<and> f x = Inl e)"
  by (cases r) simp_all

text \<open>A guard that returns an error is a condition of success; no case split is needed.\<close>

lemma if_Inl_eq_Inr [simp]: "(if b then Inl e else r) = Inr x \<longleftrightarrow> \<not> b \<and> r = Inr x"
  by simp

lemma guardR_eq [simp]: "guardR bad e = Inr u \<longleftrightarrow> \<not> bad" "guardR bad e = Inl e' \<longleftrightarrow> bad \<and> e' = e"
  by (auto simp: guardR_def)

lemma guardR_cases [simp]: "guardR True e = Inl e" "guardR False e = Inr ()"
  by (simp_all add: guardR_def)

definition is_ok :: "'a result \<Rightarrow> bool" where
  "is_ok r \<longleftrightarrow> (case r of Inl _ \<Rightarrow> False | Inr _ \<Rightarrow> True)"

lemma is_ok_simps [simp]: "is_ok (Inr x)" "\<not> is_ok (Inl e)"
  by (simp_all add: is_ok_def)

lemma is_ok_iff: "is_ok r \<longleftrightarrow> (\<exists>x. r = Inr x)"
  by (cases r) simp_all

end
