(* ===== verification/Money.thy ===== *)
theory Money
  imports GoStd Errors
begin

text \<open>
  \<open>internal/domain/money/money.go\<close>: an amount in minor units (\<open>int64\<close>) with its currency,
  parsed from and printed to the canonical decimal form, added, subtracted, negated and
  compared with every overflow and currency mismatch reported. Facts: the exact operations
  fail precisely when the integer result does not fit, printing and parsing are inverse on
  non-negative amounts, and the only accepted spelling of an amount is the printed one.
\<close>

section \<open>Currencies\<close>

text \<open>A \<open>Currency\<close> is a string of which two values are supported.\<close>

datatype currency = BRL | USD | OtherCurrency string

definition currency_of_string :: "string \<Rightarrow> currency" where
  "currency_of_string s = (if s = ''BRL'' then BRL else if s = ''USD'' then USD else OtherCurrency s)"

fun currency_String :: "currency \<Rightarrow> string" where
  "currency_String BRL = ''BRL''"
| "currency_String USD = ''USD''"
| "currency_String (OtherCurrency s) = s"

definition Supported :: "currency \<Rightarrow> bool" where
  "Supported c \<longleftrightarrow> c = BRL \<or> c = USD"

definition ParseCurrency :: "string \<Rightarrow> currency result" where
  "ParseCurrency v =
     (let c = currency_of_string v in
      if \<not> Supported c then Inl (EMoney MoneyInvalidCurrency) else Inr c)"

section \<open>Money\<close>

record money =
  minor :: i64
  currency :: currency

text \<open>The zero value \<open>Money{}\<close>, whose currency is the empty string.\<close>

definition money_zero_value :: money where
  "money_zero_value = \<lparr>minor = 0, currency = OtherCurrency []\<rparr>"

definition FromMinor :: "i64 \<Rightarrow> currency \<Rightarrow> money result" where
  "FromMinor m c =
     (if \<not> Supported c then Inl (EMoney MoneyInvalidCurrency) else Inr \<lparr>minor = m, currency = c\<rparr>)"

definition money_Zero :: "currency \<Rightarrow> money result" where
  "money_Zero c = FromMinor 0 c"

definition IsZero :: "money \<Rightarrow> bool" where
  "IsZero m \<longleftrightarrow> minor m = 0"

definition IsNegative :: "money \<Rightarrow> bool" where
  "IsNegative m \<longleftrightarrow> minor m <s 0"

definition IsPositive :: "money \<Rightarrow> bool" where
  "IsPositive m \<longleftrightarrow> 0 <s minor m"

definition Valid :: "money \<Rightarrow> bool" where
  "Valid m \<longleftrightarrow> Supported (currency m)"

definition comparableWith :: "money \<Rightarrow> money \<Rightarrow> unit result" where
  "comparableWith m other =
     (if \<not> Valid m \<or> \<not> Valid other then Inl (EMoney MoneyInvalidCurrency)
      else if currency m \<noteq> currency other then Inl (EMoney MoneyCurrencyMismatch)
      else Inr ())"

definition addExact :: "i64 \<Rightarrow> i64 \<Rightarrow> i64 result" where
  "addExact a b =
     (let sum = a + b in
      if (0 <s b \<and> sum <s a) \<or> (b <s 0 \<and> a <s sum) then Inl (EMoney MoneyOverflow) else Inr sum)"

definition subExact :: "i64 \<Rightarrow> i64 \<Rightarrow> i64 result" where
  "subExact a b =
     (let difference = a - b in
      if (b <s 0 \<and> difference <s a) \<or> (0 <s b \<and> a <s difference)
      then Inl (EMoney MoneyOverflow) else Inr difference)"

definition Add :: "money \<Rightarrow> money \<Rightarrow> money result" where
  "Add m other =
     bindR (comparableWith m other) (\<lambda>_.
     bindR (addExact (minor m) (minor other)) (\<lambda>sum.
     Inr \<lparr>minor = sum, currency = currency m\<rparr>))"

definition Sub :: "money \<Rightarrow> money \<Rightarrow> money result" where
  "Sub m other =
     bindR (comparableWith m other) (\<lambda>_.
     bindR (subExact (minor m) (minor other)) (\<lambda>difference.
     Inr \<lparr>minor = difference, currency = currency m\<rparr>))"

definition Neg :: "money \<Rightarrow> money result" where
  "Neg m =
     (if \<not> Valid m then Inl (EMoney MoneyInvalidCurrency)
      else if minor m = min_i64 then Inl (EMoney MoneyOverflow)
      else Inr \<lparr>minor = - minor m, currency = currency m\<rparr>)"

definition Cmp :: "money \<Rightarrow> money \<Rightarrow> int result" where
  "Cmp m other =
     bindR (comparableWith m other) (\<lambda>_.
     Inr (if minor m <s minor other then - 1 else if minor other <s minor m then 1 else 0))"

definition Equal :: "money \<Rightarrow> money \<Rightarrow> bool" where
  "Equal m other \<longleftrightarrow> minor m = minor other \<and> currency m = currency other"

section \<open>Text\<close>

text \<open>The regular expression \<open>canonicalAmount\<close>, read at its only dot.\<close>

definition whole_part :: "string \<Rightarrow> string" where
  "whole_part s = takeWhile (\<lambda>c. c \<noteq> CHR ''.'') s"

definition fraction_part :: "string \<Rightarrow> string" where
  "fraction_part s = tl (dropWhile (\<lambda>c. c \<noteq> CHR ''.'') s)"

definition canonicalAmount :: "string \<Rightarrow> bool" where
  "canonicalAmount s \<longleftrightarrow>
     CHR ''.'' \<in> set s
     \<and> (whole_part s = ''0''
         \<or> (whole_part s \<noteq> [] \<and> list_all is_digit (whole_part s) \<and> hd (whole_part s) \<noteq> CHR ''0''
             \<and> length (whole_part s) \<le> 17))
     \<and> length (fraction_part s) = 2 \<and> list_all is_digit (fraction_part s)"

text \<open>
  \<open>(math.MaxInt64 - cents) / 100\<close> divides a non-negative word by a positive one, where the
  unsigned \<open>div\<close> of words agrees with Go's division.
\<close>

definition parseMinorUnits :: "string \<Rightarrow> i64 result" where
  "parseMinorUnits amount =
     (if \<not> canonicalAmount amount then Inl (EMoney MoneyInvalidAmount)
      else case parse_int64 (whole_part amount) of
        None \<Rightarrow> Inl (EMoney MoneyOverflow)
      | Some units \<Rightarrow>
          (case parse_int64 (fraction_part amount) of
             None \<Rightarrow> Inl (EMoney MoneyInvalidAmount)
           | Some cents \<Rightarrow>
               if (max_i64 - cents) div 100 <s units then Inl (EMoney MoneyOverflow)
               else Inr (units * 100 + cents)))"

definition Parse :: "string \<Rightarrow> string \<Rightarrow> money result" where
  "Parse amount cur =
     bindR (ParseCurrency cur) (\<lambda>parsedCurrency.
     bindR (parseMinorUnits amount) (\<lambda>m.
     Inr \<lparr>minor = m, currency = parsedCurrency\<rparr>))"

definition splitMinorUnits :: "i64 \<Rightarrow> 64 word \<times> 64 word" where
  "splitMinorUnits m =
     (let magnitude = (if m <s 0 then - (m + 1) + 1 else m) in
      (magnitude div 100, magnitude mod 100))"

definition money_String :: "money \<Rightarrow> string" where
  "money_String m =
     (let (units, cents) = splitMinorUnits (minor m) in
      (if minor m <s 0 then ''-'' else []) @ format_uint (unat units) @ ''.''
      @ (if cents < 10 then ''0'' else []) @ format_uint (unat cents))"

definition money_MarshalJSON :: "money \<Rightarrow> string result" where
  "money_MarshalJSON m =
     (if \<not> Valid m then Inl (EMoney MoneyInvalidCurrency)
      else Inr (''{'' @ json_string True ''amount'' @ '':'' @ json_string True (money_String m)
        @ '','' @ json_string True ''currency'' @ '':''
        @ json_string True (currency_String (currency m)) @ ''}''))"

text \<open>
  \<open>UnmarshalJSON\<close> on the value the decoder has read. Only an object can be decoded into the
  wire struct (\<open>null\<close> leaves it empty, and then the amount is missing); a member other than
  the two is refused by \<open>DisallowUnknownFields\<close>; the amount is kept raw and decoded into a
  string afterwards.
\<close>

definition money_UnmarshalJSON :: "json \<Rightarrow> money result" where
  "money_UnmarshalJSON data =
     (case data of
        JObj ms \<Rightarrow>
          if list_ex (\<lambda>(k, v). fold_name k \<notin> {''amount'', ''currency''}) ms
          then Inl (EMoney MoneyInvalidAmount)
          else (case json_string_field ''currency'' ms of
                  None \<Rightarrow> Inl (EMoney MoneyInvalidAmount)
                | Some cur \<Rightarrow>
                    (case json_member ''amount'' ms of
                       Some (JStr a) \<Rightarrow> Parse a cur
                     | Some JNull \<Rightarrow> Parse [] cur
                     | _ \<Rightarrow> Inl (EMoney MoneyInvalidAmount)))
      | _ \<Rightarrow> Inl (EMoney MoneyInvalidAmount))"


section \<open>Exact arithmetic\<close>

lemma addExact_eq:
  "addExact a b = (if - (2 ^ 63) \<le> sint a + sint b \<and> sint a + sint b < 2 ^ 63
                   then Inr (a + b) else Inl (EMoney MoneyOverflow))"
proof -
  note r = i64_range [of a] i64_range [of b]
  consider "sint a + sint b < - (2 ^ 63)" | "2 ^ 63 \<le> sint a + sint b"
    | "- (2 ^ 63) \<le> sint a + sint b" "sint a + sint b < 2 ^ 63" by linarith
  then show ?thesis
  proof cases
    case 1
    then have "sint (a + b) = sint a + sint b + 2 ^ 64"
      using r by (simp add: sint_add_i64 wrap64_under)
    with 1 r show ?thesis by (simp add: addExact_def Let_def i64_less)
  next
    case 2
    then have "sint (a + b) = sint a + sint b - 2 ^ 64"
      using r by (simp add: sint_add_i64 wrap64_over)
    with 2 r show ?thesis by (simp add: addExact_def Let_def i64_less)
  next
    case 3
    then have "sint (a + b) = sint a + sint b"
      by (simp add: sint_add_i64 wrap64_id)
    with 3 show ?thesis by (auto simp: addExact_def Let_def i64_less)
  qed
qed

lemma subExact_eq:
  "subExact a b = (if - (2 ^ 63) \<le> sint a - sint b \<and> sint a - sint b < 2 ^ 63
                   then Inr (a - b) else Inl (EMoney MoneyOverflow))"
proof -
  note r = i64_range [of a] i64_range [of b]
  consider "sint a - sint b < - (2 ^ 63)" | "2 ^ 63 \<le> sint a - sint b"
    | "- (2 ^ 63) \<le> sint a - sint b" "sint a - sint b < 2 ^ 63" by linarith
  then show ?thesis
  proof cases
    case 1
    then have "sint (a - b) = sint a - sint b + 2 ^ 64"
      using r by (simp add: sint_sub_i64 wrap64_under)
    with 1 r show ?thesis by (simp add: subExact_def Let_def i64_less)
  next
    case 2
    then have "sint (a - b) = sint a - sint b - 2 ^ 64"
      using r by (simp add: sint_sub_i64 wrap64_over)
    with 2 r show ?thesis by (simp add: subExact_def Let_def i64_less)
  next
    case 3
    then have "sint (a - b) = sint a - sint b"
      by (simp add: sint_sub_i64 wrap64_id)
    with 3 show ?thesis by (auto simp: subExact_def Let_def i64_less)
  qed
qed

lemma addExact_InrD: "addExact a b = Inr c \<Longrightarrow> c = a + b \<and> sint c = sint a + sint b"
  by (auto simp: addExact_eq sint_add_i64 wrap64_id split: if_splits)

lemma subExact_InrD: "subExact a b = Inr c \<Longrightarrow> c = a - b \<and> sint c = sint a - sint b"
  by (auto simp: subExact_eq sint_sub_i64 wrap64_id split: if_splits)

lemma comparableWith_eq_Inr [simp]:
  "comparableWith m n = Inr u \<longleftrightarrow> Valid m \<and> Valid n \<and> currency m = currency n"
  by (auto simp: comparableWith_def)

text \<open>The abstract value of an amount, the integer number of minor units.\<close>

definition amount_of :: "money \<Rightarrow> int" where
  "amount_of m = sint (minor m)"

lemma amount_range: "- (2 ^ 63) \<le> amount_of m" "amount_of m < 2 ^ 63"
  by (simp_all only: amount_of_def i64_range)

lemma sign_simps [money_simps]:
  "IsZero m \<longleftrightarrow> amount_of m = 0" "IsNegative m \<longleftrightarrow> amount_of m < 0"
  "IsPositive m \<longleftrightarrow> 0 < amount_of m"
  by (auto simp: IsZero_def IsNegative_def IsPositive_def amount_of_def i64_less i64_eq_iff)

lemma money_eq_iff: "m = n \<longleftrightarrow> amount_of m = amount_of n \<and> currency m = currency (n :: money)"
  by (auto simp: amount_of_def i64_eq_iff intro!: money.equality)

lemma Equal_iff [simp]: "Equal m n \<longleftrightarrow> m = n"
  by (auto simp: Equal_def intro: money.equality)

lemma Add_eq:
  "Add m n =
     (if \<not> Valid m \<or> \<not> Valid n then Inl (EMoney MoneyInvalidCurrency)
      else if currency m \<noteq> currency n then Inl (EMoney MoneyCurrencyMismatch)
      else if - (2 ^ 63) \<le> amount_of m + amount_of n \<and> amount_of m + amount_of n < 2 ^ 63
      then Inr \<lparr>minor = minor m + minor n, currency = currency m\<rparr>
      else Inl (EMoney MoneyOverflow))"
  by (simp add: Add_def comparableWith_def addExact_eq amount_of_def)

lemma Add_eq_Inr:
  "Add m n = Inr r \<longleftrightarrow>
     Valid m \<and> Valid n \<and> currency m = currency n \<and> amount_of m + amount_of n < 2 ^ 63
     \<and> - (2 ^ 63) \<le> amount_of m + amount_of n
     \<and> amount_of r = amount_of m + amount_of n \<and> currency r = currency m"
  by (auto simp: Add_eq money_eq_iff amount_of_def sint_add_i64 wrap64_id)

lemma Sub_eq:
  "Sub m n =
     (if \<not> Valid m \<or> \<not> Valid n then Inl (EMoney MoneyInvalidCurrency)
      else if currency m \<noteq> currency n then Inl (EMoney MoneyCurrencyMismatch)
      else if - (2 ^ 63) \<le> amount_of m - amount_of n \<and> amount_of m - amount_of n < 2 ^ 63
      then Inr \<lparr>minor = minor m - minor n, currency = currency m\<rparr>
      else Inl (EMoney MoneyOverflow))"
  by (simp add: Sub_def comparableWith_def subExact_eq amount_of_def)

lemma Sub_eq_Inr:
  "Sub m n = Inr r \<longleftrightarrow>
     Valid m \<and> Valid n \<and> currency m = currency n \<and> amount_of m - amount_of n < 2 ^ 63
     \<and> - (2 ^ 63) \<le> amount_of m - amount_of n
     \<and> amount_of r = amount_of m - amount_of n \<and> currency r = currency m"
  by (auto simp: Sub_eq money_eq_iff amount_of_def sint_sub_i64 wrap64_id)

lemma Add_eq_Inl:
  "Add m n = Inl e \<longleftrightarrow>
     (if \<not> Valid m \<or> \<not> Valid n then e = EMoney MoneyInvalidCurrency
      else if currency m \<noteq> currency n then e = EMoney MoneyCurrencyMismatch
      else (amount_of m + amount_of n < - (2 ^ 63) \<or> 2 ^ 63 \<le> amount_of m + amount_of n)
           \<and> e = EMoney MoneyOverflow)"
  by (auto simp: Add_eq)

lemma Sub_eq_Inl:
  "Sub m n = Inl e \<longleftrightarrow>
     (if \<not> Valid m \<or> \<not> Valid n then e = EMoney MoneyInvalidCurrency
      else if currency m \<noteq> currency n then e = EMoney MoneyCurrencyMismatch
      else (amount_of m - amount_of n < - (2 ^ 63) \<or> 2 ^ 63 \<le> amount_of m - amount_of n)
           \<and> e = EMoney MoneyOverflow)"
  by (auto simp: Sub_eq)

lemma Cmp_eq:
  "Valid m \<Longrightarrow> Valid n \<Longrightarrow> currency m = currency n \<Longrightarrow>
     Cmp m n = Inr (sgn (amount_of m - amount_of n))"
  by (simp add: Cmp_def comparableWith_def amount_of_def i64_less sgn_if)

section \<open>Printing and parsing\<close>

text \<open>The canonical text of a non-negative number of minor units.\<close>

definition two_digits :: "nat \<Rightarrow> string" where
  "two_digits c = (if c < 10 then ''0'' else []) @ format_uint c"

definition canonical_text :: "nat \<Rightarrow> string" where
  "canonical_text n = format_uint (n div 100) @ ''.'' @ two_digits (n mod 100)"

lemma two_digits_simps:
  assumes "c < 100"
  shows "length (two_digits c) = 2" "list_all is_digit (two_digits c)" "digits_val (two_digits c) = c"
proof -
  have z: "is_digit CHR ''0''" "digit_val CHR ''0'' = 0" by (simp_all add: is_digit_def digit_val_def)
  have t: "two_digits c = [digit_char (c div 10), digit_char (c mod 10)]"
    using assms by (cases "c < 10")
      (simp_all add: two_digits_def format_uint_small format_uint_step less_mult_imp_div_less
        flip: digit_char_zero)
  then show "length (two_digits c) = 2" by simp
  show "list_all is_digit (two_digits c)" using assms by (simp add: t less_mult_imp_div_less)
  show "digits_val (two_digits c) = c"
    using assms by (simp add: t digits_val_def less_mult_imp_div_less)
qed

lemma two_digits_val:
  assumes "length f = 2" "list_all is_digit f"
  shows "two_digits (digits_val f) = f" "digits_val f < 100"
proof -
  from assms obtain a b where f: "f = [a, b]" and d: "is_digit a" "is_digit b"
    by (auto simp: numeral_2_eq_2 length_Suc_conv)
  have v: "digits_val [a, b] = 10 * digit_val a + digit_val b" by (simp add: digits_val_def)
  note l = is_digit_val_less [OF d(1)] is_digit_val_less [OF d(2)]
  show "digits_val f < 100" using v l by (simp add: f)
  show "two_digits (digits_val f) = f"
  proof (cases "digit_val a = 0")
    case True
    with d l digit_char_val [OF d(1)] show ?thesis
      by (simp add: two_digits_def f v format_uint_small digit_char_val digit_char_zero)
  next
    case False
    with d l show ?thesis
      by (simp add: two_digits_def f v format_uint_step format_uint_small digit_char_val)
  qed
qed

lemma dot_not_digit: "list_all is_digit s \<Longrightarrow> CHR ''.'' \<notin> set s"
  by (auto simp: list_all_iff is_digit_def)

lemma split_at_dot:
  assumes "list_all is_digit w"
  shows "whole_part (w @ ''.'' @ f) = w" "fraction_part (w @ ''.'' @ f) = f"
proof -
  have "\<forall>c \<in> set w. c \<noteq> CHR ''.''" using dot_not_digit [OF assms] by auto
  then show "whole_part (w @ ''.'' @ f) = w" "fraction_part (w @ ''.'' @ f) = f"
    by (simp_all add: whole_part_def fraction_part_def takeWhile_append dropWhile_append)
qed

lemma join_at_dot: "CHR ''.'' \<in> set s \<Longrightarrow> whole_part s @ ''.'' @ fraction_part s = s"
proof -
  assume "CHR ''.'' \<in> set s"
  then have "dropWhile (\<lambda>c. c \<noteq> CHR ''.'') s \<noteq> []" by (auto simp: dropWhile_eq_Nil_conv)
  then have "dropWhile (\<lambda>c. c \<noteq> CHR ''.'') s = CHR ''.'' # fraction_part s"
    unfolding fraction_part_def using hd_dropWhile [of "\<lambda>c. c \<noteq> CHR ''.''" s]
    by (metis list.collapse)
  then show ?thesis
    unfolding whole_part_def using takeWhile_dropWhile_id [of "\<lambda>c. c \<noteq> CHR ''.''" s] by simp
qed

lemma canonical_text_canonical: "n < 2 ^ 63 \<Longrightarrow> canonicalAmount (canonical_text n)"
proof -
  assume n: "n < 2 ^ 63"
  have "n div 100 < 10 ^ 17" using n by simp
  then have len: "length (format_uint (n div 100)) \<le> 17" by (intro length_format_uint) simp_all
  have z: "n div 100 = 0 \<Longrightarrow> format_uint (n div 100) = ''0''"
    by (simp add: format_uint_small digit_char_zero)
  note s = split_at_dot [OF format_uint_digits, of "n div 100" "two_digits (n mod 100)"]
  show ?thesis
    unfolding canonicalAmount_def canonical_text_def s
    using len z hd_format_uint [of "n div 100"] two_digits_simps [of "n mod 100"]
    by (cases "n div 100 = 0") (simp_all del: format_uint_small)
qed

lemma canonical_shape:
  assumes "canonicalAmount s"
  obtains u c where "s = canonical_text (100 * u + c)" "c < 100" "u < 10 ^ 17"
    "whole_part s = format_uint u" "fraction_part s = two_digits c"
proof -
  let ?w = "whole_part s" and ?f = "fraction_part s"
  have dot: "CHR ''.'' \<in> set s" and w: "list_all is_digit ?w" "?w \<noteq> []" "length ?w \<le> 17"
    "length ?w = 1 \<or> hd ?w \<noteq> CHR ''0''" and f: "length ?f = 2" "list_all is_digit ?f"
    using assms by (auto simp: canonicalAmount_def is_digit_def)
  have "digits_val ?w < 10 ^ length ?w" by (rule digits_val_bound [OF w(1)])
  also have "\<dots> \<le> 10 ^ 17" using w(3) by (intro power_increasing) simp_all
  finally have u: "digits_val ?w < 10 ^ 17" .
  note f' = two_digits_val [OF f]
  note w' = format_digits_val [OF w(1,2,4)]
  show ?thesis
  proof (rule that [of "digits_val ?w" "digits_val ?f"])
    show "s = canonical_text (100 * digits_val ?w + digits_val ?f)"
      using join_at_dot [OF dot] f' w' by (simp add: canonical_text_def)
  qed (use f' w' u in simp_all)
qed

lemma parse_canonical_text:
  assumes "c < 100" "u < 10 ^ 17"
  shows "parseMinorUnits (canonical_text (100 * u + c)) =
    (if canonicalAmount (canonical_text (100 * u + c))
     then if 100 * u + c < 2 ^ 63 then Inr (of_nat (100 * u + c)) else Inl (EMoney MoneyOverflow)
     else Inl (EMoney MoneyInvalidAmount))"
proof -
  let ?U = "of_nat u :: i64" and ?C = "of_nat c :: i64"
  have t: "canonical_text (100 * u + c) = format_uint u @ ''.'' @ two_digits c"
    using assms by (simp add: canonical_text_def)
  note s = split_at_dot [OF format_uint_digits, of u "two_digits c"]
  have "two_digits c \<noteq> []" by (simp add: two_digits_def)
  then have p: "parse_int64 (format_uint u) = Some ?U" "parse_int64 (two_digits c) = Some ?C"
    using assms two_digits_simps [OF assms(1)] by (simp_all add: parse_int64_digits)
  have su: "sint ?U = int u" "sint ?C = int c"
    using assms by (simp_all add: sint_of_nat_i64)
  have m: "max_i64 - ?C = of_nat (2 ^ 63 - 1 - c)"
    using assms by (simp add: max_i64_def of_nat_diff)
  have "unat (of_nat (2 ^ 63 - 1 - c) :: i64) = 2 ^ 63 - 1 - c"
    by (simp add: unat_of_nat take_bit_eq_mod)
  then have "unat ((max_i64 - ?C) div 100) = (2 ^ 63 - 1 - c) div 100"
    by (simp add: m unat_div_distrib)
  then have "(max_i64 - ?C) div 100 = of_nat ((2 ^ 63 - 1 - c) div 100)"
    by (simp add: word_unat_eq_iff unat_of_nat take_bit_eq_mod)
  then have d: "sint ((max_i64 - ?C) div 100) = int ((2 ^ 63 - 1 - c) div 100)"
    by (simp only:) (rule sint_of_nat_i64, simp)
  have "(max_i64 - ?C) div 100 <s ?U \<longleftrightarrow> (2 ^ 63 - 1 - c) div 100 < u"
    by (simp only: i64_less d su of_nat_less_iff)
  also have "\<dots> \<longleftrightarrow> \<not> 100 * u + c < 2 ^ 63"
    using assms by (auto simp: div_less_iff_less_mult)
  finally have o: "(max_i64 - ?C) div 100 <s ?U \<longleftrightarrow> \<not> 100 * u + c < 2 ^ 63" .
  show ?thesis
    using o unfolding parseMinorUnits_def t by (simp only: s p) (simp add: mult.commute)
qed
lemma unat_nonneg_i64: "0 \<le> sint a \<Longrightarrow> unat (a :: i64) = nat (sint a)"
proof -
  assume a: "0 \<le> sint a"
  have n: "nat (sint a) < 2 ^ 63" using i64_range(2) [of a] a by simp
  have "a = of_nat (nat (sint a))"
    using a n by (intro i64_eqI) (simp add: sint_of_nat_i64)
  moreover have "unat (of_nat (nat (sint a)) :: i64) = nat (sint a)"
    using n by (simp add: unat_of_nat take_bit_eq_mod)
  ultimately show ?thesis by simp
qed

text \<open>The magnitude of a negative amount is exact even for \<open>math.MinInt64\<close>.\<close>

lemma unat_magnitude: "sint a < 0 \<Longrightarrow> unat (- (a + 1) + 1 :: i64) = nat (- sint a)"
proof -
  assume a: "sint a < 0"
  have e: "- (a + 1) + 1 = - a" by simp
  show ?thesis
  proof (cases "a = min_i64")
    case True
    then show ?thesis by (simp add: min_i64_def)
  next
    case False
    then have "sint a \<noteq> - (2 ^ 63)" using sint_min_i64 by (auto simp: i64_eq_iff)
    then have "sint (- a) = - sint a"
      using a i64_range [of a] by (simp add: sint_uminus_i64 wrap64_id)
    with a unat_nonneg_i64 [of "- a"] show ?thesis by (simp add: e)
  qed
qed

lemma money_String_eq:
  "money_String m = (if amount_of m < 0 then ''-'' else []) @ canonical_text (nat \<bar>amount_of m\<bar>)"
proof -
  have c: "(w mod 100 < (10 :: 64 word)) = (unat w mod 100 < 10)" for w
    by (simp add: word_less_nat_alt unat_mod_distrib)
  show ?thesis
    using unat_nonneg_i64 [of "minor m"] unat_magnitude [of "minor m"]
    by (simp add: money_String_def splitMinorUnits_def Let_def canonical_text_def two_digits_def
        amount_of_def i64_less c unat_div_distrib unat_mod_distrib)
qed

lemma negative_not_canonical: "\<not> canonicalAmount (CHR ''-'' # s)"
proof
  assume "canonicalAmount (CHR ''-'' # s)"
  moreover have "whole_part (CHR ''-'' # s) = CHR ''-'' # whole_part s" by (simp add: whole_part_def)
  ultimately show False by (simp add: canonicalAmount_def is_digit_def)
qed

lemma parseMinorUnits_print:
  "n < 2 ^ 63 \<Longrightarrow> parseMinorUnits (canonical_text n) = Inr (of_nat n)"
  using parse_canonical_text [of "n mod 100" "n div 100"] canonical_text_canonical [of n]
  by simp

lemma parseMinorUnits_Inr:
  "parseMinorUnits s = Inr v \<longleftrightarrow> 0 \<le> sint v \<and> s = canonical_text (nat (sint v))"
proof
  assume p: "parseMinorUnits s = Inr v"
  then have "canonicalAmount s" by (simp add: parseMinorUnits_def split: if_splits)
  then obtain u c where s: "s = canonical_text (100 * u + c)" and b: "c < 100" "u < 10 ^ 17"
    by (rule canonical_shape)
  from p parse_canonical_text [OF b] have "100 * u + c < 2 ^ 63" "v = of_nat (100 * u + c)"
    unfolding s by (simp_all split: if_splits)
  then have "sint v = int (100 * u + c)" by (simp add: sint_of_nat_i64 del: of_nat_add of_nat_mult)
  with s show "0 \<le> sint v \<and> s = canonical_text (nat (sint v))"
    by (simp del: of_nat_add of_nat_mult)
next
  assume v: "0 \<le> sint v \<and> s = canonical_text (nat (sint v))"
  have n: "nat (sint v) < 2 ^ 63" using v i64_range(2) [of v] by simp
  have "of_nat (nat (sint v)) = v"
    using v n by (intro i64_eqI) (simp add: sint_of_nat_i64)
  with parseMinorUnits_print [OF n] v show "parseMinorUnits s = Inr v" by simp
qed

lemma ParseCurrency_Inr: "ParseCurrency s = Inr c \<longleftrightarrow> Supported c \<and> s = currency_String c"
  by (cases c) (auto simp: ParseCurrency_def currency_of_string_def Supported_def Let_def split: if_splits)

lemma Parse_eq_Inr:
  "Parse s c = Inr m \<longleftrightarrow>
     Valid m \<and> 0 \<le> amount_of m \<and> s = money_String m \<and> c = currency_String (currency m)"
proof -
  have "Parse s c = Inr m \<longleftrightarrow> ParseCurrency c = Inr (currency m) \<and> parseMinorUnits s = Inr (minor m)"
    by (cases m) (auto simp: Parse_def bindR_eq_Inr)
  then show ?thesis
    by (auto simp: ParseCurrency_Inr parseMinorUnits_Inr money_String_eq amount_of_def Valid_def)
qed

lemma Parse_eq_Inl:
  "Parse s c = Inl e \<longleftrightarrow>
     (if c \<notin> {''BRL'', ''USD''} then e = EMoney MoneyInvalidCurrency
      else if \<not> canonicalAmount s then e = EMoney MoneyInvalidAmount
      else (\<forall>n < 2 ^ 63. s \<noteq> canonical_text n) \<and> e = EMoney MoneyOverflow)"
proof -
  have c: "ParseCurrency c = (if c \<notin> {''BRL'', ''USD''} then Inl (EMoney MoneyInvalidCurrency)
      else Inr (currency_of_string c))"
    by (simp add: ParseCurrency_def currency_of_string_def Supported_def)
  have p: "parseMinorUnits s = Inl e' \<longleftrightarrow>
     (if \<not> canonicalAmount s then e' = EMoney MoneyInvalidAmount
      else (\<forall>n < 2 ^ 63. s \<noteq> canonical_text n) \<and> e' = EMoney MoneyOverflow)" for e'
  proof (cases "canonicalAmount s")
    case True
    then obtain u d where s: "s = canonical_text (100 * u + d)" and b: "d < 100" "u < 10 ^ 17"
      by (rule canonical_shape)
    have "100 * u + d < 2 ^ 63 \<longleftrightarrow> (\<exists>n < 2 ^ 63. s = canonical_text n)"
      using parse_canonical_text [OF b] parseMinorUnits_print True s by (metis Inl_Inr_False)
    with parse_canonical_text [OF b] True s show ?thesis by auto
  qed (auto simp: parseMinorUnits_def)
  show ?thesis by (auto simp: Parse_def bindR_eq_Inl c p)
qed

text \<open>
  C20. Parsing accepts exactly the printed form of a valid, non-negative amount in its own
  currency, and returns that amount: printing and parsing are inverse to each other, no second
  spelling of an amount is accepted, and nothing above \<open>92233720368547758.07\<close> is.
\<close>

theorem parse_iff_printed:
  "Parse s c = Inr m \<longleftrightarrow>
     Valid m \<and> 0 \<le> amount_of m \<and> s = money_String m \<and> c = currency_String (currency m)"
  by (rule Parse_eq_Inr)

text \<open>
  Every failure of parsing: an unsupported currency first, then a spelling outside the
  canonical pattern, and last a canonical spelling whose value does not fit.
\<close>

theorem parse_errors:
  "Parse s c = Inl e \<longleftrightarrow>
     (if c \<notin> {''BRL'', ''USD''} then e = EMoney MoneyInvalidCurrency
      else if \<not> canonicalAmount s then e = EMoney MoneyInvalidAmount
      else (\<forall>n < 2 ^ 63. s \<noteq> canonical_text n) \<and> e = EMoney MoneyOverflow)"
  by (rule Parse_eq_Inl)

theorem parse_errors_witness:
  "Parse ''1.00'' ''EUR'' = Inl (EMoney MoneyInvalidCurrency) \<and>
     Parse ''1.0'' ''BRL'' = Inl (EMoney MoneyInvalidAmount)"
proof
  show "Parse ''1.00'' ''EUR'' = Inl (EMoney MoneyInvalidCurrency)"
    by (simp add: parse_errors)
  have "\<not> canonicalAmount ''1.0''" by code_simp
  then show "Parse ''1.0'' ''BRL'' = Inl (EMoney MoneyInvalidAmount)"
    by (simp add: parse_errors)
qed

lemma canonical_text_inj: "m < 2 ^ 63 \<Longrightarrow> n < 2 ^ 63 \<Longrightarrow> canonical_text m = canonical_text n \<Longrightarrow> m = n"
  using parseMinorUnits_print [of m] parseMinorUnits_print [of n]
  by (metis sint_of_nat_i64 sum.inject(2) of_nat_eq_iff)

section \<open>JSON\<close>

lemma canonical_text_plain: "list_all plain_char (canonical_text n)"
proof -
  have d: "list_all is_digit s \<Longrightarrow> list_all plain_char s" for s
    by (auto simp: list_all_iff digit_plain)
  have p: "plain_char CHR ''.''" "plain_char CHR ''0''" by (simp_all add: plain_char_def)
  show ?thesis
    using d [OF format_uint_digits] p by (simp add: canonical_text_def two_digits_def)
qed

lemma money_String_plain: "list_all plain_char (money_String m)"
  using canonical_text_plain by (simp add: money_String_eq plain_char_def)

text \<open>
  Decoding accepts only an object whose amount is a JSON string, the printed form of the
  result, and whose currency is one of the two supported: a JSON number, a missing amount, a
  negative amount, an unknown member are all refused.
\<close>

theorem unmarshal_only_strings:
  assumes "money_UnmarshalJSON data = Inr m"
  shows "Valid m \<and> 0 \<le> amount_of m \<and>
    (\<exists>ms. data = JObj ms \<and> json_member ''amount'' ms = Some (JStr (money_String m))
       \<and> json_string_field ''currency'' ms = Some (currency_String (currency m))
       \<and> (\<forall>(k, v) \<in> set ms. fold_name k \<in> {''amount'', ''currency''}))"
proof -
  have "\<not> canonicalAmount []" by (simp add: canonicalAmount_def)
  then have n: "Parse [] c \<noteq> Inr m" for c by (auto simp: Parse_def parseMinorUnits_def bindR_eq_Inr)
  from assms n show ?thesis
    by (auto simp: money_UnmarshalJSON_def Parse_eq_Inr list_ex_iff
        split: json.splits if_splits option.splits)
qed

text \<open>
  The document that \<open>MarshalJSON\<close> writes is exactly the object with the two members, and
  decoding those members gives the amount back when it is not negative.
\<close>

theorem marshal_unmarshal:
  assumes "Valid m"
  shows "money_MarshalJSON m =
      Inr (''{'' @ [CHR 0x22] @ ''amount'' @ [CHR 0x22] @ '':'' @ [CHR 0x22] @ money_String m @ [CHR 0x22]
        @ '','' @ [CHR 0x22] @ ''currency'' @ [CHR 0x22] @ '':''
        @ [CHR 0x22] @ currency_String (currency m) @ [CHR 0x22] @ ''}'')
    \<and> money_UnmarshalJSON (JObj [(''amount'', JStr (money_String m)),
        (''currency'', JStr (currency_String (currency m)))]) =
      (if 0 \<le> amount_of m then Inr m else Inl (EMoney MoneyInvalidAmount))"
proof -
  have c: "currency m = BRL \<or> currency m = USD" using assms by (simp add: Valid_def Supported_def)
  have pl: "list_all plain_char ''amount''" "list_all plain_char ''currency''"
    "list_all plain_char ''BRL''" "list_all plain_char ''USD''"
    by (simp_all add: plain_char_def)
  note js = json_string_def json_body_plain_string [OF money_String_plain]
    pl [THEN json_body_plain_string]
  have "money_MarshalJSON m = Inr (''{'' @ json_string True ''amount'' @ '':''
      @ json_string True (money_String m) @ '','' @ json_string True ''currency'' @ '':''
      @ json_string True (currency_String (currency m)) @ ''}'')"
    using assms by (simp add: money_MarshalJSON_def)
  moreover have "json_string True (currency_String (currency m)) =
      [CHR 0x22] @ currency_String (currency m) @ [CHR 0x22]"
    using c by (auto simp: js)
  moreover have "fold_name ''amount'' = ''amount''" "fold_name ''currency'' = ''currency''"
    by (simp_all add: lower_char_def)
  then have "money_UnmarshalJSON (JObj [(''amount'', JStr (money_String m)),
        (''currency'', JStr (currency_String (currency m)))]) =
      Parse (money_String m) (currency_String (currency m))"
    by (simp add: money_UnmarshalJSON_def json_string_field_def json_member_def json_members_def Let_def)
  moreover have "Parse (money_String m) (currency_String (currency m)) =
      (if 0 \<le> amount_of m then Inr m else Inl (EMoney MoneyInvalidAmount))"
    using assms c negative_not_canonical
    by (auto simp: Parse_eq_Inr Parse_eq_Inl money_String_eq split: if_splits)
  ultimately show ?thesis by (simp add: js)
qed

text \<open>Concrete runs.\<close>

lemma print_2500: "money_String \<lparr>minor = 2500, currency = BRL\<rparr> = ''25.00''"
  by (simp add: money_String_eq amount_of_def canonical_text_def two_digits_def
      format_uint_step format_uint_small digit_char_numerals)

theorem unmarshal_only_strings_witness:
  "money_UnmarshalJSON (JObj [(''currency'', JStr ''BRL''), (''amount'', JStr ''25.00'')])
     = Inr \<lparr>minor = 2500, currency = BRL\<rparr>
   \<and> (0::int) \<le> amount_of \<lparr>minor = 2500, currency = BRL\<rparr>"
proof -
  have "Parse ''25.00'' ''BRL'' = Inr \<lparr>minor = 2500, currency = BRL\<rparr>"
    by (simp add: Parse_eq_Inr print_2500 Valid_def Supported_def amount_of_def)
  then have h: "money_UnmarshalJSON (JObj [(''currency'', JStr ''BRL''), (''amount'', JStr ''25.00'')])
     = Inr \<lparr>minor = 2500, currency = BRL\<rparr>"
    by (simp add: money_UnmarshalJSON_def json_string_field_def json_member_def json_members_def
        lower_char_def Let_def)
  with unmarshal_only_strings [OF h] show ?thesis by simp
qed

theorem marshal_unmarshal_witness:
  "money_UnmarshalJSON (JObj [(''amount'', JStr (money_String \<lparr>minor = -1, currency = USD\<rparr>)),
        (''currency'', JStr ''USD'')]) = Inl (EMoney MoneyInvalidAmount)"
  using marshal_unmarshal [of "\<lparr>minor = -1, currency = USD\<rparr>"]
  by (simp add: Valid_def Supported_def amount_of_def)

end
