(* ===== verification/Wallet.thy ===== *)
theory Wallet
  imports Money
begin

text \<open>
  \<open>internal/domain/wallet\<close>: the wallet aggregate (\<open>wallet.go\<close>) and the entries of its
  append-only ledger (\<open>ledger.go\<close>). \<open>Debit\<close> and \<open>Credit\<close> mutate the receiver in Go; here
  they return the new wallet with the entry, and on an error there is no new wallet, as the
  Go code assigns no field before its last check. Facts: the invariant of a wallet, kept by
  every operation; exactly when a movement succeeds, what it changes, and which error every
  refused movement reports; each entry records the balances of its own movement.
\<close>

section \<open>Ledger entries\<close>

datatype direction = Debit | Credit | OtherDirection string

definition direction_Valid :: "direction \<Rightarrow> bool" where
  "direction_Valid d \<longleftrightarrow> d = Debit \<or> d = Credit"

record ledger_entry =
  le_id :: uuid
  le_walletID :: uuid
  le_transactionID :: uuid
  le_direction :: direction
  le_amount :: money
  le_balanceBefore :: money
  le_balanceAfter :: money
  le_walletVersion :: i64
  le_createdAt :: time

definition applyDirection :: "money \<Rightarrow> direction \<Rightarrow> money \<Rightarrow> money result" where
  "applyDirection balance d amount = (if d = Credit then Add balance amount else Sub balance amount)"

definition NewLedgerEntry ::
  "uuid \<Rightarrow> uuid \<Rightarrow> uuid \<Rightarrow> direction \<Rightarrow> money \<Rightarrow> money \<Rightarrow> money \<Rightarrow> i64 \<Rightarrow> time \<Rightarrow> ledger_entry result" where
  "NewLedgerEntry i walletID transactionID d amount balanceBefore balanceAfter walletVersion createdAt =
     (if i = uuid_Nil \<or> walletID = uuid_Nil \<or> transactionID = uuid_Nil
        then Inl (EWallet WalletMissingIdentifier)
      else if \<not> direction_Valid d then Inl (EWallet WalletInvalidDirection)
      else if \<not> Valid amount \<or> \<not> IsPositive amount then Inl (EWallet WalletInvalidAmount)
      else if \<not> Valid balanceBefore \<or> \<not> Valid balanceAfter then Inl (EMoney MoneyInvalidCurrency)
      else if currency balanceBefore \<noteq> currency amount \<or> currency balanceAfter \<noteq> currency amount
        then Inl (EMoney MoneyCurrencyMismatch)
      else if IsNegative balanceBefore \<or> IsNegative balanceAfter
        then Inl (EWallet WalletNegativeBalance)
      else if walletVersion <s 1 then Inl (EWallet WalletInvalidVersion)
      else if createdAt = time_zero then Inl (EWallet WalletMissingTimestamp)
      else bindR (applyDirection balanceBefore d amount) (\<lambda>expected.
        if \<not> Equal expected balanceAfter then Inl (EWallet WalletInconsistentLedgerEntry)
        else Inr \<lparr>le_id = i, le_walletID = walletID, le_transactionID = transactionID,
          le_direction = d, le_amount = amount, le_balanceBefore = balanceBefore,
          le_balanceAfter = balanceAfter, le_walletVersion = walletVersion,
          le_createdAt = createdAt\<rparr>))"

section \<open>The wallet\<close>

record wallet =
  w_id :: uuid
  w_playerID :: uuid
  w_balance :: money
  w_version :: i64
  w_createdAt :: time
  w_updatedAt :: time

definition initialVersion :: i64 where
  "initialVersion = 1"

text \<open>\<open>Open\<close>: a wallet opened with zero has no entry.\<close>

definition wallet_Open ::
  "uuid \<Rightarrow> uuid \<Rightarrow> money \<Rightarrow> uuid \<Rightarrow> uuid \<Rightarrow> time \<Rightarrow> (wallet \<times> ledger_entry option) result" where
  "wallet_Open i playerID initialBalance openingTransactionID openingEntryID now =
     (if i = uuid_Nil \<or> playerID = uuid_Nil then Inl (EWallet WalletMissingIdentifier)
      else if \<not> Valid initialBalance then Inl (EMoney MoneyInvalidCurrency)
      else if IsNegative initialBalance then Inl (EWallet WalletNegativeBalance)
      else if now = time_zero then Inl (EWallet WalletMissingTimestamp)
      else (let opened = \<lparr>w_id = i, w_playerID = playerID, w_balance = initialBalance,
                  w_version = initialVersion, w_createdAt = now, w_updatedAt = now\<rparr> in
        if IsZero initialBalance then Inr (opened, None)
        else bindR (money_Zero (currency initialBalance)) (\<lambda>zero.
          bindR (NewLedgerEntry openingEntryID i openingTransactionID Credit initialBalance
                   zero initialBalance initialVersion now) (\<lambda>entry.
          Inr (opened, Some entry)))))"

definition wallet_Rehydrate ::
  "uuid \<Rightarrow> uuid \<Rightarrow> money \<Rightarrow> i64 \<Rightarrow> time \<Rightarrow> time \<Rightarrow> wallet result" where
  "wallet_Rehydrate i playerID balance version createdAt updatedAt =
     (if i = uuid_Nil \<or> playerID = uuid_Nil then Inl (EWallet WalletMissingIdentifier)
      else if \<not> Valid balance then Inl (EMoney MoneyInvalidCurrency)
      else if IsNegative balance then Inl (EWallet WalletNegativeBalance)
      else if version <s initialVersion then Inl (EWallet WalletInvalidVersion)
      else if createdAt = time_zero \<or> updatedAt = time_zero then Inl (EWallet WalletMissingTimestamp)
      else Inr \<lparr>w_id = i, w_playerID = playerID, w_balance = balance, w_version = version,
             w_createdAt = createdAt, w_updatedAt = updatedAt\<rparr>)"

definition OwnedBy :: "wallet \<Rightarrow> uuid \<Rightarrow> bool" where
  "OwnedBy w playerID \<longleftrightarrow> w_playerID w = playerID"

definition wallet_move ::
  "wallet \<Rightarrow> direction \<Rightarrow> uuid \<Rightarrow> money \<Rightarrow> uuid \<Rightarrow> time \<Rightarrow> (ledger_entry \<times> wallet) result" where
  "wallet_move w d transactionID amount entryID now =
     (if transactionID = uuid_Nil \<or> entryID = uuid_Nil then Inl (EWallet WalletMissingIdentifier)
      else if now = time_zero then Inl (EWallet WalletMissingTimestamp)
      else if \<not> Valid amount \<or> \<not> IsPositive amount then Inl (EWallet WalletInvalidAmount)
      else if currency amount \<noteq> currency (w_balance w) then Inl (EMoney MoneyCurrencyMismatch)
      else bindR (applyDirection (w_balance w) d amount) (\<lambda>updatedBalance.
        if IsNegative updatedBalance then Inl (EWallet WalletInsufficientFunds)
        else bindR (NewLedgerEntry entryID (w_id w) transactionID d amount (w_balance w)
                      updatedBalance (w_version w + 1) now) (\<lambda>entry.
          Inr (entry, w\<lparr>w_balance := updatedBalance, w_version := w_version w + 1,
                         w_updatedAt := now\<rparr>))))"

definition wallet_Debit :: "wallet \<Rightarrow> uuid \<Rightarrow> money \<Rightarrow> uuid \<Rightarrow> time \<Rightarrow> (ledger_entry \<times> wallet) result" where
  "wallet_Debit w transactionID amount entryID now = wallet_move w Debit transactionID amount entryID now"

definition wallet_Credit :: "wallet \<Rightarrow> uuid \<Rightarrow> money \<Rightarrow> uuid \<Rightarrow> time \<Rightarrow> (ledger_entry \<times> wallet) result" where
  "wallet_Credit w transactionID amount entryID now = wallet_move w Credit transactionID amount entryID now"

section \<open>Invariants\<close>

definition wallet_inv :: "wallet \<Rightarrow> bool" where
  "wallet_inv w \<longleftrightarrow> w_id w \<noteq> uuid_Nil \<and> w_playerID w \<noteq> uuid_Nil \<and> Valid (w_balance w)
     \<and> 0 \<le> amount_of (w_balance w) \<and> 1 \<le> sint (w_version w)
     \<and> w_createdAt w \<noteq> time_zero \<and> w_updatedAt w \<noteq> time_zero"

text \<open>What a direction does to a balance, as an integer.\<close>

fun signed_amount :: "direction \<Rightarrow> money \<Rightarrow> int" where
  "signed_amount Credit m = amount_of m"
| "signed_amount _ m = - amount_of m"

definition entry_inv :: "ledger_entry \<Rightarrow> bool" where
  "entry_inv e \<longleftrightarrow> le_id e \<noteq> uuid_Nil \<and> le_walletID e \<noteq> uuid_Nil \<and> le_transactionID e \<noteq> uuid_Nil
     \<and> direction_Valid (le_direction e) \<and> Valid (le_amount e) \<and> 0 < amount_of (le_amount e)
     \<and> currency (le_balanceBefore e) = currency (le_amount e)
     \<and> currency (le_balanceAfter e) = currency (le_amount e)
     \<and> 0 \<le> amount_of (le_balanceBefore e) \<and> 0 \<le> amount_of (le_balanceAfter e)
     \<and> 1 \<le> sint (le_walletVersion e) \<and> le_createdAt e \<noteq> time_zero
     \<and> amount_of (le_balanceAfter e) = amount_of (le_balanceBefore e) + signed_amount (le_direction e) (le_amount e)"

lemma less_one: "v <s 1 \<longleftrightarrow> \<not> 1 \<le> sint (v :: i64)"
  by (simp add: i64_less not_le)

lemma Supported_Valid: "currency m = currency n \<Longrightarrow> Valid m \<longleftrightarrow> Valid n"
  by (simp add: Valid_def)

lemma applyDirection_eq_Inr:
  assumes "direction_Valid d"
  shows "applyDirection b d a = Inr r \<longleftrightarrow>
    Valid b \<and> Valid a \<and> currency b = currency a \<and> amount_of b + signed_amount d a < 2 ^ 63
    \<and> - (2 ^ 63) \<le> amount_of b + signed_amount d a
    \<and> amount_of r = amount_of b + signed_amount d a \<and> currency r = currency b"
  using assms by (auto simp: applyDirection_def direction_Valid_def Add_eq_Inr Sub_eq_Inr)

lemma NewLedgerEntry_eq_Inr:
  "NewLedgerEntry i wid tid d a b b' v t = Inr e \<longleftrightarrow>
     e = \<lparr>le_id = i, le_walletID = wid, le_transactionID = tid, le_direction = d, le_amount = a,
          le_balanceBefore = b, le_balanceAfter = b', le_walletVersion = v, le_createdAt = t\<rparr>
     \<and> entry_inv e"
proof (cases "direction_Valid d \<and> currency b = currency a \<and> currency b' = currency a \<and> Valid a")
  case True
  note r = amount_range [of b']
  have "applyDirection b d a = Inr b' \<longleftrightarrow> amount_of b' = amount_of b + signed_amount d a"
    using True r by (auto simp: applyDirection_eq_Inr Valid_def)
  then show ?thesis
    using True Supported_Valid [of b a] Supported_Valid [of b' a]
    by (auto simp: NewLedgerEntry_def entry_inv_def bindR_eq_Inr sign_simps less_one)
next
  case False
  then show ?thesis by (auto simp: NewLedgerEntry_def entry_inv_def)
qed

lemma wallet_Rehydrate_eq_Inr:
  "wallet_Rehydrate i p b v c u = Inr w \<longleftrightarrow>
     w = \<lparr>w_id = i, w_playerID = p, w_balance = b, w_version = v, w_createdAt = c, w_updatedAt = u\<rparr>
     \<and> wallet_inv w"
  by (auto simp: wallet_Rehydrate_def wallet_inv_def sign_simps less_one initialVersion_def
      split: if_splits)

lemma wallet_Open_eq_Inr:
  "wallet_Open i p b tid eid now = Inr (w, oe) \<longleftrightarrow>
     w = \<lparr>w_id = i, w_playerID = p, w_balance = b, w_version = 1, w_createdAt = now, w_updatedAt = now\<rparr>
     \<and> wallet_inv w
     \<and> (if amount_of b = 0 then oe = None
        else oe = Some \<lparr>le_id = eid, le_walletID = i, le_transactionID = tid, le_direction = Credit,
               le_amount = b, le_balanceBefore = \<lparr>minor = 0, currency = currency b\<rparr>,
               le_balanceAfter = b, le_walletVersion = 1, le_createdAt = now\<rparr>
             \<and> eid \<noteq> uuid_Nil \<and> tid \<noteq> uuid_Nil)"
proof -
  have z: "amount_of \<lparr>minor = 0, currency = c\<rparr> = 0" for c by (simp add: amount_of_def)
  show ?thesis
    by (auto simp: wallet_Open_def Let_def wallet_inv_def sign_simps bindR_eq_Inr money_Zero_def
        FromMinor_def Valid_def NewLedgerEntry_eq_Inr entry_inv_def z initialVersion_def direction_Valid_def
        split: if_splits)
qed

text \<open>The abstract movement: conditions, entry and new wallet.\<close>

definition movement_allowed :: "wallet \<Rightarrow> direction \<Rightarrow> money \<Rightarrow> bool" where
  "movement_allowed w d a \<longleftrightarrow> Valid a \<and> 0 < amount_of a \<and> currency a = currency (w_balance w)
     \<and> 0 \<le> amount_of (w_balance w) + signed_amount d a
     \<and> amount_of (w_balance w) + signed_amount d a < 2 ^ 63
     \<and> sint (w_version w) < 2 ^ 63 - 1"

definition moved_balance :: "money \<Rightarrow> direction \<Rightarrow> money \<Rightarrow> money" where
  "moved_balance b d a =
     \<lparr>minor = (if d = Credit then minor b + minor a else minor b - minor a), currency = currency b\<rparr>"

definition moved_wallet :: "wallet \<Rightarrow> direction \<Rightarrow> money \<Rightarrow> time \<Rightarrow> wallet" where
  "moved_wallet w d a now = w\<lparr>w_balance := moved_balance (w_balance w) d a,
     w_version := w_version w + 1, w_updatedAt := now\<rparr>"

definition moved_entry :: "wallet \<Rightarrow> direction \<Rightarrow> uuid \<Rightarrow> money \<Rightarrow> uuid \<Rightarrow> time \<Rightarrow> ledger_entry" where
  "moved_entry w d tid a eid now =
     \<lparr>le_id = eid, le_walletID = w_id w, le_transactionID = tid, le_direction = d, le_amount = a,
      le_balanceBefore = w_balance w, le_balanceAfter = moved_balance (w_balance w) d a,
      le_walletVersion = w_version w + 1, le_createdAt = now\<rparr>"

lemma currency_moved [simp]: "currency (moved_balance b d a) = currency b"
  by (simp add: moved_balance_def)

lemma applyDirection_moved:
  assumes "direction_Valid d" "Valid b" "Valid a" "currency b = currency a"
    "amount_of b + signed_amount d a < 2 ^ 63" "- (2 ^ 63) \<le> amount_of b + signed_amount d a"
  shows "applyDirection b d a = Inr (moved_balance b d a)"
    and "amount_of (moved_balance b d a) = amount_of b + signed_amount d a"
proof -
  show "applyDirection b d a = Inr (moved_balance b d a)"
    using assms by (auto simp: applyDirection_def direction_Valid_def moved_balance_def Add_eq Sub_eq)
  then show "amount_of (moved_balance b d a) = amount_of b + signed_amount d a"
    using assms by (simp add: applyDirection_eq_Inr)
qed

lemma version_succ: "1 \<le> sint v \<Longrightarrow> 1 \<le> sint (v + 1) \<longleftrightarrow> sint (v :: i64) < 2 ^ 63 - 1"
  and version_succ_eq: "sint v < 2 ^ 63 - 1 \<Longrightarrow> sint (v + 1) = sint v + 1"
proof -
  note r = i64_range [of v]
  show e: "sint (v + 1) = sint v + 1" if "sint v < 2 ^ 63 - 1"
    using that r by (simp add: sint_add_i64 wrap64_id)
  show "1 \<le> sint (v + 1) \<longleftrightarrow> sint v < 2 ^ 63 - 1" if "1 \<le> sint v"
  proof (cases "sint v < 2 ^ 63 - 1")
    case True
    with e that show ?thesis by simp
  next
    case False
    with r have "sint v = 2 ^ 63 - 1" by simp
    then have "v = max_i64" by (intro i64_eqI) simp
    then show ?thesis by (simp add: max_i64_def)
  qed
qed

lemma amount_moved:
  assumes "wallet_inv w" "direction_Valid d" "movement_allowed w d a"
  shows "amount_of (moved_balance (w_balance w) d a) = amount_of (w_balance w) + signed_amount d a"
  using assms by (intro applyDirection_moved) (auto simp: movement_allowed_def wallet_inv_def)

lemma wallet_move_eq_Inr:
  assumes w: "wallet_inv w" and d: "direction_Valid d"
  shows "wallet_move w d tid a eid now = Inr r \<longleftrightarrow>
    tid \<noteq> uuid_Nil \<and> eid \<noteq> uuid_Nil \<and> now \<noteq> time_zero \<and> movement_allowed w d a
    \<and> r = (moved_entry w d tid a eid now, moved_wallet w d a now)"
    (is "?L \<longleftrightarrow> ?R")
proof
  assume ?R
  then have allowed: "movement_allowed w d a" by simp
  note b = amount_moved [OF w d allowed]
  have "applyDirection (w_balance w) d a = Inr (moved_balance (w_balance w) d a)"
    using allowed w d by (intro applyDirection_moved) (auto simp: movement_allowed_def wallet_inv_def)
  moreover have "entry_inv (moved_entry w d tid a eid now)"
    using \<open>?R\<close> w d b
    by (simp add: entry_inv_def moved_entry_def movement_allowed_def wallet_inv_def version_succ)
  then have "NewLedgerEntry eid (w_id w) tid d a (w_balance w) (moved_balance (w_balance w) d a)
      (w_version w + 1) now = Inr (moved_entry w d tid a eid now)"
    by (simp add: NewLedgerEntry_eq_Inr moved_entry_def)
  ultimately show ?L
    using \<open>?R\<close> b by (simp add: wallet_move_def sign_simps movement_allowed_def moved_wallet_def)
next
  assume ?L
  then obtain b e where b: "applyDirection (w_balance w) d a = Inr b" and nb: "\<not> IsNegative b"
    and e: "NewLedgerEntry eid (w_id w) tid d a (w_balance w) b (w_version w + 1) now = Inr e"
    and g: "tid \<noteq> uuid_Nil" "eid \<noteq> uuid_Nil" "now \<noteq> time_zero" "Valid a" "IsPositive a"
      "currency a = currency (w_balance w)"
    and r: "r = (e, w\<lparr>w_balance := b, w_version := w_version w + 1, w_updatedAt := now\<rparr>)"
    by (auto simp: wallet_move_def bindR_eq_Inr split: if_splits)
  have allowed: "movement_allowed w d a"
    using b nb e g w d
    by (auto simp: movement_allowed_def sign_simps applyDirection_eq_Inr NewLedgerEntry_eq_Inr
        entry_inv_def wallet_inv_def version_succ)
  then have "b = moved_balance (w_balance w) d a"
    using applyDirection_moved [of d "w_balance w" a] b w d
    by (auto simp: movement_allowed_def wallet_inv_def)
  with allowed e g r show ?R
    by (simp add: NewLedgerEntry_eq_Inr moved_entry_def moved_wallet_def)
qed

lemma wallet_move_inv:
  assumes "wallet_inv w" "direction_Valid d" "wallet_move w d tid a eid now = Inr (e, w')"
  shows "wallet_inv w' \<and> entry_inv e"
  using assms amount_moved [of w d a]
  by (auto simp: wallet_move_eq_Inr movement_allowed_def wallet_inv_def entry_inv_def version_succ
      moved_wallet_def moved_entry_def Valid_def)

lemma wallet_move_Inl:
  assumes w: "wallet_inv w" and d: "direction_Valid d"
    and i: "tid \<noteq> uuid_Nil" "eid \<noteq> uuid_Nil" "now \<noteq> time_zero"
    and a: "Valid a" "0 < amount_of a" "currency a = currency (w_balance w)"
  shows "wallet_move w d tid a eid now = Inl e \<longleftrightarrow>
    (if 2 ^ 63 \<le> amount_of (w_balance w) + signed_amount d a then e = EMoney MoneyOverflow
     else if amount_of (w_balance w) + signed_amount d a < 0 then e = EWallet WalletInsufficientFunds
     else sint (w_version w) = 2 ^ 63 - 1 \<and> e = EWallet WalletInvalidVersion)"
proof -
  let ?b = "w_balance w" and ?s = "amount_of (w_balance w) + signed_amount d a"
  have V: "Valid ?b" "0 \<le> amount_of ?b" using w by (simp_all add: wallet_inv_def)
  have low: "- (2 ^ 63) \<le> ?s" using V a amount_range [of a] d by (auto simp: direction_Valid_def)
  consider "2 ^ 63 \<le> ?s" | "?s < 0" | "0 \<le> ?s" "?s < 2 ^ 63" by linarith
  then show ?thesis
  proof cases
    case 1
    then have "d = Credit" using V a d amount_range [of ?b] by (auto simp: direction_Valid_def)
    then have "applyDirection ?b d a = Inl (EMoney MoneyOverflow)"
      using 1 V a by (simp add: applyDirection_def Add_eq)
    with 1 i a show ?thesis by (auto simp: wallet_move_def sign_simps)
  next
    case 2
    then have ap: "applyDirection ?b d a = Inr (moved_balance ?b d a)"
      and am: "amount_of (moved_balance ?b d a) = ?s"
      using applyDirection_moved [of d ?b a] d V a low by simp_all
    show ?thesis using 2 i a ap am by (auto simp: wallet_move_def sign_simps)
  next
    case 3
    then have ap: "applyDirection ?b d a = Inr (moved_balance ?b d a)"
      and am: "amount_of (moved_balance ?b d a) = ?s"
      using applyDirection_moved [of d ?b a] d V a low by simp_all
    have e: "NewLedgerEntry eid (w_id w) tid d a ?b (moved_balance ?b d a) (w_version w + 1) now =
        (if sint (w_version w) = 2 ^ 63 - 1 then Inl (EWallet WalletInvalidVersion)
         else Inr (moved_entry w d tid a eid now))"
    proof (cases "sint (w_version w) = 2 ^ 63 - 1")
      case True
      with w have "\<not> 1 \<le> sint (w_version w + 1)" by (simp add: version_succ wallet_inv_def)
      with True 3 i a d V am w show ?thesis
        by (simp add: NewLedgerEntry_def sign_simps less_one Valid_def wallet_inv_def)
    next
      case False
      with i64_range [of "w_version w"] have "sint (w_version w) < 2 ^ 63 - 1" by simp
      with 3 i a d V am w have "entry_inv (moved_entry w d tid a eid now)"
        by (simp add: entry_inv_def moved_entry_def wallet_inv_def version_succ)
      with False show ?thesis by (simp add: NewLedgerEntry_eq_Inr moved_entry_def)
    qed
    show ?thesis using 3 i a ap am e by (auto simp: wallet_move_def sign_simps)
  qed
qed

section \<open>Properties\<close>

text \<open>A wallet to run on.\<close>

definition sample_wallet :: wallet where
  "sample_wallet = \<lparr>w_id = 1, w_playerID = 2, w_balance = \<lparr>minor = 10000, currency = BRL\<rparr>,
     w_version = 1, w_createdAt = 5, w_updatedAt = 5\<rparr>"

lemma sample_wallet_inv: "wallet_inv sample_wallet"
  by (simp add: wallet_inv_def sample_wallet_def Valid_def Supported_def amount_of_def)

text \<open>
  C17. A movement either succeeds with exactly the intended effect - the balance moves by the
  amount in the given direction, the version grows by one, identity, owner and creation time
  stay, the entry records the balance before and after under the new version, and both the
  wallet and the entry are well formed - or the wallet is not replaced at all.
\<close>

theorem movement_effect:
  assumes "wallet_inv w" and "direction_Valid d"
    and "wallet_move w d transactionID a entryID now = Inr (e, w')"
  shows "wallet_inv w' \<and> entry_inv e
    \<and> amount_of (w_balance w') = amount_of (w_balance w) + signed_amount d a
    \<and> currency (w_balance w') = currency (w_balance w)
    \<and> sint (w_version w') = sint (w_version w) + 1
    \<and> w_id w' = w_id w \<and> w_playerID w' = w_playerID w \<and> w_createdAt w' = w_createdAt w
    \<and> w_updatedAt w' = now
    \<and> le_walletID e = w_id w \<and> le_transactionID e = transactionID \<and> le_direction e = d
    \<and> le_amount e = a \<and> le_balanceBefore e = w_balance w \<and> le_balanceAfter e = w_balance w'
    \<and> le_walletVersion e = w_version w'"
proof -
  from assms have r: "movement_allowed w d a" "e = moved_entry w d transactionID a entryID now"
    "w' = moved_wallet w d a now"
    by (auto simp: wallet_move_eq_Inr)
  have "sint (w_version w) < 2 ^ 63 - 1" using r(1) by (simp add: movement_allowed_def)
  then show ?thesis
    using wallet_move_inv [OF assms] amount_moved [OF assms(1,2) r(1)]
    by (simp add: r(2,3) moved_entry_def moved_wallet_def version_succ_eq)
qed

theorem movement_effect_witness:
  "\<exists>e w'. wallet_move sample_wallet Debit 7 \<lparr>minor = 2500, currency = BRL\<rparr> 8 9 = Inr (e, w')
     \<and> amount_of (w_balance w') = 7500 \<and> sint (w_version w') = 2"
proof -
  let ?a = "\<lparr>minor = 2500, currency = BRL\<rparr>"
  have "movement_allowed sample_wallet Debit ?a"
    by (simp add: movement_allowed_def sample_wallet_def Valid_def Supported_def amount_of_def)
  then have m: "wallet_move sample_wallet Debit 7 ?a 8 9 =
      Inr (moved_entry sample_wallet Debit 7 ?a 8 9, moved_wallet sample_wallet Debit ?a 9)"
    by (simp add: wallet_move_eq_Inr [OF sample_wallet_inv] direction_Valid_def)
  have "direction_Valid Debit" by (simp add: direction_Valid_def)
  from movement_effect [OF sample_wallet_inv this m] m show ?thesis
    by (auto simp: sample_wallet_def amount_of_def)
qed

text \<open>
  Which movements are refused, and why, on a well-formed wallet and request: a credit that
  would pass the \<open>int64\<close> range is an overflow, a debit above the balance is insufficient funds,
  and the only other refusal is a wallet whose version cannot grow any more. The balance can
  therefore never become negative.
\<close>

theorem movement_refusals:
  assumes "wallet_inv w" and "direction_Valid d"
    and "transactionID \<noteq> uuid_Nil" and "entryID \<noteq> uuid_Nil" and "now \<noteq> time_zero"
    and "Valid a" and "0 < amount_of a" and "currency a = currency (w_balance w)"
  shows "wallet_move w d transactionID a entryID now = Inl e \<longleftrightarrow>
    (if 2 ^ 63 \<le> amount_of (w_balance w) + signed_amount d a then e = EMoney MoneyOverflow
     else if amount_of (w_balance w) + signed_amount d a < 0 then e = EWallet WalletInsufficientFunds
     else sint (w_version w) = 2 ^ 63 - 1 \<and> e = EWallet WalletInvalidVersion)"
  by (rule wallet_move_Inl [OF assms])

theorem movement_refusals_witness:
  "wallet_move sample_wallet Debit 7 \<lparr>minor = 10001, currency = BRL\<rparr> 8 9
     = Inl (EWallet WalletInsufficientFunds)"
  using movement_refusals [of sample_wallet Debit 7 8 9 "\<lparr>minor = 10001, currency = BRL\<rparr>"
      "EWallet WalletInsufficientFunds"] sample_wallet_inv
  by (simp add: direction_Valid_def Valid_def Supported_def amount_of_def sample_wallet_def)

end
