(* ===== verification/Wagering.thy ===== *)
theory Wagering
  imports Wallet
begin

text \<open>
  \<open>internal/domain/wagering/kind.go\<close> and \<open>transaction.go\<close>: the operation of a provider, its
  kinds, statuses, origins and failure codes, its constructors, the reading back of a
  persisted one (\<open>Rehydrate\<close>) and the transitions of its state machine. Every method that
  mutates the receiver returns the new value here. Facts: whatever the constructors and the
  transitions produce passes the checks of \<open>Rehydrate\<close>; the transitions are those of the
  state diagram, terminal states have none, and no transition touches an identity field.
\<close>

section \<open>Kinds, statuses, origins, failure codes\<close>

datatype kind = Opening | Bet | Win | Loss | Refund | Rollback | OtherKind string

definition kind_of_string :: "string \<Rightarrow> kind" where
  "kind_of_string s =
     (if s = ''OPENING'' then Opening else if s = ''BET'' then Bet else if s = ''WIN'' then Win
      else if s = ''LOSS'' then Loss else if s = ''REFUND'' then Refund
      else if s = ''ROLLBACK'' then Rollback else OtherKind s)"

fun kind_String :: "kind \<Rightarrow> string" where
  "kind_String Opening = ''OPENING''"
| "kind_String Bet = ''BET''"
| "kind_String Win = ''WIN''"
| "kind_String Loss = ''LOSS''"
| "kind_String Refund = ''REFUND''"
| "kind_String Rollback = ''ROLLBACK''"
| "kind_String (OtherKind s) = s"

definition kind_Valid :: "kind \<Rightarrow> bool" where
  "kind_Valid k \<longleftrightarrow> k \<in> {Opening, Bet, Win, Loss, Refund, Rollback}"

definition kind_External :: "kind \<Rightarrow> bool" where
  "kind_External k \<longleftrightarrow> kind_Valid k \<and> k \<noteq> Opening"

definition Reversal :: "kind \<Rightarrow> bool" where
  "Reversal k \<longleftrightarrow> k = Refund \<or> k = Rollback"

definition RequiresReference :: "kind \<Rightarrow> bool" where
  "RequiresReference k \<longleftrightarrow> Reversal k"

definition ForbidsReference :: "kind \<Rightarrow> bool" where
  "ForbidsReference k \<longleftrightarrow> k = Bet \<or> k = Loss"

definition MovesBalance :: "kind \<Rightarrow> bool" where
  "MovesBalance k \<longleftrightarrow> k \<noteq> Loss"

datatype status = Pending | PendingReference | Processed | Rejected | Failed | OtherStatus string

definition status_Valid :: "status \<Rightarrow> bool" where
  "status_Valid s \<longleftrightarrow> s \<in> {Pending, PendingReference, Processed, Rejected, Failed}"

definition Terminal :: "status \<Rightarrow> bool" where
  "Terminal s \<longleftrightarrow> s = Processed \<or> s = Rejected \<or> s = Failed"

datatype origin = Internal | HTTP | Queue | OtherOrigin string

definition origin_Valid :: "origin \<Rightarrow> bool" where
  "origin_Valid r \<longleftrightarrow> r = Internal \<or> r = HTTP \<or> r = Queue"

definition origin_External :: "origin \<Rightarrow> bool" where
  "origin_External r \<longleftrightarrow> r = HTTP \<or> r = Queue"

datatype failure_code = InsufficientFunds | ReversalInsufficientFunds | BalanceLimitExceeded
  | ReferenceNotFound | ReferenceNotProcessed | ReferenceMismatch | ReferenceKindNotAllowed
  | AlreadyReversed | CurrencyMismatch | WalletPlayerMismatch | PermanentFailure
  | OtherFailure string

text \<open>The empty code, \<open>""\<close>.\<close>

definition no_failure :: failure_code where
  "no_failure = OtherFailure []"

definition failure_Valid :: "failure_code \<Rightarrow> bool" where
  "failure_Valid f \<longleftrightarrow> f \<in> {InsufficientFunds, ReversalInsufficientFunds, BalanceLimitExceeded,
     ReferenceNotFound, ReferenceNotProcessed, ReferenceMismatch, ReferenceKindNotAllowed,
     AlreadyReversed, CurrencyMismatch, WalletPlayerMismatch, PermanentFailure}"

lemmas kind_defs = kind_External_def kind_Valid_def Reversal_def RequiresReference_def
  ForbidsReference_def MovesBalance_def

section \<open>Transactions\<close>

text \<open>
  The struct \<open>Transaction\<close>; \<open>Snapshot\<close> has the same fields, exported, and is the same record
  here. An absent string, identifier or instant is its zero value, an absent balance is
  \<open>Money{}\<close>.
\<close>

record tx =
  t_id :: uuid
  t_origin :: origin
  t_kind :: kind
  t_status :: status
  t_walletID :: uuid
  t_playerID :: uuid
  t_amount :: money
  t_providerID :: string
  t_externalTransactionID :: string
  t_idempotencyKey :: string
  t_payloadHash :: string
  t_roundID :: string
  t_gameID :: string
  t_referenceExternalID :: string
  t_referenceTransactionID :: uuid
  t_failureCode :: failure_code
  t_resultBalance :: money
  t_referenceAttempts :: int
  t_nextAttemptAt :: time
  t_referenceDeadlineAt :: time
  t_correlationID :: string
  t_createdAt :: time
  t_updatedAt :: time
  t_completedAt :: time

record command =
  c_origin :: origin
  c_kind :: kind
  c_providerID :: string
  c_externalTransactionID :: string
  c_idempotencyKey :: string
  c_payloadHash :: string
  c_playerID :: uuid
  c_walletID :: uuid
  c_roundID :: string
  c_gameID :: string
  c_amount :: money
  c_referenceExternalID :: string
  c_correlationID :: string

definition checkAmountPolicy :: "kind \<Rightarrow> money \<Rightarrow> unit result" where
  "checkAmountPolicy k amount =
     (if \<not> Valid amount then Inl (EMoney MoneyInvalidCurrency)
      else if k = Loss then
        (if \<not> IsZero amount then Inl (EWagering WageringInvalidAmount) else Inr ())
      else if \<not> IsPositive amount then Inl (EWagering WageringInvalidAmount)
      else Inr ())"

definition NewExternal :: "command \<Rightarrow> uuid \<Rightarrow> time \<Rightarrow> tx result" where
  "NewExternal c i now =
     (if i = uuid_Nil \<or> c_walletID c = uuid_Nil \<or> c_playerID c = uuid_Nil
        then Inl (EWagering WageringMissingIdentifier)
      else if now = time_zero then Inl (EWagering WageringMissingTimestamp)
      else if \<not> origin_External (c_origin c) then Inl (EWagering WageringInvalidOrigin)
      else if \<not> kind_External (c_kind c) then Inl (EWagering WageringInvalidKind)
      else if list_ex blank [c_providerID c, c_externalTransactionID c, c_idempotencyKey c,
                c_roundID c, c_gameID c, c_correlationID c]
        then Inl (EWagering WageringMissingField)
      else if \<not> hash_pattern (c_payloadHash c) then Inl (EWagering WageringInvalidPayloadHash)
      else bindR (checkAmountPolicy (c_kind c) (c_amount c)) (\<lambda>_.
        if RequiresReference (c_kind c) \<and> c_referenceExternalID c = []
          then Inl (EWagering WageringReferenceRequired)
        else if ForbidsReference (c_kind c) \<and> c_referenceExternalID c \<noteq> []
          then Inl (EWagering WageringReferenceForbidden)
        else Inr \<lparr>t_id = i, t_origin = c_origin c, t_kind = c_kind c, t_status = Pending,
          t_walletID = c_walletID c, t_playerID = c_playerID c, t_amount = c_amount c,
          t_providerID = c_providerID c, t_externalTransactionID = c_externalTransactionID c,
          t_idempotencyKey = c_idempotencyKey c, t_payloadHash = c_payloadHash c,
          t_roundID = c_roundID c, t_gameID = c_gameID c,
          t_referenceExternalID = c_referenceExternalID c, t_referenceTransactionID = uuid_Nil,
          t_failureCode = no_failure, t_resultBalance = money_zero_value, t_referenceAttempts = 0,
          t_nextAttemptAt = time_zero, t_referenceDeadlineAt = time_zero,
          t_correlationID = c_correlationID c, t_createdAt = now, t_updatedAt = now,
          t_completedAt = time_zero\<rparr>))"

definition NewOpening :: "uuid \<Rightarrow> uuid \<Rightarrow> uuid \<Rightarrow> money \<Rightarrow> string \<Rightarrow> time \<Rightarrow> tx result" where
  "NewOpening i walletID playerID amount correlationID now =
     (if i = uuid_Nil \<or> walletID = uuid_Nil \<or> playerID = uuid_Nil
        then Inl (EWagering WageringMissingIdentifier)
      else if now = time_zero then Inl (EWagering WageringMissingTimestamp)
      else if blank correlationID then Inl (EWagering WageringMissingField)
      else if \<not> Valid amount \<or> \<not> IsPositive amount then Inl (EWagering WageringInvalidAmount)
      else Inr \<lparr>t_id = i, t_origin = Internal, t_kind = Opening, t_status = Processed,
        t_walletID = walletID, t_playerID = playerID, t_amount = amount,
        t_providerID = [], t_externalTransactionID = [], t_idempotencyKey = [], t_payloadHash = [],
        t_roundID = [], t_gameID = [], t_referenceExternalID = [],
        t_referenceTransactionID = uuid_Nil, t_failureCode = no_failure, t_resultBalance = amount,
        t_referenceAttempts = 0, t_nextAttemptAt = time_zero, t_referenceDeadlineAt = time_zero,
        t_correlationID = correlationID, t_createdAt = now, t_updatedAt = now,
        t_completedAt = now\<rparr>)"

text \<open>\<open>Snapshot.validate\<close>, in two halves: the constructor's checks again, and the settlement state.\<close>

definition snapshot_command :: "tx \<Rightarrow> command" where
  "snapshot_command s = \<lparr>c_origin = t_origin s, c_kind = t_kind s, c_providerID = t_providerID s,
     c_externalTransactionID = t_externalTransactionID s, c_idempotencyKey = t_idempotencyKey s,
     c_payloadHash = t_payloadHash s, c_playerID = t_playerID s, c_walletID = t_walletID s,
     c_roundID = t_roundID s, c_gameID = t_gameID s, c_amount = t_amount s,
     c_referenceExternalID = t_referenceExternalID s, c_correlationID = t_correlationID s\<rparr>"

definition validate_origin :: "tx \<Rightarrow> unit result" where
  "validate_origin s =
     (if t_kind s = Opening then
        (if t_origin s \<noteq> Internal \<or> t_status s \<noteq> Processed \<or> t_providerID s \<noteq> []
            \<or> t_externalTransactionID s \<noteq> [] \<or> t_idempotencyKey s \<noteq> [] \<or> t_payloadHash s \<noteq> []
            \<or> t_roundID s \<noteq> [] \<or> t_gameID s \<noteq> [] \<or> t_referenceExternalID s \<noteq> []
            \<or> t_referenceTransactionID s \<noteq> uuid_Nil
         then Inl (EWagering WageringInvalidSnapshot)
         else bindR (NewOpening (t_id s) (t_walletID s) (t_playerID s) (t_amount s)
                       (t_correlationID s) (t_createdAt s)) (\<lambda>_.
           if t_resultBalance s \<noteq> t_amount s then Inl (EWagering WageringInvalidSnapshot) else Inr ()))
      else bindR (NewExternal (snapshot_command s) (t_id s) (t_createdAt s)) (\<lambda>_. Inr ()))"

definition validate_settlement :: "tx \<Rightarrow> unit result" where
  "validate_settlement s =
     (case t_status s of
        Processed \<Rightarrow>
          if \<not> Valid (t_resultBalance s) \<or> IsNegative (t_resultBalance s)
            then Inl (EWagering WageringInvalidAmount)
          else if t_failureCode s \<noteq> no_failure \<or> currency (t_resultBalance s) \<noteq> currency (t_amount s)
              \<or> Reversal (t_kind s) \<and> t_referenceTransactionID s = uuid_Nil
            then Inl (EWagering WageringInvalidSnapshot)
          else Inr ()
      | Rejected \<Rightarrow>
          if \<not> Valid (t_resultBalance s) \<or> IsNegative (t_resultBalance s)
            then Inl (EWagering WageringInvalidAmount)
          else if \<not> failure_Valid (t_failureCode s) \<or> t_failureCode s = PermanentFailure
            then Inl (EWagering WageringInvalidFailureCode)
          else Inr ()
      | Failed \<Rightarrow>
          if \<not> Reversal (t_kind s) \<or> t_failureCode s \<noteq> PermanentFailure \<or> Valid (t_resultBalance s)
            then Inl (EWagering WageringInvalidSnapshot)
          else Inr ()
      | _ \<Rightarrow>
          if t_failureCode s \<noteq> no_failure \<or> Valid (t_resultBalance s)
              \<or> t_referenceTransactionID s \<noteq> uuid_Nil
            then Inl (EWagering WageringInvalidSnapshot)
          else Inr ())"

definition snapshot_validate :: "tx \<Rightarrow> unit result" where
  "snapshot_validate s =
     bindR (validate_origin s) (\<lambda>_.
     if t_referenceAttempts s < 0 \<or> t_referenceTransactionID s = t_id s
        \<or> t_referenceTransactionID s \<noteq> uuid_Nil
          \<and> (ForbidsReference (t_kind s) \<or> t_referenceExternalID s = [])
       then Inl (EWagering WageringInvalidSnapshot)
     else if Terminal (t_status s) = (t_completedAt s = time_zero)
       then Inl (EWagering WageringInvalidSnapshot)
     else if t_status s = PendingReference
        \<and> (\<not> Reversal (t_kind s) \<or> t_nextAttemptAt s = time_zero \<or> t_referenceDeadlineAt s = time_zero)
       then Inl (EWagering WageringInvalidSnapshot)
     else if t_status s \<noteq> PendingReference
        \<and> (t_nextAttemptAt s \<noteq> time_zero \<or> t_referenceDeadlineAt s \<noteq> time_zero)
       then Inl (EWagering WageringInvalidSnapshot)
     else validate_settlement s)"

definition Rehydrate :: "tx \<Rightarrow> tx result" where
  "Rehydrate s =
     (if t_id s = uuid_Nil \<or> t_walletID s = uuid_Nil \<or> t_playerID s = uuid_Nil
        then Inl (EWagering WageringMissingIdentifier)
      else if \<not> origin_Valid (t_origin s) then Inl (EWagering WageringInvalidOrigin)
      else if \<not> kind_Valid (t_kind s) then Inl (EWagering WageringInvalidKind)
      else if \<not> status_Valid (t_status s) then Inl (EWagering WageringInvalidStatus)
      else if t_failureCode s \<noteq> no_failure \<and> \<not> failure_Valid (t_failureCode s)
        then Inl (EWagering WageringInvalidFailureCode)
      else if t_createdAt s = time_zero \<or> t_updatedAt s = time_zero
        then Inl (EWagering WageringMissingTimestamp)
      else bindR (snapshot_validate s) (\<lambda>_. Inr s))"

section \<open>Transitions\<close>

definition canSettle :: "tx \<Rightarrow> time \<Rightarrow> unit result" where
  "canSettle t now =
     (if now = time_zero then Inl (EWagering WageringMissingTimestamp)
      else if t_status t \<noteq> Pending \<and> t_status t \<noteq> PendingReference
        then Inl (EWagering WageringTransitionNotAllowed)
      else Inr ())"

definition clearSchedule :: "tx \<Rightarrow> tx" where
  "clearSchedule t = t\<lparr>t_nextAttemptAt := time_zero, t_referenceDeadlineAt := time_zero\<rparr>"

definition MarkProcessed :: "tx \<Rightarrow> money \<Rightarrow> uuid \<Rightarrow> time \<Rightarrow> tx result" where
  "MarkProcessed t resultBalance referenceTransactionID now =
     bindR (canSettle t now) (\<lambda>_.
     if \<not> Valid resultBalance \<or> IsNegative resultBalance
        \<or> currency resultBalance \<noteq> currency (t_amount t)
       then Inl (EWagering WageringInvalidAmount)
     else if Reversal (t_kind t) \<and> referenceTransactionID = uuid_Nil
       then Inl (EWagering WageringReferenceRequired)
     else if referenceTransactionID = t_id t
        \<or> referenceTransactionID \<noteq> uuid_Nil
          \<and> (ForbidsReference (t_kind t) \<or> t_referenceExternalID t = [])
       then Inl (EWagering WageringReferenceForbidden)
     else Inr (clearSchedule (t\<lparr>t_status := Processed, t_resultBalance := resultBalance,
       t_referenceTransactionID := (if referenceTransactionID \<noteq> uuid_Nil
          then referenceTransactionID else t_referenceTransactionID t),
       t_completedAt := now, t_updatedAt := now\<rparr>)))"

definition MarkRejected :: "tx \<Rightarrow> failure_code \<Rightarrow> money \<Rightarrow> time \<Rightarrow> tx result" where
  "MarkRejected t code resultBalance now =
     bindR (canSettle t now) (\<lambda>_.
     if \<not> failure_Valid code \<or> code = PermanentFailure
       then Inl (EWagering WageringInvalidFailureCode)
     else if \<not> Valid resultBalance \<or> IsNegative resultBalance
       then Inl (EWagering WageringInvalidAmount)
     else Inr (clearSchedule (t\<lparr>t_status := Rejected, t_failureCode := code,
       t_resultBalance := resultBalance, t_completedAt := now, t_updatedAt := now\<rparr>)))"

definition MarkPendingReference :: "tx \<Rightarrow> time \<Rightarrow> time \<Rightarrow> time \<Rightarrow> tx result" where
  "MarkPendingReference t nextAttemptAt deadlineAt now =
     (if now = time_zero \<or> nextAttemptAt = time_zero \<or> deadlineAt = time_zero
        then Inl (EWagering WageringMissingTimestamp)
      else if t_status t \<noteq> Pending then Inl (EWagering WageringTransitionNotAllowed)
      else if \<not> Reversal (t_kind t) then Inl (EWagering WageringInvalidKind)
      else Inr (t\<lparr>t_status := PendingReference, t_nextAttemptAt := nextAttemptAt,
        t_referenceDeadlineAt := deadlineAt, t_referenceAttempts := 0, t_updatedAt := now\<rparr>))"

definition Reschedule :: "tx \<Rightarrow> time \<Rightarrow> time \<Rightarrow> tx result" where
  "Reschedule t nextAttemptAt now =
     (if now = time_zero \<or> nextAttemptAt = time_zero then Inl (EWagering WageringMissingTimestamp)
      else if t_status t \<noteq> PendingReference then Inl (EWagering WageringTransitionNotAllowed)
      else Inr (t\<lparr>t_referenceAttempts := t_referenceAttempts t + 1,
        t_nextAttemptAt := nextAttemptAt, t_updatedAt := now\<rparr>))"

definition MarkFailed :: "tx \<Rightarrow> time \<Rightarrow> tx result" where
  "MarkFailed t now =
     (if now = time_zero then Inl (EWagering WageringMissingTimestamp)
      else if t_status t \<noteq> PendingReference then Inl (EWagering WageringTransitionNotAllowed)
      else Inr (clearSchedule (t\<lparr>t_status := Failed, t_failureCode := PermanentFailure,
        t_completedAt := now, t_updatedAt := now\<rparr>)))"

section \<open>Well-formed transactions\<close>

definition amount_policy :: "kind \<Rightarrow> money \<Rightarrow> bool" where
  "amount_policy k a \<longleftrightarrow> Valid a \<and> (if k = Loss then amount_of a = 0 else 0 < amount_of a)"

definition opening_fields :: "tx \<Rightarrow> bool" where
  "opening_fields s \<longleftrightarrow> t_origin s = Internal \<and> t_status s = Processed \<and> t_providerID s = []
     \<and> t_externalTransactionID s = [] \<and> t_idempotencyKey s = [] \<and> t_payloadHash s = []
     \<and> t_roundID s = [] \<and> t_gameID s = [] \<and> t_referenceExternalID s = []
     \<and> t_referenceTransactionID s = uuid_Nil \<and> t_resultBalance s = t_amount s
     \<and> amount_policy Opening (t_amount s)"

definition external_fields :: "tx \<Rightarrow> bool" where
  "external_fields s \<longleftrightarrow> origin_External (t_origin s) \<and> kind_External (t_kind s)
     \<and> \<not> blank (t_providerID s) \<and> \<not> blank (t_externalTransactionID s)
     \<and> \<not> blank (t_idempotencyKey s) \<and> \<not> blank (t_roundID s) \<and> \<not> blank (t_gameID s)
     \<and> hash_pattern (t_payloadHash s) \<and> amount_policy (t_kind s) (t_amount s)
     \<and> (Reversal (t_kind s) \<longrightarrow> t_referenceExternalID s \<noteq> [])
     \<and> (ForbidsReference (t_kind s) \<longrightarrow> t_referenceExternalID s = [])"

fun settlement_fields :: "status \<Rightarrow> tx \<Rightarrow> bool" where
  "settlement_fields Processed s \<longleftrightarrow> Valid (t_resultBalance s) \<and> 0 \<le> amount_of (t_resultBalance s)
     \<and> t_failureCode s = no_failure \<and> currency (t_resultBalance s) = currency (t_amount s)
     \<and> (Reversal (t_kind s) \<longrightarrow> t_referenceTransactionID s \<noteq> uuid_Nil)"
| "settlement_fields Rejected s \<longleftrightarrow> Valid (t_resultBalance s) \<and> 0 \<le> amount_of (t_resultBalance s)
     \<and> failure_Valid (t_failureCode s) \<and> t_failureCode s \<noteq> PermanentFailure"
| "settlement_fields Failed s \<longleftrightarrow> Reversal (t_kind s) \<and> t_failureCode s = PermanentFailure
     \<and> \<not> Valid (t_resultBalance s)"
| "settlement_fields _ s \<longleftrightarrow> t_failureCode s = no_failure \<and> \<not> Valid (t_resultBalance s)
     \<and> t_referenceTransactionID s = uuid_Nil"

definition schedule_fields :: "tx \<Rightarrow> bool" where
  "schedule_fields s \<longleftrightarrow>
     (if t_status s = PendingReference
      then Reversal (t_kind s) \<and> t_nextAttemptAt s \<noteq> time_zero \<and> t_referenceDeadlineAt s \<noteq> time_zero
      else t_nextAttemptAt s = time_zero \<and> t_referenceDeadlineAt s = time_zero)"

definition tx_wf :: "tx \<Rightarrow> bool" where
  "tx_wf s \<longleftrightarrow> t_id s \<noteq> uuid_Nil \<and> t_walletID s \<noteq> uuid_Nil \<and> t_playerID s \<noteq> uuid_Nil
     \<and> t_createdAt s \<noteq> time_zero \<and> t_updatedAt s \<noteq> time_zero \<and> \<not> blank (t_correlationID s)
     \<and> (if t_kind s = Opening then opening_fields s else external_fields s)
     \<and> status_Valid (t_status s) \<and> 0 \<le> t_referenceAttempts s
     \<and> t_referenceTransactionID s \<noteq> t_id s
     \<and> (t_referenceTransactionID s \<noteq> uuid_Nil \<longrightarrow>
          \<not> ForbidsReference (t_kind s) \<and> t_referenceExternalID s \<noteq> [])
     \<and> (Terminal (t_status s) \<longleftrightarrow> t_completedAt s \<noteq> time_zero)
     \<and> schedule_fields s \<and> settlement_fields (t_status s) s"

lemma checkAmountPolicy_eq_Inr: "checkAmountPolicy k a = Inr u \<longleftrightarrow> amount_policy k a"
  by (auto simp: checkAmountPolicy_def amount_policy_def sign_simps)

definition new_tx :: "command \<Rightarrow> uuid \<Rightarrow> time \<Rightarrow> tx" where
  "new_tx c i now = \<lparr>t_id = i, t_origin = c_origin c, t_kind = c_kind c, t_status = Pending,
     t_walletID = c_walletID c, t_playerID = c_playerID c, t_amount = c_amount c,
     t_providerID = c_providerID c, t_externalTransactionID = c_externalTransactionID c,
     t_idempotencyKey = c_idempotencyKey c, t_payloadHash = c_payloadHash c,
     t_roundID = c_roundID c, t_gameID = c_gameID c,
     t_referenceExternalID = c_referenceExternalID c, t_referenceTransactionID = uuid_Nil,
     t_failureCode = no_failure, t_resultBalance = money_zero_value, t_referenceAttempts = 0,
     t_nextAttemptAt = time_zero, t_referenceDeadlineAt = time_zero,
     t_correlationID = c_correlationID c, t_createdAt = now, t_updatedAt = now,
     t_completedAt = time_zero\<rparr>"

lemma snapshot_command_new_tx [simp]: "snapshot_command (new_tx c i now) = c"
  by (cases c) (simp add: snapshot_command_def new_tx_def)

lemma NewExternal_eq_Inr:
  "NewExternal c i now = Inr t \<longleftrightarrow>
     i \<noteq> uuid_Nil \<and> c_walletID c \<noteq> uuid_Nil \<and> c_playerID c \<noteq> uuid_Nil \<and> now \<noteq> time_zero
     \<and> \<not> blank (c_correlationID c) \<and> external_fields (new_tx c i now) \<and> t = new_tx c i now"
  by (auto simp: NewExternal_def bindR_eq_Inr checkAmountPolicy_eq_Inr external_fields_def
      RequiresReference_def new_tx_def)

lemma NewOpening_eq_Inr:
  "NewOpening i w p a cid now = Inr t \<longleftrightarrow>
     i \<noteq> uuid_Nil \<and> w \<noteq> uuid_Nil \<and> p \<noteq> uuid_Nil \<and> now \<noteq> time_zero \<and> \<not> blank cid
     \<and> amount_policy Opening a
     \<and> t = \<lparr>t_id = i, t_origin = Internal, t_kind = Opening, t_status = Processed,
        t_walletID = w, t_playerID = p, t_amount = a,
        t_providerID = [], t_externalTransactionID = [], t_idempotencyKey = [], t_payloadHash = [],
        t_roundID = [], t_gameID = [], t_referenceExternalID = [],
        t_referenceTransactionID = uuid_Nil, t_failureCode = no_failure, t_resultBalance = a,
        t_referenceAttempts = 0, t_nextAttemptAt = time_zero, t_referenceDeadlineAt = time_zero,
        t_correlationID = cid, t_createdAt = now, t_updatedAt = now, t_completedAt = now\<rparr>"
  by (auto simp: NewOpening_def amount_policy_def sign_simps)

lemma validate_origin_eq_Inr:
  "validate_origin s = Inr u \<longleftrightarrow>
     (if t_kind s = Opening
      then opening_fields s \<and> t_id s \<noteq> uuid_Nil \<and> t_walletID s \<noteq> uuid_Nil \<and> t_playerID s \<noteq> uuid_Nil
        \<and> t_createdAt s \<noteq> time_zero \<and> \<not> blank (t_correlationID s)
      else external_fields s \<and> t_id s \<noteq> uuid_Nil \<and> t_walletID s \<noteq> uuid_Nil \<and> t_playerID s \<noteq> uuid_Nil
        \<and> t_createdAt s \<noteq> time_zero \<and> \<not> blank (t_correlationID s))"
proof (cases "t_kind s = Opening")
  case True
  then show ?thesis
    by (auto simp: validate_origin_def bindR_eq_Inr NewOpening_eq_Inr opening_fields_def)
next
  case False
  have "external_fields (new_tx (snapshot_command s) i now) = external_fields s" for i now
    by (simp add: external_fields_def new_tx_def snapshot_command_def)
  with False show ?thesis
    by (auto simp: validate_origin_def bindR_eq_Inr NewExternal_eq_Inr) (simp_all add: snapshot_command_def)
qed

lemma validate_settlement_eq_Inr:
  "validate_settlement s = Inr u \<longleftrightarrow> settlement_fields (t_status s) s"
  by (cases "t_status s") (auto simp: validate_settlement_def sign_simps)

lemma failure_Valid_no_failure [simp]: "\<not> failure_Valid no_failure"
  by (simp add: failure_Valid_def no_failure_def)

lemma Rehydrate_eq_Inr: "Rehydrate s = Inr t \<longleftrightarrow> t = s \<and> tx_wf s"
proof -
  have o: "origin_Valid (t_origin s) \<and> kind_Valid (t_kind s)"
    if "if t_kind s = Opening then opening_fields s else external_fields s"
    using that by (auto simp: opening_fields_def external_fields_def origin_Valid_def
        origin_External_def kind_External_def kind_Valid_def split: if_splits)
  have f: "t_failureCode s = no_failure \<or> failure_Valid (t_failureCode s)"
    if "settlement_fields (t_status s) s"
    using that by (cases "t_status s") (auto simp: failure_Valid_def)
  show ?thesis
    using o f
    by (auto simp: Rehydrate_def snapshot_validate_def bindR_eq_Inr validate_origin_eq_Inr
        validate_settlement_eq_Inr tx_wf_def schedule_fields_def)
qed

section \<open>Preservation\<close>

lemma not_Valid_zero_value [simp]: "\<not> Valid money_zero_value"
  by (simp add: money_zero_value_def Valid_def Supported_def)

lemma kind_External_not_Opening [simp]: "\<not> kind_External Opening"
  by (simp add: kind_External_def)

lemma NewExternal_wf: "NewExternal c i now = Inr t \<Longrightarrow> tx_wf t \<and> t_status t = Pending \<and> t_kind t \<noteq> Opening"
  by (auto simp: NewExternal_eq_Inr tx_wf_def schedule_fields_def status_Valid_def Terminal_def new_tx_def
      external_fields_def)

lemma NewOpening_wf: "NewOpening i w p a cid now = Inr t \<Longrightarrow> tx_wf t"
  by (auto simp: NewOpening_eq_Inr tx_wf_def opening_fields_def amount_policy_def schedule_fields_def
      status_Valid_def Terminal_def Reversal_def)

text \<open>An open transaction is never the opening of a wallet.\<close>

lemma open_not_Opening: "tx_wf t \<Longrightarrow> t_status t \<noteq> Processed \<Longrightarrow> t_kind t \<noteq> Opening"
  by (auto simp: tx_wf_def opening_fields_def)

lemma open_fields:
  assumes "tx_wf t" "t_status t = Pending \<or> t_status t = PendingReference"
  shows "t_failureCode t = no_failure" "\<not> Valid (t_resultBalance t)"
    "t_referenceTransactionID t = uuid_Nil" "t_kind t \<noteq> Opening"
  using assms open_not_Opening [OF assms(1)] by (auto simp: tx_wf_def)

lemma external_fields_cong:
  assumes "t_origin s = t_origin t" "t_kind s = t_kind t" "t_amount s = t_amount t"
    "t_providerID s = t_providerID t" "t_externalTransactionID s = t_externalTransactionID t"
    "t_idempotencyKey s = t_idempotencyKey t" "t_payloadHash s = t_payloadHash t"
    "t_roundID s = t_roundID t" "t_gameID s = t_gameID t"
    "t_referenceExternalID s = t_referenceExternalID t"
  shows "external_fields s = external_fields t"
  by (simp only: external_fields_def assms)

lemma MarkProcessed_eq_Inr:
  "MarkProcessed t b r now = Inr t' \<longleftrightarrow>
     now \<noteq> time_zero \<and> (t_status t = Pending \<or> t_status t = PendingReference)
     \<and> Valid b \<and> 0 \<le> amount_of b \<and> currency b = currency (t_amount t)
     \<and> (Reversal (t_kind t) \<longrightarrow> r \<noteq> uuid_Nil) \<and> r \<noteq> t_id t
     \<and> (r \<noteq> uuid_Nil \<longrightarrow> \<not> ForbidsReference (t_kind t) \<and> t_referenceExternalID t \<noteq> [])
     \<and> t' = t\<lparr>t_status := Processed, t_resultBalance := b,
          t_referenceTransactionID := (if r \<noteq> uuid_Nil then r else t_referenceTransactionID t),
          t_completedAt := now, t_updatedAt := now, t_nextAttemptAt := time_zero,
          t_referenceDeadlineAt := time_zero\<rparr>"
  by (auto simp: MarkProcessed_def canSettle_def bindR_eq_Inr sign_simps clearSchedule_def)

lemma MarkRejected_eq_Inr:
  "MarkRejected t code b now = Inr t' \<longleftrightarrow>
     now \<noteq> time_zero \<and> (t_status t = Pending \<or> t_status t = PendingReference)
     \<and> failure_Valid code \<and> code \<noteq> PermanentFailure \<and> Valid b \<and> 0 \<le> amount_of b
     \<and> t' = t\<lparr>t_status := Rejected, t_failureCode := code, t_resultBalance := b,
          t_completedAt := now, t_updatedAt := now, t_nextAttemptAt := time_zero,
          t_referenceDeadlineAt := time_zero\<rparr>"
  by (auto simp: MarkRejected_def canSettle_def bindR_eq_Inr sign_simps clearSchedule_def)

lemma MarkPendingReference_eq_Inr:
  "MarkPendingReference t n d now = Inr t' \<longleftrightarrow>
     now \<noteq> time_zero \<and> n \<noteq> time_zero \<and> d \<noteq> time_zero \<and> t_status t = Pending \<and> Reversal (t_kind t)
     \<and> t' = t\<lparr>t_status := PendingReference, t_nextAttemptAt := n, t_referenceDeadlineAt := d,
          t_referenceAttempts := 0, t_updatedAt := now\<rparr>"
  by (auto simp: MarkPendingReference_def)

lemma Reschedule_eq_Inr:
  "Reschedule t n now = Inr t' \<longleftrightarrow>
     now \<noteq> time_zero \<and> n \<noteq> time_zero \<and> t_status t = PendingReference
     \<and> t' = t\<lparr>t_referenceAttempts := t_referenceAttempts t + 1, t_nextAttemptAt := n,
          t_updatedAt := now\<rparr>"
  by (auto simp: Reschedule_def)

lemma MarkFailed_eq_Inr:
  "MarkFailed t now = Inr t' \<longleftrightarrow>
     now \<noteq> time_zero \<and> t_status t = PendingReference
     \<and> t' = t\<lparr>t_status := Failed, t_failureCode := PermanentFailure, t_completedAt := now,
          t_updatedAt := now, t_nextAttemptAt := time_zero, t_referenceDeadlineAt := time_zero\<rparr>"
  by (auto simp: MarkFailed_def clearSchedule_def)

lemmas transition_eqs = MarkProcessed_eq_Inr MarkRejected_eq_Inr MarkPendingReference_eq_Inr
  Reschedule_eq_Inr MarkFailed_eq_Inr

section \<open>The state machine\<close>

text \<open>One step is one call of a transition that succeeds.\<close>

inductive tx_step :: "tx \<Rightarrow> tx \<Rightarrow> bool" where
  step_processed: "MarkProcessed t b r now = Inr t' \<Longrightarrow> tx_step t t'"
| step_rejected: "MarkRejected t code b now = Inr t' \<Longrightarrow> tx_step t t'"
| step_pending_reference: "MarkPendingReference t n d now = Inr t' \<Longrightarrow> tx_step t t'"
| step_reschedule: "Reschedule t n now = Inr t' \<Longrightarrow> tx_step t t'"
| step_failed: "MarkFailed t now = Inr t' \<Longrightarrow> tx_step t t'"

inductive tx_reachable :: "tx \<Rightarrow> bool" where
  reach_external: "NewExternal c i now = Inr t \<Longrightarrow> tx_reachable t"
| reach_opening: "NewOpening i w p a cid now = Inr t \<Longrightarrow> tx_reachable t"
| reach_step: "tx_reachable t \<Longrightarrow> tx_step t t' \<Longrightarrow> tx_reachable t'"

text \<open>The state diagram.\<close>

definition diagram :: "(status \<times> status) set" where
  "diagram = {(Pending, Processed), (Pending, Rejected), (Pending, PendingReference),
     (PendingReference, Processed), (PendingReference, Rejected), (PendingReference, Failed),
     (PendingReference, PendingReference)}"

text \<open>The fields that identify the operation; no transition may touch them.\<close>

definition same_identity :: "tx \<Rightarrow> tx \<Rightarrow> bool" where
  "same_identity t t' \<longleftrightarrow> t_id t' = t_id t \<and> t_origin t' = t_origin t \<and> t_kind t' = t_kind t
     \<and> t_walletID t' = t_walletID t \<and> t_playerID t' = t_playerID t \<and> t_amount t' = t_amount t
     \<and> t_providerID t' = t_providerID t \<and> t_externalTransactionID t' = t_externalTransactionID t
     \<and> t_idempotencyKey t' = t_idempotencyKey t \<and> t_payloadHash t' = t_payloadHash t
     \<and> t_roundID t' = t_roundID t \<and> t_gameID t' = t_gameID t
     \<and> t_referenceExternalID t' = t_referenceExternalID t
     \<and> t_correlationID t' = t_correlationID t \<and> t_createdAt t' = t_createdAt t"

lemma same_identity_refl [simp]: "same_identity t t"
  by (simp add: same_identity_def)

lemma same_identity_trans: "same_identity t u \<Longrightarrow> same_identity u v \<Longrightarrow> same_identity t v"
  by (simp add: same_identity_def)

lemma tx_step_diagram: "tx_step t t' \<Longrightarrow> (t_status t, t_status t') \<in> diagram"
  by (induction rule: tx_step.induct) (auto simp: transition_eqs diagram_def)

lemma transition_identity:
  "MarkProcessed t b r now = Inr t' \<Longrightarrow> same_identity t t'"
  "MarkRejected t code b now = Inr t' \<Longrightarrow> same_identity t t'"
  "MarkPendingReference t n d now = Inr t' \<Longrightarrow> same_identity t t'"
  "Reschedule t n now = Inr t' \<Longrightarrow> same_identity t t'"
  "MarkFailed t now = Inr t' \<Longrightarrow> same_identity t t'"
  by (simp_all add: transition_eqs same_identity_def)

lemma tx_step_identity: "tx_step t t' \<Longrightarrow> same_identity t t'"
  by (induction rule: tx_step.induct) (rule transition_identity, assumption)+

lemma external_fields_same: "same_identity t t' \<Longrightarrow> external_fields t' = external_fields t"
  by (rule external_fields_cong) (simp_all add: same_identity_def)

text \<open>
  What is left to check after a transition: the identity half of well-formedness carries over.
\<close>

lemma tx_wf_transition:
  assumes "tx_wf t" and "same_identity t t'" and "t_kind t \<noteq> Opening"
    and "t_updatedAt t' \<noteq> time_zero" and "status_Valid (t_status t')" and "0 \<le> t_referenceAttempts t'"
    and "t_referenceTransactionID t' \<noteq> t_id t"
    and "t_referenceTransactionID t' \<noteq> uuid_Nil \<longrightarrow>
          \<not> ForbidsReference (t_kind t) \<and> t_referenceExternalID t \<noteq> []"
    and "Terminal (t_status t') \<longleftrightarrow> t_completedAt t' \<noteq> time_zero"
    and "schedule_fields t'" and "settlement_fields (t_status t') t'"
  shows "tx_wf t'"
  using assms external_fields_same [OF assms(2)] by (auto simp: tx_wf_def same_identity_def)

lemma MarkProcessed_wf:
  assumes "tx_wf t" "MarkProcessed t b r now = Inr t'"
  shows "tx_wf t'"
proof (rule tx_wf_transition [OF assms(1) transition_identity(1) [OF assms(2)]])
  have o: "t_status t = Pending \<or> t_status t = PendingReference"
    using assms by (simp add: transition_eqs)
  note f = open_fields [OF assms(1) o]
  show "t_kind t \<noteq> Opening" by (rule f(4))
  show "settlement_fields (t_status t') t'" using assms f by (auto simp: transition_eqs)
qed (use assms in \<open>auto simp: transition_eqs status_Valid_def Terminal_def schedule_fields_def tx_wf_def\<close>)

lemma MarkRejected_wf:
  assumes "tx_wf t" "MarkRejected t code b now = Inr t'"
  shows "tx_wf t'"
proof (rule tx_wf_transition [OF assms(1) transition_identity(2) [OF assms(2)]])
  have o: "t_status t = Pending \<or> t_status t = PendingReference"
    using assms by (simp add: transition_eqs)
  show "t_kind t \<noteq> Opening" by (rule open_fields(4) [OF assms(1) o])
qed (use assms in \<open>auto simp: transition_eqs status_Valid_def Terminal_def schedule_fields_def tx_wf_def\<close>)

lemma MarkPendingReference_wf:
  assumes "tx_wf t" "MarkPendingReference t n d now = Inr t'"
  shows "tx_wf t'"
proof (rule tx_wf_transition [OF assms(1) transition_identity(3) [OF assms(2)]])
  have o: "t_status t = Pending \<or> t_status t = PendingReference"
    using assms by (simp add: transition_eqs)
  note f = open_fields [OF assms(1) o]
  show "t_kind t \<noteq> Opening" by (rule f(4))
  show "settlement_fields (t_status t') t'" using assms f by (auto simp: transition_eqs)
qed (use assms in \<open>auto simp: transition_eqs status_Valid_def Terminal_def schedule_fields_def tx_wf_def\<close>)

lemma Reschedule_wf:
  assumes "tx_wf t" "Reschedule t n now = Inr t'"
  shows "tx_wf t'"
proof (rule tx_wf_transition [OF assms(1) transition_identity(4) [OF assms(2)]])
  have o: "t_status t = Pending \<or> t_status t = PendingReference"
    using assms by (simp add: transition_eqs)
  show "t_kind t \<noteq> Opening" by (rule open_fields(4) [OF assms(1) o])
qed (use assms in \<open>auto simp: transition_eqs status_Valid_def Terminal_def schedule_fields_def tx_wf_def\<close>)

lemma MarkFailed_wf:
  assumes "tx_wf t" "MarkFailed t now = Inr t'"
  shows "tx_wf t'"
proof (rule tx_wf_transition [OF assms(1) transition_identity(5) [OF assms(2)]])
  have o: "t_status t = Pending \<or> t_status t = PendingReference"
    using assms by (simp add: transition_eqs)
  note f = open_fields [OF assms(1) o]
  show "t_kind t \<noteq> Opening" by (rule f(4))
  show "settlement_fields (t_status t') t'"
    using assms f by (auto simp: transition_eqs tx_wf_def schedule_fields_def)
qed (use assms in \<open>auto simp: transition_eqs status_Valid_def Terminal_def schedule_fields_def tx_wf_def\<close>)

lemmas transition_wf = MarkProcessed_wf MarkRejected_wf MarkPendingReference_wf Reschedule_wf MarkFailed_wf

lemma tx_step_wf: "tx_step t t' \<Longrightarrow> tx_wf t \<Longrightarrow> tx_wf t'"
  by (induction rule: tx_step.induct) (blast intro: transition_wf)+

lemma tx_reachable_wf: "tx_reachable t \<Longrightarrow> tx_wf t"
  by (induction rule: tx_reachable.induct) (blast dest: NewExternal_wf NewOpening_wf tx_step_wf)+

inductive_cases tx_step_from: "tx_step t t'"

section \<open>Properties\<close>

text \<open>Concrete operations to run on.\<close>

definition sample_command :: "kind \<Rightarrow> string \<Rightarrow> command" where
  "sample_command k ref = \<lparr>c_origin = HTTP, c_kind = k, c_providerID = ''p'',
     c_externalTransactionID = ''x'', c_idempotencyKey = ''k'', c_payloadHash = replicate 64 CHR ''a'',
     c_playerID = 2, c_walletID = 1, c_roundID = ''r'', c_gameID = ''g'',
     c_amount = \<lparr>minor = 2500, currency = BRL\<rparr>, c_referenceExternalID = ref, c_correlationID = ''c''\<rparr>"

lemma hash_pattern_replicate: "is_lower_hex c \<Longrightarrow> hash_pattern (replicate 64 c)"
  by (simp add: hash_pattern_def list_all_length)

lemma not_blank_letter: "33 \<le> (of_char c :: nat) \<Longrightarrow> (of_char c :: nat) < 127 \<Longrightarrow> \<not> blank (c # s)"
  by (simp add: blank_def runes_ascii is_space_def)

lemma sample_bet: "NewExternal (sample_command Bet []) 5 10 = Inr (new_tx (sample_command Bet []) 5 10)"
  by (simp add: NewExternal_eq_Inr sample_command_def external_fields_def new_tx_def kind_defs
      origin_External_def not_blank_letter hash_pattern_replicate is_lower_hex_def is_digit_def
      amount_policy_def Valid_def Supported_def amount_of_def)

lemma sample_refund:
  "NewExternal (sample_command Refund ''o'') 6 10 = Inr (new_tx (sample_command Refund ''o'') 6 10)"
  by (simp add: NewExternal_eq_Inr sample_command_def external_fields_def new_tx_def kind_defs
      origin_External_def not_blank_letter hash_pattern_replicate is_lower_hex_def is_digit_def
      amount_policy_def Valid_def Supported_def amount_of_def)





text \<open>
  Terminal states are final: on a processed, rejected or failed transaction every
  transition is refused with \<open>ErrTransitionNotAllowed\<close>.
\<close>

theorem terminal_refuses:
  assumes "Terminal (t_status t)" and "now \<noteq> time_zero" and "n \<noteq> time_zero" and "d \<noteq> time_zero"
  shows "MarkProcessed t b r now = Inl (EWagering WageringTransitionNotAllowed)
    \<and> MarkRejected t code b now = Inl (EWagering WageringTransitionNotAllowed)
    \<and> MarkPendingReference t n d now = Inl (EWagering WageringTransitionNotAllowed)
    \<and> Reschedule t n now = Inl (EWagering WageringTransitionNotAllowed)
    \<and> MarkFailed t now = Inl (EWagering WageringTransitionNotAllowed)"
  using assms
  by (auto simp: MarkProcessed_def MarkRejected_def MarkPendingReference_def Reschedule_def
      MarkFailed_def canSettle_def Terminal_def)

theorem terminal_refuses_witness:
  "MarkFailed (new_tx (sample_command Bet []) 5 10\<lparr>t_status := Processed\<rparr>) 12
     = Inl (EWagering WageringTransitionNotAllowed)"
  using terminal_refuses [of "new_tx (sample_command Bet []) 5 10\<lparr>t_status := Processed\<rparr>" 12 1 1]
  by (simp add: Terminal_def)

end
