(* ===== verification/Decision.thy ===== *)
theory Decision
  imports Wagering
begin

text \<open>
  \<open>internal/domain/wagering/decision.go\<close>: given the locked wallet, the operation and what its
  reference resolved to, decide to process it (with or without a movement), to reject it with
  a code, or to wait for the reference. Facts: the decision is total on well-formed input; a
  decision to move the balance is one the wallet then accepts; a reversal is processed exactly
  under the conditions of the contract and moves the opposite of its original; waiting is
  possible only for a reversal whose reference is not settled and whose deadline is ahead.
\<close>

datatype outcome = OutcomeProcess | OutcomeReject | OutcomeWaitReference

record movement =
  mv_direction :: direction
  mv_amount :: money

definition movement_Present :: "movement \<Rightarrow> bool" where
  "movement_Present m \<longleftrightarrow> direction_Valid (mv_direction m)"

definition no_movement :: movement where
  "no_movement = \<lparr>mv_direction = OtherDirection [], mv_amount = money_zero_value\<rparr>"

record decision =
  d_outcome :: outcome
  d_movement :: movement
  d_failureCode :: failure_code
  d_referenceID :: uuid

record reference =
  ref_transaction :: "tx option"
  ref_alreadyReversed :: bool

definition process :: "direction \<Rightarrow> money \<Rightarrow> uuid \<Rightarrow> decision" where
  "process d amount referenceID =
     \<lparr>d_outcome = OutcomeProcess, d_movement = \<lparr>mv_direction = d, mv_amount = amount\<rparr>,
      d_failureCode = no_failure, d_referenceID = referenceID\<rparr>"

definition reject :: "failure_code \<Rightarrow> decision" where
  "reject code = \<lparr>d_outcome = OutcomeReject, d_movement = no_movement, d_failureCode = code,
     d_referenceID = uuid_Nil\<rparr>"

text \<open>\<open>Decision{Outcome: o}\<close>, the other fields zero.\<close>

definition bare :: "outcome \<Rightarrow> decision" where
  "bare out = \<lparr>d_outcome = out, d_movement = no_movement, d_failureCode = no_failure,
     d_referenceID = uuid_Nil\<rparr>"

definition deadlineReached :: "tx \<Rightarrow> time \<Rightarrow> bool" where
  "deadlineReached operation now \<longleftrightarrow>
     t_referenceDeadlineAt operation \<noteq> time_zero \<and> \<not> now < t_referenceDeadlineAt operation"

definition sameRound :: "tx \<Rightarrow> tx \<Rightarrow> bool" where
  "sameRound operation original \<longleftrightarrow>
     t_providerID operation = t_providerID original \<and> t_playerID operation = t_playerID original
     \<and> t_walletID operation = t_walletID original \<and> t_roundID operation = t_roundID original
     \<and> currency (t_amount operation) = currency (t_amount original)"

definition reversible :: "kind \<Rightarrow> kind \<Rightarrow> bool" where
  "reversible reversal original \<longleftrightarrow>
     (case reversal of Refund \<Rightarrow> original = Bet
      | Rollback \<Rightarrow> original = Bet \<or> original = Win \<or> original = Refund
      | _ \<Rightarrow> False)"

definition reversalDirection :: "kind \<Rightarrow> kind \<Rightarrow> direction" where
  "reversalDirection reversal original =
     (if reversal = Refund then Credit else if original = Bet then Credit else Debit)"

definition decideBet :: "wallet \<Rightarrow> tx \<Rightarrow> decision result" where
  "decideBet account operation =
     bindR (Cmp (w_balance account) (t_amount operation)) (\<lambda>affordable.
     if affordable < 0 then Inr (reject InsufficientFunds)
     else Inr (process Debit (t_amount operation) uuid_Nil))"

text \<open>The guard of a credit: an overflow is a rejection, any other error is an error.\<close>

definition credit_guard :: "money \<Rightarrow> money \<Rightarrow> decision result \<Rightarrow> decision result" where
  "credit_guard balance amount proceed =
     (case Add balance amount of
        Inl e \<Rightarrow> if errors_is e (EMoney MoneyOverflow) then Inr (reject BalanceLimitExceeded) else Inl e
      | Inr _ \<Rightarrow> proceed)"

definition decideWin :: "wallet \<Rightarrow> tx \<Rightarrow> reference option \<Rightarrow> decision result" where
  "decideWin account operation ref =
     (case (if t_referenceExternalID operation \<noteq> [] then Option.bind ref ref_transaction else None) of
        Some original \<Rightarrow>
          if t_kind original \<noteq> Bet then Inr (reject ReferenceKindNotAllowed)
          else if \<not> sameRound operation original then Inr (reject ReferenceMismatch)
          else credit_guard (w_balance account) (t_amount operation)
                 (Inr (process Credit (t_amount operation) (t_id original)))
      | None \<Rightarrow>
          credit_guard (w_balance account) (t_amount operation)
            (Inr (process Credit (t_amount operation) uuid_Nil)))"

text \<open>A reversal whose original is settled: the tail of \<open>decideReversal\<close>.\<close>

definition decideSettled :: "wallet \<Rightarrow> tx \<Rightarrow> tx \<Rightarrow> bool \<Rightarrow> decision result" where
  "decideSettled account operation original alreadyReversed =
     (if \<not> reversible (t_kind operation) (t_kind original) then Inr (reject ReferenceKindNotAllowed)
      else if \<not> sameRound operation original \<or> \<not> Equal (t_amount operation) (t_amount original)
        then Inr (reject ReferenceMismatch)
      else if alreadyReversed then Inr (reject AlreadyReversed)
      else (let d = reversalDirection (t_kind operation) (t_kind original);
                ok = Inr (process d (t_amount operation) (t_id original)) in
        if d = Debit then
          bindR (Cmp (w_balance account) (t_amount operation)) (\<lambda>affordable.
            if affordable < 0 then Inr (reject ReversalInsufficientFunds) else ok)
        else credit_guard (w_balance account) (t_amount operation) ok))"

definition decideReversal :: "wallet \<Rightarrow> tx \<Rightarrow> reference option \<Rightarrow> time \<Rightarrow> decision result" where
  "decideReversal account operation ref now =
     (let expired = deadlineReached operation now in
      case Option.bind ref (\<lambda>r. map_option (\<lambda>t. (t, ref_alreadyReversed r)) (ref_transaction r)) of
        None \<Rightarrow> Inr (if expired then reject ReferenceNotFound else bare OutcomeWaitReference)
      | Some (original, alreadyReversed) \<Rightarrow>
          (if t_status original = Pending \<or> t_status original = PendingReference
             then Inr (if expired then reject ReferenceNotProcessed else bare OutcomeWaitReference)
           else if t_status original = Rejected \<or> t_status original = Failed
             then Inr (reject ReferenceNotProcessed)
           else decideSettled account operation original alreadyReversed))"

definition Decide :: "wallet \<Rightarrow> tx \<Rightarrow> reference option \<Rightarrow> time \<Rightarrow> decision result" where
  "Decide account operation ref now =
     (if w_id account \<noteq> t_walletID operation then Inl (EWagering WageringMissingIdentifier)
      else if \<not> OwnedBy account (t_playerID operation) then Inr (reject WalletPlayerMismatch)
      else if currency (t_amount operation) \<noteq> currency (w_balance account)
        then Inr (reject CurrencyMismatch)
      else case t_kind operation of
        Bet \<Rightarrow> decideBet account operation
      | Win \<Rightarrow> decideWin account operation ref
      | Loss \<Rightarrow> Inr (bare OutcomeProcess)
      | Refund \<Rightarrow> decideReversal account operation ref now
      | Rollback \<Rightarrow> decideReversal account operation ref now
      | _ \<Rightarrow> Inl (EWagering WageringInvalidKind))"

section \<open>Evaluation on well-formed input\<close>

lemma decision_simps [simp]:
  "d_outcome (process d a r) = OutcomeProcess" "mv_direction (d_movement (process d a r)) = d"
  "mv_amount (d_movement (process d a r)) = a" "d_referenceID (process d a r) = r"
  "d_outcome (reject c) = OutcomeReject" "d_failureCode (reject c) = c"
  "d_outcome (bare out) = out" "d_movement (bare out) = no_movement" "d_referenceID (bare out) = uuid_Nil"
  "\<not> movement_Present no_movement" "d_movement (reject c) = no_movement"
  by (simp_all add: process_def reject_def bare_def no_movement_def movement_Present_def direction_Valid_def)

text \<open>The operation as the use cases hand it over: open, external, on this wallet.\<close>

definition decidable_op :: "wallet \<Rightarrow> tx \<Rightarrow> bool" where
  "decidable_op account operation \<longleftrightarrow> wallet_inv account \<and> tx_wf operation
     \<and> (t_status operation = Pending \<or> t_status operation = PendingReference)
     \<and> t_walletID operation = w_id account"

text \<open>The movement an operation asks for fits the wallet and the range.\<close>

definition affordable :: "wallet \<Rightarrow> direction \<Rightarrow> money \<Rightarrow> bool" where
  "affordable account d a \<longleftrightarrow> 0 \<le> amount_of (w_balance account) + signed_amount d a
     \<and> amount_of (w_balance account) + signed_amount d a < 2 ^ 63"

lemma decidable_amount:
  assumes "decidable_op account operation"
  shows "Valid (t_amount operation)" "Valid (w_balance account)" "0 \<le> amount_of (w_balance account)"
    "kind_External (t_kind operation)" "t_kind operation \<noteq> Loss \<Longrightarrow> 0 < amount_of (t_amount operation)"
proof -
  from assms have wf: "tx_wf operation"
    and o: "t_status operation = Pending \<or> t_status operation = PendingReference"
    by (auto simp: decidable_op_def)
  have k: "t_kind operation \<noteq> Opening" using open_fields(4) [OF wf o] .
  with wf show "Valid (t_amount operation)" "kind_External (t_kind operation)"
    "t_kind operation \<noteq> Loss \<Longrightarrow> 0 < amount_of (t_amount operation)"
    by (auto simp: tx_wf_def external_fields_def amount_policy_def)
  show "Valid (w_balance account)" "0 \<le> amount_of (w_balance account)"
    using assms by (auto simp: decidable_op_def wallet_inv_def)
qed

lemma credit_guard_eq:
  assumes "Valid b" "Valid a" "currency a = currency b" "0 \<le> amount_of b" "0 < amount_of a"
  shows "credit_guard b a r = (if amount_of b + amount_of a < 2 ^ 63 then r
     else Inr (reject BalanceLimitExceeded))"
  using assms by (simp add: credit_guard_def Add_eq)

lemma debit_guard_eq:
  assumes "Valid b" "Valid a" "currency a = currency b"
  shows "bindR (Cmp b a) (\<lambda>c. if c < 0 then x else y) = (if amount_of b < amount_of a then x else y)"
  using assms by (simp add: Cmp_eq)

text \<open>The decision with the money arithmetic resolved, the abstract table the code implements.\<close>

definition guarded :: "wallet \<Rightarrow> direction \<Rightarrow> tx \<Rightarrow> uuid \<Rightarrow> failure_code \<Rightarrow> decision" where
  "guarded account d operation r code =
     (if affordable account d (t_amount operation) then process d (t_amount operation) r
      else reject code)"

definition win_table :: "wallet \<Rightarrow> tx \<Rightarrow> reference option \<Rightarrow> decision" where
  "win_table account operation ref =
     (case (if t_referenceExternalID operation \<noteq> [] then Option.bind ref ref_transaction else None) of
        None \<Rightarrow> guarded account Credit operation uuid_Nil BalanceLimitExceeded
      | Some original \<Rightarrow>
          if t_kind original \<noteq> Bet then reject ReferenceKindNotAllowed
          else if \<not> sameRound operation original then reject ReferenceMismatch
          else guarded account Credit operation (t_id original) BalanceLimitExceeded)"

definition reversal_table :: "wallet \<Rightarrow> tx \<Rightarrow> reference option \<Rightarrow> time \<Rightarrow> decision" where
  "reversal_table account operation ref now =
     (case Option.bind ref (\<lambda>r. map_option (\<lambda>t. (t, ref_alreadyReversed r)) (ref_transaction r)) of
        None \<Rightarrow> if deadlineReached operation now then reject ReferenceNotFound
                else bare OutcomeWaitReference
      | Some (original, reversed) \<Rightarrow>
          if t_status original \<in> {Pending, PendingReference}
          then if deadlineReached operation now then reject ReferenceNotProcessed
               else bare OutcomeWaitReference
          else if t_status original \<in> {Rejected, Failed} then reject ReferenceNotProcessed
          else if \<not> reversible (t_kind operation) (t_kind original) then reject ReferenceKindNotAllowed
          else if \<not> sameRound operation original \<or> t_amount operation \<noteq> t_amount original
          then reject ReferenceMismatch
          else if reversed then reject AlreadyReversed
          else if reversalDirection (t_kind operation) (t_kind original) = Debit
          then guarded account Debit operation (t_id original) ReversalInsufficientFunds
          else guarded account Credit operation (t_id original) BalanceLimitExceeded)"

definition decision_table :: "wallet \<Rightarrow> tx \<Rightarrow> reference option \<Rightarrow> time \<Rightarrow> decision" where
  "decision_table account operation ref now =
     (if t_playerID operation \<noteq> w_playerID account then reject WalletPlayerMismatch
      else if currency (t_amount operation) \<noteq> currency (w_balance account)
      then reject CurrencyMismatch
      else if t_kind operation = Bet then guarded account Debit operation uuid_Nil InsufficientFunds
      else if t_kind operation = Win then win_table account operation ref
      else if t_kind operation = Loss then bare OutcomeProcess
      else reversal_table account operation ref now)"

lemma affordable_simps:
  assumes "decidable_op account operation" "t_kind operation \<noteq> Loss"
  shows "affordable account Debit (t_amount operation) \<longleftrightarrow>
      \<not> amount_of (w_balance account) < amount_of (t_amount operation)"
    and "affordable account Credit (t_amount operation) \<longleftrightarrow>
      amount_of (w_balance account) + amount_of (t_amount operation) < 2 ^ 63"
  using decidable_amount [OF assms(1)] assms(2) amount_range [of "w_balance account"]
  by (auto simp: affordable_def)

text \<open>The two guards of the code, each as a row of the table.\<close>

lemma guards_table:
  assumes "decidable_op account operation" "t_kind operation \<noteq> Loss"
    "currency (t_amount operation) = currency (w_balance account)"
  shows "bindR (Cmp (w_balance account) (t_amount operation)) (\<lambda>c. if c < 0 then Inr (reject code)
        else Inr (process Debit (t_amount operation) r)) = Inr (guarded account Debit operation r code)"
    and "credit_guard (w_balance account) (t_amount operation)
        (Inr (process Credit (t_amount operation) r))
      = Inr (guarded account Credit operation r BalanceLimitExceeded)"
  using decidable_amount [OF assms(1)] affordable_simps [OF assms(1,2)] assms(2,3)
  by (auto simp: debit_guard_eq credit_guard_eq guarded_def)

lemma Equal_eq: "Valid a \<Longrightarrow> Equal a b \<longleftrightarrow> a = b"
  by (auto simp: Equal_def comparableWith_def money_eq_iff)

lemma decideSettled_table:
  assumes "decidable_op account operation" "t_kind operation \<noteq> Loss"
    "currency (t_amount operation) = currency (w_balance account)"
  shows "decideSettled account operation original reversed = Inr (
      if \<not> reversible (t_kind operation) (t_kind original) then reject ReferenceKindNotAllowed
      else if \<not> sameRound operation original \<or> t_amount operation \<noteq> t_amount original
      then reject ReferenceMismatch
      else if reversed then reject AlreadyReversed
      else if reversalDirection (t_kind operation) (t_kind original) = Debit
      then guarded account Debit operation (t_id original) ReversalInsufficientFunds
      else guarded account Credit operation (t_id original) BalanceLimitExceeded)"
proof -
  note g = guards_table [OF assms] and e = Equal_eq [OF decidable_amount(1) [OF assms(1)]]
  have d: "reversalDirection (t_kind operation) (t_kind original) = Debit
      \<or> reversalDirection (t_kind operation) (t_kind original) = Credit"
    by (simp add: reversalDirection_def)
  then show ?thesis by (elim disjE) (simp_all only: decideSettled_def Let_def g e if_True if_False
      direction.distinct refl if_distrib [where f = Inr])
qed

lemma decideReversal_table:
  assumes "decidable_op account operation" "Reversal (t_kind operation)"
    "currency (t_amount operation) = currency (w_balance account)"
  shows "decideReversal account operation ref now = Inr (reversal_table account operation ref now)"
proof -
  have "t_kind operation \<noteq> Loss" using assms(2) by (auto simp: Reversal_def)
  note t = decideSettled_table [OF assms(1) this assms(3)]
  show ?thesis
    by (simp add: decideReversal_def reversal_table_def Let_def t if_distrib [where f = Inr]
        split: option.splits)
qed

lemma Decide_decision_table:
  assumes "decidable_op account operation"
  shows "Decide account operation ref now = Inr (decision_table account operation ref now)"
proof (cases "currency (t_amount operation) = currency (w_balance account)")
  case True
  have i: "w_id account = t_walletID operation" using assms by (simp add: decidable_op_def)
  have k: "kind_External (t_kind operation)" by (rule decidable_amount(4) [OF assms])
  note g = guards_table [OF assms _ True]
  have win: "decideWin account operation ref = Inr (win_table account operation ref)"
    if "t_kind operation = Win"
    using g(2) that
    by (simp add: decideWin_def win_table_def if_distrib [where f = Inr] split: option.splits)
  have bet: "decideBet account operation = Inr (guarded account Debit operation uuid_Nil InsufficientFunds)"
    if "t_kind operation = Bet"
    using g(1) that by (simp add: decideBet_def)
  show ?thesis
    using i True k win bet decideReversal_table [OF assms _ True, of ref now]
    by (auto simp: Decide_def decision_table_def OwnedBy_def kind_defs split: kind.splits)
next
  case False
  then show ?thesis
    using assms by (auto simp: Decide_def decision_table_def OwnedBy_def decidable_op_def)
qed

section \<open>Enacting a decision\<close>

lemma decidable_wf:
  assumes "decidable_op account operation"
  shows "tx_wf operation" "wallet_inv account"
    "t_status operation = Pending \<or> t_status operation = PendingReference"
  using assms by (auto simp: decidable_op_def)

text \<open>What the table may answer: the shape of every decision.\<close>

definition known_reference :: "tx \<Rightarrow> reference option \<Rightarrow> uuid \<Rightarrow> bool" where
  "known_reference operation ref r \<longleftrightarrow>
     (\<exists>o'. Option.bind ref ref_transaction = Some o' \<and> r = t_id o') \<and> t_referenceExternalID operation \<noteq> []"

lemma decision_cases:
  assumes "decidable_op account operation"
  obtains (move) d r where "decision_table account operation ref now = process d (t_amount operation) r"
      "d = Debit \<or> d = Credit" "affordable account d (t_amount operation)" "t_kind operation \<noteq> Loss"
      "currency (t_amount operation) = currency (w_balance account)"
      "r = uuid_Nil \<and> \<not> Reversal (t_kind operation) \<or> known_reference operation ref r"
      "ForbidsReference (t_kind operation) \<longrightarrow> r = uuid_Nil"
    | (loss) "decision_table account operation ref now = bare OutcomeProcess" "t_kind operation = Loss"
      "currency (t_amount operation) = currency (w_balance account)"
    | (reject) code where "decision_table account operation ref now = reject code"
      "failure_Valid code" "code \<noteq> PermanentFailure"
    | (wait) "decision_table account operation ref now = bare OutcomeWaitReference"
      "Reversal (t_kind operation)" "\<not> deadlineReached operation now"
proof -
  note k = decidable_amount(4) [OF assms]
  have g: thesis if "decision_table account operation ref now = guarded account d operation r code"
    "d = Debit \<or> d = Credit" "t_kind operation \<noteq> Loss" "failure_Valid code" "code \<noteq> PermanentFailure"
    "currency (t_amount operation) = currency (w_balance account)"
    "r = uuid_Nil \<and> \<not> Reversal (t_kind operation) \<or> known_reference operation ref r"
    "ForbidsReference (t_kind operation) \<longrightarrow> r = uuid_Nil" for d r code
    using that move reject by (auto simp: guarded_def split: if_splits)
  have rj: thesis if "decision_table account operation ref now = Decision.reject code"
    "code \<in> {WalletPlayerMismatch, CurrencyMismatch, ReferenceKindNotAllowed, ReferenceMismatch,
      ReferenceNotFound, ReferenceNotProcessed, AlreadyReversed}" for code
    using that reject by (auto simp: failure_Valid_def)
  consider "t_playerID operation \<noteq> w_playerID account" | "currency (t_amount operation) \<noteq> currency (w_balance account)"
    | (ok) "t_playerID operation = w_playerID account" "currency (t_amount operation) = currency (w_balance account)"
    by blast
  then show thesis
  proof cases
    case 1 then show ?thesis by (intro rj [of WalletPlayerMismatch]) (simp_all add: decision_table_def)
  next
    case 2 then show ?thesis
      by (cases "t_playerID operation = w_playerID account")
        (auto simp: decision_table_def intro: rj)
  next
    case ok
    from k consider "t_kind operation = Bet" | "t_kind operation = Win" | "t_kind operation = Loss"
      | "Reversal (t_kind operation)" by (auto simp: kind_defs)
    then show ?thesis
    proof cases
      case 1 with ok show ?thesis
        by (intro g [of Debit uuid_Nil InsufficientFunds])
          (auto simp: decision_table_def Reversal_def failure_Valid_def)
    next
      case 3 with ok show ?thesis by (intro loss) (simp_all add: decision_table_def)
    next
      case 2
      with ok have t: "decision_table account operation ref now = win_table account operation ref"
        by (simp add: decision_table_def)
      show ?thesis
      proof (cases "if t_referenceExternalID operation \<noteq> [] then Option.bind ref ref_transaction else None")
        case None with t 2 ok show ?thesis
          by (intro g [of Credit uuid_Nil BalanceLimitExceeded])
            (simp_all add: win_table_def Reversal_def failure_Valid_def)
      next
        case (Some o')
        then have "known_reference operation ref (t_id o')"
          by (auto simp: known_reference_def split: if_splits)
        with Some t 2 ok show ?thesis
          using g [of Credit "t_id o'" BalanceLimitExceeded] rj
          by (auto simp: win_table_def ForbidsReference_def failure_Valid_def split: if_splits)
      qed
    next
      case 4
      with ok have t: "decision_table account operation ref now = reversal_table account operation ref now"
        by (auto simp: decision_table_def Reversal_def)
      have e: "t_referenceExternalID operation \<noteq> []" "\<not> ForbidsReference (t_kind operation)"
        "t_kind operation \<noteq> Loss"
        using 4 decidable_wf(1) [OF assms]
        by (auto simp: tx_wf_def external_fields_def Reversal_def ForbidsReference_def split: if_splits)
      show ?thesis
      proof (cases "Option.bind ref (\<lambda>r. map_option (\<lambda>t. (t, ref_alreadyReversed r)) (ref_transaction r))")
        case None with t 4 show ?thesis
          by (cases "deadlineReached operation now") (auto simp: reversal_table_def intro: wait rj)
      next
        case (Some p)
        then obtain o' rev where p: "Option.bind ref (\<lambda>r. map_option (\<lambda>t. (t, ref_alreadyReversed r))
            (ref_transaction r)) = Some (o', rev)" "Option.bind ref ref_transaction = Some o'"
          by (cases p) (auto simp: bind_eq_Some_conv)
        then have kr: "known_reference operation ref (t_id o')" using e by (simp add: known_reference_def)
        show ?thesis
          using p(1) t 4 e ok kr wait rj
            g [of Debit "t_id o'" ReversalInsufficientFunds] g [of Credit "t_id o'" BalanceLimitExceeded]
          by (auto simp: reversal_table_def failure_Valid_def split: if_splits)
      qed
    qed
  qed
qed

lemma guard_facts [simp]:
  "movement_Present (d_movement (process Debit a r))" "movement_Present (d_movement (process Credit a r))"
  by (simp_all add: movement_Present_def process_def direction_Valid_def)

lemma movement_allowed_affordable:
  assumes "decidable_op account operation" "affordable account d (t_amount operation)"
    "t_kind operation \<noteq> Loss" "currency (t_amount operation) = currency (w_balance account)"
    "sint (w_version account) < 2 ^ 63 - 1"
  shows "movement_allowed account d (t_amount operation)"
  using assms decidable_amount [OF assms(1)]
  by (simp add: movement_allowed_def affordable_def)

text \<open>
  The step after the decision, as the use cases take it: move the wallet if the decision says
  so and mark the transaction with the balance that results.
\<close>

definition enact :: "wallet \<Rightarrow> tx \<Rightarrow> decision \<Rightarrow> uuid \<Rightarrow> time \<Rightarrow> time \<Rightarrow> time \<Rightarrow> (wallet \<times> tx) result" where
  "enact account operation d entryID n deadline now =
     (case d_outcome d of
        OutcomeProcess \<Rightarrow>
          bindR (if movement_Present (d_movement d)
             then bindR (wallet_move account (mv_direction (d_movement d)) (t_id operation)
                    (mv_amount (d_movement d)) entryID now) (\<lambda>(e, account'). Inr account')
             else Inr account) (\<lambda>account'.
          bindR (MarkProcessed operation (w_balance account') (d_referenceID d) now) (\<lambda>operation'.
          Inr (account', operation')))
      | OutcomeReject \<Rightarrow>
          bindR (MarkRejected operation (d_failureCode d) (w_balance account) now) (\<lambda>operation'.
          Inr (account, operation'))
      | OutcomeWaitReference \<Rightarrow>
          bindR (if t_status operation = Pending then MarkPendingReference operation n deadline now
             else Reschedule operation n now) (\<lambda>operation'.
          Inr (account, operation')))"

text \<open>References the lookups return: identified, and not the operation itself.\<close>

definition reference_ok :: "tx \<Rightarrow> reference option \<Rightarrow> bool" where
  "reference_ok operation ref \<longleftrightarrow>
     (case Option.bind ref ref_transaction of None \<Rightarrow> True
      | Some original \<Rightarrow> t_id original \<noteq> uuid_Nil \<and> t_id original \<noteq> t_id operation)"

lemma enact_succeeds:
  assumes op: "decidable_op account operation" and ref: "reference_ok operation ref"
    and room: "sint (w_version account) < 2 ^ 63 - 1"
    and args: "entryID \<noteq> uuid_Nil" "now \<noteq> time_zero" "n \<noteq> time_zero" "deadline \<noteq> time_zero"
  shows "\<exists>r. enact account operation (decision_table account operation ref now') entryID n deadline now = Inr r"
proof -
  note wf = decidable_wf(1) [OF op] and inv = decidable_wf(2) [OF op] and st = decidable_wf(3) [OF op]
  have i: "t_id operation \<noteq> uuid_Nil" using wf by (simp add: tx_wf_def)
  have b: "Valid (w_balance account)" "0 \<le> amount_of (w_balance account)"
    using inv by (simp_all add: wallet_inv_def)
  from op show ?thesis
  proof (cases rule: decision_cases [where ref = ref and now = now'])
    case (move d r)
    then have d: "direction_Valid d" by (auto simp: direction_Valid_def)
    have al: "movement_allowed account d (t_amount operation)"
      by (rule movement_allowed_affordable [OF op move(3,4,5) room])
    then have m: "wallet_move account d (t_id operation) (t_amount operation) entryID now =
        Inr (moved_entry account d (t_id operation) (t_amount operation) entryID now,
          moved_wallet account d (t_amount operation) now)"
      using i args by (simp add: wallet_move_eq_Inr [OF inv d])
    have b': "wallet_inv (moved_wallet account d (t_amount operation) now)"
      using wallet_move_inv [OF inv d m] by simp
    have r: "r = uuid_Nil \<and> \<not> Reversal (t_kind operation)
        \<or> r \<noteq> uuid_Nil \<and> r \<noteq> t_id operation \<and> t_referenceExternalID operation \<noteq> []"
      using move(6) ref by (auto simp: known_reference_def reference_ok_def)
    have "\<exists>t'. MarkProcessed operation (w_balance (moved_wallet account d (t_amount operation) now)) r now = Inr t'"
      using b' st args move(5,7) r i by (auto simp: MarkProcessed_eq_Inr wallet_inv_def moved_wallet_def)
    then show ?thesis using move(1,2) m
      by (auto simp: enact_def)
  next
    case loss
    then have "\<exists>t'. MarkProcessed operation (w_balance account) uuid_Nil now = Inr t'"
      using b st args i by (auto simp: MarkProcessed_eq_Inr Reversal_def)
    then show ?thesis using loss by (auto simp: enact_def)
  next
    case (reject code)
    then have "\<exists>t'. MarkRejected operation code (w_balance account) now = Inr t'"
      using b st args by (auto simp: MarkRejected_eq_Inr)
    then show ?thesis using reject by (auto simp: enact_def)
  next
    case wait
    then show ?thesis using st args
      by (auto simp: enact_def bindR_eq_Inr MarkPendingReference_eq_Inr Reschedule_eq_Inr)
  qed
qed

lemma guarded_process [simp]:
  "d_outcome (guarded account d operation r code) = OutcomeProcess \<longleftrightarrow>
     affordable account d (t_amount operation)"
  "d_outcome (guarded account d operation r code) \<noteq> OutcomeWaitReference"
  by (simp_all add: guarded_def)

lemma outcome_if [simp]:
  "d_outcome (if b then x else y) = (if b then d_outcome x else d_outcome y)"
  by simp

text \<open>The table for a reversal whose original is known, and what its answer says.\<close>

lemma decision_table_reversal:
  assumes "Reversal (t_kind operation)"
  shows "decision_table account operation ref now =
     (if t_playerID operation \<noteq> w_playerID account then reject WalletPlayerMismatch
      else if currency (t_amount operation) \<noteq> currency (w_balance account)
      then reject CurrencyMismatch else reversal_table account operation ref now)"
  using assms by (auto simp: decision_table_def Reversal_def)

lemma reversal_table_process:
  assumes "status_Valid (t_status original)"
  shows "d_outcome (reversal_table account operation (Some \<lparr>ref_transaction = Some original,
      ref_alreadyReversed = reversed\<rparr>) now) = OutcomeProcess \<longleftrightarrow>
    t_status original = Processed \<and> reversible (t_kind operation) (t_kind original)
    \<and> sameRound operation original \<and> t_amount operation = t_amount original \<and> \<not> reversed
    \<and> affordable account (reversalDirection (t_kind operation) (t_kind original)) (t_amount operation)"
proof -
  have "reversalDirection (t_kind operation) (t_kind original) = Debit
      \<or> reversalDirection (t_kind operation) (t_kind original) = Credit"
    by (simp add: reversalDirection_def)
  then show ?thesis
    using assms
    by (elim disjE; cases "t_status original") (auto simp add: reversal_table_def status_Valid_def)
qed

lemma reversal_table_processed:
  assumes "status_Valid (t_status original)"
    and "d_outcome (reversal_table account operation (Some \<lparr>ref_transaction = Some original,
      ref_alreadyReversed = reversed\<rparr>) now) = OutcomeProcess"
  shows "reversal_table account operation (Some \<lparr>ref_transaction = Some original,
      ref_alreadyReversed = reversed\<rparr>) now
    = process (reversalDirection (t_kind operation) (t_kind original)) (t_amount operation) (t_id original)"
proof -
  have "reversalDirection (t_kind operation) (t_kind original) = Debit
      \<or> reversalDirection (t_kind operation) (t_kind original) = Credit"
    by (simp add: reversalDirection_def)
  then show ?thesis
    using assms(2) unfolding reversal_table_process [OF assms(1)]
    by (elim disjE) (auto simp add: reversal_table_def guarded_def)
qed

text \<open>The four ways an operation is processed.\<close>

lemma Decide_process_cases:
  assumes op: "decidable_op account operation" and d: "Decide account operation ref now = Inr d"
    and p: "d_outcome d = OutcomeProcess" and v: "\<forall>original. Option.bind ref ref_transaction = Some original
      \<longrightarrow> status_Valid (t_status original)"
  obtains (loss) "t_kind operation = Loss" "d = bare OutcomeProcess"
    | (bet) "t_kind operation = Bet" "d = process Debit (t_amount operation) uuid_Nil"
    | (win) r where "t_kind operation = Win" "d = process Credit (t_amount operation) r"
    | (reversal) original where "Reversal (t_kind operation)"
      "ref = Some \<lparr>ref_transaction = Some original, ref_alreadyReversed = False\<rparr>"
      "t_status original = Processed" "reversible (t_kind operation) (t_kind original)"
      "sameRound operation original" "t_amount operation = t_amount original"
      "d = process (reversalDirection (t_kind operation) (t_kind original)) (t_amount operation) (t_id original)"
proof -
  have dt: "d = decision_table account operation ref now"
    using d Decide_decision_table [OF op] by simp
  note k = decidable_amount(4) [OF op]
  have ok: "t_playerID operation = w_playerID account" "currency (t_amount operation) = currency (w_balance account)"
    using p unfolding dt by (auto simp: decision_table_def split: if_splits)
  from k consider "t_kind operation = Bet" | "t_kind operation = Win" | "t_kind operation = Loss"
    | "Reversal (t_kind operation)" by (auto simp: kind_defs)
  then show thesis
  proof cases
    case 1
    with ok p show ?thesis
      by (intro bet) (auto simp: dt decision_table_def guarded_def split: if_splits)
  next
    case 2
    have "\<exists>r. d = process Credit (t_amount operation) r"
      using 2 ok p unfolding dt
      by (auto simp: decision_table_def win_table_def guarded_def split: if_splits option.splits)
    with 2 win show ?thesis by blast
  next
    case 3
    with ok show ?thesis by (intro loss) (simp_all add: dt decision_table_def)
  next
    case 4
    have rt: "d = reversal_table account operation ref now"
      using 4 ok unfolding dt decision_table_reversal [OF 4] by simp
    have "\<exists>original rev. ref = Some \<lparr>ref_transaction = Some original, ref_alreadyReversed = rev\<rparr>"
    proof (cases "Option.bind ref ref_transaction")
      case None
      then have "d_outcome d \<noteq> OutcomeProcess" unfolding rt
        by (cases ref) (simp_all add: reversal_table_def)
      with p show ?thesis by simp
    next
      case (Some original)
      then obtain r where "ref = Some r" "ref_transaction r = Some original" by (auto simp: bind_eq_Some_conv)
      then show ?thesis by (cases r) auto
    qed
    then obtain original rev where r: "ref = Some \<lparr>ref_transaction = Some original, ref_alreadyReversed = rev\<rparr>"
      by blast
    then have sv: "status_Valid (t_status original)" using v by simp
    note rt' = rt [unfolded r]
    from p [unfolded rt', unfolded reversal_table_process [OF sv]]
    have f: "t_status original = Processed" "reversible (t_kind operation) (t_kind original)"
      "sameRound operation original" "t_amount operation = t_amount original" "\<not> rev" by auto
    show ?thesis
      using reversal_table_processed [OF sv p [unfolded rt'], folded rt'] f r
      by (intro reversal [OF 4]) auto
  qed
qed

section \<open>Properties\<close>

lemma sample_decidable:
  "decidable_op sample_wallet (new_tx (sample_command Bet []) 5 10)"
  "decidable_op sample_wallet (new_tx (sample_command Refund ''o'') 6 10)"
  using tx_reachable_wf [OF reach_external [OF sample_bet]]
    tx_reachable_wf [OF reach_external [OF sample_refund]]
  by (simp_all add: decidable_op_def sample_wallet_inv)
    (simp_all add: new_tx_def sample_command_def sample_wallet_def)

text \<open>The processed bet the sample refund gives back.\<close>

definition sample_original :: tx where
  "sample_original = (new_tx (sample_command Bet []) 5 10)
     \<lparr>t_status := Processed, t_resultBalance := \<lparr>minor = 7500, currency = BRL\<rparr>,
      t_completedAt := 10\<rparr>"

text \<open>
  C16. The decision is total and is the decision table: on a wallet and an open operation that
  are well formed, \<open>Decide\<close> returns no error, and what it returns is the table with the money
  arithmetic replaced by integer comparisons.
\<close>

theorem decide_refines_table:
  assumes "decidable_op account operation"
  shows "Decide account operation ref now = Inr (decision_table account operation ref now)"
  by (rule Decide_decision_table [OF assms])

theorem decide_refines_table_witness:
  "Decide sample_wallet (new_tx (sample_command Bet []) 5 10) None 11
     = Inr (process Debit \<lparr>minor = 2500, currency = BRL\<rparr> uuid_Nil)"
  using decide_refines_table [OF sample_decidable(1), of None 11]
  by (simp add: decision_table_def new_tx_def sample_command_def sample_wallet_def guarded_def
      affordable_def amount_of_def)

text \<open>
  Every decision can be carried out: the movement it asks for is one the wallet accepts
  (unless the version counter is exhausted), the transition it asks for is one the transaction
  allows, and no failure code, reference or balance it produces is refused by them.
\<close>

theorem decisions_are_enactable:
  assumes "decidable_op account operation" and "reference_ok operation ref"
    and "sint (w_version account) < 2 ^ 63 - 1"
    and "entryID \<noteq> uuid_Nil" and "now \<noteq> time_zero" and "n \<noteq> time_zero" and "deadline \<noteq> time_zero"
    and "Decide account operation ref now = Inr d"
  shows "\<exists>account' operation'. enact account operation d entryID n deadline now
    = Inr (account', operation')"
  using enact_succeeds [OF assms(1-7), of now] Decide_decision_table [OF assms(1), of ref now] assms(8)
  by auto

theorem decisions_are_enactable_witness:
  "\<exists>d w t. Decide sample_wallet (new_tx (sample_command Bet []) 5 10) None 11 = Inr d
     \<and> enact sample_wallet (new_tx (sample_command Bet []) 5 10) d 8 20 30 11 = Inr (w, t)"
proof -
  let ?t = "new_tx (sample_command Bet []) 5 10"
  have d: "Decide sample_wallet ?t None 11 = Inr (decision_table sample_wallet ?t None 11)"
    by (rule Decide_decision_table [OF sample_decidable(1)])
  have "\<exists>w t. enact sample_wallet ?t (decision_table sample_wallet ?t None 11) 8 20 30 11 = Inr (w, t)"
    by (rule decisions_are_enactable [OF sample_decidable(1) _ _ _ _ _ _ d])
      (simp_all add: reference_ok_def sample_wallet_def)
  with d show ?thesis by blast
qed



text \<open>The signed effect of an operation on the balance of its wallet.\<close>

definition effect :: "decision \<Rightarrow> int" where
  "effect d = (if movement_Present (d_movement d)
     then signed_amount (mv_direction (d_movement d)) (mv_amount (d_movement d)) else 0)"

lemma effect_simps [simp]:
  "effect (process Debit a r) = - amount_of a" "effect (process Credit a r) = amount_of a"
  "effect (reject c) = 0" "effect (bare out) = 0"
  by (simp_all add: effect_def)

text \<open>The effect the kind of a processed operation has by contract.\<close>

fun kind_effect :: "kind \<Rightarrow> money \<Rightarrow> int" where
  "kind_effect Bet a = - amount_of a"
| "kind_effect Loss a = 0"
| "kind_effect _ a = amount_of a"

lemma effect_zero: "d_outcome (decision_table account operation ref now) \<noteq> OutcomeProcess \<Longrightarrow>
    decidable_op account operation \<Longrightarrow> effect (decision_table account operation ref now) = 0"
  by (erule decision_cases [where ref = ref and now = now]) simp_all

lemma reversal_opposite:
  assumes "reversible k k'"
  shows "effect (process (reversalDirection k k') a r) = - kind_effect k' a"
  using assms by (cases k) (auto simp: reversible_def reversalDirection_def)

text \<open>
  C15. A reversal undoes its original and nothing else: whenever the decision on a reversal is to
  process it, the effect on the balance is the exact opposite of what the original did (a bet
  took the amount, a win and a refund gave it), and the original is recorded as its reference.
  A decision not to process moves nothing.
\<close>

theorem reversal_undoes_original:
  assumes "decidable_op account operation" and "Reversal (t_kind operation)"
    and "status_Valid (t_status original)"
    and "Decide account operation (Some \<lparr>ref_transaction = Some original,
        ref_alreadyReversed = reversed\<rparr>) now = Inr d"
  shows "(d_outcome d = OutcomeProcess \<longrightarrow>
      effect d = - kind_effect (t_kind original) (t_amount original) \<and> d_referenceID d = t_id original)
    \<and> (d_outcome d \<noteq> OutcomeProcess \<longrightarrow> effect d = 0)"
proof -
  have d: "d = decision_table account operation (Some \<lparr>ref_transaction = Some original,
      ref_alreadyReversed = reversed\<rparr>) now"
    using assms(4) Decide_decision_table [OF assms(1)] by simp
  show ?thesis
  proof (intro conjI impI)
    assume p: "d_outcome d = OutcomeProcess"
    then have t: "d = reversal_table account operation (Some \<lparr>ref_transaction = Some original,
      ref_alreadyReversed = reversed\<rparr>) now"
      unfolding d decision_table_reversal [OF assms(2)] by (auto split: if_splits)
    note e = reversal_table_processed [OF assms(3) p [unfolded t], folded t]
    from p [unfolded t, unfolded reversal_table_process [OF assms(3)]]
    have r: "reversible (t_kind operation) (t_kind original)" "t_amount operation = t_amount original"
      by auto
    then show "effect d = - kind_effect (t_kind original) (t_amount original)"
      by (simp add: e reversal_opposite del: effect_simps)
    show "d_referenceID d = t_id original" by (simp add: e)
  next
    assume "d_outcome d \<noteq> OutcomeProcess"
    then show "effect d = 0" unfolding d by (rule effect_zero [OF _ assms(1)])
  qed
qed

theorem reversal_undoes_original_witness:
  "\<exists>d. Decide sample_wallet (new_tx (sample_command Refund ''o'') 6 10)
     (Some \<lparr>ref_transaction = Some sample_original, ref_alreadyReversed = False\<rparr>) 11 = Inr d
     \<and> effect d = 2500"
proof -
  let ?t = "new_tx (sample_command Refund ''o'') 6 10"
  let ?r = "Some \<lparr>ref_transaction = Some sample_original, ref_alreadyReversed = False\<rparr>"
  have k: "Reversal (t_kind ?t)" "status_Valid (t_status sample_original)"
    by (simp_all add: new_tx_def sample_command_def Reversal_def sample_original_def status_Valid_def)
  have d: "Decide sample_wallet ?t ?r 11 = Inr (process Credit (t_amount ?t) 5)"
    unfolding Decide_decision_table [OF sample_decidable(2)]
    by (simp add: decision_table_def reversal_table_def sample_original_def new_tx_def
        sample_command_def sample_wallet_def reversible_def sameRound_def reversalDirection_def
        guarded_def affordable_def amount_of_def)
  from reversal_undoes_original [OF sample_decidable(2) k d] d show ?thesis
    by (auto simp: sample_original_def new_tx_def sample_command_def amount_of_def)
qed

lemma Decide_waits:
  assumes "decidable_op account operation"
  shows "(\<exists>d. Decide account operation ref now = Inr d \<and> d_outcome d = OutcomeWaitReference) \<longleftrightarrow>
    t_playerID operation = w_playerID account
    \<and> currency (t_amount operation) = currency (w_balance account)
    \<and> Reversal (t_kind operation) \<and> \<not> deadlineReached operation now
    \<and> (case Option.bind ref ref_transaction of None \<Rightarrow> True
       | Some original \<Rightarrow> t_status original = Pending \<or> t_status original = PendingReference)"
proof (cases "Reversal (t_kind operation)")
  case True
  have "d_outcome (reversal_table account operation ref now) = OutcomeWaitReference \<longleftrightarrow>
    \<not> deadlineReached operation now \<and> (case Option.bind ref ref_transaction of None \<Rightarrow> True
       | Some original \<Rightarrow> t_status original = Pending \<or> t_status original = PendingReference)"
  proof (cases "Option.bind ref ref_transaction")
    case None then show ?thesis by (cases ref) (simp_all add: reversal_table_def)
  next
    case (Some original) then show ?thesis by (cases ref) (simp_all add: reversal_table_def)
  qed
  then show ?thesis
    unfolding Decide_decision_table [OF assms] decision_table_reversal [OF True] using True by simp
next
  case False
  then show ?thesis
    using assms unfolding Decide_decision_table [OF assms]
    by (auto elim!: decision_cases [where ref = ref and now = now])
qed

text \<open>
  An operation waits only as a reversal, only while its reference is missing or itself still
  open, and only before its deadline: a decision to wait is impossible once the deadline passed.
\<close>

theorem waits_iff:
  assumes "decidable_op account operation"
  shows "(\<exists>d. Decide account operation ref now = Inr d \<and> d_outcome d = OutcomeWaitReference) \<longleftrightarrow>
    t_playerID operation = w_playerID account
    \<and> currency (t_amount operation) = currency (w_balance account)
    \<and> Reversal (t_kind operation) \<and> \<not> deadlineReached operation now
    \<and> (case Option.bind ref ref_transaction of None \<Rightarrow> True
       | Some original \<Rightarrow> t_status original = Pending \<or> t_status original = PendingReference)"
  by (rule Decide_waits [OF assms])

theorem waits_iff_witness:
  "\<exists>d. Decide sample_wallet (new_tx (sample_command Refund ''o'') 6 10) None 11 = Inr d
     \<and> d_outcome d = OutcomeWaitReference"
  using waits_iff [OF sample_decidable(2), of None 11]
  by (simp add: new_tx_def sample_command_def sample_wallet_def Reversal_def deadlineReached_def)

end
