(* ===== verification/Names.thy ===== *)
theory Names
  imports Wagering
begin

text \<open>
  The string forms of the enumerations: the \<open>String\<close> methods of \<open>kind.go\<close> and \<open>ledger.go\<close>
  and the conversions \<open>Status(s)\<close>, \<open>Origin(s)\<close>, \<open>FailureCode(s)\<close>, \<open>Direction(s)\<close> that read
  them back. Fact: reading a printed valid value gives it back.
\<close>

fun direction_String :: "direction \<Rightarrow> string" where
  "direction_String Debit = ''DEBIT''"
| "direction_String Credit = ''CREDIT''"
| "direction_String (OtherDirection s) = s"

definition direction_of_string :: "string \<Rightarrow> direction" where
  "direction_of_string s =
     (if s = ''DEBIT'' then Debit else if s = ''CREDIT'' then Credit else OtherDirection s)"

fun status_String :: "status \<Rightarrow> string" where
  "status_String Pending = ''PENDING''"
| "status_String PendingReference = ''PENDING_REFERENCE''"
| "status_String Processed = ''PROCESSED''"
| "status_String Rejected = ''REJECTED''"
| "status_String Failed = ''FAILED''"
| "status_String (OtherStatus s) = s"

definition status_of_string :: "string \<Rightarrow> status" where
  "status_of_string s =
     (if s = ''PENDING'' then Pending else if s = ''PENDING_REFERENCE'' then PendingReference
      else if s = ''PROCESSED'' then Processed else if s = ''REJECTED'' then Rejected
      else if s = ''FAILED'' then Failed else OtherStatus s)"

fun origin_String :: "origin \<Rightarrow> string" where
  "origin_String Internal = ''INTERNAL''"
| "origin_String HTTP = ''HTTP''"
| "origin_String Queue = ''SQS''"
| "origin_String (OtherOrigin s) = s"

definition origin_of_string :: "string \<Rightarrow> origin" where
  "origin_of_string s =
     (if s = ''INTERNAL'' then Internal else if s = ''HTTP'' then HTTP
      else if s = ''SQS'' then Queue else OtherOrigin s)"

fun failure_String :: "failure_code \<Rightarrow> string" where
  "failure_String InsufficientFunds = ''INSUFFICIENT_FUNDS''"
| "failure_String ReversalInsufficientFunds = ''REVERSAL_INSUFFICIENT_FUNDS''"
| "failure_String BalanceLimitExceeded = ''BALANCE_LIMIT_EXCEEDED''"
| "failure_String ReferenceNotFound = ''REFERENCE_NOT_FOUND''"
| "failure_String ReferenceNotProcessed = ''REFERENCE_NOT_PROCESSED''"
| "failure_String ReferenceMismatch = ''REFERENCE_MISMATCH''"
| "failure_String ReferenceKindNotAllowed = ''REFERENCE_KIND_NOT_ALLOWED''"
| "failure_String AlreadyReversed = ''ALREADY_REVERSED''"
| "failure_String CurrencyMismatch = ''CURRENCY_MISMATCH''"
| "failure_String WalletPlayerMismatch = ''WALLET_PLAYER_MISMATCH''"
| "failure_String PermanentFailure = ''PERMANENT_FAILURE''"
| "failure_String (OtherFailure s) = s"

definition failure_codes :: "failure_code list" where
  "failure_codes = [InsufficientFunds, ReversalInsufficientFunds, BalanceLimitExceeded,
     ReferenceNotFound, ReferenceNotProcessed, ReferenceMismatch, ReferenceKindNotAllowed,
     AlreadyReversed, CurrencyMismatch, WalletPlayerMismatch, PermanentFailure]"

definition failure_of_string :: "string \<Rightarrow> failure_code" where
  "failure_of_string s =
     (case List.find (\<lambda>f. failure_String f = s) failure_codes of Some f \<Rightarrow> f | None \<Rightarrow> OtherFailure s)"

lemma direction_roundtrip [simp]: "direction_Valid d \<Longrightarrow> direction_of_string (direction_String d) = d"
  by (auto simp: direction_Valid_def direction_of_string_def)

lemma status_roundtrip [simp]: "status_Valid s \<Longrightarrow> status_of_string (status_String s) = s"
  by (auto simp: status_Valid_def status_of_string_def)

lemma origin_roundtrip [simp]: "origin_Valid r \<Longrightarrow> origin_of_string (origin_String r) = r"
  by (auto simp: origin_Valid_def origin_of_string_def)

lemma kind_roundtrip [simp]: "kind_Valid k \<Longrightarrow> kind_of_string (kind_String k) = k"
  by (auto simp: kind_Valid_def kind_of_string_def)

lemma currency_roundtrip [simp]: "Supported c \<Longrightarrow> ParseCurrency (currency_String c) = Inr c"
  by (simp add: ParseCurrency_Inr)

lemma failure_roundtrip [simp]: "failure_Valid f \<Longrightarrow> failure_of_string (failure_String f) = f"
  by (cases f) (simp_all add: failure_Valid_def failure_of_string_def failure_codes_def)

lemma no_failure_String [simp]: "failure_String no_failure = []" "failure_of_string [] = no_failure"
  by (simp_all add: no_failure_def failure_of_string_def failure_codes_def)

lemma status_String_eq [simp]:
  "status_Valid s \<Longrightarrow> status_String s = ''PENDING_REFERENCE'' \<longleftrightarrow> s = PendingReference"
  "status_Valid s \<Longrightarrow> status_String s = ''PROCESSED'' \<longleftrightarrow> s = Processed"
  by (auto simp: status_Valid_def)

lemma kind_String_eq [simp]:
  "kind_Valid k \<Longrightarrow> kind_String k = ''OPENING'' \<longleftrightarrow> k = Opening"
  "kind_Valid k \<Longrightarrow> kind_String k = ''REFUND'' \<longleftrightarrow> k = Refund"
  "kind_Valid k \<Longrightarrow> kind_String k = ''ROLLBACK'' \<longleftrightarrow> k = Rollback"
  by (auto simp: kind_Valid_def)

lemma direction_String_eq [simp]:
  "direction_Valid d \<Longrightarrow> direction_String d = ''CREDIT'' \<longleftrightarrow> d = Credit"
  by (auto simp: direction_Valid_def)

lemma currency_String_inj: "Supported c \<Longrightarrow> Supported d \<Longrightarrow> currency_String c = currency_String d \<longleftrightarrow> c = d"
  by (auto simp: Supported_def)

lemma failure_String_nonempty: "failure_Valid f \<Longrightarrow> failure_String f \<noteq> []"
  by (auto simp: failure_Valid_def)

end
