(* ===== verification/Event.thy ===== *)
theory Event
  imports Names
begin

text \<open>
  \<open>internal/domain/event\<close>: the envelope (\<open>event.go\<close>) and the payloads (\<open>payloads.go\<close>) of the
  events the service publishes, down to their JSON text. The textual form of a UUID is that of
  a third-party package; it is the parameter \<open>us\<close> of the definitions that print one. Facts:
  when an envelope is built, and that the JSON of an event of a well-formed operation is always
  produced.
\<close>

section \<open>Timestamps\<close>

text \<open>\<open>appendInt\<close> of package \<open>time\<close>: a number padded with zeros to a width.\<close>

definition pad_int :: "nat \<Rightarrow> int \<Rightarrow> string" where
  "pad_int width x =
     (let s = format_uint (nat \<bar>x\<bar>) in
      (if x < 0 then ''-'' else []) @ replicate (width - length s) CHR ''0'' @ s)"

text \<open>The civil date of a day counted from 1 January of year 1, in the proleptic Gregorian calendar.\<close>

definition civil :: "int \<Rightarrow> int \<times> int \<times> int" where
  "civil days =
     (let z = days + 306; era = z div 146097; doe = z mod 146097;
          yoe = (doe - doe div 1460 + doe div 36524 - doe div 146096) div 365;
          doy = doe - (365 * yoe + yoe div 4 - yoe div 100);
          mp = (5 * doy + 2) div 153;
          d = doy - (153 * mp + 2) div 5 + 1;
          m = (if mp < 10 then mp + 3 else mp - 9)
      in (yoe + era * 400 + (if m \<le> 2 then 1 else 0), m, d))"

text \<open>The layout \<open>2006-01-02T15:04:05.000Z07:00\<close> in UTC: milliseconds, truncated.\<close>

definition format_instant :: "time \<Rightarrow> string" where
  "format_instant t =
     (let s = t div 1000000000; (y, m, d) = civil (s div 86400); r = s mod 86400 in
      pad_int 4 y @ ''-'' @ pad_int 2 m @ ''-'' @ pad_int 2 d @ ''T''
      @ pad_int 2 (r div 3600) @ '':'' @ pad_int 2 (r mod 3600 div 60) @ '':'' @ pad_int 2 (r mod 60)
      @ ''.'' @ pad_int 3 (t mod 1000000000 div 1000000) @ ''Z'')"

definition Timestamp_MarshalJSON :: "time \<Rightarrow> string" where
  "Timestamp_MarshalJSON t = json_string True (format_instant t)"

section \<open>Types and data\<close>

datatype event_type = TypeProcessed | TypeRejected | TypeBalanceChanged | TypePendingReference

fun type_String :: "event_type \<Rightarrow> string" where
  "type_String TypeProcessed = ''WagerTransactionProcessed''"
| "type_String TypeRejected = ''WagerTransactionRejected''"
| "type_String TypeBalanceChanged = ''WalletBalanceChanged''"
| "type_String TypePendingReference = ''WagerTransactionPendingReference''"

datatype aggregate_type = AggregateWallet | AggregateTransaction

fun aggregate_String :: "aggregate_type \<Rightarrow> string" where
  "aggregate_String AggregateWallet = ''wallet''"
| "aggregate_String AggregateTransaction = ''wager_transaction''"

definition Version :: i64 where
  "Version = 1"

record settled_core =
  sc_transactionID :: uuid
  sc_walletID :: uuid
  sc_playerID :: uuid
  sc_kind :: string
  sc_money :: money

record provider_metadata =
  pm_providerID :: string
  pm_externalTransactionID :: string
  pm_roundID :: string
  pm_gameID :: string
  pm_referenceExternalTransactionID :: "string option"
  pm_referenceTransactionID :: "uuid option"

record balance_changed =
  bc_walletID :: uuid
  bc_playerID :: uuid
  bc_transactionID :: uuid
  bc_kind :: string
  bc_direction :: string
  bc_money :: money
  bc_balanceBefore :: money
  bc_balanceAfter :: money
  bc_walletVersion :: i64

datatype payload =
    OpeningProcessed settled_core money time
  | ProcessedData settled_core money provider_metadata time
  | RejectedData settled_core string money provider_metadata time
  | BalanceChanged balance_changed
  | PendingReferenceData settled_core provider_metadata time time

record envelope =
  ev_eventID :: uuid
  ev_eventType :: event_type
  ev_aggregateType :: aggregate_type
  ev_aggregateID :: uuid
  ev_correlationID :: string
  ev_causationID :: string
  ev_occurredAt :: time
  ev_data :: payload

definition newEnvelope ::
  "(uuid \<Rightarrow> string) \<Rightarrow> uuid \<Rightarrow> event_type \<Rightarrow> aggregate_type \<Rightarrow> uuid \<Rightarrow> string \<Rightarrow> uuid \<Rightarrow> time \<Rightarrow> payload
     \<Rightarrow> envelope result" where
  "newEnvelope us eventID eventType aggregateType aggregateID correlationID causationID occurredAt data =
     (if eventID = uuid_Nil \<or> aggregateID = uuid_Nil \<or> causationID = uuid_Nil
        then Inl (EEvent EventMissingIdentifier)
      else if correlationID = [] then Inl (EEvent EventMissingField)
      else if occurredAt = time_zero then Inl (EEvent EventMissingTimestamp)
      else Inr \<lparr>ev_eventID = eventID, ev_eventType = eventType, ev_aggregateType = aggregateType,
        ev_aggregateID = aggregateID, ev_correlationID = correlationID,
        ev_causationID = us causationID, ev_occurredAt = occurredAt, ev_data = data\<rparr>)"

definition coreOf :: "tx \<Rightarrow> settled_core" where
  "coreOf operation = \<lparr>sc_transactionID = t_id operation, sc_walletID = t_walletID operation,
     sc_playerID = t_playerID operation, sc_kind = kind_String (t_kind operation),
     sc_money = t_amount operation\<rparr>"

definition metadataOf :: "tx \<Rightarrow> provider_metadata" where
  "metadataOf operation = \<lparr>pm_providerID = t_providerID operation,
     pm_externalTransactionID = t_externalTransactionID operation,
     pm_roundID = t_roundID operation, pm_gameID = t_gameID operation,
     pm_referenceExternalTransactionID =
       (if t_referenceExternalID operation \<noteq> [] then Some (t_referenceExternalID operation) else None),
     pm_referenceTransactionID =
       (if t_referenceTransactionID operation \<noteq> uuid_Nil
        then Some (t_referenceTransactionID operation) else None)\<rparr>"

section \<open>Constructors\<close>

definition NewProcessed :: "(uuid \<Rightarrow> string) \<Rightarrow> uuid \<Rightarrow> tx \<Rightarrow> money \<Rightarrow> envelope result" where
  "NewProcessed us eventID operation balance =
     (if t_origin operation = Internal
      then newEnvelope us eventID TypeProcessed AggregateTransaction (t_id operation)
             (t_correlationID operation) (t_id operation) (t_completedAt operation)
             (OpeningProcessed (coreOf operation) balance (t_completedAt operation))
      else newEnvelope us eventID TypeProcessed AggregateTransaction (t_id operation)
             (t_correlationID operation) (t_id operation) (t_completedAt operation)
             (ProcessedData (coreOf operation) balance (metadataOf operation) (t_completedAt operation)))"

definition NewRejected :: "(uuid \<Rightarrow> string) \<Rightarrow> uuid \<Rightarrow> tx \<Rightarrow> money \<Rightarrow> envelope result" where
  "NewRejected us eventID operation balance =
     newEnvelope us eventID TypeRejected AggregateTransaction (t_id operation)
       (t_correlationID operation) (t_id operation) (t_completedAt operation)
       (RejectedData (coreOf operation) (failure_String (t_failureCode operation)) balance
          (metadataOf operation) (t_completedAt operation))"

definition NewBalanceChanged :: "(uuid \<Rightarrow> string) \<Rightarrow> uuid \<Rightarrow> tx \<Rightarrow> ledger_entry \<Rightarrow> envelope result" where
  "NewBalanceChanged us eventID operation entry =
     newEnvelope us eventID TypeBalanceChanged AggregateWallet (le_walletID entry)
       (t_correlationID operation) (t_id operation) (le_createdAt entry)
       (BalanceChanged \<lparr>bc_walletID = le_walletID entry, bc_playerID = t_playerID operation,
          bc_transactionID = le_transactionID entry, bc_kind = kind_String (t_kind operation),
          bc_direction = direction_String (le_direction entry), bc_money = le_amount entry,
          bc_balanceBefore = le_balanceBefore entry, bc_balanceAfter = le_balanceAfter entry,
          bc_walletVersion = le_walletVersion entry\<rparr>)"

definition NewPendingReference :: "(uuid \<Rightarrow> string) \<Rightarrow> uuid \<Rightarrow> tx \<Rightarrow> envelope result" where
  "NewPendingReference us eventID operation =
     newEnvelope us eventID TypePendingReference AggregateTransaction (t_id operation)
       (t_correlationID operation) (t_id operation) (t_updatedAt operation)
       (PendingReferenceData (coreOf operation) (metadataOf operation)
          (t_nextAttemptAt operation) (t_referenceDeadlineAt operation))"

section \<open>JSON\<close>

text \<open>
  A struct as \<open>json.Marshal\<close> writes it: its members in the order of the fields, those of an
  embedded struct in its place. The first member that cannot be written is the error.
\<close>

type_synonym members = "(string \<times> string result) list"

fun json_body_members :: "members \<Rightarrow> string result" where
  "json_body_members [] = Inr []"
| "json_body_members [(k, v)] = bindR v (\<lambda>t. Inr (json_string True k @ '':'' @ t))"
| "json_body_members ((k, v) # ms) =
     bindR v (\<lambda>t. bindR (json_body_members ms) (\<lambda>r. Inr (json_string True k @ '':'' @ t @ '','' @ r)))"

definition json_struct :: "members \<Rightarrow> string result" where
  "json_struct ms = bindR (json_body_members ms) (\<lambda>b. Inr (''{'' @ b @ ''}''))"

definition text_member :: "string \<Rightarrow> string \<Rightarrow> string \<times> string result" where
  "text_member k s = (k, Inr (json_string True s))"

definition optional_text :: "string option \<Rightarrow> string result" where
  "optional_text x = Inr (case x of None \<Rightarrow> ''null'' | Some s \<Rightarrow> json_string True s)"

definition core_members :: "(uuid \<Rightarrow> string) \<Rightarrow> settled_core \<Rightarrow> members" where
  "core_members us c =
     [text_member ''transactionId'' (us (sc_transactionID c)),
      text_member ''walletId'' (us (sc_walletID c)), text_member ''playerId'' (us (sc_playerID c)),
      text_member ''kind'' (sc_kind c), (''money'', money_MarshalJSON (sc_money c))]"

definition metadata_members :: "(uuid \<Rightarrow> string) \<Rightarrow> provider_metadata \<Rightarrow> members" where
  "metadata_members us m =
     [text_member ''providerId'' (pm_providerID m),
      text_member ''externalTransactionId'' (pm_externalTransactionID m),
      text_member ''roundId'' (pm_roundID m), text_member ''gameId'' (pm_gameID m),
      (''referenceExternalTransactionId'', optional_text (pm_referenceExternalTransactionID m)),
      (''referenceTransactionId'', optional_text (map_option us (pm_referenceTransactionID m)))]"

fun payload_members :: "(uuid \<Rightarrow> string) \<Rightarrow> payload \<Rightarrow> members" where
  "payload_members us (OpeningProcessed c b t) =
     core_members us c @ [(''balance'', money_MarshalJSON b),
       (''processedAt'', Inr (Timestamp_MarshalJSON t))]"
| "payload_members us (ProcessedData c b m t) =
     core_members us c @ [(''balance'', money_MarshalJSON b)] @ metadata_members us m
     @ [(''processedAt'', Inr (Timestamp_MarshalJSON t))]"
| "payload_members us (RejectedData c f b m t) =
     core_members us c @ [text_member ''failureCode'' f, (''balance'', money_MarshalJSON b)]
     @ metadata_members us m @ [(''rejectedAt'', Inr (Timestamp_MarshalJSON t))]"
| "payload_members us (BalanceChanged b) =
     [text_member ''walletId'' (us (bc_walletID b)), text_member ''playerId'' (us (bc_playerID b)),
      text_member ''transactionId'' (us (bc_transactionID b)), text_member ''kind'' (bc_kind b),
      text_member ''direction'' (bc_direction b), (''money'', money_MarshalJSON (bc_money b)),
      (''balanceBefore'', money_MarshalJSON (bc_balanceBefore b)),
      (''balanceAfter'', money_MarshalJSON (bc_balanceAfter b)),
      (''walletVersion'', Inr (format_int64 (bc_walletVersion b)))]"
| "payload_members us (PendingReferenceData c m n d) =
     core_members us c @ metadata_members us m
     @ [(''nextAttemptAt'', Inr (Timestamp_MarshalJSON n)),
        (''deadlineAt'', Inr (Timestamp_MarshalJSON d))]"

definition envelope_MarshalJSON :: "(uuid \<Rightarrow> string) \<Rightarrow> envelope \<Rightarrow> string result" where
  "envelope_MarshalJSON us e =
     json_struct
       ([text_member ''eventId'' (us (ev_eventID e)), text_member ''eventType'' (type_String (ev_eventType e)),
         text_member ''aggregateId'' (us (ev_aggregateID e)),
         text_member ''correlationId'' (ev_correlationID e)]
        @ (if ev_causationID e = [] then [] else [text_member ''causationId'' (ev_causationID e)])
        @ [(''occurredAt'', Inr (Timestamp_MarshalJSON (ev_occurredAt e))),
           (''version'', Inr (format_int64 Version)),
           (''data'', json_struct (payload_members us (ev_data e)))])"

section \<open>Lemmas\<close>

lemma newEnvelope_eq_Inr:
  "newEnvelope us i ty agg aid cid cause t data = Inr e \<longleftrightarrow>
     i \<noteq> uuid_Nil \<and> aid \<noteq> uuid_Nil \<and> cause \<noteq> uuid_Nil \<and> cid \<noteq> [] \<and> t \<noteq> time_zero
     \<and> e = \<lparr>ev_eventID = i, ev_eventType = ty, ev_aggregateType = agg, ev_aggregateID = aid,
          ev_correlationID = cid, ev_causationID = us cause, ev_occurredAt = t, ev_data = data\<rparr>"
  by (auto simp: newEnvelope_def)

text \<open>A struct is written if each of its members is.\<close>

lemma json_struct_ok: "\<forall>(k, v) \<in> set ms. is_ok v \<Longrightarrow> is_ok (json_struct ms)"
proof -
  assume "\<forall>(k, v) \<in> set ms. is_ok v"
  then have "is_ok (json_body_members ms)"
    by (induction ms rule: json_body_members.induct) (auto simp: is_ok_iff)
  then show ?thesis by (auto simp: json_struct_def is_ok_iff)
qed

lemma money_marshal_ok [simp]: "is_ok (money_MarshalJSON m) \<longleftrightarrow> Valid m"
  by (simp add: money_MarshalJSON_def)

lemma json_struct_nonempty: "json_struct ms = Inr s \<Longrightarrow> s \<noteq> []"
  by (auto simp: json_struct_def bindR_eq_Inr)

text \<open>The amounts a payload carries.\<close>

fun payload_amounts :: "payload \<Rightarrow> money list" where
  "payload_amounts (OpeningProcessed c b t) = [sc_money c, b]"
| "payload_amounts (ProcessedData c b m t) = [sc_money c, b]"
| "payload_amounts (RejectedData c f b m t) = [sc_money c, b]"
| "payload_amounts (BalanceChanged b) = [bc_money b, bc_balanceBefore b, bc_balanceAfter b]"
| "payload_amounts (PendingReferenceData c m n d) = [sc_money c]"

lemma payload_members_ok:
  "list_all Valid (payload_amounts d) \<Longrightarrow> \<forall>(k, v) \<in> set (payload_members us d). is_ok v"
  by (cases d) (auto simp: core_members_def metadata_members_def text_member_def optional_text_def)

lemma envelope_json_ok:
  assumes "list_all Valid (payload_amounts (ev_data e))"
  shows "is_ok (envelope_MarshalJSON us e)"
  using json_struct_ok [OF payload_members_ok [OF assms]]
  unfolding envelope_MarshalJSON_def
  by (intro json_struct_ok) (auto simp: text_member_def split: if_splits)

end
