(* ===== verification/Messaging.thy ===== *)
theory Messaging
  imports Event
begin

text \<open>
  \<open>internal/domain/messaging\<close>: a message of the inbox (\<open>inbox.go\<close>) and an event of the outbox
  with its claim receipt (\<open>outbox.go\<close>). The snapshots that rows are read into have the fields
  of the structs and are the same records here. Facts: what the constructors build can be
  read back, and an outbox event of a well-formed settlement is always built.
\<close>

section \<open>The inbox\<close>

datatype inbox_outcome = InboxProcessed | InboxRejected | InboxPendingReference | InboxReplay
  | OtherOutcome string

text \<open>The empty outcome, \<open>""\<close>: the message is not completed.\<close>

definition no_outcome :: inbox_outcome where
  "no_outcome = OtherOutcome []"

fun outcome_String :: "inbox_outcome \<Rightarrow> string" where
  "outcome_String InboxProcessed = ''PROCESSED''"
| "outcome_String InboxRejected = ''REJECTED''"
| "outcome_String InboxPendingReference = ''PENDING_REFERENCE''"
| "outcome_String InboxReplay = ''REPLAY''"
| "outcome_String (OtherOutcome s) = s"

definition outcome_of_string :: "string \<Rightarrow> inbox_outcome" where
  "outcome_of_string s =
     (if s = ''PROCESSED'' then InboxProcessed else if s = ''REJECTED'' then InboxRejected
      else if s = ''PENDING_REFERENCE'' then InboxPendingReference
      else if s = ''REPLAY'' then InboxReplay else OtherOutcome s)"

definition outcome_Valid :: "inbox_outcome \<Rightarrow> bool" where
  "outcome_Valid out \<longleftrightarrow> out \<in> {InboxProcessed, InboxRejected, InboxPendingReference, InboxReplay}"

record inbox_message =
  im_consumerName :: string
  im_messageID :: string
  im_payloadHash :: string
  im_transactionID :: uuid
  im_outcome :: inbox_outcome
  im_receivedAt :: time
  im_completedAt :: time

definition NewInboxMessage :: "string \<Rightarrow> string \<Rightarrow> string \<Rightarrow> time \<Rightarrow> inbox_message result" where
  "NewInboxMessage consumerName messageID payloadHash receivedAt =
     (if consumerName = [] \<or> messageID = [] then Inl (EMessaging MessagingMissingField)
      else if \<not> hash_pattern payloadHash then Inl (EMessaging MessagingMissingField)
      else if receivedAt = time_zero then Inl (EMessaging MessagingMissingTimestamp)
      else Inr \<lparr>im_consumerName = consumerName, im_messageID = messageID,
        im_payloadHash = payloadHash, im_transactionID = uuid_Nil, im_outcome = no_outcome,
        im_receivedAt = receivedAt, im_completedAt = time_zero\<rparr>)"

definition RehydrateInboxMessage :: "inbox_message \<Rightarrow> inbox_message result" where
  "RehydrateInboxMessage s =
     (if im_consumerName s = [] \<or> im_messageID s = [] then Inl (EMessaging MessagingMissingField)
      else if im_outcome s \<noteq> no_outcome \<and> \<not> outcome_Valid (im_outcome s)
        then Inl (EMessaging MessagingInvalidOutcome)
      else Inr s)"

definition Completed :: "inbox_message \<Rightarrow> bool" where
  "Completed m \<longleftrightarrow> im_outcome m \<noteq> no_outcome"

definition SameContent :: "inbox_message \<Rightarrow> string \<Rightarrow> bool" where
  "SameContent m payloadHash \<longleftrightarrow> im_payloadHash m = payloadHash"

section \<open>The outbox\<close>

record outbox_event =
  oe_id :: uuid
  oe_aggregateType :: string
  oe_aggregateID :: uuid
  oe_eventType :: string
  oe_eventVersion :: i64
  oe_correlationID :: string
  oe_causationID :: string
  oe_partitionKey :: string
  oe_payload :: string
  oe_occurredAt :: time
  oe_attempts :: int
  oe_nextAttemptAt :: time
  oe_lockedBy :: string
  oe_lockedUntil :: time
  oe_lastError :: string
  oe_publishedAt :: time

definition NewOutboxEvent :: "(uuid \<Rightarrow> string) \<Rightarrow> envelope \<Rightarrow> uuid \<Rightarrow> time \<Rightarrow> outbox_event result" where
  "NewOutboxEvent us e partitionKey now =
     (if partitionKey = uuid_Nil then Inl (EMessaging MessagingMissingIdentifier)
      else if now = time_zero then Inl (EMessaging MessagingMissingTimestamp)
      else bindR (envelope_MarshalJSON us e) (\<lambda>payload.
        Inr \<lparr>oe_id = ev_eventID e, oe_aggregateType = aggregate_String (ev_aggregateType e),
          oe_aggregateID = ev_aggregateID e, oe_eventType = type_String (ev_eventType e),
          oe_eventVersion = Version, oe_correlationID = ev_correlationID e,
          oe_causationID = ev_causationID e, oe_partitionKey = us partitionKey,
          oe_payload = payload, oe_occurredAt = ev_occurredAt e, oe_attempts = 0,
          oe_nextAttemptAt = now, oe_lockedBy = [], oe_lockedUntil = time_zero,
          oe_lastError = [], oe_publishedAt = time_zero\<rparr>))"

definition RehydrateOutboxEvent :: "outbox_event \<Rightarrow> outbox_event result" where
  "RehydrateOutboxEvent s =
     (if oe_id s = uuid_Nil \<or> oe_aggregateID s = uuid_Nil then Inl (EMessaging MessagingMissingIdentifier)
      else if oe_payload s = [] \<or> oe_partitionKey s = [] \<or> oe_eventType s = []
        then Inl (EMessaging MessagingMissingField)
      else Inr s)"

definition Published :: "outbox_event \<Rightarrow> bool" where
  "Published e \<longleftrightarrow> oe_publishedAt e \<noteq> time_zero"

record receipt =
  rc_id :: uuid
  rc_owner :: string
  rc_generation :: int
  rc_lockedUntil :: time

definition Receipt :: "outbox_event \<Rightarrow> receipt" where
  "Receipt e = \<lparr>rc_id = oe_id e, rc_owner = oe_lockedBy e, rc_generation = oe_attempts e,
     rc_lockedUntil = oe_lockedUntil e\<rparr>"

definition LeaseValid :: "receipt \<Rightarrow> time \<Rightarrow> bool" where
  "LeaseValid r now \<longleftrightarrow> rc_owner r \<noteq> [] \<and> rc_lockedUntil r \<noteq> time_zero \<and> now < rc_lockedUntil r"

record pending_stats =
  ps_pending :: i64
  ps_oldestPendingAge :: duration

section \<open>Lemmas\<close>

lemma outcome_roundtrip [simp]: "outcome_Valid out \<Longrightarrow> outcome_of_string (outcome_String out) = out"
  by (auto simp: outcome_Valid_def outcome_of_string_def)

lemma no_outcome_String [simp]: "outcome_String no_outcome = []" "outcome_of_string [] = no_outcome"
  "\<not> outcome_Valid no_outcome"
  by (simp_all add: no_outcome_def outcome_of_string_def outcome_Valid_def)

lemma outcome_String_nonempty: "outcome_Valid out \<Longrightarrow> outcome_String out \<noteq> []"
  by (auto simp: outcome_Valid_def)

lemma outcome_Valid_completed: "outcome_Valid out \<Longrightarrow> out \<noteq> no_outcome"
  by (auto simp: outcome_Valid_def no_outcome_def)

definition inbox_wf :: "inbox_message \<Rightarrow> bool" where
  "inbox_wf m \<longleftrightarrow> im_consumerName m \<noteq> [] \<and> im_messageID m \<noteq> []
     \<and> (im_outcome m = no_outcome \<or> outcome_Valid (im_outcome m))"

lemma RehydrateInboxMessage_eq_Inr: "RehydrateInboxMessage s = Inr m \<longleftrightarrow> m = s \<and> inbox_wf s"
  by (auto simp: RehydrateInboxMessage_def inbox_wf_def)

lemma NewInboxMessage_eq_Inr:
  "NewInboxMessage c i h t = Inr m \<longleftrightarrow> c \<noteq> [] \<and> i \<noteq> [] \<and> hash_pattern h \<and> t \<noteq> time_zero
     \<and> m = \<lparr>im_consumerName = c, im_messageID = i, im_payloadHash = h, im_transactionID = uuid_Nil,
          im_outcome = no_outcome, im_receivedAt = t, im_completedAt = time_zero\<rparr>"
  by (auto simp: NewInboxMessage_def)

definition outbox_wf :: "outbox_event \<Rightarrow> bool" where
  "outbox_wf e \<longleftrightarrow> oe_id e \<noteq> uuid_Nil \<and> oe_aggregateID e \<noteq> uuid_Nil \<and> oe_payload e \<noteq> []
     \<and> oe_partitionKey e \<noteq> [] \<and> oe_eventType e \<noteq> []"

lemma RehydrateOutboxEvent_eq_Inr: "RehydrateOutboxEvent s = Inr e \<longleftrightarrow> e = s \<and> outbox_wf s"
  by (auto simp: RehydrateOutboxEvent_def outbox_wf_def)

lemma type_String_nonempty [simp]: "type_String ty \<noteq> []"
  by (cases ty) simp_all

text \<open>What a new outbox event carries, as far as later steps look at it.\<close>

lemma NewOutboxEvent_wf:
  assumes "newEnvelope us i ty agg aid cid cause t data = Inr e"
    and "NewOutboxEvent us e k now = Inr oe" and "us k \<noteq> []"
  shows "outbox_wf oe \<and> oe_id oe = i \<and> oe_eventType oe = type_String ty \<and> oe_partitionKey oe = us k
    \<and> oe_attempts oe = 0 \<and> oe_nextAttemptAt oe = now \<and> \<not> Published oe \<and> oe_lockedUntil oe = time_zero"
  using assms
  by (auto simp: newEnvelope_eq_Inr NewOutboxEvent_def outbox_wf_def bindR_eq_Inr Published_def
      envelope_MarshalJSON_def json_struct_nonempty)

lemma NewOutboxEvent_ok:
  assumes "list_all Valid (payload_amounts (ev_data e))" "k \<noteq> uuid_Nil" "now \<noteq> time_zero"
  shows "is_ok (NewOutboxEvent us e k now)"
  using envelope_json_ok [OF assms(1), of us] assms(2,3) by (auto simp: NewOutboxEvent_def is_ok_iff)

end
