(* ===== verification/Rows.thy ===== *)
theory Rows
  imports Decision Messaging
begin

text \<open>
  The tables of \<open>migrations/000001_init.up.sql\<close> as the repositories of
  \<open>internal/infrastructure/postgres/repositories\<close> read and write them: one record per row, a
  nullable column an option, an enumeration its text. The functions that build the arguments
  of an INSERT and those that scan a row are the Go code's. Facts: scanning undoes building,
  for every well-formed value of the domain.
\<close>

section \<open>Rows\<close>

record wallet_row =
  wr_id :: uuid
  wr_player_id :: uuid
  wr_currency :: string
  wr_balance_minor :: i64
  wr_version :: i64
  wr_created_at :: time
  wr_updated_at :: time

record tx_row =
  tr_id :: uuid
  tr_origin :: string
  tr_kind :: string
  tr_status :: string
  tr_wallet_id :: uuid
  tr_player_id :: uuid
  tr_amount_minor :: i64
  tr_currency :: string
  tr_provider_id :: "string option"
  tr_external_transaction_id :: "string option"
  tr_idempotency_key :: "string option"
  tr_payload_hash :: "string option"
  tr_round_id :: "string option"
  tr_game_id :: "string option"
  tr_reference_external_transaction_id :: "string option"
  tr_reference_transaction_id :: "uuid option"
  tr_failure_code :: "string option"
  tr_result_balance_minor :: "i64 option"
  tr_reference_attempts :: int
  tr_next_attempt_at :: "time option"
  tr_reference_deadline_at :: "time option"
  tr_correlation_id :: string
  tr_created_at :: time
  tr_updated_at :: time
  tr_completed_at :: "time option"

record entry_row =
  er_id :: uuid
  er_wallet_id :: uuid
  er_transaction_id :: uuid
  er_direction :: string
  er_amount_minor :: i64
  er_currency :: string
  er_balance_before_minor :: i64
  er_balance_after_minor :: i64
  er_wallet_version :: i64
  er_created_at :: time

record inbox_row =
  ir_consumer_name :: string
  ir_message_id :: string
  ir_payload_hash :: string
  ir_transaction_id :: "uuid option"
  ir_outcome :: "string option"
  ir_received_at :: time
  ir_completed_at :: "time option"

record outbox_row =
  xr_id :: uuid
  xr_aggregate_type :: string
  xr_aggregate_id :: uuid
  xr_event_type :: string
  xr_event_version :: i64
  xr_correlation_id :: string
  xr_causation_id :: "string option"
  xr_partition_key :: string
  xr_payload :: string
  xr_occurred_at :: time
  xr_attempts :: int
  xr_next_attempt_at :: time
  xr_locked_by :: "string option"
  xr_locked_until :: "time option"
  xr_last_error :: "string option"
  xr_published_at :: "time option"

section \<open>NULL and the zero value\<close>

definition nullString :: "string \<Rightarrow> string option" where
  "nullString value = (if value = [] then None else Some value)"

definition nullUUID :: "uuid \<Rightarrow> uuid option" where
  "nullUUID value = (if value = uuid_Nil then None else Some value)"

definition nullTime :: "time \<Rightarrow> time option" where
  "nullTime value = (if value = time_zero then None else Some value)"

definition nullMoney :: "money \<Rightarrow> i64 option" where
  "nullMoney value = (if \<not> Valid value then None else Some (minor value))"

definition text_of :: "string option \<Rightarrow> string" where
  "text_of value = (case value of None \<Rightarrow> [] | Some s \<Rightarrow> s)"

definition moment :: "time option \<Rightarrow> time" where
  "moment value = (case value of None \<Rightarrow> time_zero | Some t \<Rightarrow> t)"

definition uuid_of :: "uuid option \<Rightarrow> uuid" where
  "uuid_of value = (case value of None \<Rightarrow> uuid_Nil | Some i \<Rightarrow> i)"

lemma null_roundtrips [simp]:
  "text_of (nullString s) = s" "moment (nullTime t) = t" "uuid_of (nullUUID i) = i"
  by (simp_all add: text_of_def nullString_def moment_def nullTime_def uuid_of_def nullUUID_def)

lemma null_eq_Some [simp]:
  "nullString s = Some x \<longleftrightarrow> s = x \<and> x \<noteq> []" "nullUUID i = Some j \<longleftrightarrow> i = j \<and> j \<noteq> uuid_Nil"
  "nullTime t = Some u \<longleftrightarrow> t = u \<and> u \<noteq> time_zero"
  "nullString s = None \<longleftrightarrow> s = []" "nullUUID i = None \<longleftrightarrow> i = uuid_Nil"
  "nullTime t = None \<longleftrightarrow> t = time_zero"
  by (auto simp: nullString_def nullUUID_def nullTime_def)

section \<open>Building rows: the arguments of the INSERTs\<close>

definition wallet_row_of :: "wallet \<Rightarrow> wallet_row" where
  "wallet_row_of w = \<lparr>wr_id = w_id w, wr_player_id = w_playerID w,
     wr_currency = currency_String (currency (w_balance w)), wr_balance_minor = minor (w_balance w),
     wr_version = w_version w, wr_created_at = w_createdAt w, wr_updated_at = w_updatedAt w\<rparr>"

definition tx_row_of :: "tx \<Rightarrow> tx_row" where
  "tx_row_of t = \<lparr>tr_id = t_id t, tr_origin = origin_String (t_origin t),
     tr_kind = kind_String (t_kind t), tr_status = status_String (t_status t),
     tr_wallet_id = t_walletID t, tr_player_id = t_playerID t, tr_amount_minor = minor (t_amount t),
     tr_currency = currency_String (currency (t_amount t)),
     tr_provider_id = nullString (t_providerID t),
     tr_external_transaction_id = nullString (t_externalTransactionID t),
     tr_idempotency_key = nullString (t_idempotencyKey t),
     tr_payload_hash = nullString (t_payloadHash t), tr_round_id = nullString (t_roundID t),
     tr_game_id = nullString (t_gameID t),
     tr_reference_external_transaction_id = nullString (t_referenceExternalID t),
     tr_reference_transaction_id = nullUUID (t_referenceTransactionID t),
     tr_failure_code = nullString (failure_String (t_failureCode t)),
     tr_result_balance_minor = nullMoney (t_resultBalance t),
     tr_reference_attempts = t_referenceAttempts t,
     tr_next_attempt_at = nullTime (t_nextAttemptAt t),
     tr_reference_deadline_at = nullTime (t_referenceDeadlineAt t),
     tr_correlation_id = t_correlationID t, tr_created_at = t_createdAt t,
     tr_updated_at = t_updatedAt t, tr_completed_at = nullTime (t_completedAt t)\<rparr>"

definition entry_row_of :: "ledger_entry \<Rightarrow> entry_row" where
  "entry_row_of e = \<lparr>er_id = le_id e, er_wallet_id = le_walletID e,
     er_transaction_id = le_transactionID e, er_direction = direction_String (le_direction e),
     er_amount_minor = minor (le_amount e), er_currency = currency_String (currency (le_amount e)),
     er_balance_before_minor = minor (le_balanceBefore e),
     er_balance_after_minor = minor (le_balanceAfter e), er_wallet_version = le_walletVersion e,
     er_created_at = le_createdAt e\<rparr>"

definition inbox_row_of :: "inbox_message \<Rightarrow> inbox_row" where
  "inbox_row_of m = \<lparr>ir_consumer_name = im_consumerName m, ir_message_id = im_messageID m,
     ir_payload_hash = im_payloadHash m, ir_transaction_id = None, ir_outcome = None,
     ir_received_at = im_receivedAt m, ir_completed_at = None\<rparr>"

definition outbox_row_of :: "outbox_event \<Rightarrow> outbox_row" where
  "outbox_row_of e = \<lparr>xr_id = oe_id e, xr_aggregate_type = oe_aggregateType e,
     xr_aggregate_id = oe_aggregateID e, xr_event_type = oe_eventType e,
     xr_event_version = oe_eventVersion e, xr_correlation_id = oe_correlationID e,
     xr_causation_id = nullString (oe_causationID e), xr_partition_key = oe_partitionKey e,
     xr_payload = oe_payload e, xr_occurred_at = oe_occurredAt e, xr_attempts = 0,
     xr_next_attempt_at = oe_nextAttemptAt e, xr_locked_by = None, xr_locked_until = None,
     xr_last_error = None, xr_published_at = None\<rparr>"

section \<open>Scanning rows\<close>

definition scanWallet :: "wallet_row \<Rightarrow> wallet result" where
  "scanWallet r =
     bindR (ParseCurrency (wr_currency r)) (\<lambda>cur.
     bindR (FromMinor (wr_balance_minor r) cur) (\<lambda>balance.
     wallet_Rehydrate (wr_id r) (wr_player_id r) balance (wr_version r) (wr_created_at r)
       (wr_updated_at r)))"

text \<open>A transaction is read joined with its wallet, whose currency is that of the result balance.\<close>

definition scanTransaction :: "tx_row \<times> string \<Rightarrow> tx result" where
  "scanTransaction row =
     (let (r, walletCurrencyCode) = row in
      bindR (ParseCurrency (tr_currency r)) (\<lambda>cur.
      bindR (FromMinor (tr_amount_minor r) cur) (\<lambda>amount.
      bindR (case tr_result_balance_minor r of
          None \<Rightarrow> Inr money_zero_value
        | Some m \<Rightarrow> bindR (ParseCurrency walletCurrencyCode) (\<lambda>walletCurrency.
            FromMinor m walletCurrency)) (\<lambda>resultBalance.
      Rehydrate \<lparr>t_id = tr_id r, t_origin = origin_of_string (tr_origin r),
        t_kind = kind_of_string (tr_kind r), t_status = status_of_string (tr_status r),
        t_walletID = tr_wallet_id r, t_playerID = tr_player_id r, t_amount = amount,
        t_providerID = text_of (tr_provider_id r),
        t_externalTransactionID = text_of (tr_external_transaction_id r),
        t_idempotencyKey = text_of (tr_idempotency_key r),
        t_payloadHash = text_of (tr_payload_hash r), t_roundID = text_of (tr_round_id r),
        t_gameID = text_of (tr_game_id r),
        t_referenceExternalID = text_of (tr_reference_external_transaction_id r),
        t_referenceTransactionID = uuid_of (tr_reference_transaction_id r),
        t_failureCode = failure_of_string (text_of (tr_failure_code r)),
        t_resultBalance = resultBalance, t_referenceAttempts = tr_reference_attempts r,
        t_nextAttemptAt = moment (tr_next_attempt_at r),
        t_referenceDeadlineAt = moment (tr_reference_deadline_at r),
        t_correlationID = tr_correlation_id r, t_createdAt = tr_created_at r,
        t_updatedAt = tr_updated_at r, t_completedAt = moment (tr_completed_at r)\<rparr>))))"

definition scanLedgerEntry :: "entry_row \<Rightarrow> ledger_entry result" where
  "scanLedgerEntry r =
     bindR (ParseCurrency (er_currency r)) (\<lambda>cur.
     bindR (FromMinor (er_amount_minor r) cur) (\<lambda>amount.
     bindR (FromMinor (er_balance_before_minor r) cur) (\<lambda>before.
     bindR (FromMinor (er_balance_after_minor r) cur) (\<lambda>after.
     NewLedgerEntry (er_id r) (er_wallet_id r) (er_transaction_id r)
       (direction_of_string (er_direction r)) amount before after (er_wallet_version r)
       (er_created_at r)))))"

definition scanInboxMessage :: "inbox_row \<Rightarrow> inbox_message result" where
  "scanInboxMessage r =
     RehydrateInboxMessage \<lparr>im_consumerName = ir_consumer_name r, im_messageID = ir_message_id r,
       im_payloadHash = ir_payload_hash r, im_transactionID = uuid_of (ir_transaction_id r),
       im_outcome = outcome_of_string (text_of (ir_outcome r)), im_receivedAt = ir_received_at r,
       im_completedAt = moment (ir_completed_at r)\<rparr>"

definition scanOutboxEvent :: "outbox_row \<Rightarrow> outbox_event result" where
  "scanOutboxEvent r =
     RehydrateOutboxEvent \<lparr>oe_id = xr_id r, oe_aggregateType = xr_aggregate_type r,
       oe_aggregateID = xr_aggregate_id r, oe_eventType = xr_event_type r,
       oe_eventVersion = xr_event_version r, oe_correlationID = xr_correlation_id r,
       oe_causationID = text_of (xr_causation_id r), oe_partitionKey = xr_partition_key r,
       oe_payload = xr_payload r, oe_occurredAt = xr_occurred_at r, oe_attempts = xr_attempts r,
       oe_nextAttemptAt = xr_next_attempt_at r, oe_lockedBy = text_of (xr_locked_by r),
       oe_lockedUntil = moment (xr_locked_until r), oe_lastError = text_of (xr_last_error r),
       oe_publishedAt = moment (xr_published_at r)\<rparr>"

section \<open>Round trips\<close>

lemma FromMinor_eq [simp]: "Supported c \<Longrightarrow> FromMinor m c = Inr \<lparr>minor = m, currency = c\<rparr>"
  by (simp add: FromMinor_def)

lemma scanWallet_of [simp]: "wallet_inv w \<Longrightarrow> scanWallet (wallet_row_of w) = Inr w"
  by (simp add: scanWallet_def wallet_row_of_def wallet_Rehydrate_eq_Inr)
     (simp add: wallet_inv_def Valid_def wallet_Rehydrate_eq_Inr)

lemma tx_wf_supported: "tx_wf t \<Longrightarrow> Supported (currency (t_amount t))"
  by (auto simp: tx_wf_def opening_fields_def external_fields_def amount_policy_def Valid_def
      split: if_splits)

lemma tx_wf_kind_origin: "tx_wf t \<Longrightarrow> kind_Valid (t_kind t) \<and> origin_Valid (t_origin t)"
  by (auto simp: tx_wf_def opening_fields_def external_fields_def origin_Valid_def origin_External_def
      kind_External_def kind_Valid_def split: if_splits)

lemma tx_wf_failure: "tx_wf t \<Longrightarrow> failure_of_string (failure_String (t_failureCode t)) = t_failureCode t"
proof -
  assume "tx_wf t"
  then have "t_failureCode t = no_failure \<or> failure_Valid (t_failureCode t)"
    by (cases "t_status t") (auto simp: tx_wf_def failure_Valid_def)
  then show ?thesis by auto
qed

text \<open>
  A transaction as its row can hold it: the result balance is in the currency of the wallet,
  or absent.
\<close>

definition storable :: "currency \<Rightarrow> tx \<Rightarrow> bool" where
  "storable cur t \<longleftrightarrow> tx_wf t \<and> Supported cur
     \<and> (if Valid (t_resultBalance t) then currency (t_resultBalance t) = cur
        else t_resultBalance t = money_zero_value)"

lemma storable_wf: "storable cur t \<Longrightarrow> tx_wf t"
  by (simp add: storable_def)

lemma money_collapse [simp]: "\<lparr>minor = minor m, currency = currency m\<rparr> = m"
  by (cases m) simp

lemma scanTransaction_of:
  assumes "storable cur t"
  shows "scanTransaction (tx_row_of t, currency_String cur) = Inr t"
proof -
  note wf = storable_wf [OF assms]
  have b: "(case tr_result_balance_minor (tx_row_of t) of None \<Rightarrow> Inr money_zero_value
      | Some m \<Rightarrow> bindR (ParseCurrency (currency_String cur)) (FromMinor m)) = Inr (t_resultBalance t)"
    using assms by (auto simp: tx_row_of_def nullMoney_def storable_def)
  have "status_Valid (t_status t)" using wf by (simp add: tx_wf_def)
  then show ?thesis
    using b tx_wf_supported [OF wf] tx_wf_kind_origin [OF wf] tx_wf_failure [OF wf] wf
    by (cases t) (simp add: scanTransaction_def, simp add: tx_row_of_def Rehydrate_eq_Inr)
qed

lemma scanLedgerEntry_of [simp]: "entry_inv e \<Longrightarrow> scanLedgerEntry (entry_row_of e) = Inr e"
  by (cases "le_balanceBefore e"; cases "le_balanceAfter e"; cases "le_amount e")
    (simp add: scanLedgerEntry_def entry_row_of_def NewLedgerEntry_eq_Inr entry_inv_def Valid_def)

end
