(* ===== verification/Store.thy ===== *)
theory Store
  imports Rows "HOL-Library.Product_Lexorder"
begin

text \<open>
  The SQL statements of the repositories as functions on the tables, with the unique and
  foreign key constraints of \<open>migrations/000001_init.up.sql\<close>. A statement returns its answer
  with the new tables, or the server's error, and then the tables do not change. CHECK
  constraints and triggers can only add errors; any statement may fail with any driver error
  in the model of its execution, which covers them. A NULL never conflicts and never compares.
\<close>

record db =
  db_wallets :: "wallet_row list"
  db_transactions :: "tx_row list"
  db_entries :: "entry_row list"
  db_inbox :: "inbox_row list"
  db_outbox :: "outbox_row list"

type_synonym 'a sql = "db \<Rightarrow> ('a \<times> db) result"

definition empty_db :: db where
  "empty_db = \<lparr>db_wallets = [], db_transactions = [], db_entries = [], db_inbox = [], db_outbox = []\<rparr>"

section \<open>UPDATE ... SET ... WHERE\<close>

definition update_where :: "('r \<Rightarrow> bool) \<Rightarrow> ('r \<Rightarrow> 'r) \<Rightarrow> 'r list \<Rightarrow> 'r list" where
  "update_where P f rows = map (\<lambda>r. if P r then f r else r) rows"

definition affected :: "('r \<Rightarrow> bool) \<Rightarrow> 'r list \<Rightarrow> nat" where
  "affected P rows = length (filter P rows)"

text \<open>Two columns are equal in SQL only if neither is NULL.\<close>

definition sql_eq :: "'a option \<Rightarrow> 'a option \<Rightarrow> bool" where
  "sql_eq x y \<longleftrightarrow> x \<noteq> None \<and> x = y"

section \<open>wallets\<close>

definition sql_insert_wallet :: "wallet_row \<Rightarrow> unit sql" where
  "sql_insert_wallet r d =
     (if list_ex (\<lambda>r'. wr_id r' = wr_id r) (db_wallets d)
        then Inl (EPg PgUniqueViolation ''wallets_pkey'')
      else if list_ex (\<lambda>r'. wr_player_id r' = wr_player_id r \<and> wr_currency r' = wr_currency r)
                (db_wallets d)
        then Inl (EPg PgUniqueViolation ''wallets_player_currency_uq'')
      else Inr ((), d\<lparr>db_wallets := db_wallets d @ [r]\<rparr>))"

definition sql_select_wallets :: "(wallet_row \<Rightarrow> bool) \<Rightarrow> wallet_row list sql" where
  "sql_select_wallets P d = Inr (filter P (db_wallets d), d)"

definition sql_update_wallet :: "i64 \<Rightarrow> i64 \<Rightarrow> time \<Rightarrow> uuid \<Rightarrow> i64 \<Rightarrow> nat sql" where
  "sql_update_wallet balance_minor version updated_at i expectedVersion d =
     (let P = (\<lambda>r. wr_id r = i \<and> wr_version r = expectedVersion) in
      Inr (affected P (db_wallets d),
        d\<lparr>db_wallets := update_where P (\<lambda>r. r\<lparr>wr_balance_minor := balance_minor,
            wr_version := version, wr_updated_at := updated_at\<rparr>) (db_wallets d)\<rparr>))"

section \<open>wager_transactions\<close>

definition reversal_row :: "tx_row \<Rightarrow> bool" where
  "reversal_row r \<longleftrightarrow> (tr_kind r = ''REFUND'' \<or> tr_kind r = ''ROLLBACK'') \<and> tr_status r = ''PROCESSED''"

text \<open>The unique constraints and the two partial unique indexes.\<close>

definition single_reversal_conflict :: "tx_row \<Rightarrow> tx_row \<Rightarrow> bool" where
  "single_reversal_conflict r r' \<longleftrightarrow> reversal_row r \<and> reversal_row r'
     \<and> sql_eq (tr_reference_transaction_id r) (tr_reference_transaction_id r')"

definition tx_conflict :: "tx_row \<Rightarrow> tx_row \<Rightarrow> bool" where
  "tx_conflict r r' \<longleftrightarrow> tr_id r = tr_id r'
     \<or> sql_eq (tr_provider_id r) (tr_provider_id r') \<and> sql_eq (tr_idempotency_key r) (tr_idempotency_key r')
     \<or> sql_eq (tr_provider_id r) (tr_provider_id r')
        \<and> sql_eq (tr_external_transaction_id r) (tr_external_transaction_id r')
     \<or> tr_kind r = ''OPENING'' \<and> tr_kind r' = ''OPENING'' \<and> tr_wallet_id r = tr_wallet_id r'
     \<or> single_reversal_conflict r r'"

definition reference_exists :: "uuid option \<Rightarrow> db \<Rightarrow> bool" where
  "reference_exists ref d \<longleftrightarrow>
     (case ref of None \<Rightarrow> True | Some i \<Rightarrow> list_ex (\<lambda>r. tr_id r = i) (db_transactions d))"

text \<open>\<open>INSERT ... ON CONFLICT DO NOTHING RETURNING id\<close>: whether a row came back.\<close>

definition sql_insert_transaction :: "tx_row \<Rightarrow> bool sql" where
  "sql_insert_transaction r d =
     (if list_ex (tx_conflict r) (db_transactions d) then Inr (False, d)
      else if \<not> list_ex (\<lambda>w. wr_id w = tr_wallet_id r) (db_wallets d)
        then Inl (EPg PgForeignKeyViolation ''wager_transactions_wallet_id_fkey'')
      else if \<not> reference_exists (tr_reference_transaction_id r) d
        then Inl (EPg PgForeignKeyViolation ''wager_transactions_reference_transaction_id_fkey'')
      else Inr (True, d\<lparr>db_transactions := db_transactions d @ [r]\<rparr>))"

text \<open>The columns the UPDATE sets, taken from the row of the operation.\<close>

definition set_transaction :: "tx_row \<Rightarrow> tx_row \<Rightarrow> tx_row" where
  "set_transaction n r = r\<lparr>tr_status := tr_status n, tr_failure_code := tr_failure_code n,
     tr_result_balance_minor := tr_result_balance_minor n,
     tr_reference_transaction_id := tr_reference_transaction_id n,
     tr_reference_attempts := tr_reference_attempts n, tr_next_attempt_at := tr_next_attempt_at n,
     tr_reference_deadline_at := tr_reference_deadline_at n,
     tr_completed_at := tr_completed_at n, tr_updated_at := tr_updated_at n\<rparr>"

definition sql_update_transaction :: "tx_row \<Rightarrow> nat sql" where
  "sql_update_transaction n d =
     (let P = (\<lambda>r. tr_id r = tr_id n) in
      if list_ex (\<lambda>r. P r \<and> list_ex (\<lambda>r'. \<not> P r' \<and> single_reversal_conflict (set_transaction n r) r')
                    (db_transactions d)) (db_transactions d)
        then Inl (EPg PgUniqueViolation ''wtx_single_successful_reversal_uq'')
      else if affected P (db_transactions d) \<noteq> 0 \<and> \<not> reference_exists (tr_reference_transaction_id n) d
        then Inl (EPg PgForeignKeyViolation ''wager_transactions_reference_transaction_id_fkey'')
      else Inr (affected P (db_transactions d),
        d\<lparr>db_transactions := update_where P (set_transaction n) (db_transactions d)\<rparr>))"

text \<open>\<open>FROM wager_transactions t JOIN wallets w ON w.id = t.wallet_id\<close>.\<close>

definition joined :: "db \<Rightarrow> (tx_row \<times> string) list" where
  "joined d = concat (map (\<lambda>t. map (\<lambda>w. (t, wr_currency w))
     (filter (\<lambda>w. wr_id w = tr_wallet_id t) (db_wallets d))) (db_transactions d))"

definition sql_select_transactions :: "(tx_row \<Rightarrow> bool) \<Rightarrow> (tx_row \<times> string) list sql" where
  "sql_select_transactions P d = Inr (filter (\<lambda>(t, c). P t) (joined d), d)"

text \<open>\<open>SKIP LOCKED\<close>: the predicate tells which rows other transactions hold.\<close>

definition due :: "time \<Rightarrow> tx_row \<Rightarrow> bool" where
  "due now t \<longleftrightarrow> tr_status t = ''PENDING_REFERENCE''
     \<and> (case tr_next_attempt_at t of None \<Rightarrow> False | Some n \<Rightarrow> n \<le> now)"

definition sql_claim_due_pending :: "(uuid \<Rightarrow> bool) \<Rightarrow> time \<Rightarrow> nat \<Rightarrow> (tx_row \<times> string) list sql" where
  "sql_claim_due_pending locked now limit d =
     Inr (take limit (filter (\<lambda>(t, c). \<not> locked (tr_id t))
       (sort_key (\<lambda>(t, c). (moment (tr_next_attempt_at t), tr_id t))
         (filter (\<lambda>(t, c). due now t) (joined d)))), d)"

definition waiting_for :: "(uuid \<Rightarrow> bool) \<Rightarrow> string \<Rightarrow> string \<Rightarrow> time \<Rightarrow> tx_row \<Rightarrow> bool" where
  "waiting_for locked providerID externalTransactionID now t \<longleftrightarrow>
     tr_status t = ''PENDING_REFERENCE'' \<and> tr_provider_id t = Some providerID
     \<and> tr_reference_external_transaction_id t = Some externalTransactionID
     \<and> (case tr_next_attempt_at t of None \<Rightarrow> False | Some n \<Rightarrow> now < n) \<and> \<not> locked (tr_id t)"

definition sql_wake_up :: "(uuid \<Rightarrow> bool) \<Rightarrow> string \<Rightarrow> string \<Rightarrow> time \<Rightarrow> nat sql" where
  "sql_wake_up locked providerID externalTransactionID now d =
     (let P = waiting_for locked providerID externalTransactionID now in
      Inr (affected P (db_transactions d),
        d\<lparr>db_transactions := update_where P
            (\<lambda>t. t\<lparr>tr_next_attempt_at := Some now, tr_updated_at := now\<rparr>) (db_transactions d)\<rparr>))"

definition sql_has_successful_reversal :: "uuid \<Rightarrow> bool sql" where
  "sql_has_successful_reversal ref d =
     Inr (list_ex (\<lambda>t. tr_reference_transaction_id t = Some ref \<and> reversal_row t) (db_transactions d), d)"

definition sql_count_pending :: "nat sql" where
  "sql_count_pending d =
     Inr (affected (\<lambda>t. tr_status t = ''PENDING_REFERENCE'') (db_transactions d), d)"

section \<open>wallet_ledger_entries\<close>

definition sql_insert_entry :: "entry_row \<Rightarrow> unit sql" where
  "sql_insert_entry r d =
     (if list_ex (\<lambda>e. er_id e = er_id r) (db_entries d)
        then Inl (EPg PgUniqueViolation ''wallet_ledger_entries_pkey'')
      else if list_ex (\<lambda>e. er_wallet_id e = er_wallet_id r \<and> er_transaction_id e = er_transaction_id r)
                (db_entries d)
        then Inl (EPg PgUniqueViolation ''wle_wallet_transaction_uq'')
      else if list_ex (\<lambda>e. er_wallet_id e = er_wallet_id r \<and> er_wallet_version e = er_wallet_version r)
                (db_entries d)
        then Inl (EPg PgUniqueViolation ''wle_wallet_version_uq'')
      else if list_ex (\<lambda>e. er_transaction_id e = er_transaction_id r) (db_entries d)
        then Inl (EPg PgUniqueViolation ''wle_transaction_uq'')
      else if \<not> list_ex (\<lambda>w. wr_id w = er_wallet_id r \<and> wr_currency w = er_currency r) (db_wallets d)
        then Inl (EPg PgForeignKeyViolation ''wle_wallet_currency_fk'')
      else if \<not> list_ex (\<lambda>t. tr_id t = er_transaction_id r \<and> tr_wallet_id t = er_wallet_id r
                    \<and> tr_currency t = er_currency r) (db_transactions d)
        then Inl (EPg PgForeignKeyViolation ''wle_transaction_wallet_fk'')
      else Inr ((), d\<lparr>db_entries := db_entries d @ [r]\<rparr>))"

definition sql_list_after_version :: "uuid \<Rightarrow> i64 \<Rightarrow> nat \<Rightarrow> entry_row list sql" where
  "sql_list_after_version walletID afterVersion limit d =
     Inr (take limit (sort_key (\<lambda>e. sint (er_wallet_version e))
       (filter (\<lambda>e. er_wallet_id e = walletID \<and> afterVersion <s er_wallet_version e) (db_entries d))), d)"

text \<open>\<open>SUM\<close> of \<open>bigint\<close> is \<open>numeric\<close>, exact; it is the scan into an \<open>int64\<close> that may not fit.\<close>

definition signed_minor :: "entry_row \<Rightarrow> int" where
  "signed_minor e = (if er_direction e = ''CREDIT'' then sint (er_amount_minor e)
     else - sint (er_amount_minor e))"

definition sql_totals :: "uuid \<Rightarrow> (i64 \<times> i64) sql" where
  "sql_totals walletID d =
     (let es = filter (\<lambda>e. er_wallet_id e = walletID) (db_entries d);
          total = sum_list (map signed_minor es) in
      if total < - (2 ^ 63) \<or> 2 ^ 63 \<le> total then Inl (EDriver ''numeric out of int64 range'')
      else Inr ((of_int total, of_nat (length es)), d))"

section \<open>inbox_messages\<close>

definition same_message :: "string \<Rightarrow> string \<Rightarrow> inbox_row \<Rightarrow> bool" where
  "same_message consumer message r \<longleftrightarrow> ir_consumer_name r = consumer \<and> ir_message_id r = message"

definition sql_insert_inbox :: "inbox_row \<Rightarrow> bool sql" where
  "sql_insert_inbox r d =
     (if list_ex (same_message (ir_consumer_name r) (ir_message_id r)) (db_inbox d) then Inr (False, d)
      else Inr (True, d\<lparr>db_inbox := db_inbox d @ [r]\<rparr>))"

definition sql_select_inbox :: "string \<Rightarrow> string \<Rightarrow> inbox_row list sql" where
  "sql_select_inbox consumer message d = Inr (filter (same_message consumer message) (db_inbox d), d)"

definition sql_complete_inbox ::
  "string \<Rightarrow> string \<Rightarrow> string \<Rightarrow> uuid option \<Rightarrow> time \<Rightarrow> nat sql" where
  "sql_complete_inbox consumer message out transaction_id completed_at d =
     (let P = same_message consumer message in
      if affected P (db_inbox d) \<noteq> 0 \<and> \<not> reference_exists transaction_id d
        then Inl (EPg PgForeignKeyViolation ''inbox_messages_transaction_id_fkey'')
      else Inr (affected P (db_inbox d),
        d\<lparr>db_inbox := update_where P (\<lambda>r. r\<lparr>ir_outcome := Some out,
            ir_transaction_id := transaction_id, ir_completed_at := Some completed_at\<rparr>) (db_inbox d)\<rparr>))"

section \<open>outbox_events\<close>

definition sql_insert_outbox :: "outbox_row \<Rightarrow> unit sql" where
  "sql_insert_outbox r d =
     (if list_ex (\<lambda>x. xr_id x = xr_id r) (db_outbox d) then Inl (EPg PgUniqueViolation ''outbox_events_pkey'')
      else Inr ((), d\<lparr>db_outbox := db_outbox d @ [r]\<rparr>))"

definition claimable :: "time \<Rightarrow> outbox_row \<Rightarrow> bool" where
  "claimable now x \<longleftrightarrow> xr_published_at x = None \<and> xr_next_attempt_at x \<le> now
     \<and> (case xr_locked_until x of None \<Rightarrow> True | Some u \<Rightarrow> u < now)"

definition claim_ids :: "(uuid \<Rightarrow> bool) \<Rightarrow> time \<Rightarrow> nat \<Rightarrow> outbox_row list \<Rightarrow> uuid list" where
  "claim_ids locked now limit rows =
     map xr_id (take limit (filter (\<lambda>x. \<not> locked (xr_id x))
       (sort_key (\<lambda>x. (xr_next_attempt_at x, xr_id x)) (filter (claimable now) rows))))"

definition claim_row :: "string \<Rightarrow> time \<Rightarrow> outbox_row \<Rightarrow> outbox_row" where
  "claim_row owner until x = x\<lparr>xr_locked_by := Some owner, xr_locked_until := Some until,
     xr_attempts := xr_attempts x + 1\<rparr>"

text \<open>The rows come back in an order of the server's choosing: that of \<open>arrange\<close>.\<close>

definition sql_claim_outbox ::
  "(uuid \<Rightarrow> bool) \<Rightarrow> (outbox_row list \<Rightarrow> outbox_row list) \<Rightarrow> string \<Rightarrow> time \<Rightarrow> time \<Rightarrow> nat \<Rightarrow> outbox_row list sql" where
  "sql_claim_outbox locked arrange owner until now limit d =
     (let ids = claim_ids locked now limit (db_outbox d);
          rows' = update_where (\<lambda>x. xr_id x \<in> set ids) (claim_row owner until) (db_outbox d) in
      Inr (arrange (filter (\<lambda>x. xr_id x \<in> set ids) rows'), d\<lparr>db_outbox := rows'\<rparr>))"

definition held_by :: "receipt \<Rightarrow> time \<Rightarrow> outbox_row \<Rightarrow> bool" where
  "held_by r clock x \<longleftrightarrow> xr_id x = rc_id r \<and> xr_locked_by x = Some (rc_owner r)
     \<and> xr_attempts x = rc_generation r \<and> xr_published_at x = None
     \<and> (case xr_locked_until x of None \<Rightarrow> False | Some u \<Rightarrow> clock < u)"

definition sql_mark_published :: "receipt \<Rightarrow> time \<Rightarrow> time \<Rightarrow> nat sql" where
  "sql_mark_published r clock published_at d =
     Inr (affected (held_by r clock) (db_outbox d),
       d\<lparr>db_outbox := update_where (held_by r clock)
           (\<lambda>x. x\<lparr>xr_published_at := Some published_at, xr_locked_by := None,
              xr_locked_until := None, xr_last_error := None\<rparr>) (db_outbox d)\<rparr>)"

definition sql_mark_failed :: "receipt \<Rightarrow> time \<Rightarrow> string \<Rightarrow> time \<Rightarrow> nat sql" where
  "sql_mark_failed r clock reason next_attempt_at d =
     Inr (affected (held_by r clock) (db_outbox d),
       d\<lparr>db_outbox := update_where (held_by r clock)
           (\<lambda>x. x\<lparr>xr_next_attempt_at := next_attempt_at, xr_last_error := Some reason,
              xr_locked_by := None, xr_locked_until := None\<rparr>) (db_outbox d)\<rparr>)"

text \<open>How many events wait, and how long the oldest has.\<close>

definition sql_pending_stats :: "time \<Rightarrow> (nat \<times> duration) sql" where
  "sql_pending_stats now d =
     (let waiting = filter (\<lambda>x. xr_published_at x = None) (db_outbox d) in
      Inr ((length waiting,
        (if waiting = [] then 0 else now - Min (set (map xr_occurred_at waiting)))), d))"

end
