(* ===== verification/Exec.thy ===== *)
theory Exec
  imports Store
begin

text \<open>
  Running code against the database and its surroundings. A computation takes the environment
  and the state and returns a result with the next state. The environment is everything the
  program cannot foresee - identifiers, the clock, faults of the driver, rows locked by other
  transactions, what becomes of a commit, whether the context is cancelled - as functions of a
  counter that every interaction advances; the theorems quantify over it. Units of work run
  one after the other: the model has no interleaving inside one.

  The rules collected in \<open>wp\<close> compute what must hold before a computation for its results to
  satisfy a postcondition, with a separate one for errors.
\<close>

section \<open>Environment and state\<close>

datatype driver_fault = FaultPg pg_code string | FaultDriver string | FaultCanceled | FaultDeadline

fun fault_error :: "driver_fault \<Rightarrow> go_error" where
  "fault_error (FaultPg code name) = EPg code name"
| "fault_error (FaultDriver message) = EDriver message"
| "fault_error FaultCanceled = ECanceled"
| "fault_error FaultDeadline = EDeadlineExceeded"

text \<open>A commit that reports an error may have been applied or not.\<close>

datatype commit_report = CommitOk | CommitError driver_fault bool | CommitPanic bool

text \<open>
  A struct handed to the validator package: its fields in order, each with its name, its
  \<open>validate\<close> tag and its value. The answer lists the failures: field, tag and parameter.
\<close>

datatype field_value = VText string | VUuid uuid | VInt int

type_synonym field_check = "string \<times> string \<times> field_value"
type_synonym failure = "string \<times> string \<times> string"

text \<open>
  A message handed to the broker and the calls of its client: each is accepted, or fails with
  the message of an error. An attribute has its name, its type and its value; a body and a
  receipt handle are pointers in Go.
\<close>

record queue_message =
  qm_queueURL :: string
  qm_body :: "string option"
  qm_groupID :: string
  qm_deduplicationID :: string
  qm_attributes :: "(string \<times> string \<times> string) list"

datatype broker_call = SendMessage queue_message | DeleteMessage string "string option"
  | ChangeMessageVisibility string "string option" int

record env =
  e_uuid_text :: "uuid \<Rightarrow> string"
  e_uuid_parse :: "string \<Rightarrow> uuid option"
  e_validate :: "field_check list \<Rightarrow> failure list"
  e_jsonb :: "string \<Rightarrow> string"
  e_new_id :: "nat \<Rightarrow> uuid option"
  e_now :: "nat \<Rightarrow> time"
  e_fault :: "nat \<Rightarrow> driver_fault option"
  e_locked :: "nat \<Rightarrow> uuid \<Rightarrow> bool"
  e_arrange :: "nat \<Rightarrow> outbox_row list \<Rightarrow> outbox_row list"
  e_server_clock :: "nat \<Rightarrow> time"
  e_round_age :: "duration \<Rightarrow> duration"
  e_commit :: "nat \<Rightarrow> commit_report"
  e_rollback :: "nat \<Rightarrow> driver_fault option"
  e_done :: "nat \<Rightarrow> go_error option"
  e_broker :: "nat \<Rightarrow> string option"

text \<open>
  The state: the tables as the running transaction sees them, the counter, the calls the broker
  accepted so far, and the variable a closure leaves behind when it fails.
\<close>

record st =
  st_db :: db
  st_tick :: nat
  st_broker :: "broker_call list"
  st_claimedID :: uuid

type_synonym 'a M = "env \<Rightarrow> st \<Rightarrow> 'a result \<times> st"

section \<open>The monad\<close>

definition returnM :: "'a \<Rightarrow> 'a M" where
  "returnM x = (\<lambda>c s. (Inr x, s))"

definition throwM :: "go_error \<Rightarrow> 'a M" where
  "throwM e = (\<lambda>c s. (Inl e, s))"

definition bindM :: "'a M \<Rightarrow> ('a \<Rightarrow> 'b M) \<Rightarrow> 'b M" where
  "bindM m f = (\<lambda>c s. case m c s of (Inl e, s') \<Rightarrow> (Inl e, s') | (Inr x, s') \<Rightarrow> f x c s')"

definition liftR :: "'a result \<Rightarrow> 'a M" where
  "liftR r = (\<lambda>c s. (r, s))"

text \<open>Rewriting the error of a call, and handling it.\<close>

definition mapErrM :: "(go_error \<Rightarrow> go_error) \<Rightarrow> 'a M \<Rightarrow> 'a M" where
  "mapErrM g m = (\<lambda>c s. case m c s of (Inl e, s') \<Rightarrow> (Inl (g e), s') | (Inr x, s') \<Rightarrow> (Inr x, s'))"

definition catchM :: "'a M \<Rightarrow> (go_error \<Rightarrow> 'a M) \<Rightarrow> 'a M" where
  "catchM m h = (\<lambda>c s. case m c s of (Inl e, s') \<Rightarrow> h e c s' | (Inr x, s') \<Rightarrow> (Inr x, s'))"

text \<open>Go's \<open>x, err := f()\<close>: the error becomes a value.\<close>

definition tryM :: "'a M \<Rightarrow> 'a result M" where
  "tryM m = (\<lambda>c s. case m c s of (r, s') \<Rightarrow> (Inr r, s'))"

definition askM :: "(env \<Rightarrow> 'a) \<Rightarrow> 'a M" where
  "askM f = (\<lambda>c s. (Inr (f c), s))"

definition whenM :: "bool \<Rightarrow> unit M \<Rightarrow> unit M" where
  "whenM b m = (if b then m else returnM ())"

section \<open>Interactions\<close>

text \<open>One SQL statement: it may fail in the driver, or it runs on the tables.\<close>

definition statement :: "'a sql \<Rightarrow> 'a M" where
  "statement f = (\<lambda>c s.
     let s' = s\<lparr>st_tick := st_tick s + 1\<rparr> in
     case e_fault c (st_tick s) of
       Some fault \<Rightarrow> (Inl (fault_error fault), s')
     | None \<Rightarrow> (case f (st_db s) of
         Inl e \<Rightarrow> (Inl e, s')
       | Inr (x, d) \<Rightarrow> (Inr x, s'\<lparr>st_db := d\<rparr>)))"

text \<open>A value of the environment at this point.\<close>

definition observe :: "(env \<Rightarrow> nat \<Rightarrow> 'a) \<Rightarrow> 'a M" where
  "observe f = (\<lambda>c s. (Inr (f c (st_tick s)), s\<lparr>st_tick := st_tick s + 1\<rparr>))"

definition clock_Now :: "time M" where
  "clock_Now = observe e_now"

text \<open>\<open>uuid.Must(uuid.NewV7())\<close>: it panics if no identifier can be made.\<close>

definition ids_New :: "uuid M" where
  "ids_New = bindM (observe e_new_id) (\<lambda>i. case i of None \<Rightarrow> throwM EPanic | Some i \<Rightarrow> returnM i)"

text \<open>One call of the broker's client.\<close>

definition call_broker :: "broker_call \<Rightarrow> string option M" where
  "call_broker x = (\<lambda>c s.
     let s' = s\<lparr>st_tick := st_tick s + 1\<rparr> in
     case e_broker c (st_tick s) of
       Some message \<Rightarrow> (Inr (Some message), s')
     | None \<Rightarrow> (Inr None, s'\<lparr>st_broker := st_broker s @ [x]\<rparr>))"

definition set_claimedID :: "uuid \<Rightarrow> unit M" where
  "set_claimedID i = (\<lambda>c s. (Inr (), s\<lparr>st_claimedID := i\<rparr>))"

definition get_claimedID :: "uuid M" where
  "get_claimedID = (\<lambda>c s. (Inr (st_claimedID s), s))"

section \<open>Weakest preconditions\<close>

definition wpM :: "'a M \<Rightarrow> env \<Rightarrow> st \<Rightarrow> ('a \<Rightarrow> st \<Rightarrow> bool) \<Rightarrow> (go_error \<Rightarrow> st \<Rightarrow> bool) \<Rightarrow> bool" where
  "wpM m c s Q E \<longleftrightarrow> (case m c s of (Inl e, s') \<Rightarrow> E e s' | (Inr x, s') \<Rightarrow> Q x s')"

lemma wp_returnM [wp]: "wpM (returnM x) c s Q E \<longleftrightarrow> Q x s"
  by (simp add: wpM_def returnM_def)

lemma wp_throwM [wp]: "wpM (throwM e) c s Q E \<longleftrightarrow> E e s"
  by (simp add: wpM_def throwM_def)

lemma wp_bindM [wp]: "wpM (bindM m f) c s Q E \<longleftrightarrow> wpM m c s (\<lambda>x s'. wpM (f x) c s' Q E) E"
  by (auto simp: wpM_def bindM_def split: prod.splits sum.splits)

lemma wp_liftR [wp]: "wpM (liftR r) c s Q E \<longleftrightarrow> (case r of Inl e \<Rightarrow> E e s | Inr x \<Rightarrow> Q x s)"
  by (simp add: wpM_def liftR_def)

lemma wp_mapErrM [wp]: "wpM (mapErrM g m) c s Q E \<longleftrightarrow> wpM m c s Q (\<lambda>e. E (g e))"
  by (auto simp: wpM_def mapErrM_def split: prod.splits sum.splits)

lemma wp_catchM [wp]: "wpM (catchM m h) c s Q E \<longleftrightarrow> wpM m c s Q (\<lambda>e s'. wpM (h e) c s' Q E)"
  by (auto simp: wpM_def catchM_def split: prod.splits sum.splits)

lemma wp_tryM [wp]: "wpM (tryM m) c s Q E \<longleftrightarrow> wpM m c s (\<lambda>x. Q (Inr x)) (\<lambda>e. Q (Inl e))"
  by (auto simp: wpM_def tryM_def split: prod.splits sum.splits)

lemma wp_askM [wp]: "wpM (askM f) c s Q E \<longleftrightarrow> Q (f c) s"
  by (simp add: wpM_def askM_def)

lemma wp_whenM [wp]: "wpM (whenM b m) c s Q E \<longleftrightarrow> (if b then wpM m c s Q E else Q () s)"
  by (simp add: wpM_def whenM_def returnM_def)

lemma wp_if [wp]: "wpM (if b then m else n) c s Q E \<longleftrightarrow> (if b then wpM m c s Q E else wpM n c s Q E)"
  by simp

lemma wp_observe [wp]: "wpM (observe f) c s Q E \<longleftrightarrow> Q (f c (st_tick s)) (s\<lparr>st_tick := st_tick s + 1\<rparr>)"
  by (simp add: wpM_def observe_def)

lemma wp_set_claimedID [wp]: "wpM (set_claimedID i) c s Q E \<longleftrightarrow> Q () (s\<lparr>st_claimedID := i\<rparr>)"
  by (simp add: wpM_def set_claimedID_def)

lemma wp_get_claimedID [wp]: "wpM get_claimedID c s Q E \<longleftrightarrow> Q (st_claimedID s) s"
  by (simp add: wpM_def get_claimedID_def)

lemma wp_statement [wp]:
  "wpM (statement f) c s Q E \<longleftrightarrow>
     (case e_fault c (st_tick s) of
        Some fault \<Rightarrow> E (fault_error fault) (s\<lparr>st_tick := st_tick s + 1\<rparr>)
      | None \<Rightarrow> (case f (st_db s) of
          Inl e \<Rightarrow> E e (s\<lparr>st_tick := st_tick s + 1\<rparr>)
        | Inr (x, d) \<Rightarrow> Q x (s\<lparr>st_tick := st_tick s + 1, st_db := d\<rparr>)))"
  by (auto simp: wpM_def statement_def Let_def split: option.splits sum.splits prod.splits)

lemma wp_call_broker [wp]:
  "wpM (call_broker x) c s Q E \<longleftrightarrow>
     (case e_broker c (st_tick s) of
        Some message \<Rightarrow> Q (Some message) (s\<lparr>st_tick := st_tick s + 1\<rparr>)
      | None \<Rightarrow> Q None (s\<lparr>st_tick := st_tick s + 1, st_broker := st_broker s @ [x]\<rparr>))"
  by (auto simp: wpM_def call_broker_def Let_def split: option.splits)

lemma wpM_mono:
  "wpM m c s Q E \<Longrightarrow> (\<And>x s'. Q x s' \<Longrightarrow> Q' x s') \<Longrightarrow> (\<And>e s'. E e s' \<Longrightarrow> E' e s') \<Longrightarrow> wpM m c s Q' E'"
  by (auto simp: wpM_def split: prod.splits sum.splits)

lemma wpM_conj: "wpM m c s Q E \<Longrightarrow> wpM m c s Q' E' \<Longrightarrow> wpM m c s (\<lambda>x s'. Q x s' \<and> Q' x s') (\<lambda>e s'. E e s' \<and> E' e s')"
  by (auto simp: wpM_def split: prod.splits sum.splits)

lemma wpM_True: "wpM m c s (\<lambda>_ _. True) (\<lambda>_ _. True)"
  by (auto simp: wpM_def split: prod.splits sum.splits)

text \<open>The weak form for safety: a failed statement is excused, a successful one ran on the tables.\<close>

lemma wp_statementI:
  assumes "\<And>x d. e_fault c (st_tick s) = None \<Longrightarrow> f (st_db s) = Inr (x, d) \<Longrightarrow>
      Q x (s\<lparr>st_tick := st_tick s + 1, st_db := d\<rparr>)"
    and "\<And>e t. E e (s\<lparr>st_tick := t\<rparr>)"
  shows "wpM (statement f) c s Q E"
  using assms by (auto simp: wp_statement split: option.splits sum.splits)

lemma result_of_wpM:
  "wpM m c s Q E \<Longrightarrow> m c s = (Inr x, s') \<Longrightarrow> Q x s'"
  "wpM m c s Q E \<Longrightarrow> m c s = (Inl e, s') \<Longrightarrow> E e s'"
  by (simp_all add: wpM_def)

lemma wpM_iff_run: "wpM m c s Q E \<longleftrightarrow>
    (\<forall>x s'. m c s = (Inr x, s') \<longrightarrow> Q x s') \<and> (\<forall>e s'. m c s = (Inl e, s') \<longrightarrow> E e s')"
  by (auto simp: wpM_def split: prod.splits sum.splits)

end
