(* ===== verification/Sha256.thy ===== *)
theory Sha256
  imports GoStd
begin

unbundle bit_operations_syntax

text \<open>
  \<open>crypto/sha256\<close> and \<open>encoding/hex\<close> of the standard library (FIPS 180-4), executable: the
  service hashes canonical payloads and raw message bodies with them. Fact: the digest in
  hexadecimal is 64 lower-case digits, the pattern the domain asks of a payload hash.
\<close>

type_synonym w32 = "32 word"

text \<open>
  The constants of the standard, computed as it defines them: the first 32 bits of the fractional
  parts of the cube roots of the first 64 primes, and of the square roots of the first eight. The
  root is found bit by bit; \<open>root_bits_exact\<close> says it is the integer root.
\<close>

fun root_bits :: "nat \<Rightarrow> int \<Rightarrow> nat \<Rightarrow> int \<Rightarrow> int" where
  "root_bits k n 0 r = r"
| "root_bits k n (Suc b) r = root_bits k n b (if (r + 2 ^ b) ^ k \<le> n then r + 2 ^ b else r)"

lemma root_bits_exact:
  "r ^ k \<le> n \<Longrightarrow> n < (r + 2 ^ b) ^ k \<Longrightarrow>
     root_bits k n b r ^ k \<le> n \<and> n < (root_bits k n b r + 1) ^ k"
proof (induction b arbitrary: r)
  case (Suc b)
  have two: "(r + 2 ^ b) + 2 ^ b = r + 2 ^ Suc b" by simp
  show ?case
  proof (cases "(r + 2 ^ b) ^ k \<le> n")
    case True
    have "n < ((r + 2 ^ b) + 2 ^ b) ^ k" using Suc.prems(2) by (simp only: two)
    then have "root_bits k n b (r + 2 ^ b) ^ k \<le> n \<and> n < (root_bits k n b (r + 2 ^ b) + 1) ^ k"
      by (rule Suc.IH [OF True])
    then show ?thesis by (simp only: root_bits.simps True if_True)
  next
    case False
    have "n < (r + 2 ^ b) ^ k" using False by (simp only: not_le)
    then have "root_bits k n b r ^ k \<le> n \<and> n < (root_bits k n b r + 1) ^ k"
      by (rule Suc.IH [OF Suc.prems(1)])
    then show ?thesis by (simp only: root_bits.simps False if_False)
  qed
qed simp

definition root_fraction :: "nat \<Rightarrow> nat \<Rightarrow> w32" where
  "root_fraction k p = of_int (root_bits k (int p * 2 ^ (32 * k)) 37 0)"

definition primes_upto :: "nat \<Rightarrow> nat list" where
  "primes_upto m = filter (\<lambda>p. \<forall>d \<in> set [2..<p]. p mod d \<noteq> 0) [2..<m + 1]"

definition sha_k :: "w32 list" where
  "sha_k = map (root_fraction 3) (primes_upto 311)"

definition sha_init :: "w32 list" where
  "sha_init = map (root_fraction 2) (take 8 (primes_upto 19))"

lemma primes_upto_19: "primes_upto 19 = [2, 3, 5, 7, 11, 13, 17, 19]"
  by code_simp

text \<open>Padding: a one bit, zeros, and the length in bits as eight bytes, to a multiple of 64 bytes.\<close>

definition byte_of :: "nat \<Rightarrow> nat \<Rightarrow> char" where
  "byte_of n i = char_of (n div 256 ^ i mod 256)"

definition sha_pad :: "string \<Rightarrow> string" where
  "sha_pad m = m @ [char_of (128 :: nat)] @ replicate ((119 - length m mod 64) mod 64) (char_of (0 :: nat))
     @ map (byte_of (8 * length m)) [7, 6, 5, 4, 3, 2, 1, 0]"

fun words_of :: "string \<Rightarrow> w32 list" where
  "words_of (a # b # c # d # r) =
     of_nat (((of_char a * 256 + of_char b) * 256 + of_char c) * 256 + of_char d) # words_of r"
| "words_of _ = []"

definition rotr :: "nat \<Rightarrow> w32 \<Rightarrow> w32" where
  "rotr n x = drop_bit n x OR push_bit (32 - n) x"

fun schedule :: "nat \<Rightarrow> w32 list \<Rightarrow> w32 list" where
  "schedule 0 w = w"
| "schedule (Suc n) w =
     (let k = length w; x = w ! (k - 15); y = w ! (k - 2);
          s0 = rotr 7 x XOR rotr 18 x XOR drop_bit 3 x;
          s1 = rotr 17 y XOR rotr 19 y XOR drop_bit 10 y
      in schedule n (w @ [w ! (k - 16) + s0 + w ! (k - 7) + s1]))"

fun sha_round :: "w32 list \<Rightarrow> w32 \<times> w32 \<Rightarrow> w32 list" where
  "sha_round [a, b, c, d, e, f, g, h] (k, w) =
     (let s1 = rotr 6 e XOR rotr 11 e XOR rotr 25 e;
          ch = (e AND f) XOR (NOT e AND g);
          t1 = h + s1 + ch + k + w;
          s0 = rotr 2 a XOR rotr 13 a XOR rotr 22 a;
          maj = (a AND b) XOR (a AND c) XOR (b AND c)
      in [t1 + s0 + maj, a, b, c, d + t1, e, f, g])"
| "sha_round s _ = s"

definition sha_block :: "w32 list \<Rightarrow> w32 list \<Rightarrow> w32 list" where
  "sha_block h block = map2 (+) h (foldl sha_round h (zip sha_k (schedule 48 block)))"

function sha_blocks :: "w32 list \<Rightarrow> w32 list \<Rightarrow> w32 list" where
  "sha_blocks h ws = (if ws = [] then h else sha_blocks (sha_block h (take 16 ws)) (drop 16 ws))"
  by pat_completeness auto
termination
  by (relation "measure (\<lambda>(h, ws). length ws)") (auto simp: neq_Nil_conv)

declare sha_blocks.simps [simp del]

definition word_bytes :: "w32 \<Rightarrow> nat list" where
  "word_bytes w = map (\<lambda>i. unat w div 256 ^ i mod 256) [3, 2, 1, 0]"

definition Sum256 :: "string \<Rightarrow> nat list" where
  "Sum256 m = concat (map word_bytes (sha_blocks sha_init (words_of (sha_pad m))))"

definition hex_EncodeToString :: "nat list \<Rightarrow> string" where
  "hex_EncodeToString bs = concat (map (\<lambda>b. [hex_char (b div 16), hex_char (b mod 16)]) bs)"

section \<open>The digest has the shape of a payload hash\<close>

lemma sha_round_length: "length (sha_round h p) = length h"
  by (cases "(h, p)" rule: sha_round.cases) (simp_all add: Let_def)

lemma sha_block_length: "length (sha_block h b) = length h"
proof -
  have "length (foldl sha_round g xs) = length g" for g :: "w32 list" and xs
    by (induction xs arbitrary: g) (simp_all add: sha_round_length)
  then show ?thesis by (simp add: sha_block_def)
qed

lemma sha_blocks_length: "length (sha_blocks h ws) = length h"
  by (induction h ws rule: sha_blocks.induct) (subst sha_blocks.simps, simp add: sha_block_length)

lemma Sum256_shape: "length (Sum256 m) = 32" "b \<in> set (Sum256 m) \<Longrightarrow> b < 256"
proof -
  have l: "length (concat (map word_bytes ws)) = 4 * length ws" for ws
    by (induction ws) (simp_all add: word_bytes_def)
  show "length (Sum256 m) = 32" by (simp add: Sum256_def l sha_blocks_length sha_init_def primes_upto_19)
  show "b \<in> set (Sum256 m) \<Longrightarrow> b < 256" by (auto simp: Sum256_def word_bytes_def)
qed

lemma hex_char_lower: "d < 16 \<Longrightarrow> is_lower_hex (hex_char d)"
  by (auto simp: is_lower_hex_def hex_char_def is_digit_def)

lemma hex_digest_pattern: "hash_pattern (hex_EncodeToString (Sum256 m))"
proof -
  have l: "length (hex_EncodeToString bs) = 2 * length bs" for bs
    by (induction bs) (simp_all add: hex_EncodeToString_def)
  have "\<forall>c \<in> set (hex_EncodeToString bs). is_lower_hex c" if "\<forall>b \<in> set bs. b < 256" for bs
    using that by (auto simp: hex_EncodeToString_def intro!: hex_char_lower)
  from this [of "Sum256 m"] have "list_all is_lower_hex (hex_EncodeToString (Sum256 m))"
    using Sum256_shape(2) by (auto simp: list_all_iff)
  then show ?thesis by (simp add: hash_pattern_def l Sum256_shape(1))
qed

end
