(* ===== verification/Inputs.thy ===== *)
theory Inputs
  imports Exec Sha256
begin

text \<open>
  The inputs of the use cases and what is made of them: \<open>internal/application/dto\<close> with its
  \<open>validation\<close> package, the hash of \<open>internal/application/idempotency\<close> and the mappers. The
  engine that interprets the \<open>validate\<close> tags is a third-party package, a parameter of the
  model; the two rules the service registers with it, \<open>opaque\<close> and \<open>wager_kind\<close>, are defined
  here, and \<open>documented_engine\<close> states what the service relies on. Facts: an input that
  passes validation is one the domain accepts, and a payload hash always has the domain's shape.
\<close>

section \<open>Validation\<close>

definition isOpaque :: "string \<Rightarrow> bool" where
  "isOpaque value \<longleftrightarrow> trimmed value \<and> \<not> list_ex is_control (runes value)"

definition wager_kind_rule :: "string \<Rightarrow> bool" where
  "wager_kind_rule value \<longleftrightarrow> kind_External (kind_of_string value)"

definition explain :: "string \<Rightarrow> string \<Rightarrow> string" where
  "explain tag param =
     (if tag = ''required'' then ''is required''
      else if tag = ''max'' then ''must not be longer than '' @ param @ '' characters''
      else if tag = ''gt'' then ''must be greater than '' @ param
      else if tag = ''gte'' then ''must not be lower than '' @ param
      else if tag = ''lte'' then ''must not be greater than '' @ param
      else if tag = ''uuid'' then ''must be a UUID''
      else if tag = ''opaque''
        then ''must not start or end with spaces, and must not contain control characters''
      else if tag = ''wager_kind'' then ''must be one of BET, WIN, LOSS, REFUND or ROLLBACK''
      else ''does not satisfy '' @ tag)"

text \<open>\<open>Collect\<close> on the failures of the engine, with the renamed fields.\<close>

definition Collect_failures :: "(string \<Rightarrow> string) \<Rightarrow> failure list \<Rightarrow> field_error list" where
  "Collect_failures rename fs = map (\<lambda>(field, tag, param). (rename field, explain tag param)) fs"

definition OrNil :: "field_error list \<Rightarrow> unit result" where
  "OrNil problems = (if problems = [] then Inr () else Inl (EValidation problems))"

definition Identifier :: "(string \<Rightarrow> uuid option) \<Rightarrow> string \<Rightarrow> string \<Rightarrow> uuid \<times> field_error list" where
  "Identifier parse field value =
     (if value = [] then (uuid_Nil, [(field, ''is required'')])
      else case parse value of
        None \<Rightarrow> (uuid_Nil, [(field, ''must be a UUID'')])
      | Some i \<Rightarrow> (i, []))"

section \<open>Processing a wager\<close>

record process_input =
  pi_origin :: origin
  pi_providerID :: string
  pi_externalTransactionID :: string
  pi_idempotencyKey :: string
  pi_playerID :: uuid
  pi_walletID :: uuid
  pi_roundID :: string
  pi_gameID :: string
  pi_kind :: kind
  pi_amount :: money
  pi_referenceExternalID :: string
  pi_correlationID :: string
  pi_messageID :: string
  pi_rawBodyHash :: string

record process_result =
  pr_transactionID :: uuid
  pr_status :: status
  pr_balance :: money
  pr_failureCode :: failure_code
  pr_idempotentReplay :: bool
  pr_inboxOutcome :: inbox_outcome

definition FromQueue :: "process_input \<Rightarrow> bool" where
  "FromQueue i \<longleftrightarrow> pi_messageID i \<noteq> []"

definition idempotencyKeyField :: "process_input \<Rightarrow> string" where
  "idempotencyKeyField i = (if pi_origin i = Queue then ''data.idempotencyKey'' else ''Idempotency-Key'')"

definition process_checks :: "process_input \<Rightarrow> field_check list" where
  "process_checks i =
     [(''providerId'', ''required,max=255,opaque'', VText (pi_providerID i)),
      (''externalTransactionId'', ''required,max=255,opaque'', VText (pi_externalTransactionID i)),
      (''idempotencyKey'', ''required,max=255,opaque'', VText (pi_idempotencyKey i)),
      (''playerId'', ''required'', VUuid (pi_playerID i)),
      (''walletId'', ''required'', VUuid (pi_walletID i)),
      (''roundId'', ''required,max=255,opaque'', VText (pi_roundID i)),
      (''gameId'', ''required,max=255,opaque'', VText (pi_gameID i)),
      (''kind'', ''required,wager_kind'', VText (kind_String (pi_kind i))),
      (''referenceExternalTransactionId'', ''omitempty,max=255,opaque'',
         VText (pi_referenceExternalID i))]"

definition checkReferencePolicy :: "process_input \<Rightarrow> field_error list" where
  "checkReferencePolicy i =
     (if RequiresReference (pi_kind i) \<and> pi_referenceExternalID i = []
      then [(''referenceExternalTransactionId'', ''is required for '' @ kind_String (pi_kind i))] else [])
     @ (if ForbidsReference (pi_kind i) \<and> pi_referenceExternalID i \<noteq> []
        then [(''referenceExternalTransactionId'', ''must not be sent for '' @ kind_String (pi_kind i))]
        else [])"

definition checkInputAmountPolicy :: "process_input \<Rightarrow> field_error list" where
  "checkInputAmountPolicy i =
     (if \<not> Valid (pi_amount i) then []
      else if pi_kind i = Loss \<and> \<not> IsZero (pi_amount i)
        then [(''money.amount'', ''must be \"0.00\" for LOSS'')]
      else if pi_kind i \<noteq> Loss \<and> \<not> IsPositive (pi_amount i)
        then [(''money.amount'', ''must be greater than zero for '' @ kind_String (pi_kind i))]
      else [])"

definition process_Validate :: "env \<Rightarrow> process_input \<Rightarrow> unit result" where
  "process_Validate c i =
     OrNil (Collect_failures (\<lambda>f. if f = ''idempotencyKey'' then idempotencyKeyField i else f)
         (e_validate c (process_checks i))
       @ (if \<not> Valid (pi_amount i)
          then [(''money.amount'', ''must be a decimal string with two places and a supported currency'')]
          else [])
       @ (if kind_External (pi_kind i) then checkReferencePolicy i @ checkInputAmountPolicy i else []))"

section \<open>Opening a wallet, listing a ledger\<close>

record open_input =
  oi_playerID :: uuid
  oi_initialBalance :: money
  oi_correlationID :: string

definition open_Validate :: "env \<Rightarrow> open_input \<Rightarrow> unit result" where
  "open_Validate c i =
     OrNil (Collect_failures id (e_validate c [(''playerId'', ''required'', VUuid (oi_playerID i))])
       @ (if \<not> Valid (oi_initialBalance i)
          then [(''initialBalance.amount'',
                 ''must be a decimal string with two places and a supported currency'')]
          else if IsNegative (oi_initialBalance i)
          then [(''initialBalance.amount'', ''must not be negative'')] else []))"

record list_input =
  li_walletID :: uuid
  li_afterVersion :: i64
  li_limit :: int

definition list_Validate :: "env \<Rightarrow> list_input \<Rightarrow> unit result" where
  "list_Validate c i =
     OrNil (Collect_failures id (e_validate c
       [(''walletId'', ''required'', VUuid (li_walletID i)),
        (''afterVersion'', ''gte=0'', VInt (sint (li_afterVersion i))),
        (''limit'', ''gt=0,lte=100'', VInt (li_limit i))]))"

section \<open>The idempotency hash\<close>

record idempotency_payload =
  ip_providerID :: string
  ip_externalTransactionID :: string
  ip_playerID :: uuid
  ip_walletID :: uuid
  ip_roundID :: string
  ip_gameID :: string
  ip_kind :: kind
  ip_amount :: money
  ip_referenceExternalID :: string

definition IdempotencyPayload :: "process_input \<Rightarrow> idempotency_payload" where
  "IdempotencyPayload i = \<lparr>ip_providerID = pi_providerID i,
     ip_externalTransactionID = pi_externalTransactionID i, ip_playerID = pi_playerID i,
     ip_walletID = pi_walletID i, ip_roundID = pi_roundID i, ip_gameID = pi_gameID i,
     ip_kind = pi_kind i, ip_amount = pi_amount i, ip_referenceExternalID = pi_referenceExternalID i\<rparr>"

text \<open>A map is encoded with its keys sorted; nothing is escaped for HTML.\<close>

fun json_map :: "(string \<times> string) list \<Rightarrow> string" where
  "json_map [] = []"
| "json_map [(k, t)] = json_string False k @ '':'' @ t"
| "json_map ((k, t) # ms) = json_string False k @ '':'' @ t @ '','' @ json_map ms"

definition canonical_payload :: "(uuid \<Rightarrow> string) \<Rightarrow> idempotency_payload \<Rightarrow> string" where
  "canonical_payload us p =
     ''{'' @ json_map
       ([(''externalTransactionId'', json_string False (ip_externalTransactionID p)),
         (''gameId'', json_string False (ip_gameID p)),
         (''kind'', json_string False (kind_String (ip_kind p))),
         (''money'', ''{'' @ json_map
            [(''amount'', json_string False (money_String (ip_amount p))),
             (''currency'', json_string False (currency_String (currency (ip_amount p))))] @ ''}''),
         (''playerId'', json_string False (map lower_char (us (ip_playerID p)))),
         (''providerId'', json_string False (ip_providerID p))]
        @ (if ip_referenceExternalID p \<noteq> []
           then [(''referenceExternalTransactionId'', json_string False (ip_referenceExternalID p))]
           else [])
        @ [(''roundId'', json_string False (ip_roundID p)),
           (''walletId'', json_string False (map lower_char (us (ip_walletID p))))]) @ ''}''"

definition idempotency_Hash :: "(uuid \<Rightarrow> string) \<Rightarrow> idempotency_payload \<Rightarrow> string" where
  "idempotency_Hash us p = hex_EncodeToString (Sum256 (canonical_payload us p))"

definition HashBytes :: "string \<Rightarrow> string" where
  "HashBytes raw = hex_EncodeToString (Sum256 raw)"

section \<open>Mappers\<close>

definition WagerCommand :: "process_input \<Rightarrow> string \<Rightarrow> command" where
  "WagerCommand i payloadHash = \<lparr>c_origin = pi_origin i, c_kind = pi_kind i,
     c_providerID = pi_providerID i, c_externalTransactionID = pi_externalTransactionID i,
     c_idempotencyKey = pi_idempotencyKey i, c_payloadHash = payloadHash,
     c_playerID = pi_playerID i, c_walletID = pi_walletID i, c_roundID = pi_roundID i,
     c_gameID = pi_gameID i, c_amount = pi_amount i,
     c_referenceExternalID = pi_referenceExternalID i, c_correlationID = pi_correlationID i\<rparr>"

definition WagerResult :: "tx \<Rightarrow> bool \<Rightarrow> process_result" where
  "WagerResult operation replay = \<lparr>pr_transactionID = t_id operation,
     pr_status = t_status operation, pr_balance = t_resultBalance operation,
     pr_failureCode = t_failureCode operation, pr_idempotentReplay = replay,
     pr_inboxOutcome = no_outcome\<rparr>"

section \<open>What validation is worth\<close>

text \<open>
  The engine as documented, for the tags the inputs use: \<open>required\<close> refuses the zero value,
  \<open>max\<close> counts characters, \<open>omitempty\<close> skips an empty value, \<open>gt\<close>, \<open>gte\<close> and \<open>lte\<close>
  compare numbers, and a registered rule is asked.
\<close>

definition value_required :: "field_value \<Rightarrow> bool" where
  "value_required v = (case v of VText s \<Rightarrow> s \<noteq> [] | VUuid i \<Rightarrow> i \<noteq> uuid_Nil | VInt n \<Rightarrow> n \<noteq> 0)"

definition tag_accepts :: "string \<Rightarrow> field_value \<Rightarrow> bool" where
  "tag_accepts tag v =
     (if tag = ''required'' then value_required v
      else if tag = ''required,max=255,opaque''
        then (case v of VText s \<Rightarrow> s \<noteq> [] \<and> length (runes s) \<le> 255 \<and> isOpaque s | _ \<Rightarrow> False)
      else if tag = ''omitempty,max=255,opaque''
        then (case v of VText s \<Rightarrow> s = [] \<or> length (runes s) \<le> 255 \<and> isOpaque s | _ \<Rightarrow> False)
      else if tag = ''required,wager_kind''
        then (case v of VText s \<Rightarrow> s \<noteq> [] \<and> wager_kind_rule s | _ \<Rightarrow> False)
      else if tag = ''gte=0'' then (case v of VInt n \<Rightarrow> 0 \<le> n | _ \<Rightarrow> False)
      else if tag = ''gt=0,lte=100'' then (case v of VInt n \<Rightarrow> 0 < n \<and> n \<le> 100 | _ \<Rightarrow> False)
      else True)"

definition documented_engine :: "(field_check list \<Rightarrow> failure list) \<Rightarrow> bool" where
  "documented_engine engine \<longleftrightarrow>
     (\<forall>checks. engine checks = [] \<longrightarrow> list_all (\<lambda>(f, tag, v). tag_accepts tag v) checks)"

lemma runes_not_Nil: "s \<noteq> [] \<Longrightarrow> runes s \<noteq> []"
  by (subst runes.simps) (simp split: prod.splits)

lemma opaque_not_blank: "isOpaque s \<Longrightarrow> s \<noteq> [] \<Longrightarrow> \<not> blank s"
  using runes_not_Nil [of s] hd_in_set [of "runes s"]
  by (auto simp: isOpaque_def trimmed_def blank_def list_all_iff Let_def)

lemma kind_of_String_External: "kind_External (kind_of_string (kind_String k)) \<Longrightarrow> kind_External k \<or> (\<exists>s. k = OtherKind s)"
  by (cases k) (auto simp: kind_of_string_def kind_defs)

lemma hash_shape: "hash_pattern (idempotency_Hash us p)" "hash_pattern (HashBytes raw)"
  by (simp_all add: idempotency_Hash_def HashBytes_def hex_digest_pattern)

lemma required_opaque:
  "tag_accepts ''required,max=255,opaque'' (VText s) \<Longrightarrow> \<not> blank s"
  by (simp add: tag_accepts_def opaque_not_blank)

lemma process_Validate_eq_Inr:
  "process_Validate c i = Inr u \<longleftrightarrow> e_validate c (process_checks i) = [] \<and> Valid (pi_amount i)
     \<and> (kind_External (pi_kind i) \<longrightarrow> checkReferencePolicy i = [] \<and> checkInputAmountPolicy i = [])"
  by (auto simp: process_Validate_def OrNil_def Collect_failures_def)

text \<open>
  The kinds an input can carry: the conversion \<open>wagering.Kind(s)\<close> of a text.
\<close>

definition kind_input :: "process_input \<Rightarrow> bool" where
  "kind_input i \<longleftrightarrow> kind_of_string (kind_String (pi_kind i)) = pi_kind i"

lemma validated_accepted:
  assumes engine: "documented_engine (e_validate c)" and ok: "process_Validate c i = Inr ()"
    and k: "kind_input i" and edge: "origin_External (pi_origin i)" "\<not> blank (pi_correlationID i)"
    and args: "j \<noteq> uuid_Nil" "now \<noteq> time_zero"
  shows "NewExternal (WagerCommand i (idempotency_Hash us p)) j now
    = Inr (new_tx (WagerCommand i (idempotency_Hash us p)) j now)"
proof -
  have all: "list_all (\<lambda>(f, tag, v). tag_accepts tag v) (process_checks i)"
    using engine ok by (simp add: documented_engine_def process_Validate_eq_Inr)
  then have b: "\<not> blank (pi_providerID i)" "\<not> blank (pi_externalTransactionID i)"
    "\<not> blank (pi_idempotencyKey i)" "\<not> blank (pi_roundID i)" "\<not> blank (pi_gameID i)"
    by (simp_all add: process_checks_def required_opaque)
  from all have kk: "kind_External (pi_kind i)" and ids: "pi_playerID i \<noteq> uuid_Nil" "pi_walletID i \<noteq> uuid_Nil"
    using k by (simp_all add: process_checks_def tag_accepts_def value_required_def wager_kind_rule_def kind_input_def)
  have pol: "checkReferencePolicy i = []" "checkInputAmountPolicy i = []" "Valid (pi_amount i)"
    using ok kk by (simp_all add: process_Validate_eq_Inr)
  have "amount_policy (pi_kind i) (pi_amount i)"
    using pol by (auto simp: checkInputAmountPolicy_def amount_policy_def sign_simps split: if_splits)
  moreover have "Reversal (pi_kind i) \<longrightarrow> pi_referenceExternalID i \<noteq> []"
    "ForbidsReference (pi_kind i) \<longrightarrow> pi_referenceExternalID i = []"
    using pol(1) by (auto simp: checkReferencePolicy_def RequiresReference_def split: if_splits)
  ultimately show ?thesis
    using b kk ids edge args
    by (simp add: NewExternal_eq_Inr external_fields_def new_tx_def WagerCommand_def hash_shape)
qed

end
