(* ===== verification/Fingerprint.thy ===== *)
theory Fingerprint
  imports JsonPrint Inputs
begin

text \<open>
  What the idempotency hash of \<open>idempotency/hash.go\<close> identifies: the text it digests is the JSON of
  an object with one member for every field of the payload, so payloads that differ in any field
  are digested from different texts.
\<close>

definition payload_json :: "(uuid \<Rightarrow> string) \<Rightarrow> idempotency_payload \<Rightarrow> json" where
  "payload_json us p =
     JObj ([(''externalTransactionId'', JStr (ip_externalTransactionID p)),
            (''gameId'', JStr (ip_gameID p)),
            (''kind'', JStr (kind_String (ip_kind p))),
            (''money'', JObj [(''amount'', JStr (money_String (ip_amount p))),
               (''currency'', JStr (currency_String (currency (ip_amount p))))]),
            (''playerId'', JStr (map lower_char (us (ip_playerID p)))),
            (''providerId'', JStr (ip_providerID p))]
        @ (if ip_referenceExternalID p \<noteq> []
           then [(''referenceExternalTransactionId'', JStr (ip_referenceExternalID p))] else [])
        @ [(''roundId'', JStr (ip_roundID p)),
           (''walletId'', JStr (map lower_char (us (ip_walletID p))))])"

lemma canonical_payload_print: "canonical_payload us p = json_print False (payload_json us p)"
  by (simp add: canonical_payload_def payload_json_def)

text \<open>Payloads as they reach the hash: UTF-8 throughout, an amount of money that is not negative.\<close>

definition printable_payload :: "(uuid \<Rightarrow> string) \<Rightarrow> idempotency_payload \<Rightarrow> bool" where
  "printable_payload us p \<longleftrightarrow> valid_utf8 (ip_externalTransactionID p) \<and> valid_utf8 (ip_gameID p)
     \<and> valid_utf8 (kind_String (ip_kind p)) \<and> valid_utf8 (ip_providerID p) \<and> valid_utf8 (ip_referenceExternalID p)
     \<and> valid_utf8 (ip_roundID p) \<and> valid_utf8 (map lower_char (us (ip_playerID p)))
     \<and> valid_utf8 (map lower_char (us (ip_walletID p)))
     \<and> kind_of_string (kind_String (ip_kind p)) = ip_kind p \<and> Valid (ip_amount p) \<and> 0 \<le> amount_of (ip_amount p)"

lemma ascii_names: "valid_utf8 ''externalTransactionId''" "valid_utf8 ''gameId''" "valid_utf8 ''kind''" "valid_utf8 ''money''"
  "valid_utf8 ''amount''" "valid_utf8 ''currency''" "valid_utf8 ''playerId''" "valid_utf8 ''providerId''"
  "valid_utf8 ''referenceExternalTransactionId''" "valid_utf8 ''roundId''" "valid_utf8 ''walletId''"
  by (simp_all add: valid_utf8_ascii)

lemma payload_writable: assumes "printable_payload us p" shows "writable (payload_json us p)"
proof -
  have "Valid (ip_amount p)" using assms by (simp add: printable_payload_def)
  then have "valid_utf8 (currency_String (currency (ip_amount p)))"
    by (auto simp: Valid_def Supported_def valid_utf8_ascii)
  moreover have "valid_utf8 (money_String (ip_amount p))"
    using money_String_plain by (rule plain_valid)
  ultimately show ?thesis using assms by (simp add: payload_json_def printable_payload_def ascii_names)
qed

lemma money_determined:
  assumes "Valid a" "0 \<le> amount_of a" "Valid b" "0 \<le> amount_of b"
    and "money_String a = money_String b" "currency_String (currency a) = currency_String (currency b)"
  shows "a = b"
proof -
  have "Parse (money_String m) (currency_String (currency m)) = Inr m" if "Valid m" "0 \<le> amount_of m" for m
    using that by (simp add: Parse_eq_Inr Valid_def)
  then show ?thesis using assms by (metis sum.inject(2))
qed

text \<open>
  C27. The idempotency hash is taken of a text that determines the payload: two payloads give the
  same text exactly when they agree in every field. So two operations have the same hash only
  when they ask for the same, or SHA-256 collides.
\<close>

theorem payload_text_faithful:
  assumes "inj (\<lambda>i. map lower_char (us i))" and "printable_payload us p" and "printable_payload us q"
  shows "canonical_payload us p = canonical_payload us q \<longleftrightarrow> p = q"
proof
  assume "canonical_payload us p = canonical_payload us q"
  then have e: "payload_json us p = payload_json us q"
    unfolding canonical_payload_print
    by (rule json_print_inj) (use assms payload_writable in auto)
  have i: "map lower_char (us x) = map lower_char (us y) \<longleftrightarrow> x = y" for x y
    using assms(1) by (auto dest: injD)
  have f: "ip_externalTransactionID p = ip_externalTransactionID q" "ip_gameID p = ip_gameID q"
    "kind_String (ip_kind p) = kind_String (ip_kind q)" "ip_providerID p = ip_providerID q"
    "ip_referenceExternalID p = ip_referenceExternalID q" "ip_roundID p = ip_roundID q"
    "ip_playerID p = ip_playerID q" "ip_walletID p = ip_walletID q"
    and m: "money_String (ip_amount p) = money_String (ip_amount q)"
      "currency_String (currency (ip_amount p)) = currency_String (currency (ip_amount q))"
    using e by (auto simp: payload_json_def i split: if_splits)
  have "ip_amount p = ip_amount q"
    by (rule money_determined [OF _ _ _ _ m]) (use assms(2,3) in \<open>simp_all add: printable_payload_def\<close>)
  moreover have "ip_kind p = ip_kind q" using f(3) assms(2,3) unfolding printable_payload_def by metis
  ultimately show "p = q" using f by (simp add: idempotency_payload.equality)
qed simp

text \<open>Identifiers printed in decimal, to run on.\<close>

definition decimal_text :: "uuid \<Rightarrow> string" where
  "decimal_text i = format_uint (unat i)"

lemma decimal_lower: "map lower_char (decimal_text i) = decimal_text i"
proof -
  have "lower_char c = c" if "is_digit c" for c using that by (simp add: lower_char_def is_digit_def)
  then show ?thesis using format_uint_digits [of "unat i"] by (simp add: decimal_text_def list_all_iff map_idI)
qed

lemma decimal_inj: "inj (\<lambda>i. map lower_char (decimal_text i))"
proof (rule injI)
  fix i j assume "map lower_char (decimal_text i) = map lower_char (decimal_text j)"
  then have "decimal_text i = decimal_text j" unfolding decimal_lower .
  then have "digits_val (format_uint (unat i)) = digits_val (format_uint (unat j))"
    by (simp add: decimal_text_def)
  then show "i = j" by (simp add: word_unat_eq_iff)
qed

lemma decimal_valid [simp]: "valid_utf8 (map lower_char (decimal_text i))"
proof -
  have "list_all plain_char (decimal_text i)"
    using format_uint_digits [of "unat i"] by (auto simp: decimal_text_def list_all_iff digit_plain)
  then show ?thesis unfolding decimal_lower by (rule plain_valid)
qed

definition sample_payload :: "i64 \<Rightarrow> idempotency_payload" where
  "sample_payload m = \<lparr>ip_providerID = ''p'', ip_externalTransactionID = ''x'', ip_playerID = 2, ip_walletID = 1,
     ip_roundID = ''r'', ip_gameID = ''g'', ip_kind = Win, ip_amount = \<lparr>minor = m, currency = BRL\<rparr>,
     ip_referenceExternalID = []\<rparr>"

theorem payload_text_faithful_witness:
  "canonical_payload decimal_text (sample_payload 2500) \<noteq> canonical_payload decimal_text (sample_payload 2501)"
proof -
  have "printable_payload decimal_text (sample_payload 2500)" "printable_payload decimal_text (sample_payload 2501)"
    by (simp_all add: printable_payload_def sample_payload_def valid_utf8_ascii kind_of_string_def Valid_def
        Supported_def amount_of_def)
  from payload_text_faithful [OF decimal_inj this] show ?thesis by (simp add: sample_payload_def)
qed

end
