(* ===== verification/Message.thy ===== *)
theory Message
  imports JsonText Inputs
begin

text \<open>
  The contract of the wagering queue: \<open>dto/message/wager_message.go\<close> and the mapper
  \<open>mapper/wager_input_mapper.go\<close>. Decoding a struct follows \<open>encoding/json\<close>: members are
  matched to fields without regard to case, taken in order and decoded onto what is there;
  \<open>null\<close> leaves a string or a struct as it is and empties a pointer; an unknown member or a
  value of another type is an error, the first one is kept. The timestamp is only checked: the
  texts \<open>time.Parse\<close> accepts for \<open>time.RFC3339Nano\<close>. Facts: a message that passes reaches the
  use case as an input that can be executed.
\<close>

section \<open>Decoding into structs\<close>

definition type_mismatch :: go_error where
  "type_mismatch = EText ''json: cannot unmarshal''"

definition unknown_field :: go_error where
  "unknown_field = EText ''json: unknown field''"

definition decode_string :: "json \<Rightarrow> string \<Rightarrow> string result" where
  "decode_string v old =
     (case v of JStr t \<Rightarrow> Inr t | JNull \<Rightarrow> Inr old | _ \<Rightarrow> Inl type_mismatch)"

definition decode_string_pointer :: "json \<Rightarrow> string option \<Rightarrow> string option result" where
  "decode_string_pointer v old =
     (case v of JStr t \<Rightarrow> Inr (Some t) | JNull \<Rightarrow> Inr None | _ \<Rightarrow> Inl type_mismatch)"

definition decode_struct :: "(string \<Rightarrow> json \<Rightarrow> 'a \<Rightarrow> 'a result) \<Rightarrow> json \<Rightarrow> 'a \<Rightarrow> 'a result" where
  "decode_struct set_field v old =
     (case v of
        JNull \<Rightarrow> Inr old
      | JObj ms \<Rightarrow> foldl (\<lambda>r (k, v). bindR r (set_field k v)) (Inr old) ms
      | _ \<Rightarrow> Inl type_mismatch)"

definition named :: "string \<Rightarrow> string \<Rightarrow> bool" where
  "named field k \<longleftrightarrow> fold_name k = fold_name field"

section \<open>Timestamps\<close>

definition expect :: "char \<Rightarrow> string \<Rightarrow> string option" where
  "expect c s = (case s of [] \<Rightarrow> None | d # r \<Rightarrow> if d = c then Some r else None)"

text \<open>\<open>getnum\<close>: two digits, or one when the field is not fixed.\<close>

definition getnum :: "bool \<Rightarrow> string \<Rightarrow> (nat \<times> string) option" where
  "getnum fixed s =
     (case s of
        [] \<Rightarrow> None
      | c # r \<Rightarrow>
          if \<not> is_digit c then None
          else if r \<noteq> [] \<and> is_digit (hd r) then Some (10 * digit_val c + digit_val (hd r), tl r)
          else if fixed then None else Some (digit_val c, r))"

definition below :: "nat \<Rightarrow> (nat \<times> string) option \<Rightarrow> (nat \<times> string) option" where
  "below bound r = Option.bind r (\<lambda>(n, s). if n < bound then Some (n, s) else None)"

definition parse_year :: "string \<Rightarrow> (nat \<times> string) option" where
  "parse_year s =
     (if length s < 4 \<or> \<not> list_all is_digit (take 4 s) then None
      else Some (digits_val (take 4 s), drop 4 s))"

definition leap :: "nat \<Rightarrow> bool" where
  "leap year \<longleftrightarrow> year mod 4 = 0 \<and> (year mod 100 \<noteq> 0 \<or> year mod 400 = 0)"

definition daysIn :: "nat \<Rightarrow> nat \<Rightarrow> nat" where
  "daysIn month year =
     (if month = 2 then (if leap year then 29 else 28)
      else if month \<in> {4, 6, 9, 11} then 30 else 31)"

definition skip_fraction :: "string \<Rightarrow> string" where
  "skip_fraction s =
     (case s of
        c # r \<Rightarrow>
          if (c = CHR ''.'' \<or> c = CHR '','') \<and> r \<noteq> [] \<and> is_digit (hd r) then dropWhile is_digit r else s
      | [] \<Rightarrow> [])"

definition skip_zone :: "string \<Rightarrow> string option" where
  "skip_zone s =
     (case s of
        [] \<Rightarrow> None
      | c # r \<Rightarrow>
          if c = CHR ''Z'' then Some r
          else if c = CHR ''+'' \<or> c = CHR ''-'' then
            Option.bind (below 25 (getnum True r)) (\<lambda>(h, r).
            Option.bind (expect CHR '':'' r) (\<lambda>r.
            Option.bind (below 61 (getnum True r)) (\<lambda>(m, r). Some r)))
          else None)"

definition rfc3339 :: "string \<Rightarrow> bool" where
  "rfc3339 s =
     (Option.bind (parse_year s) (\<lambda>(year, s).
      Option.bind (expect CHR ''-'' s) (\<lambda>s.
      Option.bind (below 13 (getnum True s)) (\<lambda>(month, s).
      Option.bind (expect CHR ''-'' s) (\<lambda>s.
      Option.bind (getnum True s) (\<lambda>(day, s).
      Option.bind (expect CHR ''T'' s) (\<lambda>s.
      Option.bind (below 24 (getnum False s)) (\<lambda>(hour, s).
      Option.bind (expect CHR '':'' s) (\<lambda>s.
      Option.bind (below 60 (getnum True s)) (\<lambda>(minute, s).
      Option.bind (expect CHR '':'' s) (\<lambda>s.
      Option.bind (below 60 (getnum True s)) (\<lambda>(second, s).
      Option.bind (skip_zone (skip_fraction s)) (\<lambda>s.
      if 0 < month \<and> 0 < day \<and> day \<le> daysIn month year \<and> s = [] then Some () else None))))))))))))
      = Some ())"

section \<open>The message\<close>

definition WagerTransactionRequested :: string where
  "WagerTransactionRequested = ''WagerTransactionRequested''"

record wager_data =
  wd_providerID :: string
  wd_externalTransactionID :: string
  wd_playerID :: string
  wd_walletID :: string
  wd_roundID :: string
  wd_gameID :: string
  wd_kind :: string
  wd_money :: money
  wd_referenceExternalTransactionID :: "string option"
  wd_idempotencyKey :: string

record wager_message =
  wm_messageID :: string
  wm_type :: string
  wm_occurredAt :: string
  wm_data :: wager_data

definition wager_data_zero :: wager_data where
  "wager_data_zero = \<lparr>wd_providerID = [], wd_externalTransactionID = [], wd_playerID = [],
     wd_walletID = [], wd_roundID = [], wd_gameID = [], wd_kind = [], wd_money = money_zero_value,
     wd_referenceExternalTransactionID = None, wd_idempotencyKey = []\<rparr>"

definition wager_message_zero :: wager_message where
  "wager_message_zero =
     \<lparr>wm_messageID = [], wm_type = [], wm_occurredAt = [], wm_data = wager_data_zero\<rparr>"

definition set_wager_data :: "string \<Rightarrow> json \<Rightarrow> wager_data \<Rightarrow> wager_data result" where
  "set_wager_data k v d =
     (if named ''providerId'' k
        then bindR (decode_string v (wd_providerID d)) (\<lambda>t. Inr (d\<lparr>wd_providerID := t\<rparr>))
      else if named ''externalTransactionId'' k
        then bindR (decode_string v (wd_externalTransactionID d)) (\<lambda>t. Inr (d\<lparr>wd_externalTransactionID := t\<rparr>))
      else if named ''playerId'' k
        then bindR (decode_string v (wd_playerID d)) (\<lambda>t. Inr (d\<lparr>wd_playerID := t\<rparr>))
      else if named ''walletId'' k
        then bindR (decode_string v (wd_walletID d)) (\<lambda>t. Inr (d\<lparr>wd_walletID := t\<rparr>))
      else if named ''roundId'' k
        then bindR (decode_string v (wd_roundID d)) (\<lambda>t. Inr (d\<lparr>wd_roundID := t\<rparr>))
      else if named ''gameId'' k
        then bindR (decode_string v (wd_gameID d)) (\<lambda>t. Inr (d\<lparr>wd_gameID := t\<rparr>))
      else if named ''kind'' k
        then bindR (decode_string v (wd_kind d)) (\<lambda>t. Inr (d\<lparr>wd_kind := t\<rparr>))
      else if named ''money'' k
        then bindR (money_UnmarshalJSON v) (\<lambda>m. Inr (d\<lparr>wd_money := m\<rparr>))
      else if named ''referenceExternalTransactionId'' k
        then bindR (decode_string_pointer v (wd_referenceExternalTransactionID d))
          (\<lambda>t. Inr (d\<lparr>wd_referenceExternalTransactionID := t\<rparr>))
      else if named ''idempotencyKey'' k
        then bindR (decode_string v (wd_idempotencyKey d)) (\<lambda>t. Inr (d\<lparr>wd_idempotencyKey := t\<rparr>))
      else Inl unknown_field)"

definition set_wager_message :: "string \<Rightarrow> json \<Rightarrow> wager_message \<Rightarrow> wager_message result" where
  "set_wager_message k v m =
     (if named ''messageId'' k
        then bindR (decode_string v (wm_messageID m)) (\<lambda>t. Inr (m\<lparr>wm_messageID := t\<rparr>))
      else if named ''type'' k
        then bindR (decode_string v (wm_type m)) (\<lambda>t. Inr (m\<lparr>wm_type := t\<rparr>))
      else if named ''occurredAt'' k
        then bindR (decode_string v (wm_occurredAt m)) (\<lambda>t. Inr (m\<lparr>wm_occurredAt := t\<rparr>))
      else if named ''data'' k
        then bindR (decode_struct set_wager_data v (wm_data m)) (\<lambda>d. Inr (m\<lparr>wm_data := d\<rparr>))
      else Inl unknown_field)"

definition message_Validate :: "env \<Rightarrow> wager_message \<Rightarrow> unit result" where
  "message_Validate c m =
     OrNil (Collect_failures id (e_validate c
         [(''messageId'', ''required,max=255,opaque'', VText (wm_messageID m)),
          (''type'', ''required'', VText (wm_type m))])
       @ (if \<not> rfc3339 (wm_occurredAt m)
          then [(''occurredAt'', ''must be a timestamp in RFC 3339 format'')] else [])
       @ (if wm_type m \<noteq> WagerTransactionRequested \<and> wm_type m \<noteq> []
          then [(''type'', ''must be '' @ WagerTransactionRequested)] else []))"

definition message_Decode :: "env \<Rightarrow> string \<Rightarrow> wager_message result" where
  "message_Decode c body =
     (case json_first body of
        None \<Rightarrow> Inl (EWrap [EText ''message: body is not a valid envelope''])
      | Some (v, rest) \<Rightarrow>
          (case decode_struct set_wager_message v wager_message_zero of
             Inl e \<Rightarrow> Inl (EWrap [e])
           | Inr wager \<Rightarrow>
               if skip_space rest \<noteq> []
               then Inl (EText ''message: body must contain exactly one JSON document'')
               else bindR (message_Validate c wager) (\<lambda>_. Inr wager)))"

definition message_Reference :: "wager_message \<Rightarrow> string" where
  "message_Reference m =
     (case wd_referenceExternalTransactionID (wm_data m) of None \<Rightarrow> [] | Some r \<Rightarrow> r)"

definition WagerInputFromMessage :: "env \<Rightarrow> wager_message \<Rightarrow> string \<Rightarrow> string \<Rightarrow> process_input result" where
  "WagerInputFromMessage c wager rawBodyHash correlationID =
     (let (playerID, problems) = Identifier (e_uuid_parse c) ''playerId'' (wd_playerID (wm_data wager));
          (walletID, more) = Identifier (e_uuid_parse c) ''walletId'' (wd_walletID (wm_data wager)) in
      bindR (OrNil (problems @ more)) (\<lambda>_.
      Inr \<lparr>pi_origin = Queue, pi_providerID = wd_providerID (wm_data wager),
        pi_externalTransactionID = wd_externalTransactionID (wm_data wager),
        pi_idempotencyKey = wd_idempotencyKey (wm_data wager), pi_playerID = playerID,
        pi_walletID = walletID, pi_roundID = wd_roundID (wm_data wager),
        pi_gameID = wd_gameID (wm_data wager), pi_kind = kind_of_string (wd_kind (wm_data wager)),
        pi_amount = wd_money (wm_data wager), pi_referenceExternalID = message_Reference wager,
        pi_correlationID = correlationID, pi_messageID = wm_messageID wager,
        pi_rawBodyHash = rawBodyHash\<rparr>))"

end
