(* ===== verification/Book.thy ===== *)
theory Book
  imports Store
begin

text \<open>
  The abstract state behind the tables: the wallets, the operations and the ledger entries as
  values of the domain. \<open>book_inv\<close> is what the service promises of them at every moment:
  identifiers and keys are unique, each wallet's entries form an unbroken chain of versions and
  balances from its opening to its current balance, each entry belongs to one processed
  operation and each processed operation that moves money has its entry, and each processed
  reversal undoes one processed original that no other reversal undoes. The abstract operations
  keep it.
\<close>

record book =
  bk_wallets :: "wallet list"
  bk_txs :: "tx list"
  bk_entries :: "ledger_entry list"

definition represents :: "db \<Rightarrow> book \<Rightarrow> bool" where
  "represents d B \<longleftrightarrow> db_wallets d = map wallet_row_of (bk_wallets B)
     \<and> db_transactions d = map tx_row_of (bk_txs B) \<and> db_entries d = map entry_row_of (bk_entries B)"

section \<open>Wallets and their chains\<close>

fun chain :: "int \<Rightarrow> int \<Rightarrow> ledger_entry list \<Rightarrow> int \<Rightarrow> int \<Rightarrow> bool" where
  "chain b v [] b' v' \<longleftrightarrow> b' = b \<and> v' = v"
| "chain b v (e # es) b' v' \<longleftrightarrow> amount_of (le_balanceBefore e) = b \<and> sint (le_walletVersion e) = v + 1
     \<and> chain (amount_of (le_balanceAfter e)) (v + 1) es b' v'"

definition entries_of :: "uuid \<Rightarrow> ledger_entry list \<Rightarrow> ledger_entry list" where
  "entries_of i es = filter (\<lambda>e. le_walletID e = i) es"

text \<open>
  A funded wallet starts with an entry of version 1, one opened with zero has no such entry.
\<close>

definition wallet_chain :: "ledger_entry list \<Rightarrow> wallet \<Rightarrow> bool" where
  "wallet_chain es w \<longleftrightarrow>
     (\<exists>v \<in> {0, 1}. chain 0 v (entries_of (w_id w) es) (amount_of (w_balance w)) (sint (w_version w)))
     \<and> (\<forall>e \<in> set (entries_of (w_id w) es). currency (le_amount e) = currency (w_balance w))"

definition wallets_ok :: "wallet list \<Rightarrow> bool" where
  "wallets_ok ws \<longleftrightarrow> (\<forall>w \<in> set ws. wallet_inv w) \<and> distinct (map w_id ws)
     \<and> distinct (map (\<lambda>w. (w_playerID w, currency (w_balance w))) ws)"

section \<open>Operations\<close>

definition processed_reversal :: "tx \<Rightarrow> bool" where
  "processed_reversal t \<longleftrightarrow> Reversal (t_kind t) \<and> t_status t = Processed"

text \<open>The unique constraints of \<open>wager_transactions\<close>, on the values.\<close>

definition clash :: "tx \<Rightarrow> tx \<Rightarrow> bool" where
  "clash t t' \<longleftrightarrow> t_id t = t_id t'
     \<or> (t_providerID t = t_providerID t' \<and> t_providerID t \<noteq> [])
        \<and> t_idempotencyKey t = t_idempotencyKey t' \<and> t_idempotencyKey t \<noteq> []
     \<or> (t_providerID t = t_providerID t' \<and> t_providerID t \<noteq> [])
        \<and> t_externalTransactionID t = t_externalTransactionID t' \<and> t_externalTransactionID t \<noteq> []
     \<or> t_kind t = Opening \<and> t_kind t' = Opening \<and> t_walletID t = t_walletID t'
     \<or> processed_reversal t \<and> processed_reversal t'
        \<and> t_referenceTransactionID t = t_referenceTransactionID t' \<and> t_referenceTransactionID t \<noteq> uuid_Nil"

definition on_wallet :: "wallet list \<Rightarrow> tx \<Rightarrow> bool" where
  "on_wallet ws t \<longleftrightarrow> (\<exists>w \<in> set ws. w_id w = t_walletID t \<and> storable (currency (w_balance w)) t)"

definition txs_ok :: "wallet list \<Rightarrow> tx list \<Rightarrow> bool" where
  "txs_ok ws ts \<longleftrightarrow> (\<forall>t \<in> set ts. on_wallet ws t) \<and> distinct (map t_id ts)
     \<and> (\<forall>t \<in> set ts. \<forall>t' \<in> set ts. t_id t \<noteq> t_id t' \<longrightarrow> \<not> clash t t')"

section \<open>Entries and operations agree\<close>

definition moves :: "tx \<Rightarrow> bool" where
  "moves t \<longleftrightarrow> t_status t = Processed \<and> MovesBalance (t_kind t)"

text \<open>The direction a processed operation moves, given the operations it may refer to.\<close>

definition moved_direction :: "tx list \<Rightarrow> tx \<Rightarrow> direction \<Rightarrow> bool" where
  "moved_direction ts t d \<longleftrightarrow>
     (case t_kind t of
        Opening \<Rightarrow> d = Credit
      | Bet \<Rightarrow> d = Debit
      | Win \<Rightarrow> d = Credit
      | Refund \<Rightarrow> d = Credit
      | Rollback \<Rightarrow> \<exists>t0 \<in> set ts. t_id t0 = t_referenceTransactionID t
          \<and> d = reversalDirection Rollback (t_kind t0)
      | _ \<Rightarrow> False)"

definition entry_for :: "tx list \<Rightarrow> tx \<Rightarrow> ledger_entry \<Rightarrow> bool" where
  "entry_for ts t e \<longleftrightarrow> le_transactionID e = t_id t \<and> moves t \<and> le_walletID e = t_walletID t
     \<and> le_amount e = t_amount t \<and> le_balanceAfter e = t_resultBalance t
     \<and> moved_direction ts t (le_direction e)"

definition entries_ok :: "wallet list \<Rightarrow> tx list \<Rightarrow> ledger_entry list \<Rightarrow> bool" where
  "entries_ok ws ts es \<longleftrightarrow> (\<forall>e \<in> set es. entry_inv e \<and> (\<exists>t \<in> set ts. entry_for ts t e))
     \<and> distinct (map le_id es) \<and> distinct (map le_transactionID es)
     \<and> (\<forall>t \<in> set ts. moves t \<longrightarrow> (\<exists>e \<in> set es. le_transactionID e = t_id t))
     \<and> (\<forall>w \<in> set ws. wallet_chain es w)"

text \<open>What a processed reversal undoes.\<close>

definition undoes :: "tx \<Rightarrow> tx \<Rightarrow> bool" where
  "undoes t t0 \<longleftrightarrow> t_id t0 = t_referenceTransactionID t \<and> t_status t0 = Processed
     \<and> reversible (t_kind t) (t_kind t0) \<and> sameRound t t0 \<and> t_amount t = t_amount t0"

definition reversals_ok :: "tx list \<Rightarrow> bool" where
  "reversals_ok ts \<longleftrightarrow> (\<forall>t \<in> set ts. processed_reversal t \<longrightarrow> (\<exists>t0 \<in> set ts. undoes t t0))"

definition book_inv :: "book \<Rightarrow> bool" where
  "book_inv B \<longleftrightarrow> wallets_ok (bk_wallets B) \<and> txs_ok (bk_wallets B) (bk_txs B)
     \<and> entries_ok (bk_wallets B) (bk_txs B) (bk_entries B) \<and> reversals_ok (bk_txs B)"

section \<open>Chains\<close>

lemma chain_snoc:
  "chain b v (es @ [e]) b' v' \<longleftrightarrow>
     chain b v es (amount_of (le_balanceBefore e)) (sint (le_walletVersion e) - 1)
     \<and> b' = amount_of (le_balanceAfter e) \<and> v' = sint (le_walletVersion e)"
  by (induction es arbitrary: b v) auto

text \<open>A chain of well-formed entries adds up.\<close>

lemma chain_length: "chain b v es b' v' \<Longrightarrow> v' = v + int (length es)"
proof (induction es arbitrary: b v)
  case (Cons e es)
  from Cons.IH [of "amount_of (le_balanceAfter e)" "v + 1"] Cons.prems show ?case by simp
qed simp

lemma chain_sum:
  assumes "chain b v es b' v'" and "\<forall>e \<in> set es. entry_inv e"
  shows "b' = b + sum_list (map (\<lambda>e. signed_amount (le_direction e) (le_amount e)) es)"
  using assms
proof (induction es arbitrary: b v)
  case (Cons e es)
  then have "amount_of (le_balanceAfter e) = b + signed_amount (le_direction e) (le_amount e)"
    by (simp add: entry_inv_def)
  with Cons.IH [of "amount_of (le_balanceAfter e)" "v + 1"] Cons.prems show ?case by simp
qed simp

lemma entries_of_append [simp]:
  "entries_of i (es @ [e]) = (if le_walletID e = i then entries_of i es @ [e] else entries_of i es)"
  by (simp add: entries_of_def)

section \<open>Abstract operations\<close>

definition replace_tx :: "tx \<Rightarrow> tx list \<Rightarrow> tx list" where
  "replace_tx t' ts = map (\<lambda>t. if t_id t = t_id t' then t' else t) ts"

definition replace_wallet :: "wallet \<Rightarrow> wallet list \<Rightarrow> wallet list" where
  "replace_wallet w' ws = map (\<lambda>w. if w_id w = w_id w' then w' else w) ws"

lemma replace_ids [simp]:
  "map t_id (replace_tx t' ts) = map t_id ts" "map w_id (replace_wallet w' ws) = map w_id ws"
  by (auto simp: replace_tx_def replace_wallet_def)

lemma set_replace_tx: "distinct (map t_id ts) \<Longrightarrow> t \<in> set ts \<Longrightarrow> t_id t = t_id t' \<Longrightarrow>
    set (replace_tx t' ts) = insert t' (set ts - {t})"
  by (auto simp: replace_tx_def distinct_map inj_on_def image_iff)

lemma set_replace_wallet: "distinct (map w_id ws) \<Longrightarrow> w \<in> set ws \<Longrightarrow> w_id w = w_id w' \<Longrightarrow>
    set (replace_wallet w' ws) = insert w' (set ws - {w})"
  by (auto simp: replace_wallet_def distinct_map inj_on_def image_iff)

lemma id_unique:
  "distinct (map t_id ts) \<Longrightarrow> t \<in> set ts \<Longrightarrow> t' \<in> set ts \<Longrightarrow> t_id t = t_id t' \<Longrightarrow> t = t'"
  "distinct (map w_id ws) \<Longrightarrow> w \<in> set ws \<Longrightarrow> w' \<in> set ws \<Longrightarrow> w_id w = w_id w' \<Longrightarrow> w = w'"
  by (auto simp: distinct_map inj_on_def)

section \<open>Preservation\<close>

lemma clash_symI: "clash t t' \<Longrightarrow> clash t' t"
  unfolding clash_def by (elim disjE conjE) simp_all

lemma clash_sym: "clash t t' \<longleftrightarrow> clash t' t"
  by (blast intro: clash_symI)

lemma clash_identity:
  assumes "same_identity t t'" "\<not> processed_reversal t'" "\<not> clash t u"
  shows "\<not> clash t' u"
  using assms by (auto simp: clash_def same_identity_def)

lemma moved_direction_mono:
  "moved_direction ts t d \<Longrightarrow> set ts \<subseteq> set ts' \<Longrightarrow> moved_direction ts' t d"
  by (auto simp: moved_direction_def split: kind.splits)

lemma entry_for_mono: "entry_for ts t e \<Longrightarrow> set ts \<subseteq> set ts' \<Longrightarrow> entry_for ts' t e"
  by (auto simp: entry_for_def intro: moved_direction_mono)

lemma on_wallet_mono: "on_wallet ws t \<Longrightarrow> set ws \<subseteq> set ws' \<Longrightarrow> on_wallet ws' t"
  by (auto simp: on_wallet_def)

lemma entries_for_append: "(\<exists>t \<in> set ts. entry_for ts t e) \<Longrightarrow> \<exists>t \<in> set (ts @ us). entry_for (ts @ us) t e"
  using entry_for_mono [of ts _ e "ts @ us"] by fastforce

text \<open>A new operation that is not settled yet.\<close>

lemma book_add_tx:
  assumes "book_inv B" and "on_wallet (bk_wallets B) t" and "\<forall>u \<in> set (bk_txs B). \<not> clash t u"
    and "\<not> moves t" and "\<not> processed_reversal t"
  shows "book_inv (B\<lparr>bk_txs := bk_txs B @ [t]\<rparr>)"
proof -
  have i: "t_id t \<notin> t_id ` set (bk_txs B)" using assms(3) by (auto simp: clash_def)
  have T: "txs_ok (bk_wallets B) (bk_txs B @ [t])"
    using assms(1,2,3) i by (auto simp: book_inv_def txs_ok_def clash_sym)
  have E: "entries_ok (bk_wallets B) (bk_txs B @ [t]) (bk_entries B)"
    using assms(1,4) entries_for_append [of "bk_txs B" _ "[t]"]
    unfolding book_inv_def entries_ok_def by simp
  have R: "reversals_ok (bk_txs B @ [t])"
    using assms(1,5) by (auto simp: book_inv_def reversals_ok_def)
  show ?thesis using assms(1) T E R by (simp add: book_inv_def)
qed

text \<open>Open operations change without settling a movement.\<close>

definition harmless :: "wallet list \<Rightarrow> tx \<Rightarrow> tx \<Rightarrow> bool" where
  "harmless ws t t' \<longleftrightarrow> \<not> Terminal (t_status t) \<and> same_identity t t' \<and> on_wallet ws t'
     \<and> \<not> moves t' \<and> \<not> processed_reversal t'"

lemma moved_direction_map:
  assumes "\<forall>u \<in> set ts. t_id (f u) = t_id u \<and> t_kind (f u) = t_kind u" "moved_direction ts t d"
  shows "moved_direction (map f ts) t d"
  using assms by (auto simp: moved_direction_def split: kind.splits)

lemma book_map_txs:
  assumes inv: "book_inv B" and f: "\<forall>t \<in> set (bk_txs B). f t = t \<or> harmless (bk_wallets B) t (f t)"
  shows "book_inv (B\<lparr>bk_txs := map f (bk_txs B)\<rparr>)"
proof -
  let ?ts = "bk_txs B"
  have same: "same_identity t (f t)" if "t \<in> set ?ts" for t
    using f that by (auto simp: harmless_def)
  then have ids: "t_id (f t) = t_id t" "t_kind (f t) = t_kind t" if "t \<in> set ?ts" for t
    using that by (auto simp: same_identity_def)
  have mp: "map (t_id \<circ> f) ?ts = map t_id ?ts" using ids by simp
  have di: "distinct (map (t_id \<circ> f) ?ts)"
    unfolding mp using inv by (simp add: book_inv_def txs_ok_def)
  have fixed: "f t = t" if "t \<in> set ?ts" "Terminal (t_status t)" for t
    using f that by (auto simp: harmless_def)
  have cl: "\<not> clash (f t) (f u)" if "t \<in> set ?ts" "u \<in> set ?ts" "t_id t \<noteq> t_id u" for t u
  proof -
    have base: "\<not> clash t u" using inv that by (auto simp: book_inv_def txs_ok_def)
    have "\<not> clash (f t) u" if "\<not> clash t u"
      using f \<open>t \<in> set ?ts\<close> that clash_identity by (auto simp: harmless_def)
    with base have "\<not> clash u (f t)" by (simp add: clash_sym)
    then have "\<not> clash (f u) (f t)"
      using f \<open>u \<in> set ?ts\<close> clash_identity by (auto simp: harmless_def)
    then show ?thesis by (simp add: clash_sym)
  qed
  have T: "txs_ok (bk_wallets B) (map f ?ts)"
    using inv f cl ids di by (auto simp: book_inv_def txs_ok_def harmless_def)
  have mv: "moves (f t) \<longleftrightarrow> moves t" "processed_reversal (f t) \<longleftrightarrow> processed_reversal t"
    if "t \<in> set ?ts" for t
    using f that by (auto simp: harmless_def moves_def processed_reversal_def Terminal_def)
  have ef: "entry_for (map f ?ts) (f t) e" if "t \<in> set ?ts" "entry_for ?ts t e" for t e
  proof -
    have "f t = t" using that fixed by (auto simp: entry_for_def moves_def Terminal_def)
    then show ?thesis
      using that ids moved_direction_map [of ?ts f t] by (auto simp: entry_for_def)
  qed
  have E: "entries_ok (bk_wallets B) (map f ?ts) (bk_entries B)"
    using inv ef ids mv unfolding book_inv_def entries_ok_def by (auto; blast)
  have R: "reversals_ok (map f ?ts)"
  proof -
    have "\<exists>t0 \<in> set (map f ?ts). undoes (f t) t0" if "t \<in> set ?ts" "processed_reversal (f t)" for t
    proof -
      have "processed_reversal t" using that mv by simp
      then obtain t0 where t0: "t0 \<in> set ?ts" "undoes t t0"
        using inv \<open>t \<in> set ?ts\<close> unfolding book_inv_def reversals_ok_def by blast
      then have "f t0 = t0" using fixed by (auto simp: undoes_def Terminal_def)
      moreover have "f t = t"
        using \<open>processed_reversal t\<close> that fixed by (auto simp: processed_reversal_def Terminal_def)
      ultimately show ?thesis using t0 by force
    qed
    then show ?thesis by (auto simp: reversals_ok_def)
  qed
  show ?thesis using inv T E R by (simp add: book_inv_def)
qed

lemma book_update_tx:
  assumes inv: "book_inv B" and t: "t \<in> set (bk_txs B)" "t_id t = t_id t'"
    and h: "harmless (bk_wallets B) t t'"
  shows "book_inv (B\<lparr>bk_txs := replace_tx t' (bk_txs B)\<rparr>)"
proof -
  have "distinct (map t_id (bk_txs B))" using inv by (simp add: book_inv_def txs_ok_def)
  then have "u = t" if "u \<in> set (bk_txs B)" "t_id u = t_id t'" for u
    using that t id_unique(1) by metis
  then show ?thesis
    unfolding replace_tx_def using h by (intro book_map_txs [OF inv]) auto
qed

section \<open>A settled movement\<close>

lemma chain_currency:
  assumes "wallet_chain es w" "entry_inv e" "le_walletID e = w_id w"
    "le_balanceBefore e = w_balance w" "le_balanceAfter e = w_balance w'"
    "le_walletVersion e = w_version w'" "sint (w_version w') = sint (w_version w) + 1"
    "w_id w' = w_id w" "currency (w_balance w') = currency (w_balance w)"
  shows "wallet_chain (es @ [e]) w'"
  using assms by (auto simp: wallet_chain_def chain_snoc entry_inv_def)

lemma chain_other: "wallet_chain es w \<Longrightarrow> le_walletID e \<noteq> w_id w \<Longrightarrow> wallet_chain (es @ [e]) w"
  by (simp add: wallet_chain_def)

text \<open>
  The three updates of a movement at once: the wallet moved, its entry, the operation
  processed with the balance that results.
\<close>

definition settle_movement :: "wallet \<Rightarrow> tx \<Rightarrow> ledger_entry \<Rightarrow> book \<Rightarrow> book" where
  "settle_movement w' t' e B = \<lparr>bk_wallets = replace_wallet w' (bk_wallets B),
     bk_txs = replace_tx t' (bk_txs B), bk_entries = bk_entries B @ [e]\<rparr>"

definition movement_ok :: "book \<Rightarrow> tx \<Rightarrow> tx \<Rightarrow> direction \<Rightarrow> bool" where
  "movement_ok B t t' d \<longleftrightarrow> \<not> Terminal (t_status t) \<and> same_identity t t' \<and> moves t' \<and> direction_Valid d
     \<and> moved_direction (bk_txs B) t' d
     \<and> (processed_reversal t' \<longrightarrow> (\<exists>t0 \<in> set (bk_txs B). undoes t' t0))
     \<and> (\<forall>u \<in> set (bk_txs B). t_id u \<noteq> t_id t' \<longrightarrow> \<not> clash t' u)"

lemma book_settle_movement:
  assumes inv: "book_inv B" and t: "t \<in> set (bk_txs B)" and w: "w \<in> set (bk_wallets B)"
    and wt: "w_id w = t_walletID t"
    and mv: "wallet_move w d (t_id t) (t_amount t) eid now = Inr (e, w')"
    and ok: "movement_ok B t t' d" and st: "storable (currency (w_balance w')) t'"
    and rb: "t_resultBalance t' = w_balance w'" and eid: "eid \<notin> le_id ` set (bk_entries B)"
  shows "book_inv (settle_movement w' t' e B)"
proof -
  let ?ws = "bk_wallets B" and ?ts = "bk_txs B" and ?es = "bk_entries B"
  let ?ws' = "replace_wallet w' ?ws" and ?ts' = "replace_tx t' ?ts"
  note I = inv [unfolded book_inv_def]
  have d: "direction_Valid d" and same: "same_identity t t'" and nt: "\<not> Terminal (t_status t)"
    and mt': "moves t'" using ok by (simp_all add: movement_ok_def)
  have wi: "wallet_inv w" using I w by (auto simp: wallets_ok_def)
  note eff = wallet_move_inv [OF wi d mv]
  from mv have m: "movement_allowed w d (t_amount t)" "e = moved_entry w d (t_id t) (t_amount t) eid now"
    "w' = moved_wallet w d (t_amount t) now"
    by (auto simp: wallet_move_eq_Inr [OF wi d])
  have vs: "sint (w_version w') = sint (w_version w) + 1"
    using m by (simp add: moved_wallet_def movement_allowed_def version_succ_eq)
  have f: "le_id e = eid" "le_walletID e = w_id w" "le_transactionID e = t_id t" "le_direction e = d"
    "le_amount e = t_amount t" "le_balanceBefore e = w_balance w" "le_balanceAfter e = w_balance w'"
    "le_walletVersion e = w_version w'" "w_id w' = w_id w" "w_playerID w' = w_playerID w"
    "currency (w_balance w') = currency (w_balance w)"
    by (simp_all add: m moved_entry_def moved_wallet_def)
  have ids: "t_id t' = t_id t" "t_walletID t' = t_walletID t" "t_amount t' = t_amount t" "t_kind t' = t_kind t"
    using same by (simp_all add: same_identity_def)
  have nm: "\<not> moves t" "\<not> processed_reversal t" using nt by (auto simp: moves_def processed_reversal_def Terminal_def)
  have dt: "distinct (map t_id ?ts)" and dw: "distinct (map w_id ?ws)"
    using I by (simp_all add: txs_ok_def wallets_ok_def)
  have sT: "set ?ts' = insert t' (set ?ts - {t})" by (rule set_replace_tx [OF dt t]) (simp add: ids)
  have sW: "set ?ws' = insert w' (set ?ws - {w})" by (rule set_replace_wallet [OF dw w]) (simp add: f)
  have pc: "map (\<lambda>w. (w_playerID w, currency (w_balance w))) ?ws'
      = map (\<lambda>w. (w_playerID w, currency (w_balance w))) ?ws"
    unfolding replace_wallet_def using f id_unique(2) [OF dw w] by (auto simp: comp_def) metis+
  have W: "wallets_ok ?ws'" using I eff pc by (auto simp: wallets_ok_def sW)
  have ow: "on_wallet ?ws' u" if "on_wallet ?ws u" for u
    using that f unfolding on_wallet_def sW by (metis Diff_iff insertCI singletonD)
  have T: "txs_ok ?ws' ?ts'"
  proof -
    have "on_wallet ?ws' t'" using st f ids wt by (auto simp: on_wallet_def sW)
    moreover have "\<not> clash t' u" "\<not> clash u t'" if "u \<in> set ?ts" "t_id u \<noteq> t_id t'" for u
      using ok that by (auto simp: movement_ok_def clash_sym)
    ultimately show ?thesis using I ow by (auto simp: txs_ok_def sT)
  qed
  have sub: "moved_direction ?ts' u dd" if "moved_direction ?ts u dd" for u dd
  proof -
    have "t_kind t' = t_kind v" if "v \<in> set ?ts" "t_id v = t_id t" for v
      using id_unique(1) [OF dt t that(1)] that ids by simp
    with that ids show ?thesis unfolding replace_tx_def by (intro moved_direction_map) auto
  qed
  have noe: "le_transactionID x \<noteq> t_id t" if "x \<in> set ?es" for x
  proof
    assume x: "le_transactionID x = t_id t"
    obtain u where u: "u \<in> set ?ts" "entry_for ?ts u x" using I \<open>x \<in> set ?es\<close> by (auto simp: entries_ok_def)
    then have "u = t" using x id_unique(1) [OF dt _ t] by (auto simp: entry_for_def)
    with u nm show False by (auto simp: entry_for_def)
  qed
  have E: "entries_ok ?ws' ?ts' (?es @ [e])"
  proof -
    have "entry_for ?ts' t' e"
      using ok f ids wt mt' rb sub by (auto simp: entry_for_def movement_ok_def)
    moreover have "\<exists>u \<in> set ?ts'. entry_for ?ts' u x" if x: "x \<in> set ?es" for x
    proof -
      obtain u where u: "u \<in> set ?ts" "entry_for ?ts u x" using I x by (auto simp: entries_ok_def)
      then have "u \<noteq> t" using nm by (auto simp: entry_for_def)
      then show ?thesis using u sub by (intro bexI [of _ u]) (auto simp: sT entry_for_def)
    qed
    moreover have "wallet_chain (?es @ [e]) u" if "u \<in> set ?ws'" for u
    proof (cases "u = w'")
      case True
      have "wallet_chain ?es w" using I w by (simp add: entries_ok_def)
      then show ?thesis unfolding True
        by (rule chain_currency) (simp_all add: f vs eff)
    next
      case False
      with that have u: "u \<in> set ?ws" "u \<noteq> w" by (auto simp: sW)
      with dw w have "w_id u \<noteq> w_id w" using id_unique(2) by metis
      then show ?thesis using I u f by (intro chain_other) (auto simp: entries_ok_def)
    qed
    moreover have "distinct (map le_id (?es @ [e]))"
      using I eid f by (simp add: entries_ok_def)
    moreover have "distinct (map le_transactionID (?es @ [e]))"
    proof -
      have "t_id t \<notin> le_transactionID ` set ?es" by (rule notI, erule imageE) (use noe in metis)
      then show ?thesis using I f(3) by (simp add: entries_ok_def)
    qed
    ultimately show ?thesis
      using I eff f ids unfolding entries_ok_def by (auto simp: sT)
  qed
  have R: "reversals_ok ?ts'"
  proof -
    have keep: "\<exists>t0 \<in> set ?ts'. undoes u t0" if un: "\<exists>t0 \<in> set ?ts. undoes u t0" for u
    proof -
      obtain t0 where t0: "t0 \<in> set ?ts" "undoes u t0" using un by blast
      then have "t0 \<noteq> t" using nt by (auto simp: undoes_def Terminal_def)
      with t0 show ?thesis by (auto simp: sT)
    qed
    show ?thesis
      using I ok keep by (auto simp: reversals_ok_def movement_ok_def sT)
  qed
  show ?thesis using W T E R by (simp add: book_inv_def settle_movement_def)
qed

lemma entry_tx:
  assumes "book_inv B" and "x \<in> set (bk_entries B)"
  obtains u where "u \<in> set (bk_txs B)" "entry_for (bk_txs B) u x" "on_wallet (bk_wallets B) u"
  using assms by (auto simp: book_inv_def entries_ok_def txs_ok_def)

lemma no_entries_of_new:
  assumes "book_inv B" and "\<forall>u \<in> set (bk_wallets B). w_id u \<noteq> i"
  shows "entries_of i (bk_entries B) = []"
proof -
  have "le_walletID x \<noteq> i" if x: "x \<in> set (bk_entries B)" for x
    by (rule entry_tx [OF assms(1) x]) (use assms(2) in \<open>auto simp: entry_for_def on_wallet_def\<close>)
  then show ?thesis by (simp add: entries_of_def filter_empty_conv)
qed

section \<open>A new wallet\<close>

lemma book_add_wallet:
  assumes inv: "book_inv B" and w: "wallet_inv w" "sint (w_version w) = 1"
    and new: "\<forall>u \<in> set (bk_wallets B). w_id u \<noteq> w_id w
      \<and> (w_playerID u, currency (w_balance u)) \<noteq> (w_playerID w, currency (w_balance w))"
    and zero: "amount_of (w_balance w) = 0"
  shows "book_inv (B\<lparr>bk_wallets := bk_wallets B @ [w]\<rparr>)"
proof -
  let ?ws = "bk_wallets B @ [w]"
  note I = inv [unfolded book_inv_def]
  have none: "entries_of (w_id w) (bk_entries B) = []"
    using new by (intro no_entries_of_new [OF inv]) simp
  have "wallet_chain (bk_entries B) w" using none zero w by (simp add: wallet_chain_def)
  then have "entries_ok ?ws (bk_txs B) (bk_entries B)" using I by (auto simp: entries_ok_def)
  moreover have "wallets_ok ?ws" using I w new by (auto simp: wallets_ok_def)
  moreover have "txs_ok ?ws (bk_txs B)" using I by (auto simp: txs_ok_def intro: on_wallet_mono)
  ultimately show ?thesis using I by (simp add: book_inv_def)
qed

lemma book_add_funded:
  assumes inv: "book_inv B" and w: "wallet_inv w" "sint (w_version w) = 1"
    and new: "\<forall>u \<in> set (bk_wallets B). w_id u \<noteq> w_id w
      \<and> (w_playerID u, currency (w_balance u)) \<noteq> (w_playerID w, currency (w_balance w))"
    and t: "t_kind t = Opening" "t_status t = Processed" "t_walletID t = w_id w"
      "storable (currency (w_balance w)) t" "\<forall>u \<in> set (bk_txs B). \<not> clash t u"
    and e: "entry_inv e" "le_id e \<notin> le_id ` set (bk_entries B)" "le_walletID e = w_id w"
      "le_transactionID e = t_id t" "le_direction e = Credit" "le_amount e = t_amount t"
      "le_balanceAfter e = t_resultBalance t" "amount_of (le_balanceBefore e) = 0"
      "le_balanceAfter e = w_balance w" "le_walletVersion e = w_version w"
  shows "book_inv \<lparr>bk_wallets = bk_wallets B @ [w], bk_txs = bk_txs B @ [t],
    bk_entries = bk_entries B @ [e]\<rparr>"
proof -
  let ?ws = "bk_wallets B @ [w]" and ?ts = "bk_txs B @ [t]" and ?es = "bk_entries B @ [e]"
  note I = inv [unfolded book_inv_def]
  have on: "on_wallet (bk_wallets B) u" if "u \<in> set (bk_txs B)" for u
    using I that by (simp add: txs_ok_def)
  have none: "entries_of (w_id w) (bk_entries B) = []"
    using new by (intro no_entries_of_new [OF inv]) simp
  have nt: "t_id t \<notin> t_id ` set (bk_txs B)" using t(5) by (auto simp: clash_def)
  have mt: "moves t" "\<not> processed_reversal t"
    using t by (simp_all add: moves_def MovesBalance_def processed_reversal_def Reversal_def)
  have W: "wallets_ok ?ws" using I w new by (auto simp: wallets_ok_def)
  have T: "txs_ok ?ws ?ts"
    using I t nt on by (auto simp: txs_ok_def clash_sym on_wallet_def)
  have cw: "wallet_chain ?es u" if "u \<in> set ?ws" for u
  proof (cases "u = w")
    case True
    then show ?thesis
      using none w e by (simp add: wallet_chain_def entry_inv_def)
  next
    case False
    with that have "u \<in> set (bk_wallets B)" by auto
    then show ?thesis using I new e by (intro chain_other) (auto simp: entries_ok_def)
  qed
  have ef: "entry_for ?ts t e"
    using t e mt by (simp add: entry_for_def moved_direction_def)
  have nte: "le_transactionID x \<noteq> t_id t" if "x \<in> set (bk_entries B)" for x
    using entry_tx [OF inv that] nt by (metis entry_for_def image_eqI)
  have E: "entries_ok ?ws ?ts ?es"
  proof -
    have "\<exists>u \<in> set ?ts. entry_for ?ts u x" if "x \<in> set (bk_entries B)" for x
      using I that by (intro entries_for_append) (simp add: entries_ok_def)
    moreover have "\<exists>u \<in> set ?ts. entry_for ?ts u e" using ef by auto
    moreover have "distinct (map le_id ?es)" using I e(2) by (auto simp: entries_ok_def)
    moreover have "distinct (map le_transactionID ?es)" 
    proof -
      have "t_id t \<notin> le_transactionID ` set (bk_entries B)" by (rule notI, erule imageE) (use nte in metis)
      then show ?thesis using I e(4) by (simp add: entries_ok_def)
    qed
    moreover have "\<exists>x \<in> set ?es. le_transactionID x = t_id u" if "u \<in> set ?ts" "moves u" for u
      using I that e(4) by (auto simp: entries_ok_def)
    moreover have "\<forall>x \<in> set ?es. entry_inv x" using I e(1) by (auto simp: entries_ok_def)
    ultimately show ?thesis unfolding entries_ok_def using cw by auto
  qed
  have R: "reversals_ok ?ts" using I mt by (auto simp: reversals_ok_def)
  show ?thesis using W T E R by (simp add: book_inv_def)
qed

section \<open>What the invariant says\<close>

text \<open>The balance of a wallet is the sum of its entries, and its version counts them.\<close>

lemma book_balance:
  assumes "book_inv B" and "w \<in> set (bk_wallets B)"
  shows "amount_of (w_balance w) =
    sum_list (map (\<lambda>e. signed_amount (le_direction e) (le_amount e)) (entries_of (w_id w) (bk_entries B)))"
proof -
  have "wallet_chain (bk_entries B) w" "\<forall>e \<in> set (bk_entries B). entry_inv e"
    using assms by (auto simp: book_inv_def entries_ok_def)
  then show ?thesis
    using chain_sum [of 0 _ "entries_of (w_id w) (bk_entries B)"]
    by (fastforce simp: wallet_chain_def entries_of_def)
qed

end
