(* ===== verification/Repositories.thy ===== *)
theory Repositories
  imports Exec
begin

text \<open>
  \<open>internal/infrastructure/postgres/repositories\<close>: the five repositories, each method the
  statement it sends, the scan of what comes back, and the translation of the driver's errors
  (\<open>errors_sql.go\<close>). \<open>Registry\<close> binds them to one transaction: here they all act on the
  tables of the state.
\<close>

section \<open>Errors\<close>

text \<open>The errors of the contract keep the meaning; the message is dropped.\<close>

definition Classify :: "go_error \<Rightarrow> go_error" where
  "Classify err =
     (if errors_is err ECanceled \<or> errors_is err EDeadlineExceeded then err
      else case as_pg err of
        Some (code, _) \<Rightarrow>
          if code = PgSerializationFailure \<or> code = PgDeadlockDetected
            then EWrap [ERepo RepoTransient, ERetryable]
          else if code = PgLockNotAvailable then EWrap [ERepo RepoLockTimeout]
          else if code = PgQueryCanceled \<or> code = PgAdminShutdown \<or> code = PgCrashShutdown
              \<or> code = PgCannotConnectNow
            then EWrap [ERepo RepoTransient]
          else err
      | None \<Rightarrow> EWrap [ERepo RepoTransient, err])"

definition ClassifyCommit :: "go_error \<Rightarrow> go_error" where
  "ClassifyCommit err =
     (case as_pg err of
        Some _ \<Rightarrow> Classify err
      | None \<Rightarrow> EWrap [ERepo RepoCommitOutcomeUnknown, err])"

definition Retryable :: "go_error \<Rightarrow> bool" where
  "Retryable err \<longleftrightarrow> errors_is err ERetryable"

definition hasCode :: "go_error \<Rightarrow> pg_code \<Rightarrow> bool" where
  "hasCode err code \<longleftrightarrow> (case as_pg err of Some (k, _) \<Rightarrow> k = code | None \<Rightarrow> False)"

definition constraintIs :: "go_error \<Rightarrow> string \<Rightarrow> bool" where
  "constraintIs err name \<longleftrightarrow> (case as_pg err of Some (_, n) \<Rightarrow> n = name | None \<Rightarrow> False)"

text \<open>\<open>QueryRow\<close> takes the first row; no row is not an error for the callers here.\<close>

definition first_row :: "'r list \<Rightarrow> 'r option" where
  "first_row rows = (case rows of [] \<Rightarrow> None | r # _ \<Rightarrow> Some r)"

definition scan_one :: "('r \<Rightarrow> 'a result) \<Rightarrow> 'r list \<Rightarrow> 'a option M" where
  "scan_one scan rows =
     (case first_row rows of
        None \<Rightarrow> returnM None
      | Some r \<Rightarrow> liftR (bindR (scan r) (\<lambda>x. Inr (Some x))))"

text \<open>\<open>for rows.Next()\<close>: every row is scanned, the first that cannot be is the error.\<close>

fun scan_all :: "('r \<Rightarrow> 'a result) \<Rightarrow> 'r list \<Rightarrow> 'a list result" where
  "scan_all scan [] = Inr []"
| "scan_all scan (r # rs) =
     bindR (scan r) (\<lambda>x. bindR (scan_all scan rs) (\<lambda>xs. Inr (x # xs)))"

section \<open>Wallets\<close>

definition Wallets_Create :: "wallet \<Rightarrow> unit M" where
  "Wallets_Create opened =
     mapErrM (\<lambda>err. if hasCode err PgUniqueViolation \<and> constraintIs err ''wallets_player_currency_uq''
                then EWalletStore WalletAlreadyExists else Classify err)
       (statement (sql_insert_wallet (wallet_row_of opened)))"

definition Wallets_findOne :: "(wallet_row \<Rightarrow> bool) \<Rightarrow> wallet option M" where
  "Wallets_findOne P = bindM (mapErrM Classify (statement (sql_select_wallets P))) (scan_one scanWallet)"

definition Wallets_Find :: "uuid \<Rightarrow> wallet option M" where
  "Wallets_Find i = Wallets_findOne (\<lambda>r. wr_id r = i)"

definition Wallets_FindForUpdate :: "uuid \<Rightarrow> wallet M" where
  "Wallets_FindForUpdate i =
     bindM (Wallets_findOne (\<lambda>r. wr_id r = i)) (\<lambda>found.
     case found of None \<Rightarrow> throwM (EWalletStore WalletNotFound) | Some w \<Rightarrow> returnM w)"

definition Wallets_FindByPlayer :: "uuid \<Rightarrow> currency \<Rightarrow> wallet option M" where
  "Wallets_FindByPlayer playerID cur =
     Wallets_findOne (\<lambda>r. wr_player_id r = playerID \<and> wr_currency r = currency_String cur)"

definition Wallets_Update :: "wallet \<Rightarrow> i64 \<Rightarrow> unit M" where
  "Wallets_Update updated expectedVersion =
     bindM (mapErrM Classify (statement (sql_update_wallet (minor (w_balance updated))
       (w_version updated) (w_updatedAt updated) (w_id updated) expectedVersion))) (\<lambda>n.
     if n = 0 then throwM (EWalletStore WalletVersionChanged) else returnM ())"

section \<open>Ledger\<close>

definition Ledger_Append :: "ledger_entry \<Rightarrow> unit M" where
  "Ledger_Append entry = mapErrM Classify (statement (sql_insert_entry (entry_row_of entry)))"

definition Ledger_ListAfterVersion :: "uuid \<Rightarrow> i64 \<Rightarrow> nat \<Rightarrow> ledger_entry list M" where
  "Ledger_ListAfterVersion walletID afterVersion limit =
     bindM (mapErrM Classify (statement (sql_list_after_version walletID afterVersion limit))) (\<lambda>rows.
     liftR (scan_all scanLedgerEntry rows))"

record ledger_totals =
  lt_balance :: money
  lt_entries :: i64

definition Ledger_Totals :: "uuid \<Rightarrow> currency \<Rightarrow> ledger_totals M" where
  "Ledger_Totals walletID cur =
     bindM (mapErrM Classify (statement (sql_totals walletID))) (\<lambda>(balanceMinor, entries).
     bindM (liftR (FromMinor balanceMinor cur)) (\<lambda>balance.
     returnM \<lparr>lt_balance = balance, lt_entries = entries\<rparr>))"

section \<open>Transactions\<close>

definition Transactions_Insert :: "tx \<Rightarrow> bool M" where
  "Transactions_Insert operation =
     mapErrM (\<lambda>err. if hasCode err PgForeignKeyViolation
                  \<and> constraintIs err ''wager_transactions_wallet_id_fkey''
                then EWalletStore WalletNotFound else Classify err)
       (statement (sql_insert_transaction (tx_row_of operation)))"

definition Transactions_Update :: "tx \<Rightarrow> unit M" where
  "Transactions_Update operation =
     bindM (mapErrM Classify (statement (sql_update_transaction (tx_row_of operation)))) (\<lambda>n.
     if n = 0 then throwM (EWagering WageringNotFound) else returnM ())"

definition Transactions_findOne :: "(tx_row \<Rightarrow> bool) \<Rightarrow> tx option M" where
  "Transactions_findOne P =
     bindM (mapErrM Classify (statement (sql_select_transactions P))) (scan_one scanTransaction)"

definition Transactions_FindByID :: "uuid \<Rightarrow> tx option M" where
  "Transactions_FindByID i = Transactions_findOne (\<lambda>t. tr_id t = i)"

definition Transactions_FindByIDForUpdate :: "uuid \<Rightarrow> tx option M" where
  "Transactions_FindByIDForUpdate i = Transactions_findOne (\<lambda>t. tr_id t = i)"

definition Transactions_CountPending :: "i64 M" where
  "Transactions_CountPending =
     bindM (mapErrM Classify (statement sql_count_pending)) (\<lambda>n. returnM (of_nat n))"

definition Transactions_FindByIdempotencyKey :: "string \<Rightarrow> string \<Rightarrow> tx option M" where
  "Transactions_FindByIdempotencyKey providerID key =
     Transactions_findOne (\<lambda>t. tr_provider_id t = Some providerID \<and> tr_idempotency_key t = Some key)"

definition Transactions_FindByExternalID :: "string \<Rightarrow> string \<Rightarrow> tx option M" where
  "Transactions_FindByExternalID providerID externalTransactionID =
     Transactions_findOne (\<lambda>t. tr_provider_id t = Some providerID
       \<and> tr_external_transaction_id t = Some externalTransactionID)"

definition Transactions_ClaimDuePending :: "time \<Rightarrow> nat \<Rightarrow> tx list M" where
  "Transactions_ClaimDuePending now limit =
     bindM (observe e_locked) (\<lambda>locked.
     bindM (mapErrM Classify (statement (sql_claim_due_pending locked now limit))) (\<lambda>rows.
     liftR (scan_all scanTransaction rows)))"

definition Transactions_WakeUpWaitingFor :: "string \<Rightarrow> string \<Rightarrow> time \<Rightarrow> i64 M" where
  "Transactions_WakeUpWaitingFor providerID externalTransactionID now =
     (if providerID = [] \<or> externalTransactionID = [] then returnM 0
      else bindM (observe e_locked) (\<lambda>locked.
        bindM (mapErrM Classify (statement (sql_wake_up locked providerID externalTransactionID now)))
          (\<lambda>n. returnM (of_nat n))))"

definition Transactions_HasSuccessfulReversal :: "uuid \<Rightarrow> bool M" where
  "Transactions_HasSuccessfulReversal ref =
     mapErrM Classify (statement (sql_has_successful_reversal ref))"

section \<open>Inbox\<close>

definition Inbox_Insert :: "inbox_message \<Rightarrow> bool M" where
  "Inbox_Insert message = mapErrM Classify (statement (sql_insert_inbox (inbox_row_of message)))"

definition Inbox_Find :: "string \<Rightarrow> string \<Rightarrow> inbox_message option M" where
  "Inbox_Find consumerName messageID =
     bindM (mapErrM Classify (statement (sql_select_inbox consumerName messageID)))
       (scan_one scanInboxMessage)"

definition Inbox_Complete :: "string \<Rightarrow> string \<Rightarrow> inbox_outcome \<Rightarrow> uuid \<Rightarrow> time \<Rightarrow> unit M" where
  "Inbox_Complete consumerName messageID out transactionID completedAt =
     bindM (mapErrM Classify (statement (sql_complete_inbox consumerName messageID
       (outcome_String out) (nullUUID transactionID) completedAt))) (\<lambda>n.
     if n = 0 then throwM (EMessaging MessagingMissingField) else returnM ())"

section \<open>Outbox\<close>

text \<open>The payload column is \<open>JSONB\<close>: what is read back is the server's text of the same value.\<close>

definition Outbox_Append :: "outbox_event \<Rightarrow> unit M" where
  "Outbox_Append e =
     bindM (askM e_jsonb) (\<lambda>jsonb.
     mapErrM Classify (statement (sql_insert_outbox
       (outbox_row_of e\<lparr>xr_payload := jsonb (oe_payload e)\<rparr>))))"

definition Outbox_Claim :: "string \<Rightarrow> time \<Rightarrow> duration \<Rightarrow> nat \<Rightarrow> outbox_event list M" where
  "Outbox_Claim owner now lease limit =
     bindM (observe e_locked) (\<lambda>locked. bindM (observe e_arrange) (\<lambda>arrange.
     bindM (mapErrM Classify (statement (sql_claim_outbox locked arrange owner (now + lease) now limit)))
       (\<lambda>rows. liftR (scan_all scanOutboxEvent rows))))"

definition truncate_text :: "string \<Rightarrow> nat \<Rightarrow> string" where
  "truncate_text s limit = (if length s \<le> limit then s else take limit s)"

definition Outbox_MarkPublished :: "receipt \<Rightarrow> time \<Rightarrow> bool M" where
  "Outbox_MarkPublished r publishedAt =
     bindM (observe e_server_clock) (\<lambda>clock.
     bindM (mapErrM Classify (statement (sql_mark_published r clock publishedAt))) (\<lambda>n.
     returnM (0 < n)))"

definition Outbox_MarkFailed :: "receipt \<Rightarrow> string \<Rightarrow> time \<Rightarrow> bool M" where
  "Outbox_MarkFailed r reason nextAttemptAt =
     bindM (observe e_server_clock) (\<lambda>clock.
     bindM (mapErrM Classify (statement (sql_mark_failed r clock (truncate_text reason 1000) nextAttemptAt)))
       (\<lambda>n. returnM (0 < n)))"

definition Outbox_PendingStats :: "time \<Rightarrow> pending_stats M" where
  "Outbox_PendingStats now =
     bindM (mapErrM Classify (statement (sql_pending_stats now))) (\<lambda>(pending, oldestAge).
     bindM (askM e_round_age) (\<lambda>round_age.
     returnM \<lparr>ps_pending = of_nat pending,
       ps_oldestPendingAge = (if oldestAge < 0 then 0 else round_age oldestAge)\<rparr>))"

end
