(* ===== verification/UnitOfWork.thy ===== *)
theory UnitOfWork
  imports Repositories
begin

text \<open>
  \<open>internal/infrastructure/postgres/unit_of_work.go\<close>: begin, set the timeouts, run the
  closure, commit or roll back, and replay the attempt when the server says it may be.
  The closure returns a value here where the Go closure assigns captured variables.

  The contract is the locale \<open>atomic_runner\<close>: all or nothing, except that a commit whose
  answer was lost may be either. \<open>Do\<close> and \<open>Read\<close> are its interpretations; the use cases'
  invariants are carried through it.
\<close>

record uow_settings =
  us_lockTimeout :: duration
  us_statementTimeout :: duration
  us_retryAttempts :: int

definition NewUnitOfWork :: "uow_settings \<Rightarrow> uow_settings" where
  "NewUnitOfWork settings =
     (if us_retryAttempts settings < 1 then settings\<lparr>us_retryAttempts := 1\<rparr> else settings)"

text \<open>\<open>pgx.ErrTxClosed\<close>: the transaction was already over.\<close>

definition ErrTxClosed :: go_error where
  "ErrTxClosed = EDriver ''tx is closed''"

text \<open>A statement that touches no table: \<open>BEGIN\<close>, \<open>SET LOCAL\<close>.\<close>

definition control_statement :: "unit M" where
  "control_statement = statement (\<lambda>d. Inr ((), d))"

definition applyTimeouts :: "bool \<Rightarrow> unit M" where
  "applyTimeouts readOnly =
     bindM control_statement (\<lambda>_. if readOnly then returnM () else control_statement)"

text \<open>The deferred function, when the attempt did not commit. The rollback restores the tables.\<close>

definition uow_rollback :: "db \<Rightarrow> go_error \<Rightarrow> 'a M" where
  "uow_rollback saved err = (\<lambda>c s.
     let rollbackErr = e_rollback c (st_tick s);
         s' = s\<lparr>st_tick := st_tick s + 1, st_db := saved\<rparr> in
     if err = EPanic then
       (case rollbackErr of
          Some f \<Rightarrow> if \<not> errors_is (fault_error f) ErrTxClosed then (Inl (EWrap [ERepo RepoTransient]), s')
                    else (Inl (ERepo RepoRecoveredPanic), s')
        | None \<Rightarrow> (Inl (ERepo RepoRecoveredPanic), s'))
     else (Inl err, s'))"

definition uow_commit :: "db \<Rightarrow> 'a \<Rightarrow> 'a M" where
  "uow_commit saved x = (\<lambda>c s.
     let s' = s\<lparr>st_tick := st_tick s + 1\<rparr> in
     case e_commit c (st_tick s) of
       CommitOk \<Rightarrow> (Inr x, s')
     | CommitError f applied \<Rightarrow>
         (Inl (ClassifyCommit (fault_error f)), if applied then s' else s'\<lparr>st_db := saved\<rparr>)
     | CommitPanic applied \<Rightarrow>
         (Inl (ERepo RepoCommitOutcomeUnknown), if applied then s' else s'\<lparr>st_db := saved\<rparr>))"

definition uow_run :: "bool \<Rightarrow> 'a M \<Rightarrow> 'a M" where
  "uow_run readOnly fn =
     bindM (mapErrM Classify control_statement) (\<lambda>_. \<lambda>c s.
     case bindM (mapErrM Classify (applyTimeouts readOnly)) (\<lambda>_. fn) c s of
       (Inl e, s') \<Rightarrow> uow_rollback (st_db s) e c s'
     | (Inr x, s') \<Rightarrow> uow_commit (st_db s) x c s')"

definition pause :: "unit M" where
  "pause = bindM (observe e_done) (\<lambda>x. case x of None \<Rightarrow> returnM () | Some e \<Rightarrow> throwM e)"

text \<open>The loop of \<open>Do\<close>: the argument is how many attempts are left after this one.\<close>

fun uow_attempts :: "nat \<Rightarrow> 'a M \<Rightarrow> 'a M" where
  "uow_attempts 0 fn = uow_run False fn"
| "uow_attempts (Suc k) fn =
     catchM (uow_run False fn) (\<lambda>e.
       if \<not> Retryable e then throwM e else bindM pause (\<lambda>_. uow_attempts k fn))"

definition uow_Do :: "uow_settings \<Rightarrow> 'a M \<Rightarrow> 'a M" where
  "uow_Do u fn = uow_attempts (nat (us_retryAttempts (NewUnitOfWork u) - 1)) fn"

definition uow_Read :: "uow_settings \<Rightarrow> 'a M \<Rightarrow> 'a M" where
  "uow_Read u fn = uow_run True fn"

section \<open>The contract\<close>

text \<open>
  An error the server itself reports for \<open>COMMIT\<close> proves that the transaction aborted: the
  documented behaviour of PostgreSQL that \<open>ClassifyCommit\<close> relies on.
\<close>

definition honest_commit :: "env \<Rightarrow> bool" where
  "honest_commit c \<longleftrightarrow> (\<forall>n f. e_commit c n = CommitError f True \<longrightarrow> as_pg (fault_error f) = None)"

text \<open>The closure ran to its end from these tables and left those.\<close>

definition ran :: "'a M \<Rightarrow> env \<Rightarrow> db \<Rightarrow> 'a \<Rightarrow> db \<Rightarrow> bool" where
  "ran fn c d x d' \<longleftrightarrow> (\<exists>s s'. st_db s = d \<and> fn c s = (Inr x, s') \<and> st_db s' = d')"

definition atomic_outcome :: "'a M \<Rightarrow> env \<Rightarrow> db \<Rightarrow> 'a result \<Rightarrow> db \<Rightarrow> bool" where
  "atomic_outcome fn c d r d' \<longleftrightarrow>
     (case r of
        Inr x \<Rightarrow> ran fn c d x d'
      | Inl e \<Rightarrow> d' = d \<or> errors_is e (ERepo RepoCommitOutcomeUnknown) \<and> (\<exists>x. ran fn c d x d'))"

locale atomic_runner =
  fixes run :: "'a M \<Rightarrow> 'a M"
  assumes atomic: "honest_commit c \<Longrightarrow> run fn c s = (r, s') \<Longrightarrow> atomic_outcome fn c (st_db s) r (st_db s')"
begin

text \<open>What every run of the closure guarantees of the tables, the unit of work guarantees.\<close>

lemma success_ran: "honest_commit c \<Longrightarrow> run fn c s = (Inr x, s') \<Longrightarrow> ran fn c (st_db s) x (st_db s')"
  using atomic [of c fn s "Inr x" s'] by (simp add: atomic_outcome_def)

lemma error_unchanged:
  "honest_commit c \<Longrightarrow> run fn c s = (Inl e, s') \<Longrightarrow> \<not> errors_is e (ERepo RepoCommitOutcomeUnknown)
    \<Longrightarrow> st_db s' = st_db s"
  using atomic [of c fn s "Inl e" s'] by (auto simp: atomic_outcome_def)

lemma relation_kept:
  assumes "honest_commit c" and "run fn c s = (r, s')"
    and "\<And>s1. st_db s1 = st_db s \<Longrightarrow> wpM fn c s1 (\<lambda>_ s2. R (st_db s2)) (\<lambda>_ _. True)"
    and "R (st_db s)"
  shows "R (st_db s')"
proof -
  have k: "R d'" if "ran fn c (st_db s) x d'" for x d'
    using that assms(3) by (auto simp: ran_def dest: result_of_wpM(1))
  show ?thesis
    using atomic [OF assms(1,2)] k assms(4) by (auto simp: atomic_outcome_def split: sum.splits)
qed

lemma wp_run_safe:
  assumes "honest_commit c" and "R (st_db s)"
    and "\<And>s1. st_db s1 = st_db s \<Longrightarrow> wpM fn c s1 (\<lambda>x s2. R (st_db s2) \<and> P x (st_db s2)) (\<lambda>_ _. True)"
  shows "wpM (run fn) c s (\<lambda>x s'. R (st_db s') \<and> P x (st_db s')) (\<lambda>_ s'. R (st_db s'))"
proof -
  have k: "R d' \<and> P x d'" if "ran fn c (st_db s) x d'" for x d'
    using that assms(3) by (auto simp: ran_def dest: result_of_wpM(1))
  show ?thesis
    unfolding wpM_iff_run
  proof (intro conjI allI impI)
    fix x s' assume "run fn c s = (Inr x, s')"
    from k [OF success_ran [OF assms(1) this]] show "R (st_db s')" "P x (st_db s')" by simp_all
  next
    fix e s' assume "run fn c s = (Inl e, s')"
    from atomic [OF assms(1) this] show "R (st_db s')"
      using assms(2) k by (auto simp: atomic_outcome_def)
  qed
qed

end

section \<open>The model keeps the contract\<close>

lemma wp_uow_run:
  "wpM (uow_run ro fn) c s Q E \<longleftrightarrow>
     wpM (mapErrM Classify control_statement) c s (\<lambda>_ s1.
       wpM (bindM (mapErrM Classify (applyTimeouts ro)) (\<lambda>_. fn)) c s1
         (\<lambda>x s2. wpM (uow_commit (st_db s1) x) c s2 Q E)
         (\<lambda>e s2. wpM (uow_rollback (st_db s1) e) c s2 Q E)) E"
proof -
  have "wpM (\<lambda>c s. case m c s of (Inl e, s') \<Rightarrow> uow_rollback (st_db s) e c s'
        | (Inr x, s') \<Rightarrow> uow_commit (st_db s) x c s') c s Q E
    \<longleftrightarrow> wpM m c s (\<lambda>x s2. wpM (uow_commit (st_db s) x) c s2 Q E)
          (\<lambda>e s2. wpM (uow_rollback (st_db s) e) c s2 Q E)" for m :: "'a M" and s
    by (cases "m c s") (simp add: wpM_def split: sum.split)
  then show ?thesis by (simp only: uow_run_def wp_bindM)
qed

lemma wp_control [wp]:
  "wpM control_statement c s Q E \<longleftrightarrow>
     (case e_fault c (st_tick s) of
        Some f \<Rightarrow> E (fault_error f) (s\<lparr>st_tick := st_tick s + 1\<rparr>)
      | None \<Rightarrow> Q () (s\<lparr>st_tick := st_tick s + 1\<rparr>))"
  by (cases s) (simp add: control_statement_def wp split: option.split)

lemma wp_rollback:
  assumes "\<And>e' t. E e' (s\<lparr>st_tick := t, st_db := saved\<rparr>)"
  shows "wpM (uow_rollback saved e) c s Q E"
  using assms by (simp add: wpM_def uow_rollback_def Let_def split: option.splits)

lemma errors_is_unknown: "as_pg e = None \<Longrightarrow> errors_is (ClassifyCommit e) (ERepo RepoCommitOutcomeUnknown)"
  by (simp add: ClassifyCommit_def)

lemma wp_commit:
  assumes "honest_commit c" and "\<And>t. Q x (s\<lparr>st_tick := t\<rparr>)" and "\<And>e t. E e (s\<lparr>st_tick := t, st_db := saved\<rparr>)"
    and "\<And>e t. errors_is e (ERepo RepoCommitOutcomeUnknown) \<Longrightarrow> \<not> Retryable e \<Longrightarrow> E e (s\<lparr>st_tick := t\<rparr>)"
  shows "wpM (uow_commit saved x) c s Q E"
proof -
  have p: "as_pg (fault_error f) = None" if "e_commit c n = CommitError f True" for n f
    using that assms(1) by (auto simp: honest_commit_def)
  have nr: "\<not> Retryable (ClassifyCommit (fault_error f))" if "as_pg (fault_error f) = None" for f
    using that by (cases f) (simp_all add: ClassifyCommit_def Retryable_def)
  show ?thesis
    using assms(2,3) p nr
    by (auto simp: wpM_def uow_commit_def Let_def Retryable_def errors_is_unknown
        intro!: assms(4) split: commit_report.splits)
qed

text \<open>
  One attempt: all or nothing, and an error that may be retried left nothing.
\<close>

lemma wp_uow_run_atomic:
  assumes "honest_commit c"
  shows "wpM (uow_run ro fn) c s (\<lambda>x s'. ran fn c (st_db s) x (st_db s'))
    (\<lambda>e s'. st_db s' = st_db s \<or> errors_is e (ERepo RepoCommitOutcomeUnknown) \<and> \<not> Retryable e
        \<and> (\<exists>x. ran fn c (st_db s) x (st_db s')))"
proof -
  have fn: "wpM fn c s1 (\<lambda>x s2. ran fn c (st_db s1) x (st_db s2)) (\<lambda>_ _. True)" for s1
    by (auto simp: wpM_def ran_def split: prod.splits sum.splits)
  have c: "wpM (uow_commit (st_db s) x) c s2 (\<lambda>x s'. ran fn c (st_db s) x (st_db s'))
    (\<lambda>e s'. st_db s' = st_db s \<or> errors_is e (ERepo RepoCommitOutcomeUnknown) \<and> \<not> Retryable e
        \<and> (\<exists>x. ran fn c (st_db s) x (st_db s')))" if "ran fn c (st_db s) x (st_db s2)" for x s2
    using that by (intro wp_commit [OF assms]) auto
  have r: "wpM (uow_rollback (st_db s) e) c s2 Q
    (\<lambda>e s'. st_db s' = st_db s \<or> X e s')" for e s2 Q X
    by (rule wp_rollback) simp
  have body: "wpM fn c s1 (\<lambda>x s2. wpM (uow_commit (st_db s) x) c s2
        (\<lambda>x s'. ran fn c (st_db s) x (st_db s'))
        (\<lambda>e s'. st_db s' = st_db s \<or> errors_is e (ERepo RepoCommitOutcomeUnknown) \<and> \<not> Retryable e
          \<and> (\<exists>x. ran fn c (st_db s) x (st_db s'))))
      (\<lambda>_ _. True)" if "st_db s1 = st_db s" for s1
    by (rule wpM_mono [OF fn]) (simp_all add: that c r)
  show ?thesis
    unfolding wp_uow_run by (cases ro) (simp_all add: wp applyTimeouts_def body r split: option.splits)
qed

lemma wp_pause: "(\<And>t. Q () (s\<lparr>st_tick := t\<rparr>)) \<Longrightarrow> (\<And>e t. E e (s\<lparr>st_tick := t\<rparr>)) \<Longrightarrow> wpM pause c s Q E"
  by (simp add: pause_def wp split: option.splits)

lemma wp_uow_attempts_atomic:
  assumes "honest_commit c"
  shows "wpM (uow_attempts k fn) c s (\<lambda>x s'. ran fn c (st_db s) x (st_db s'))
    (\<lambda>e s'. st_db s' = st_db s \<or> errors_is e (ERepo RepoCommitOutcomeUnknown)
        \<and> (\<exists>x. ran fn c (st_db s) x (st_db s')))"
proof (induction k arbitrary: s)
  case 0
  show ?case
    by (simp, rule wpM_mono [OF wp_uow_run_atomic [OF assms]]) auto
next
  case (Suc k)
  have again: "wpM pause c s' (\<lambda>_ s'. wpM (uow_attempts k fn) c s'
        (\<lambda>x s'. ran fn c (st_db s) x (st_db s'))
        (\<lambda>e s'. st_db s' = st_db s \<or> errors_is e (ERepo RepoCommitOutcomeUnknown)
          \<and> (\<exists>x. ran fn c (st_db s) x (st_db s'))))
      (\<lambda>e s'. st_db s' = st_db s \<or> errors_is e (ERepo RepoCommitOutcomeUnknown)
        \<and> (\<exists>x. ran fn c (st_db s) x (st_db s')))" if "st_db s' = st_db s" for s'
  proof (rule wp_pause)
    show "wpM (uow_attempts k fn) c (s'\<lparr>st_tick := t\<rparr>)
      (\<lambda>x s'. ran fn c (st_db s) x (st_db s'))
      (\<lambda>e s'. st_db s' = st_db s \<or> errors_is e (ERepo RepoCommitOutcomeUnknown)
        \<and> (\<exists>x. ran fn c (st_db s) x (st_db s')))" for t
      using Suc [of "s'\<lparr>st_tick := t\<rparr>"] that by simp
  qed (simp add: that)
  show ?case
    by (simp add: wp, rule wpM_mono [OF wp_uow_run_atomic [OF assms]]) (auto simp: again)
qed

lemma atomic_outcome_of_wp:
  assumes "wpM m c s (\<lambda>x s'. ran fn c (st_db s) x (st_db s'))
    (\<lambda>e s'. st_db s' = st_db s \<or> errors_is e (ERepo RepoCommitOutcomeUnknown)
        \<and> (\<exists>x. ran fn c (st_db s) x (st_db s')))"
    and "m c s = (r, s')"
  shows "atomic_outcome fn c (st_db s) r (st_db s')"
  using assms by (auto simp: wpM_def atomic_outcome_def split: sum.splits)

interpretation uow_do: atomic_runner "uow_Do u"
proof
  fix c fn s r s' assume "honest_commit c" "uow_Do u fn c s = (r, s' :: st)"
  then show "atomic_outcome fn c (st_db s) r (st_db s')"
    unfolding uow_Do_def by (rule atomic_outcome_of_wp [OF wp_uow_attempts_atomic])
qed

interpretation uow_read: atomic_runner "uow_Read u"
proof
  fix c fn s r s' assume "honest_commit c" "uow_Read u fn c s = (r, s' :: st)"
  moreover have "wpM (uow_Read u fn) c s (\<lambda>x s'. ran fn c (st_db s) x (st_db s'))
      (\<lambda>e s'. st_db s' = st_db s \<or> errors_is e (ERepo RepoCommitOutcomeUnknown)
        \<and> (\<exists>x. ran fn c (st_db s) x (st_db s')))" if "honest_commit c"
    unfolding uow_Read_def by (rule wpM_mono [OF wp_uow_run_atomic [OF that]]) auto
  ultimately show "atomic_outcome fn c (st_db s) r (st_db s')"
    by (auto intro: atomic_outcome_of_wp)
qed

section \<open>Properties\<close>

text \<open>A surrounding where nothing fails: distinct identifiers, a clock that stands still.\<close>

definition quiet_env :: env where
  "quiet_env = \<lparr>e_uuid_text = (\<lambda>_. ''u''), e_uuid_parse = (\<lambda>_. None), e_validate = (\<lambda>_. []),
     e_jsonb = (\<lambda>t. t), e_new_id = (\<lambda>n. Some (of_nat (n + 100))), e_now = (\<lambda>n. 1000),
     e_fault = (\<lambda>_. None), e_locked = (\<lambda>_ _. False), e_arrange = (\<lambda>_ rs. rs),
     e_server_clock = (\<lambda>_. 1000), e_round_age = (\<lambda>d. d), e_commit = (\<lambda>_. CommitOk),
     e_rollback = (\<lambda>_. None), e_done = (\<lambda>_. None), e_broker = (\<lambda>_. None)\<rparr>"

text \<open>The same surrounding, where every commit is applied and its answer is lost.\<close>

definition lost_answer_env :: env where
  "lost_answer_env = quiet_env\<lparr>e_commit := (\<lambda>_. CommitError (FaultDriver ''conn'') True)\<rparr>"

definition sample_uow :: uow_settings where
  "sample_uow = \<lparr>us_lockTimeout = 3, us_statementTimeout = 5, us_retryAttempts = 3\<rparr>"

definition empty_st :: st where
  "empty_st = \<lparr>st_db = \<lparr>db_wallets = [], db_transactions = [], db_entries = [], db_inbox = [], db_outbox = []\<rparr>,
     st_tick = 0, st_broker = [], st_claimedID = 0\<rparr>"

lemma honest_samples [simp]: "honest_commit quiet_env" "honest_commit lost_answer_env"
  by (simp_all add: honest_commit_def quiet_env_def lost_answer_env_def)

text \<open>
  C13. A unit of work is all or nothing. Whatever the closure does and whatever fails - a
  statement, the commit, its answer, a panic - and however often it is retried: on success the
  tables are those one complete run of the closure left; on an error they are as before, unless
  the error says that the outcome of the commit is unknown, and then they are as before or as
  one complete run left them.
\<close>

theorem unit_of_work_atomic:
  assumes "honest_commit c"
  shows "case uow_Do u fn c s of
      (Inr x, s') \<Rightarrow> ran fn c (st_db s) x (st_db s')
    | (Inl e, s') \<Rightarrow> st_db s' = st_db s
        \<or> errors_is e (ERepo RepoCommitOutcomeUnknown) \<and> (\<exists>x. ran fn c (st_db s) x (st_db s'))"
  using uow_do.atomic [OF assms, of u fn s] unfolding atomic_outcome_def
  by (cases "uow_Do u fn c s") (auto split: sum.splits)

theorem unit_of_work_atomic_witness:
  "honest_commit lost_answer_env \<and>
   (case uow_Do sample_uow (returnM ()) lost_answer_env empty_st of
      (Inr x, s') \<Rightarrow> ran (returnM ()) lost_answer_env (st_db empty_st) x (st_db s')
    | (Inl e, s') \<Rightarrow> st_db s' = st_db empty_st
        \<or> errors_is e (ERepo RepoCommitOutcomeUnknown)
          \<and> (\<exists>x. ran (returnM ()) lost_answer_env (st_db empty_st) x (st_db s')))"
  using unit_of_work_atomic [OF honest_samples(2)] by simp

text \<open>
  An attempt is repeated only after an error that proves that nothing was committed: an
  attempt whose error may be retried left the tables as they were.
\<close>

theorem retried_only_if_nothing_done:
  assumes "honest_commit c" and "uow_run False fn c s = (Inl e, s')" and "Retryable e"
  shows "st_db s' = st_db s"
  using wp_uow_run_atomic [OF assms(1), of False fn s] assms(2,3) by (auto simp: wpM_def)

theorem retried_only_if_nothing_done_witness:
  "honest_commit quiet_env
    \<and> fst (uow_run False (throwM (EWrap [ERepo RepoTransient, ERetryable]) :: unit M) quiet_env empty_st) = Inl (EWrap [ERepo RepoTransient, ERetryable])
    \<and> st_db (snd (uow_run False (throwM (EWrap [ERepo RepoTransient, ERetryable]) :: unit M) quiet_env empty_st)) = st_db empty_st"
proof -
  obtain s' where r: "uow_run False (throwM (EWrap [ERepo RepoTransient, ERetryable]) :: unit M) quiet_env empty_st
      = (Inl (EWrap [ERepo RepoTransient, ERetryable]), s')"
    by (simp add: uow_run_def control_statement_def applyTimeouts_def statement_def mapErrM_def bindM_def
        throwM_def returnM_def uow_rollback_def quiet_env_def Let_def)
  from retried_only_if_nothing_done [OF honest_samples(1) this] r show ?thesis
    by (simp add: Retryable_def)
qed

end
