(* ===== verification/BookSql.thy ===== *)
theory BookSql
  imports Book UnitOfWork
begin

text \<open>
  The repositories refine the abstract book: each method, run on tables that represent a book,
  answers with the values the book holds and leaves tables that represent the book after the
  abstract operation. The rules have the form of weakest preconditions and let a use case be
  followed step by step on the book.
\<close>

section \<open>Rows of values\<close>

lemma filter_unique: "distinct (map f xs) \<Longrightarrow> x \<in> set xs \<Longrightarrow> filter (\<lambda>y. f y = f x) xs = [x]"
proof (induction xs)
  case (Cons y ys)
  then show ?case
  proof (cases "x = y")
    case True
    with Cons.prems(1) have "f z \<noteq> f x" if "z \<in> set ys" for z using that by (metis distinct.simps(2) image_eqI list.set_map list.simps(9))
    with True show ?thesis by (simp add: filter_empty_conv)
  next
    case False
    with Cons show ?thesis by auto
  qed
qed simp

lemma wallet_row_sel [simp]:
  "wr_id (wallet_row_of w) = w_id w" "wr_player_id (wallet_row_of w) = w_playerID w"
  "wr_currency (wallet_row_of w) = currency_String (currency (w_balance w))"
  "wr_balance_minor (wallet_row_of w) = minor (w_balance w)"
  "wr_version (wallet_row_of w) = w_version w" "wr_created_at (wallet_row_of w) = w_createdAt w"
  by (simp_all add: wallet_row_of_def)

lemma tx_row_sel [simp]:
  "tr_id (tx_row_of t) = t_id t" "tr_kind (tx_row_of t) = kind_String (t_kind t)"
  "tr_status (tx_row_of t) = status_String (t_status t)" "tr_wallet_id (tx_row_of t) = t_walletID t"
  "tr_provider_id (tx_row_of t) = nullString (t_providerID t)"
  "tr_external_transaction_id (tx_row_of t) = nullString (t_externalTransactionID t)"
  "tr_idempotency_key (tx_row_of t) = nullString (t_idempotencyKey t)"
  "tr_reference_external_transaction_id (tx_row_of t) = nullString (t_referenceExternalID t)"
  "tr_reference_transaction_id (tx_row_of t) = nullUUID (t_referenceTransactionID t)"
  "tr_next_attempt_at (tx_row_of t) = nullTime (t_nextAttemptAt t)"
  "tr_currency (tx_row_of t) = currency_String (currency (t_amount t))"
  by (simp_all add: tx_row_of_def)

lemma entry_row_sel [simp]:
  "er_id (entry_row_of e) = le_id e" "er_wallet_id (entry_row_of e) = le_walletID e"
  "er_transaction_id (entry_row_of e) = le_transactionID e"
  "er_direction (entry_row_of e) = direction_String (le_direction e)"
  "er_amount_minor (entry_row_of e) = minor (le_amount e)"
  "er_wallet_version (entry_row_of e) = le_walletVersion e"
  by (simp_all add: entry_row_of_def)

lemma sql_eq_null [simp]:
  "sql_eq (nullString a) (nullString b) \<longleftrightarrow> a = b \<and> a \<noteq> []"
  "sql_eq (nullUUID i) (nullUUID j) \<longleftrightarrow> i = j \<and> i \<noteq> uuid_Nil"
  by (auto simp: sql_eq_def nullString_def nullUUID_def)

lemma reversal_row_of [simp]:
  "kind_Valid (t_kind t) \<Longrightarrow> status_Valid (t_status t) \<Longrightarrow>
     reversal_row (tx_row_of t) \<longleftrightarrow> processed_reversal t"
  by (auto simp: reversal_row_def processed_reversal_def Reversal_def)

lemma conflict_row_of:
  assumes "kind_Valid (t_kind t)" "status_Valid (t_status t)" "kind_Valid (t_kind u)" "status_Valid (t_status u)"
  shows "tx_conflict (tx_row_of t) (tx_row_of u) \<longleftrightarrow> clash t u"
  unfolding tx_conflict_def single_reversal_conflict_def clash_def
  unfolding tx_row_sel sql_eq_null reversal_row_of [OF assms(1,2)] reversal_row_of [OF assms(3,4)]
    kind_String_eq(1) [OF assms(1)] kind_String_eq(1) [OF assms(3)]
  by (rule refl)

section \<open>A represented, invariant book\<close>

definition holds :: "db \<Rightarrow> book \<Rightarrow> bool" where
  "holds d B \<longleftrightarrow> represents d B \<and> book_inv B"

lemma represents_tables:
  "represents d B \<Longrightarrow> db_wallets d = map wallet_row_of (bk_wallets B)"
  "represents d B \<Longrightarrow> db_transactions d = map tx_row_of (bk_txs B)"
  "represents d B \<Longrightarrow> db_entries d = map entry_row_of (bk_entries B)"
  by (simp_all add: represents_def)

lemma represents_inbox_outbox [simp]:
  "represents (d\<lparr>db_inbox := x\<rparr>) B \<longleftrightarrow> represents d B"
  "represents (d\<lparr>db_outbox := y\<rparr>) B \<longleftrightarrow> represents d B"
  by (simp_all add: represents_def)

lemma book_tx_wf:
  assumes "book_inv B" "t \<in> set (bk_txs B)"
  shows "tx_wf t" "kind_Valid (t_kind t)" "status_Valid (t_status t)"
    "\<exists>w \<in> set (bk_wallets B). w_id w = t_walletID t \<and> storable (currency (w_balance w)) t"
proof -
  show o: "\<exists>w \<in> set (bk_wallets B). w_id w = t_walletID t \<and> storable (currency (w_balance w)) t"
    using assms by (auto simp: book_inv_def txs_ok_def on_wallet_def)
  then show wf: "tx_wf t" by (auto dest: storable_wf)
  then show "status_Valid (t_status t)" by (simp add: tx_wf_def)
  show "kind_Valid (t_kind t)" using tx_wf_kind_origin [OF wf] by simp
qed

lemma book_wallet_inv: "book_inv B \<Longrightarrow> w \<in> set (bk_wallets B) \<Longrightarrow> wallet_inv w"
  by (auto simp: book_inv_def wallets_ok_def)

text \<open>The join of a represented book: each operation with the currency of its wallet.\<close>

lemma joined_book:
  assumes "represents d B" "book_inv B"
  shows "map fst (joined d) = map tx_row_of (bk_txs B)"
    and "\<And>r cur. (r, cur) \<in> set (joined d) \<Longrightarrow>
      \<exists>t \<in> set (bk_txs B). r = tx_row_of t \<and> scanTransaction (r, cur) = Inr t"
proof -
  have one: "\<exists>w. filter (\<lambda>w. w_id w = t_walletID t) (bk_wallets B) = [w]
      \<and> storable (currency (w_balance w)) t" if t: "t \<in> set (bk_txs B)" for t
  proof -
    obtain w where w: "w \<in> set (bk_wallets B)" "w_id w = t_walletID t" "storable (currency (w_balance w)) t"
      using book_tx_wf(4) [OF assms(2) t] by auto
    have "distinct (map w_id (bk_wallets B))" using assms(2) by (simp add: book_inv_def wallets_ok_def)
    from filter_unique [OF this w(1)] w show ?thesis by auto
  qed
  have j: "joined d = map (\<lambda>t. (tx_row_of t, currency_String (currency (w_balance
      (hd (filter (\<lambda>w. w_id w = t_walletID t) (bk_wallets B))))))) (bk_txs B)"
  proof -
    have "map (\<lambda>w. (tx_row_of t, wr_currency w))
          (filter (\<lambda>w. wr_id w = tr_wallet_id (tx_row_of t)) (map wallet_row_of (bk_wallets B)))
        = [(tx_row_of t, currency_String (currency (w_balance
            (hd (filter (\<lambda>w. w_id w = t_walletID t) (bk_wallets B))))))]" if "t \<in> set (bk_txs B)" for t
      using one [OF that] by (auto simp: filter_map comp_def)
    then show ?thesis
      using represents_tables [OF assms(1)] by (simp add: joined_def comp_def cong: map_cong)
  qed
  show "map fst (joined d) = map tx_row_of (bk_txs B)" by (simp add: j comp_def)
  show "\<exists>t \<in> set (bk_txs B). r = tx_row_of t \<and> scanTransaction (r, cur) = Inr t"
    if rc: "(r, cur) \<in> set (joined d)" for r cur
  proof -
    obtain t where t: "t \<in> set (bk_txs B)" "r = tx_row_of t"
        "cur = currency_String (currency (w_balance (hd (filter (\<lambda>w. w_id w = t_walletID t) (bk_wallets B)))))"
      using rc unfolding j by auto
    obtain w where "filter (\<lambda>w. w_id w = t_walletID t) (bk_wallets B) = [w]"
        "storable (currency (w_balance w)) t" using one [OF t(1)] by blast
    then show ?thesis using t scanTransaction_of by auto
  qed
qed

section \<open>Reading\<close>

text \<open>
  The shape of all the rules: a failed call leaves the tables, a successful one answers from
  the book; only the counter moves.
\<close>

lemma wp_stmt:
  assumes "\<And>x d t. f (st_db s) = Inr (x, d) \<Longrightarrow> Q x (s\<lparr>st_tick := t, st_db := d\<rparr>)"
    and "\<And>e t. E e (s\<lparr>st_tick := t\<rparr>)"
  shows "wpM (statement f) c s Q E"
  using assms by (auto simp: wp_statement split: option.splits sum.splits)

lemma st_db_id [simp]: "s\<lparr>st_tick := t, st_db := st_db s\<rparr> = s\<lparr>st_tick := t\<rparr>"
  by (cases s) simp

lemma wp_Wallets_findOne:
  assumes h: "holds (st_db s) B"
    and ok: "\<And>x t. (case x of None \<Rightarrow> \<forall>w \<in> set (bk_wallets B). \<not> P (wallet_row_of w)
        | Some w \<Rightarrow> w \<in> set (bk_wallets B) \<and> P (wallet_row_of w)) \<Longrightarrow> Q x (s\<lparr>st_tick := t\<rparr>)"
    and err: "\<And>e t. E e (s\<lparr>st_tick := t\<rparr>)"
  shows "wpM (Wallets_findOne P) c s Q E"
proof -
  let ?rows = "filter P (map wallet_row_of (bk_wallets B))"
  have one: "wpM (scan_one scanWallet ?rows) c (s\<lparr>st_tick := t\<rparr>) Q E" for t
  proof (cases ?rows)
    case Nil
    then have "\<forall>w \<in> set (bk_wallets B). \<not> P (wallet_row_of w)" by (auto simp: filter_empty_conv)
    then show ?thesis by (simp add: Nil scan_one_def first_row_def wp ok)
  next
    case (Cons r rs)
    then have "r \<in> set ?rows" by simp
    then obtain w where w: "w \<in> set (bk_wallets B)" "r = wallet_row_of w" "P r" by auto
    with h have "scanWallet r = Inr w" by (auto simp: holds_def dest: book_wallet_inv)
    with w show ?thesis by (simp add: Cons scan_one_def first_row_def wp ok)
  qed
  show ?thesis
    unfolding Wallets_findOne_def wp_bindM wp_mapErrM
    by (rule wp_stmt) (use h one err in \<open>auto simp: sql_select_wallets_def holds_def represents_tables\<close>)
qed

lemma wp_Wallets_FindForUpdate [wp]:
  assumes h: "holds (st_db s) B"
    and ok: "\<And>w t. w \<in> set (bk_wallets B) \<Longrightarrow> w_id w = i \<Longrightarrow> Q w (s\<lparr>st_tick := t\<rparr>)"
    and err: "\<And>e t. E e (s\<lparr>st_tick := t\<rparr>)"
  shows "wpM (Wallets_FindForUpdate i) c s Q E"
  unfolding Wallets_FindForUpdate_def wp_bindM
  by (rule wp_Wallets_findOne [OF h]) (auto simp: wp ok err split: option.splits)

lemma wp_Transactions_findOne:
  assumes h: "holds (st_db s) B"
    and ok: "\<And>x t. (case x of None \<Rightarrow> \<forall>u \<in> set (bk_txs B). \<not> P (tx_row_of u)
        | Some u \<Rightarrow> u \<in> set (bk_txs B) \<and> P (tx_row_of u)) \<Longrightarrow> Q x (s\<lparr>st_tick := t\<rparr>)"
    and err: "\<And>e t. E e (s\<lparr>st_tick := t\<rparr>)"
  shows "wpM (Transactions_findOne P) c s Q E"
proof -
  note h' = h [unfolded holds_def]
  note j = joined_book [OF conjunct1 [OF h'] conjunct2 [OF h']]
  let ?rows = "filter (\<lambda>(t, c). P t) (joined (st_db s))"
  have one: "wpM (scan_one scanTransaction ?rows) c (s\<lparr>st_tick := t\<rparr>) Q E" for t
  proof (cases ?rows)
    case Nil
    have "\<not> P (tx_row_of u)" if "u \<in> set (bk_txs B)" for u
    proof -
      have "tx_row_of u \<in> set (map fst (joined (st_db s)))" using that by (simp add: j(1))
      with Nil show ?thesis by (auto simp: filter_empty_conv)
    qed
    then show ?thesis by (simp add: Nil scan_one_def first_row_def wp ok)
  next
    case (Cons p ps)
    obtain r cur where p: "p = (r, cur)" by (cases p)
    have "p \<in> set ?rows" by (simp add: Cons)
    then have rc: "(r, cur) \<in> set (joined (st_db s))" "P r" by (auto simp: p)
    then obtain u where u: "u \<in> set (bk_txs B)" "r = tx_row_of u" "scanTransaction (r, cur) = Inr u"
      using j(2) by blast
    with rc show ?thesis by (simp add: Cons p scan_one_def first_row_def wp ok)
  qed
  show ?thesis
    unfolding Transactions_findOne_def wp_bindM wp_mapErrM
    by (rule wp_stmt) (use one err in \<open>auto simp: sql_select_transactions_def\<close>)
qed

lemma wp_FindByID:
  assumes "holds (st_db s) B"
    and "\<And>x t. (case x of None \<Rightarrow> \<forall>u \<in> set (bk_txs B). t_id u \<noteq> i
        | Some u \<Rightarrow> u \<in> set (bk_txs B) \<and> t_id u = i) \<Longrightarrow> Q x (s\<lparr>st_tick := t\<rparr>)"
    and "\<And>e t. E e (s\<lparr>st_tick := t\<rparr>)"
  shows "wpM (Transactions_FindByID i) c s Q E" and "wpM (Transactions_FindByIDForUpdate i) c s Q E"
  unfolding Transactions_FindByID_def Transactions_FindByIDForUpdate_def
  by (rule wp_Transactions_findOne [OF assms(1)]; auto intro!: assms(2,3) split: option.splits)+

lemma wp_FindByIdempotencyKey:
  assumes "holds (st_db s) B"
    and "\<And>x t. (case x of
          None \<Rightarrow> \<forall>u \<in> set (bk_txs B). \<not> (t_providerID u = p \<and> p \<noteq> [] \<and> t_idempotencyKey u = k \<and> k \<noteq> [])
        | Some u \<Rightarrow> u \<in> set (bk_txs B) \<and> t_providerID u = p \<and> p \<noteq> [] \<and> t_idempotencyKey u = k \<and> k \<noteq> [])
        \<Longrightarrow> Q x (s\<lparr>st_tick := t\<rparr>)"
    and "\<And>e t. E e (s\<lparr>st_tick := t\<rparr>)"
  shows "wpM (Transactions_FindByIdempotencyKey p k) c s Q E"
  unfolding Transactions_FindByIdempotencyKey_def
  by (rule wp_Transactions_findOne [OF assms(1)]; auto intro!: assms(2,3) split: option.splits)

lemma wp_FindByExternalID:
  assumes "holds (st_db s) B"
    and "\<And>x t. (case x of
          None \<Rightarrow> \<forall>u \<in> set (bk_txs B). \<not> (t_providerID u = p \<and> p \<noteq> [] \<and> t_externalTransactionID u = k \<and> k \<noteq> [])
        | Some u \<Rightarrow> u \<in> set (bk_txs B) \<and> t_providerID u = p \<and> p \<noteq> [] \<and> t_externalTransactionID u = k \<and> k \<noteq> [])
        \<Longrightarrow> Q x (s\<lparr>st_tick := t\<rparr>)"
    and "\<And>e t. E e (s\<lparr>st_tick := t\<rparr>)"
  shows "wpM (Transactions_FindByExternalID p k) c s Q E"
  unfolding Transactions_FindByExternalID_def
  by (rule wp_Transactions_findOne [OF assms(1)]; auto intro!: assms(2,3) split: option.splits)

lemma wp_HasSuccessfulReversal:
  assumes h: "holds (st_db s) B"
    and "\<And>b t. b = (\<exists>u \<in> set (bk_txs B). processed_reversal u \<and> t_referenceTransactionID u = i \<and> i \<noteq> uuid_Nil)
        \<Longrightarrow> Q b (s\<lparr>st_tick := t\<rparr>)"
    and "\<And>e t. E e (s\<lparr>st_tick := t\<rparr>)"
  shows "wpM (Transactions_HasSuccessfulReversal i) c s Q E"
proof -
  have "list_ex (\<lambda>t. tr_reference_transaction_id t = Some i \<and> reversal_row t) (db_transactions (st_db s))
      \<longleftrightarrow> (\<exists>u \<in> set (bk_txs B). processed_reversal u \<and> t_referenceTransactionID u = i \<and> i \<noteq> uuid_Nil)"
    using h by (fastforce simp: holds_def represents_tables list_ex_iff book_tx_wf)
  then show ?thesis
    unfolding Transactions_HasSuccessfulReversal_def wp_mapErrM
    by (intro wp_stmt) (use assms(2,3) in \<open>auto simp: sql_has_successful_reversal_def\<close>)
qed

section \<open>Writing\<close>

text \<open>The inbox and the outbox are no part of the book.\<close>

definition same_mail :: "db \<Rightarrow> db \<Rightarrow> bool" where
  "same_mail d d' \<longleftrightarrow> db_inbox d' = db_inbox d \<and> db_outbox d' = db_outbox d"

lemma same_mail_refl [simp]: "same_mail d d"
  by (simp add: same_mail_def)

lemma same_mail_trans [trans]: "same_mail d d' \<Longrightarrow> same_mail d' d'' \<Longrightarrow> same_mail d d''"
  by (simp add: same_mail_def)

lemma wp_Insert_represented:
  assumes rep: "represents (st_db s) B"
    and kv: "\<forall>u \<in> set (bk_txs B). kind_Valid (t_kind u) \<and> status_Valid (t_status u)" and t: "kind_Valid (t_kind op)" "status_Valid (t_status op)"
    and new: "\<And>d t. \<lbrakk>\<forall>u \<in> set (bk_txs B). \<not> clash op u; \<exists>w \<in> set (bk_wallets B). w_id w = t_walletID op;
      represents d (B\<lparr>bk_txs := bk_txs B @ [op]\<rparr>); same_mail (st_db s) d\<rbrakk>
      \<Longrightarrow> Q True (s\<lparr>st_tick := t, st_db := d\<rparr>)"
    and old: "\<And>t. \<exists>u \<in> set (bk_txs B). clash op u \<Longrightarrow> Q False (s\<lparr>st_tick := t\<rparr>)"
    and err: "\<And>e t. E e (s\<lparr>st_tick := t\<rparr>)"
  shows "wpM (Transactions_Insert op) c s Q E"
proof -
  have c: "list_ex (tx_conflict (tx_row_of op)) (db_transactions (st_db s)) \<longleftrightarrow> (\<exists>u \<in> set (bk_txs B). clash op u)"
    using rep kv by (fastforce simp: represents_tables list_ex_iff conflict_row_of [OF t])
  have w: "list_ex (\<lambda>w. wr_id w = tr_wallet_id (tx_row_of op)) (db_wallets (st_db s))
      \<longleftrightarrow> (\<exists>w \<in> set (bk_wallets B). w_id w = t_walletID op)"
    using rep by (auto simp: represents_tables list_ex_iff)
  show ?thesis
    unfolding Transactions_Insert_def wp_mapErrM
  proof (rule wp_stmt)
    fix x d t assume i: "sql_insert_transaction (tx_row_of op) (st_db s) = Inr (x, d)"
    show "Q x (s\<lparr>st_tick := t, st_db := d\<rparr>)"
    proof (cases "\<exists>u \<in> set (bk_txs B). clash op u")
      case True
      with i c have "x = False" "d = st_db s" by (auto simp: sql_insert_transaction_def)
      with old True show ?thesis by simp
    next
      case False
      with i c w have "x = True" "\<exists>w \<in> set (bk_wallets B). w_id w = t_walletID op"
        "d = st_db s\<lparr>db_transactions := db_transactions (st_db s) @ [tx_row_of op]\<rparr>"
        by (auto simp: sql_insert_transaction_def split: if_splits)
      with False rep new [of d t] show ?thesis by (auto simp: represents_def same_mail_def)
    qed
  qed (auto simp: err)
qed

lemma wp_Transactions_Insert:
  assumes h: "holds (st_db s) B" and t: "kind_Valid (t_kind op)" "status_Valid (t_status op)"
    and new: "\<And>d t. \<lbrakk>\<forall>u \<in> set (bk_txs B). \<not> clash op u; \<exists>w \<in> set (bk_wallets B). w_id w = t_walletID op;
      represents d (B\<lparr>bk_txs := bk_txs B @ [op]\<rparr>); same_mail (st_db s) d\<rbrakk>
      \<Longrightarrow> Q True (s\<lparr>st_tick := t, st_db := d\<rparr>)"
    and old: "\<And>t. \<exists>u \<in> set (bk_txs B). clash op u \<Longrightarrow> Q False (s\<lparr>st_tick := t\<rparr>)"
    and err: "\<And>e t. E e (s\<lparr>st_tick := t\<rparr>)"
  shows "wpM (Transactions_Insert op) c s Q E"
proof (rule wp_Insert_represented [OF _ _ t])
  show "represents (st_db s) B" "\<forall>u \<in> set (bk_txs B). kind_Valid (t_kind u) \<and> status_Valid (t_status u)"
    using h by (auto simp: holds_def book_tx_wf)
qed (fact new old err)+

lemma wp_Ledger_Append:
  assumes "represents (st_db s) B"
    and "\<And>d t. \<lbrakk>le_id e \<notin> le_id ` set (bk_entries B); represents d (B\<lparr>bk_entries := bk_entries B @ [e]\<rparr>);
      same_mail (st_db s) d; \<exists>u \<in> set (bk_txs B). t_id u = le_transactionID e \<and> t_walletID u = le_walletID e\<rbrakk>
      \<Longrightarrow> Q () (s\<lparr>st_tick := t, st_db := d\<rparr>)"
    and "\<And>err t. E err (s\<lparr>st_tick := t\<rparr>)"
  shows "wpM (Ledger_Append e) c s Q E"
  unfolding Ledger_Append_def wp_mapErrM
proof (rule wp_stmt)
  fix x d t assume i: "sql_insert_entry (entry_row_of e) (st_db s) = Inr (x, d)"
  then have "\<not> list_ex (\<lambda>r. er_id r = le_id e) (db_entries (st_db s))"
    "d = st_db s\<lparr>db_entries := db_entries (st_db s) @ [entry_row_of e]\<rparr>"
    "list_ex (\<lambda>t. tr_id t = le_transactionID e \<and> tr_wallet_id t = le_walletID e) (db_transactions (st_db s))"
    by (auto simp: sql_insert_entry_def list_ex_iff split: if_splits)
  then have "le_id e \<notin> le_id ` set (bk_entries B)" "represents d (B\<lparr>bk_entries := bk_entries B @ [e]\<rparr>)"
    "same_mail (st_db s) d" "\<exists>u \<in> set (bk_txs B). t_id u = le_transactionID e \<and> t_walletID u = le_walletID e"
    using assms(1) by (auto simp: represents_def same_mail_def list_ex_iff)
  then show "Q x (s\<lparr>st_tick := t, st_db := d\<rparr>)" using assms(2) by simp
qed (simp add: assms(3))

lemma wp_Wallets_Update:
  assumes "represents (st_db s) B'" "bk_wallets B' = bk_wallets B" "book_inv B"
    and w: "w \<in> set (bk_wallets B)" "w_version w = v" "w_id w' = w_id w" "w_playerID w' = w_playerID w"
      "currency (w_balance w') = currency (w_balance w)" "w_createdAt w' = w_createdAt w"
    and ok: "\<And>d t. \<lbrakk>represents d (B'\<lparr>bk_wallets := replace_wallet w' (bk_wallets B')\<rparr>);
      same_mail (st_db s) d\<rbrakk> \<Longrightarrow> Q () (s\<lparr>st_tick := t, st_db := d\<rparr>)"
    and err: "\<And>e s'. E e s'"
  shows "wpM (Wallets_Update w' v) c s Q E"
proof -
  have dw: "distinct (map w_id (bk_wallets B))" using assms(3) by (simp add: book_inv_def wallets_ok_def)
  have u: "(if wr_id (wallet_row_of x) = w_id w' \<and> wr_version (wallet_row_of x) = v
        then (wallet_row_of x)\<lparr>wr_balance_minor := minor (w_balance w'), wr_version := w_version w',
          wr_updated_at := w_updatedAt w'\<rparr> else wallet_row_of x)
      = wallet_row_of (if w_id x = w_id w' then w' else x)" if "x \<in> set (bk_wallets B)" for x
  proof (cases "w_id x = w_id w'")
    case True
    then have "x = w" using that w id_unique(2) [OF dw] by metis
    then show ?thesis using w True by (simp add: wallet_row_of_def)
  qed simp
  have m: "update_where (\<lambda>r. wr_id r = w_id w' \<and> wr_version r = v)
      (\<lambda>r. r\<lparr>wr_balance_minor := minor (w_balance w'), wr_version := w_version w',
        wr_updated_at := w_updatedAt w'\<rparr>) (map wallet_row_of (bk_wallets B))
      = map wallet_row_of (replace_wallet w' (bk_wallets B))"
    unfolding update_where_def replace_wallet_def using u by simp
  show ?thesis
    unfolding Wallets_Update_def wp_bindM wp_mapErrM
  proof (rule wp_stmt)
    fix n d t assume "sql_update_wallet (minor (w_balance w')) (w_version w') (w_updatedAt w') (w_id w') v
        (st_db s) = Inr (n, d)"
    then have "d = st_db s\<lparr>db_wallets := map wallet_row_of (replace_wallet w' (bk_wallets B'))\<rparr>"
      using represents_tables(1) [OF assms(1)] m assms(2) by (simp add: sql_update_wallet_def Let_def)
    then have "represents d (B'\<lparr>bk_wallets := replace_wallet w' (bk_wallets B')\<rparr>)" "same_mail (st_db s) d"
      using assms(1) by (simp_all add: represents_def same_mail_def)
    then show "wpM (if n = 0 then throwM (EWalletStore WalletVersionChanged) else returnM ()) c
        (s\<lparr>st_tick := t, st_db := d\<rparr>) Q E"
      using ok err by (simp add: wp)
  qed (simp add: err)
qed

text \<open>The columns an UPDATE of an operation sets are all that a transition may change.\<close>

lemma set_transaction_row:
  assumes "same_identity u t'"
  shows "set_transaction (tx_row_of t') (tx_row_of u) = tx_row_of t'"
  using assms by (simp add: set_transaction_def tx_row_of_def same_identity_def)

lemma wp_Transactions_Update:
  assumes "represents (st_db s) B'" "bk_txs B' = bk_txs B" "book_inv B"
    and u: "u \<in> set (bk_txs B)" "same_identity u t'" "status_Valid (t_status t')"
    and ok: "\<And>d t. \<lbrakk>represents d (B'\<lparr>bk_txs := replace_tx t' (bk_txs B')\<rparr>); same_mail (st_db s) d;
      \<forall>x \<in> set (bk_txs B). t_id x \<noteq> t_id t' \<longrightarrow> \<not> clash t' x\<rbrakk> \<Longrightarrow> Q () (s\<lparr>st_tick := t, st_db := d\<rparr>)"
    and err: "\<And>e s'. E e s'"
  shows "wpM (Transactions_Update t') c s Q E"
proof -
  have dt: "distinct (map t_id (bk_txs B))" using assms(3) by (simp add: book_inv_def txs_ok_def)
  have i: "t_id u = t_id t'" "t_kind t' = t_kind u" using u(2) by (simp_all add: same_identity_def)
  have uq: "x = u" if "x \<in> set (bk_txs B)" "t_id x = t_id t'" for x
    using that u(1) i(1) id_unique(1) [OF dt] by metis
  have m: "update_where (\<lambda>r. tr_id r = t_id t') (set_transaction (tx_row_of t')) (map tx_row_of (bk_txs B))
      = map tx_row_of (replace_tx t' (bk_txs B))"
    unfolding update_where_def replace_tx_def using uq set_transaction_row [OF u(2)] by auto
  have k: "kind_Valid (t_kind t')" using book_tx_wf(2) [OF assms(3) u(1)] i by simp
  have cl: "\<not> clash t' x" if "x \<in> set (bk_txs B)" "t_id x \<noteq> t_id t'"
    "\<not> list_ex (\<lambda>r. tr_id r = t_id t' \<and> list_ex (\<lambda>r'. tr_id r' \<noteq> t_id t'
        \<and> single_reversal_conflict (set_transaction (tx_row_of t') r) r') (db_transactions (st_db s)))
        (db_transactions (st_db s))" for x
  proof -
    have base: "\<not> clash u x" using assms(3) u(1) that i by (auto simp: book_inv_def txs_ok_def)
    have "\<forall>r \<in> set (bk_txs B). t_id r = t_id t' \<longrightarrow> (\<forall>r' \<in> set (bk_txs B). t_id r' = t_id t'
        \<or> \<not> single_reversal_conflict (set_transaction (tx_row_of t') (tx_row_of r)) (tx_row_of r'))"
      using that(3) represents_tables(2) [OF assms(1)] assms(2) by (auto simp: list_ex_iff)
    from this [rule_format, OF u(1) i(1) that(1)] that(2)
    have "\<not> single_reversal_conflict (tx_row_of t') (tx_row_of x)"
      by (simp add: set_transaction_row [OF u(2)])
    then have "\<not> (processed_reversal t' \<and> processed_reversal x
        \<and> t_referenceTransactionID t' = t_referenceTransactionID x \<and> t_referenceTransactionID t' \<noteq> uuid_Nil)"
      using k u(3) book_tx_wf(2,3) [OF assms(3) that(1)] by (simp add: single_reversal_conflict_def)
    with base show ?thesis using u(2) unfolding clash_def same_identity_def by metis
  qed
  show ?thesis
    unfolding Transactions_Update_def wp_bindM wp_mapErrM
  proof (rule wp_stmt)
    fix n d t assume a: "sql_update_transaction (tx_row_of t') (st_db s) = Inr (n, d)"
    then have "d = st_db s\<lparr>db_transactions := map tx_row_of (replace_tx t' (bk_txs B'))\<rparr>"
      using represents_tables(2) [OF assms(1)] m assms(2)
      by (auto simp: sql_update_transaction_def Let_def split: if_splits)
    then have "represents d (B'\<lparr>bk_txs := replace_tx t' (bk_txs B')\<rparr>)" "same_mail (st_db s) d"
      using assms(1) by (simp_all add: represents_def same_mail_def)
    moreover have "\<forall>x \<in> set (bk_txs B). t_id x \<noteq> t_id t' \<longrightarrow> \<not> clash t' x"
      using a cl by (auto simp: sql_update_transaction_def Let_def split: if_splits)
    ultimately show "wpM (if n = 0 then throwM (EWagering WageringNotFound) else returnM ()) c
        (s\<lparr>st_tick := t, st_db := d\<rparr>) Q E"
      using ok err by (simp add: wp)
  qed (simp add: err)
qed

text \<open>Waking up the operations that wait: only their schedule changes.\<close>

definition woken :: "time \<Rightarrow> tx \<Rightarrow> tx \<Rightarrow> bool" where
  "woken now t t' \<longleftrightarrow> t' = t \<or> t_status t = PendingReference
     \<and> t' = t\<lparr>t_nextAttemptAt := now, t_updatedAt := now\<rparr>"

lemma wp_WakeUp:
  assumes h: "holds (st_db s) B" and now: "now \<noteq> time_zero"
    and ok: "\<And>n d t f. \<lbrakk>represents d (B\<lparr>bk_txs := map f (bk_txs B)\<rparr>); same_mail (st_db s) d;
      \<forall>x \<in> set (bk_txs B). woken now x (f x)\<rbrakk> \<Longrightarrow> Q n (s\<lparr>st_tick := t, st_db := d\<rparr>)"
    and err: "\<And>e t. E e (s\<lparr>st_tick := t\<rparr>)"
  shows "wpM (Transactions_WakeUpWaitingFor p x now) c s Q E"
proof (cases "p = [] \<or> x = []")
  case True
  have "represents (st_db s) (B\<lparr>bk_txs := map id (bk_txs B)\<rparr>)" using h by (simp add: holds_def)
  then have "Q 0 (s\<lparr>st_tick := st_tick s, st_db := st_db s\<rparr>)" by (rule ok) (simp_all add: woken_def)
  with True show ?thesis by (simp add: Transactions_WakeUpWaitingFor_def wp)
next
  case False
  have rep: "represents (st_db s) B" using h by (simp add: holds_def)
  show ?thesis
    unfolding Transactions_WakeUpWaitingFor_def if_not_P [OF False] wp_bindM wp_observe wp_mapErrM wp_returnM
  proof (rule wp_stmt)
    let ?locked = "e_locked c (st_tick s)"
    fix n d t assume "sql_wake_up ?locked p x now (st_db (s\<lparr>st_tick := st_tick s + 1\<rparr>)) = Inr (n, d)"
    then have d: "d = st_db s\<lparr>db_transactions := update_where (waiting_for ?locked p x now)
        (\<lambda>t. t\<lparr>tr_next_attempt_at := Some now, tr_updated_at := now\<rparr>) (map tx_row_of (bk_txs B))\<rparr>"
      using represents_tables(2) [OF rep] by (simp add: sql_wake_up_def Let_def)
    let ?f = "\<lambda>t. if waiting_for ?locked p x now (tx_row_of t)
        then t\<lparr>t_nextAttemptAt := now, t_updatedAt := now\<rparr> else t"
    have m: "update_where (waiting_for ?locked p x now)
        (\<lambda>t. t\<lparr>tr_next_attempt_at := Some now, tr_updated_at := now\<rparr>) (map tx_row_of (bk_txs B))
        = map tx_row_of (map ?f (bk_txs B))"
      using now by (simp add: update_where_def) (simp add: tx_row_of_def nullTime_def)
    have "\<forall>x \<in> set (bk_txs B). woken now x (?f x)"
      using h by (auto simp: woken_def waiting_for_def holds_def book_tx_wf)
    moreover have "represents d (B\<lparr>bk_txs := map ?f (bk_txs B)\<rparr>)" "same_mail (st_db s) d"
      using rep unfolding d m by (simp_all add: represents_def same_mail_def)
    ultimately show "Q (of_nat n) (s\<lparr>st_tick := st_tick s + 1\<rparr>\<lparr>st_tick := t, st_db := d\<rparr>)"
      using ok by simp
  qed (simp add: err)
qed

lemma scan_all_Inr: "(\<And>r. r \<in> set rs \<Longrightarrow> scan r = Inr (g r)) \<Longrightarrow> scan_all scan rs = Inr (map g rs)"
  by (induction rs) auto

lemma wp_ClaimDuePending:
  assumes h: "holds (st_db s) B"
    and ok: "\<And>xs t. \<lbrakk>\<forall>x \<in> set xs. x \<in> set (bk_txs B) \<and> t_status x = PendingReference
        \<and> t_nextAttemptAt x \<le> now; length xs \<le> limit\<rbrakk>
      \<Longrightarrow> Q xs (s\<lparr>st_tick := t\<rparr>)"
    and err: "\<And>e t. E e (s\<lparr>st_tick := t\<rparr>)"
  shows "wpM (Transactions_ClaimDuePending now limit) c s Q E"
proof -
  note h' = h [unfolded holds_def]
  note j = joined_book(2) [OF conjunct1 [OF h'] conjunct2 [OF h']]
  have sc: "\<exists>xs. scan_all scanTransaction rows = Inr xs \<and> length xs = length rows
      \<and> (\<forall>x \<in> set xs. x \<in> set (bk_txs B) \<and> t_status x = PendingReference \<and> t_nextAttemptAt x \<le> now)"
    if "set rows \<subseteq> {(r, cur) \<in> set (joined (st_db s)). due now r}" for rows
    using that
  proof (induction rows)
    case (Cons p rows)
    obtain r cur where p: "p = (r, cur)" by (cases p)
    then have r: "(r, cur) \<in> set (joined (st_db s))" "due now r" using Cons.prems by auto
    then obtain t where t: "t \<in> set (bk_txs B)" "r = tx_row_of t" "scanTransaction (r, cur) = Inr t"
      using j by blast
    then have "t_status t = PendingReference" "t_nextAttemptAt t \<le> now"
      using r book_tx_wf(3) [OF conjunct2 [OF h'] t(1)] by (auto simp: due_def split: option.splits)
    with Cons t p show ?case by auto
  qed simp
  show ?thesis
    unfolding Transactions_ClaimDuePending_def wp_bindM wp_observe wp_mapErrM wp_liftR
  proof (rule wp_stmt)
    fix rows d t
    assume "sql_claim_due_pending (e_locked c (st_tick s)) now limit
        (st_db (s\<lparr>st_tick := st_tick s + 1\<rparr>)) = Inr (rows, d)"
    then have r: "rows = take limit (filter (\<lambda>(t, c'). \<not> e_locked c (st_tick s) (tr_id t))
       (sort_key (\<lambda>(t, c). (moment (tr_next_attempt_at t), tr_id t))
         (filter (\<lambda>(t, c). due now t) (joined (st_db s)))))" and d: "d = st_db s"
      by (auto simp: sql_claim_due_pending_def)
    have "set rows \<subseteq> {(r, cur) \<in> set (joined (st_db s)). due now r}"
      unfolding r by (auto dest!: in_set_takeD)
    from sc [OF this] obtain xs where xs: "scan_all scanTransaction rows = Inr xs" "length xs = length rows"
      "\<forall>x \<in> set xs. x \<in> set (bk_txs B) \<and> t_status x = PendingReference \<and> t_nextAttemptAt x \<le> now" by blast
    moreover have "length rows \<le> limit" by (simp add: r)
    ultimately show "case scan_all scanTransaction rows of Inl e \<Rightarrow>
          E e (s\<lparr>st_tick := st_tick s + 1, st_tick := t, st_db := d\<rparr>)
        | Inr x \<Rightarrow> Q x (s\<lparr>st_tick := st_tick s + 1, st_tick := t, st_db := d\<rparr>)"
      using d by (simp add: ok)
  qed (simp add: err)
qed

lemma wp_Wallets_Create:
  assumes h: "holds (st_db s) B" and w: "Supported (currency (w_balance w))"
    and ok: "\<And>d t. \<lbrakk>\<forall>u \<in> set (bk_wallets B). w_id u \<noteq> w_id w
        \<and> (w_playerID u, currency (w_balance u)) \<noteq> (w_playerID w, currency (w_balance w));
      represents d (B\<lparr>bk_wallets := bk_wallets B @ [w]\<rparr>); same_mail (st_db s) d\<rbrakk>
      \<Longrightarrow> Q () (s\<lparr>st_tick := t, st_db := d\<rparr>)"
    and err: "\<And>e t. E e (s\<lparr>st_tick := t\<rparr>)"
  shows "wpM (Wallets_Create w) c s Q E"
proof -
  have sup: "Supported (currency (w_balance u))" if "u \<in> set (bk_wallets B)" for u
    using book_wallet_inv [of B u] h that by (simp add: holds_def wallet_inv_def Valid_def)
  show ?thesis
    unfolding Wallets_Create_def wp_mapErrM
  proof (rule wp_stmt)
    fix x d t assume "sql_insert_wallet (wallet_row_of w) (st_db s) = Inr (x, d)"
    then have a: "\<not> list_ex (\<lambda>r'. wr_id r' = w_id w) (db_wallets (st_db s))"
      "\<not> list_ex (\<lambda>r'. wr_player_id r' = w_playerID w
         \<and> wr_currency r' = currency_String (currency (w_balance w))) (db_wallets (st_db s))"
      "d = st_db s\<lparr>db_wallets := db_wallets (st_db s) @ [wallet_row_of w]\<rparr>"
      by (auto simp: sql_insert_wallet_def split: if_splits)
    have "\<forall>u \<in> set (bk_wallets B). w_id u \<noteq> w_id w
        \<and> (w_playerID u, currency (w_balance u)) \<noteq> (w_playerID w, currency (w_balance w))"
      using a(1,2) h sup w by (auto simp: holds_def represents_tables list_ex_iff currency_String_inj)
    moreover have "represents d (B\<lparr>bk_wallets := bk_wallets B @ [w]\<rparr>)" "same_mail (st_db s) d"
      using h a(3) by (auto simp: holds_def represents_def same_mail_def)
    ultimately show "Q x (s\<lparr>st_tick := t, st_db := d\<rparr>)" using ok by simp
  qed (simp add: err)
qed

section \<open>Outbox and inbox\<close>

lemma wp_Outbox_Append:
  assumes ok: "\<And>d t r. \<lbrakk>d = st_db s\<lparr>db_outbox := db_outbox (st_db s) @ [r]\<rparr>;
      r = outbox_row_of oe\<lparr>xr_payload := e_jsonb c (oe_payload oe)\<rparr>;
      oe_id oe \<notin> xr_id ` set (db_outbox (st_db s))\<rbrakk> \<Longrightarrow> Q () (s\<lparr>st_tick := t, st_db := d\<rparr>)"
    and err: "\<And>e t. E e (s\<lparr>st_tick := t\<rparr>)"
  shows "wpM (Outbox_Append oe) c s Q E"
  unfolding Outbox_Append_def wp_bindM wp_askM wp_mapErrM
proof (rule wp_stmt)
  fix x d t
  assume "sql_insert_outbox (outbox_row_of oe\<lparr>xr_payload := e_jsonb c (oe_payload oe)\<rparr>) (st_db s) = Inr (x, d)"
  moreover have "xr_id (outbox_row_of oe\<lparr>xr_payload := e_jsonb c (oe_payload oe)\<rparr>) = oe_id oe"
    by (simp add: outbox_row_of_def)
  ultimately have "oe_id oe \<notin> xr_id ` set (db_outbox (st_db s))"
    "d = st_db s\<lparr>db_outbox := db_outbox (st_db s) @ [outbox_row_of oe\<lparr>xr_payload := e_jsonb c (oe_payload oe)\<rparr>]\<rparr>"
    by (auto simp: sql_insert_outbox_def list_ex_iff simp del: outbox_row.update_convs split: if_splits)
  then show "Q x (s\<lparr>st_tick := t, st_db := d\<rparr>)" using ok by simp
qed (simp add: err)

lemma wp_Inbox_Insert:
  assumes new: "\<And>d t. \<lbrakk>d = st_db s\<lparr>db_inbox := db_inbox (st_db s) @ [inbox_row_of m]\<rparr>;
      \<forall>r \<in> set (db_inbox (st_db s)). \<not> same_message (im_consumerName m) (im_messageID m) r\<rbrakk>
      \<Longrightarrow> Q True (s\<lparr>st_tick := t, st_db := d\<rparr>)"
    and old: "\<And>t. \<exists>r \<in> set (db_inbox (st_db s)). same_message (im_consumerName m) (im_messageID m) r
      \<Longrightarrow> Q False (s\<lparr>st_tick := t\<rparr>)"
    and err: "\<And>e t. E e (s\<lparr>st_tick := t\<rparr>)"
  shows "wpM (Inbox_Insert m) c s Q E"
  unfolding Inbox_Insert_def wp_mapErrM
proof (rule wp_stmt)
  fix x d t assume i: "sql_insert_inbox (inbox_row_of m) (st_db s) = Inr (x, d)"
  have row: "ir_consumer_name (inbox_row_of m) = im_consumerName m" "ir_message_id (inbox_row_of m) = im_messageID m"
    by (simp_all add: inbox_row_of_def)
  show "Q x (s\<lparr>st_tick := t, st_db := d\<rparr>)"
  proof (cases "\<exists>r \<in> set (db_inbox (st_db s)). same_message (im_consumerName m) (im_messageID m) r")
    case True
    with i row have "x = False" "d = st_db s" by (auto simp: sql_insert_inbox_def list_ex_iff)
    with old [OF True] show ?thesis by simp
  next
    case False
    with i row have "x = True" "d = st_db s\<lparr>db_inbox := db_inbox (st_db s) @ [inbox_row_of m]\<rparr>"
      by (auto simp: sql_insert_inbox_def list_ex_iff split: if_splits)
    with new [of d t] False show ?thesis by simp
  qed
qed (simp add: err)

lemma wp_Inbox_Find:
  assumes ok: "\<And>x t. (case x of
        None \<Rightarrow> \<forall>r \<in> set (db_inbox (st_db s)). \<not> same_message cn mi r
      | Some m \<Rightarrow> \<exists>r \<in> set (db_inbox (st_db s)). same_message cn mi r \<and> scanInboxMessage r = Inr m)
      \<Longrightarrow> Q x (s\<lparr>st_tick := t\<rparr>)"
    and err: "\<And>e t. E e (s\<lparr>st_tick := t\<rparr>)"
  shows "wpM (Inbox_Find cn mi) c s Q E"
proof -
  let ?rows = "filter (same_message cn mi) (db_inbox (st_db s))"
  have one: "wpM (scan_one scanInboxMessage ?rows) c (s\<lparr>st_tick := t\<rparr>) Q E" for t
  proof (cases ?rows)
    case Nil
    then have "\<forall>r \<in> set (db_inbox (st_db s)). \<not> same_message cn mi r" by (simp add: filter_empty_conv)
    then show ?thesis by (simp add: Nil scan_one_def first_row_def wp ok)
  next
    case (Cons r rs)
    then have "r \<in> set ?rows" by simp
    then have r: "r \<in> set (db_inbox (st_db s))" "same_message cn mi r" by auto
    show ?thesis
    proof (cases "scanInboxMessage r")
      case (Inl e) then show ?thesis by (simp add: Cons scan_one_def first_row_def wp err)
    next
      case (Inr m)
      with r have "Q (Some m) (s\<lparr>st_tick := t\<rparr>)" by (intro ok) auto
      with Inr show ?thesis by (simp add: Cons scan_one_def first_row_def wp)
    qed
  qed
  show ?thesis
    unfolding Inbox_Find_def wp_bindM wp_mapErrM
    by (rule wp_stmt) (use one err in \<open>auto simp: sql_select_inbox_def\<close>)
qed

lemma wp_Inbox_Complete:
  assumes ok: "\<And>d t. \<lbrakk>d = st_db s\<lparr>db_inbox := update_where (same_message cn mi)
        (\<lambda>r. r\<lparr>ir_outcome := Some (outcome_String out), ir_transaction_id := nullUUID i,
           ir_completed_at := Some at\<rparr>) (db_inbox (st_db s))\<rparr>;
      \<exists>r \<in> set (db_inbox (st_db s)). same_message cn mi r\<rbrakk> \<Longrightarrow> Q () (s\<lparr>st_tick := t, st_db := d\<rparr>)"
    and err: "\<And>e s'. E e s'"
  shows "wpM (Inbox_Complete cn mi out i at) c s Q E"
  unfolding Inbox_Complete_def wp_bindM wp_mapErrM
proof (rule wp_stmt)
  fix n d t assume a: "sql_complete_inbox cn mi (outcome_String out) (nullUUID i) at (st_db s) = Inr (n, d)"
  show "wpM (if n = 0 then throwM (EMessaging MessagingMissingField) else returnM ()) c
      (s\<lparr>st_tick := t, st_db := d\<rparr>) Q E"
  proof (cases "n = 0")
    case True then show ?thesis by (simp add: wp err)
  next
    case False
    with a have "filter (same_message cn mi) (db_inbox (st_db s)) \<noteq> []"
      by (auto simp: sql_complete_inbox_def Let_def affected_def split: if_splits)
    then have "\<exists>r \<in> set (db_inbox (st_db s)). same_message cn mi r" by (auto simp: filter_empty_conv)
    with a ok [of d t] False show ?thesis
      by (auto simp: wp sql_complete_inbox_def Let_def split: if_splits)
  qed
qed (simp add: err)

section \<open>A book to run on\<close>

definition empty_book :: book where
  "empty_book = \<lparr>bk_wallets = [], bk_txs = [], bk_entries = []\<rparr>"

text \<open>One wallet, opened with nothing.\<close>

definition sample_book :: book where
  "sample_book = empty_book\<lparr>bk_wallets := [sample_wallet\<lparr>w_balance := \<lparr>minor = 0, currency = BRL\<rparr>\<rparr>]\<rparr>"

definition sample_db :: db where
  "sample_db = \<lparr>db_wallets = map wallet_row_of (bk_wallets sample_book), db_transactions = [],
     db_entries = [], db_inbox = [], db_outbox = []\<rparr>"

definition sample_st :: st where
  "sample_st = \<lparr>st_db = sample_db, st_tick = 0, st_broker = [], st_claimedID = 0\<rparr>"

lemma empty_book_inv: "book_inv empty_book"
  by (simp add: empty_book_def book_inv_def wallets_ok_def txs_ok_def entries_ok_def reversals_ok_def)

lemma sample_holds: "holds sample_db sample_book"
proof -
  have "book_inv (empty_book\<lparr>bk_wallets := bk_wallets empty_book @
      [sample_wallet\<lparr>w_balance := \<lparr>minor = 0, currency = BRL\<rparr>\<rparr>]\<rparr>)"
    by (rule book_add_wallet [OF empty_book_inv])
      (simp_all add: wallet_inv_def sample_wallet_def Valid_def Supported_def amount_of_def empty_book_def)
  then have "book_inv sample_book" by (simp add: sample_book_def empty_book_def)
  moreover have "represents sample_db sample_book"
    by (simp add: represents_def sample_db_def sample_book_def empty_book_def)
  ultimately show ?thesis by (simp add: holds_def)
qed

end
