(* ===== verification/Settlement.thy ===== *)
theory Settlement
  imports BookSql Inputs
begin

text \<open>
  What immediate settlement and the retry of a waiting operation share:
  \<open>financial_movement.go\<close>, \<open>settlement_events.go\<close> and \<open>backoff.go\<close> of
  \<open>internal/application/usecase\<close>. Logging and metrics are left out: they change nothing.
  Facts: a decision carried out on an invariant book and written back leaves an invariant book,
  whatever the decision; the events of a settlement are exactly those of its outcome.
\<close>

section \<open>The code\<close>

definition applyFinancialMovement ::
  "wallet \<Rightarrow> tx \<Rightarrow> decision \<Rightarrow> time \<Rightarrow> (ledger_entry \<times> wallet \<times> tx) M" where
  "applyFinancialMovement account operation dec now =
     (let expectedVersion = w_version account;
          move = (if mv_direction (d_movement dec) = Debit then wallet_Debit account
                  else wallet_Credit account) in
      bindM ids_New (\<lambda>entryID.
      bindM (liftR (move (t_id operation) (mv_amount (d_movement dec)) entryID now)) (\<lambda>(entry, account').
      bindM (Ledger_Append entry) (\<lambda>_.
      bindM (Wallets_Update account' expectedVersion) (\<lambda>_.
      bindM (liftR (MarkProcessed operation (w_balance account') (d_referenceID dec) now)) (\<lambda>operation'.
      returnM (entry, account', operation')))))))"

definition settlement_envelopes :: "tx \<Rightarrow> ledger_entry option \<Rightarrow> money \<Rightarrow> envelope list M" where
  "settlement_envelopes operation entry balance =
     bindM (askM e_uuid_text) (\<lambda>us.
     if t_status operation = Processed then
       bindM ids_New (\<lambda>i.
       bindM (liftR (NewProcessed us i operation balance)) (\<lambda>processed.
       case entry of
         None \<Rightarrow> returnM [processed]
       | Some e \<Rightarrow>
           bindM ids_New (\<lambda>j.
           bindM (liftR (NewBalanceChanged us j operation e)) (\<lambda>changed.
           returnM [processed, changed]))))
     else if t_status operation = Rejected then
       bindM ids_New (\<lambda>i.
       bindM (liftR (NewRejected us i operation balance)) (\<lambda>rejected. returnM [rejected]))
     else if t_status operation = PendingReference then
       bindM ids_New (\<lambda>i.
       bindM (liftR (NewPendingReference us i operation)) (\<lambda>pending. returnM [pending]))
     else returnM [])"

fun append_envelopes :: "tx \<Rightarrow> time \<Rightarrow> envelope list \<Rightarrow> unit M" where
  "append_envelopes operation now [] = returnM ()"
| "append_envelopes operation now (e # es) =
     bindM (askM e_uuid_text) (\<lambda>us.
     bindM (liftR (NewOutboxEvent us e (t_walletID operation) now)) (\<lambda>outboxEvent.
     bindM (Outbox_Append outboxEvent) (\<lambda>_. append_envelopes operation now es)))"

definition appendSettlementEvents :: "time \<Rightarrow> tx \<Rightarrow> ledger_entry option \<Rightarrow> money \<Rightarrow> unit M" where
  "appendSettlementEvents now operation entry balance =
     bindM (settlement_envelopes operation entry balance) (append_envelopes operation now)"

text \<open>\<open>backoff\<close>: a loop of at most \<open>exponent\<close> doublings that stops at the maximum.\<close>

fun backoff_loop :: "nat \<Rightarrow> i64 \<Rightarrow> i64 \<Rightarrow> i64" where
  "backoff_loop 0 maximum delay = (if maximum <s delay then maximum else delay)"
| "backoff_loop (Suc n) maximum delay =
     (let delay' = delay * 2 in
      if maximum \<le>s delay' then maximum else backoff_loop n maximum delay')"

definition backoff :: "i64 \<Rightarrow> i64 \<Rightarrow> int \<Rightarrow> i64" where
  "backoff base maximum exponent = backoff_loop (nat (max exponent 0)) maximum base"

definition recoverable :: "go_error \<Rightarrow> bool" where
  "recoverable err \<longleftrightarrow> errors_is err (ERepo RepoTransient) \<or> errors_is err (ERepo RepoLockTimeout)
     \<or> errors_is err (ERepo RepoCommitOutcomeUnknown) \<or> errors_is err ECanceled
     \<or> errors_is err EDeadlineExceeded"

section \<open>Backoff\<close>

lemma backoff_loop_bounds:
  assumes "0 < sint maximum" "sint maximum < 2 ^ 62" "0 < sint delay" "sint delay \<le> sint maximum"
  shows "sint delay \<le> sint (backoff_loop n maximum delay) \<and> sint (backoff_loop n maximum delay) \<le> sint maximum"
  using assms(3,4)
proof (induction n arbitrary: delay)
  case 0
  then show ?case by (simp add: i64_less)
next
  case (Suc n)
  have d: "sint (delay * 2) = 2 * sint delay"
    using Suc.prems assms(2) by (simp add: sint_mult_i64 wrap64_id)
  show ?case
  proof (cases "sint maximum \<le> 2 * sint delay")
    case True
    with Suc.prems d show ?thesis by (simp add: i64_le Let_def)
  next
    case False
    then have "sint delay \<le> sint (delay * 2)" "0 < sint (delay * 2)" "sint (delay * 2) \<le> sint maximum"
      using Suc.prems d by simp_all
    with Suc.IH [of "delay * 2"] False d show ?thesis by (auto simp: i64_le Let_def)
  qed
qed

lemma backoff_loop_value:
  assumes "0 < sint maximum" "sint maximum < 2 ^ 62" "0 < sint delay" "sint delay \<le> sint maximum"
  shows "sint (backoff_loop n maximum delay) = min (sint maximum) (sint delay * 2 ^ n)"
  using assms(3,4)
proof (induction n arbitrary: delay)
  case 0
  then show ?case by (simp add: i64_less)
next
  case (Suc n)
  have d: "sint (delay * 2) = 2 * sint delay"
    using Suc.prems assms(2) by (simp add: sint_mult_i64 wrap64_id)
  show ?case
  proof (cases "sint maximum \<le> 2 * sint delay")
    case True
    have "sint delay * 2 \<le> sint delay * 2 ^ Suc n"
      using Suc.prems by (intro mult_left_mono) simp_all
    with True d show ?thesis by (simp add: i64_le Let_def)
  next
    case False
    with Suc.IH [of "delay * 2"] Suc.prems d show ?thesis by (simp add: i64_le Let_def mult_ac)
  qed
qed

section \<open>Events touch only the outbox\<close>

lemma wp_ids_New [wp]:
  "wpM ids_New c s Q E \<longleftrightarrow>
     (case e_new_id c (st_tick s) of
        None \<Rightarrow> E EPanic (s\<lparr>st_tick := st_tick s + 1\<rparr>)
      | Some i \<Rightarrow> Q i (s\<lparr>st_tick := st_tick s + 1\<rparr>))"
  by (simp add: ids_New_def wp split: option.split)

lemma wp_clock_Now [wp]:
  "wpM clock_Now c s Q E \<longleftrightarrow> Q (e_now c (st_tick s)) (s\<lparr>st_tick := st_tick s + 1\<rparr>)"
  by (simp add: clock_Now_def wp)

text \<open>The rows of a list of envelopes: unpublished, due at once, keyed by the wallet.\<close>

definition event_row :: "env \<Rightarrow> tx \<Rightarrow> time \<Rightarrow> envelope \<Rightarrow> outbox_row \<Rightarrow> bool" where
  "event_row c operation now e r \<longleftrightarrow> xr_id r = ev_eventID e
     \<and> xr_event_type r = type_String (ev_eventType e) \<and> xr_aggregate_id r = ev_aggregateID e
     \<and> xr_partition_key r = e_uuid_text c (t_walletID operation) \<and> xr_next_attempt_at r = now
     \<and> xr_attempts r = 0 \<and> xr_published_at r = None \<and> xr_locked_until r = None"

lemma wp_append_envelopes:
  assumes "\<And>t rs. list_all2 (event_row c operation now) es rs \<Longrightarrow>
      Q () (s\<lparr>st_tick := t, st_db := st_db s\<lparr>db_outbox := db_outbox (st_db s) @ rs\<rparr>\<rparr>)"
    and "\<And>e s'. E e s'"
  shows "wpM (append_envelopes operation now es) c s Q E"
  using assms(1)
proof (induction es arbitrary: s)
  case Nil
  then have "Q () (s\<lparr>st_tick := st_tick s, st_db := st_db s\<lparr>db_outbox := db_outbox (st_db s) @ []\<rparr>\<rparr>)"
    by blast
  then show ?case by (cases s) (simp add: wp)
next
  case (Cons e es)
  show ?case
  proof (cases "NewOutboxEvent (e_uuid_text c) e (t_walletID operation) now")
    case (Inl err) then show ?thesis by (simp add: wp assms(2))
  next
    case (Inr oe)
    have row: "event_row c operation now e (outbox_row_of oe\<lparr>xr_payload := e_jsonb c (oe_payload oe)\<rparr>)"
      using Inr by (auto simp: event_row_def NewOutboxEvent_def outbox_row_of_def bindR_eq_Inr)
    have "wpM (Outbox_Append oe) c s (\<lambda>x s'. wpM (append_envelopes operation now es) c s' Q E) E"
    proof (rule wp_Outbox_Append)
      fix d t r assume d: "d = st_db s\<lparr>db_outbox := db_outbox (st_db s) @ [r]\<rparr>"
        "r = outbox_row_of oe\<lparr>xr_payload := e_jsonb c (oe_payload oe)\<rparr>"
      show "wpM (append_envelopes operation now es) c (s\<lparr>st_tick := t, st_db := d\<rparr>) Q E"
      proof (rule Cons.IH)
        fix t' rs assume "list_all2 (event_row c operation now) es rs"
        with row d have "list_all2 (event_row c operation now) (e # es) (r # rs)" by simp
        from Cons.prems [OF this] show "Q () (s\<lparr>st_tick := t, st_db := d\<rparr>
            \<lparr>st_tick := t', st_db := st_db (s\<lparr>st_tick := t, st_db := d\<rparr>)
              \<lparr>db_outbox := db_outbox (st_db (s\<lparr>st_tick := t, st_db := d\<rparr>)) @ rs\<rparr>\<rparr>)"
          by (simp add: d)
      qed
    qed (rule assms(2))
    then show ?thesis using Inr by (simp add: wp)
  qed
qed

text \<open>The types of the events of a settlement.\<close>

definition settlement_types :: "tx \<Rightarrow> ledger_entry option \<Rightarrow> event_type list" where
  "settlement_types operation entry =
     (case t_status operation of
        Processed \<Rightarrow> TypeProcessed # (if entry = None then [] else [TypeBalanceChanged])
      | Rejected \<Rightarrow> [TypeRejected]
      | PendingReference \<Rightarrow> [TypePendingReference]
      | _ \<Rightarrow> [])"

lemma wp_settlement_envelopes:
  assumes "\<And>es t. map ev_eventType es = settlement_types operation entry \<Longrightarrow> Q es (s\<lparr>st_tick := t\<rparr>)"
    and "\<And>e s'. E e s'"
  shows "wpM (settlement_envelopes operation entry balance) c s Q E"
proof -
  have n: "map ev_eventType [] = settlement_types operation entry \<Longrightarrow> Q [] s" using assms(1) [of "[]" "st_tick s"] by simp
  show ?thesis
    unfolding settlement_envelopes_def
    by (cases "t_status operation")
      (auto simp: wp settlement_types_def NewProcessed_def NewRejected_def NewBalanceChanged_def
        NewPendingReference_def newEnvelope_def assms(2) split: option.splits
        intro!: assms(1) n)
qed

lemma wp_appendSettlementEvents:
  assumes "\<And>t rs. map xr_event_type rs = map type_String (settlement_types operation entry) \<Longrightarrow>
      \<forall>r \<in> set rs. xr_partition_key r = e_uuid_text c (t_walletID operation) \<and> xr_published_at r = None
        \<and> xr_next_attempt_at r = now \<Longrightarrow>
      Q () (s\<lparr>st_tick := t, st_db := st_db s\<lparr>db_outbox := db_outbox (st_db s) @ rs\<rparr>\<rparr>)"
    and "\<And>e s'. E e s'"
  shows "wpM (appendSettlementEvents now operation entry balance) c s Q E"
  unfolding appendSettlementEvents_def wp_bindM
proof (rule wp_settlement_envelopes)
  fix es :: "envelope list" and t assume ty: "map ev_eventType es = settlement_types operation entry"
  show "wpM (append_envelopes operation now es) c (s\<lparr>st_tick := t\<rparr>) Q E"
  proof (rule wp_append_envelopes)
    fix t' rs assume r: "list_all2 (event_row c operation now) es rs"
    have "map xr_event_type rs = map type_String (map ev_eventType es)"
      using r by (induction rule: list_all2_induct) (simp_all add: event_row_def)
    then have "map xr_event_type rs = map type_String (settlement_types operation entry)"
      by (simp only: ty)
    moreover have "\<forall>r \<in> set rs. xr_partition_key r = e_uuid_text c (t_walletID operation)
        \<and> xr_published_at r = None \<and> xr_next_attempt_at r = now"
      using r by (induction rule: list_all2_induct) (simp_all add: event_row_def)
    ultimately have "Q () (s\<lparr>st_tick := t', st_db := st_db s\<lparr>db_outbox := db_outbox (st_db s) @ rs\<rparr>\<rparr>)"
      by (rule assms(1))
    then show "Q () (s\<lparr>st_tick := t\<rparr>\<lparr>st_tick := t', st_db := st_db (s\<lparr>st_tick := t\<rparr>)
        \<lparr>db_outbox := db_outbox (st_db (s\<lparr>st_tick := t\<rparr>)) @ rs\<rparr>\<rparr>)"
      by simp
  qed (rule assms(2))
qed (rule assms(2))

section \<open>Settling keeps the invariant\<close>

lemma open_cases: "tx_wf t \<Longrightarrow> \<not> Terminal (t_status t) \<longleftrightarrow> t_status t = Pending \<or> t_status t = PendingReference"
  by (auto simp: tx_wf_def status_Valid_def Terminal_def)

text \<open>An open operation of the book, on its wallet, and a transition of it.\<close>

definition open_on :: "book \<Rightarrow> wallet \<Rightarrow> tx \<Rightarrow> bool" where
  "open_on B w t \<longleftrightarrow> book_inv B \<and> w \<in> set (bk_wallets B) \<and> t \<in> set (bk_txs B)
     \<and> t_walletID t = w_id w \<and> \<not> Terminal (t_status t)"

lemma open_onD:
  assumes "open_on B w t"
  shows "wallet_inv w" "tx_wf t" "storable (currency (w_balance w)) t" "decidable_op w t"
    "t_resultBalance t = money_zero_value" "\<not> moves t" "\<not> processed_reversal t"
    "t_status t = Pending \<or> t_status t = PendingReference"
proof -
  have i: "book_inv B" "w \<in> set (bk_wallets B)" "t \<in> set (bk_txs B)" "t_walletID t = w_id w"
    "\<not> Terminal (t_status t)" using assms by (auto simp: open_on_def)
  show w: "wallet_inv w" and wf: "tx_wf t" using book_wallet_inv i book_tx_wf(1) by blast+
  show o: "t_status t = Pending \<or> t_status t = PendingReference" using open_cases [OF wf] i by simp
  obtain w' where w': "w' \<in> set (bk_wallets B)" "w_id w' = t_walletID t" "storable (currency (w_balance w')) t"
    using book_tx_wf(4) [OF i(1,3)] by blast
  then have "w' = w" using i id_unique(2) [of "bk_wallets B" w' w] by (auto simp: book_inv_def wallets_ok_def)
  with w' show st: "storable (currency (w_balance w)) t" by simp
  show "decidable_op w t" using w wf o i by (simp add: decidable_op_def)
  have "\<not> Valid (t_resultBalance t)" using wf o by (auto simp: tx_wf_def)
  with st show "t_resultBalance t = money_zero_value" by (simp add: storable_def)
  show "\<not> moves t" "\<not> processed_reversal t" using o by (auto simp: moves_def processed_reversal_def)
qed

lemma harmlessI:
  assumes "open_on B w t" "same_identity t t'" "storable (currency (w_balance w)) t'"
    "\<not> moves t'" "\<not> processed_reversal t'"
  shows "harmless (bk_wallets B) t t'"
  using assms by (auto simp: harmless_def on_wallet_def open_on_def same_identity_def)

lemma rejected_harmless:
  assumes "open_on B w t" "MarkRejected t code (w_balance w) now = Inr t'"
  shows "harmless (bk_wallets B) t t'"
proof (rule harmlessI [OF assms(1) transition_identity(2) [OF assms(2)]])
  have "tx_wf t'" by (rule MarkRejected_wf [OF open_onD(2) [OF assms(1)] assms(2)])
  then show "storable (currency (w_balance w)) t'"
    using assms(2) open_onD(3) [OF assms(1)] by (auto simp: storable_def transition_eqs)
qed (use assms(2) in \<open>auto simp: transition_eqs moves_def processed_reversal_def\<close>)

lemma parked_harmless:
  assumes "open_on B w t" "MarkPendingReference t n d now = Inr t'"
  shows "harmless (bk_wallets B) t t'"
proof (rule harmlessI [OF assms(1) transition_identity(3) [OF assms(2)]])
  have "tx_wf t'" by (rule MarkPendingReference_wf [OF open_onD(2) [OF assms(1)] assms(2)])
  then show "storable (currency (w_balance w)) t'"
    using assms(2) open_onD(3,5) [OF assms(1)] by (auto simp: storable_def transition_eqs)
qed (use assms(2) in \<open>auto simp: transition_eqs moves_def processed_reversal_def\<close>)

lemma rescheduled_harmless:
  assumes "open_on B w t" "Reschedule t n now = Inr t'"
  shows "harmless (bk_wallets B) t t'"
proof (rule harmlessI [OF assms(1) transition_identity(4) [OF assms(2)]])
  have "tx_wf t'" by (rule Reschedule_wf [OF open_onD(2) [OF assms(1)] assms(2)])
  then show "storable (currency (w_balance w)) t'"
    using assms(2) open_onD(3,5) [OF assms(1)] by (auto simp: storable_def transition_eqs)
qed (use assms(2) open_onD(6,7) [OF assms(1)] in \<open>auto simp: transition_eqs moves_def processed_reversal_def\<close>)

lemma failed_harmless:
  assumes "open_on B w t" "MarkFailed t now = Inr t'"
  shows "harmless (bk_wallets B) t t'"
proof (rule harmlessI [OF assms(1) transition_identity(5) [OF assms(2)]])
  have "tx_wf t'" by (rule MarkFailed_wf [OF open_onD(2) [OF assms(1)] assms(2)])
  then show "storable (currency (w_balance w)) t'"
    using assms(2) open_onD(3,5) [OF assms(1)] by (auto simp: storable_def transition_eqs)
qed (use assms(2) in \<open>auto simp: transition_eqs moves_def processed_reversal_def\<close>)

lemma processed_storable:
  assumes "open_on B w t" "MarkProcessed t b r now = Inr t'" "currency b = currency (w_balance w)"
  shows "storable (currency (w_balance w)) t'"
  using MarkProcessed_wf [OF open_onD(2) [OF assms(1)] assms(2)] assms(2,3) open_onD(3) [OF assms(1)]
  by (auto simp: storable_def transition_eqs)

lemma loss_harmless:
  assumes "open_on B w t" "MarkProcessed t (w_balance w) r now = Inr t'" "t_kind t = Loss"
  shows "harmless (bk_wallets B) t t'"
proof (rule harmlessI [OF assms(1) transition_identity(1) [OF assms(2)]])
  show "storable (currency (w_balance w)) t'" by (rule processed_storable [OF assms(1,2) refl])
qed (use assms(2,3) in \<open>auto simp: transition_eqs moves_def processed_reversal_def MovesBalance_def Reversal_def\<close>)

text \<open>Writing back a transition that moves nothing.\<close>

lemma wp_Update_harmless:
  assumes h: "holds (st_db s) B" and t: "t \<in> set (bk_txs B)" and hm: "harmless (bk_wallets B) t t'"
    and ok: "\<And>d k. \<lbrakk>holds d (B\<lparr>bk_txs := replace_tx t' (bk_txs B)\<rparr>); same_mail (st_db s) d\<rbrakk>
      \<Longrightarrow> Q () (s\<lparr>st_tick := k, st_db := d\<rparr>)"
    and err: "\<And>e s'. E e s'"
  shows "wpM (Transactions_Update t') c s Q E"
proof (rule wp_Transactions_Update [of s B B, OF _ refl _ t])
  have same: "same_identity t t'" and on: "on_wallet (bk_wallets B) t'" using hm by (simp_all add: harmless_def)
  show "represents (st_db s) B" "book_inv B" using h by (simp_all add: holds_def)
  show "same_identity t t'" by (rule same)
  show "status_Valid (t_status t')" using on by (auto simp: on_wallet_def storable_def tx_wf_def)
  have "t_id t = t_id t'" using same by (simp add: same_identity_def)
  then have "book_inv (B\<lparr>bk_txs := replace_tx t' (bk_txs B)\<rparr>)"
    using h hm by (intro book_update_tx [OF _ t]) (simp_all add: holds_def)
  then show "\<And>d k. represents d (B\<lparr>bk_txs := replace_tx t' (bk_txs B)\<rparr>) \<Longrightarrow> same_mail (st_db s) d
      \<Longrightarrow> \<forall>x \<in> set (bk_txs B). t_id x \<noteq> t_id t' \<longrightarrow> \<not> clash t' x \<Longrightarrow> Q () (s\<lparr>st_tick := k, st_db := d\<rparr>)"
    using ok by (simp add: holds_def)
qed (rule err)

text \<open>A movement, up to the write-back of the operation.\<close>

definition half_moved :: "wallet \<Rightarrow> ledger_entry \<Rightarrow> book \<Rightarrow> book" where
  "half_moved w' e B = B\<lparr>bk_wallets := replace_wallet w' (bk_wallets B),
     bk_entries := bk_entries B @ [e]\<rparr>"

lemma wp_applyFinancialMovement:
  assumes h: "holds (st_db s) B" and o: "open_on B w t"
    and dec: "dec = process d (t_amount t) r" "d = Debit \<or> d = Credit"
    and ok: "\<And>eid e w' t' dd k. \<lbrakk>wallet_move w d (t_id t) (t_amount t) eid now = Inr (e, w');
      MarkProcessed t (w_balance w') r now = Inr t'; eid \<notin> le_id ` set (bk_entries B);
      represents dd (half_moved w' e B); same_mail (st_db s) dd\<rbrakk>
      \<Longrightarrow> Q (e, w', t') (s\<lparr>st_tick := k, st_db := dd\<rparr>)"
    and err: "\<And>e s'. E e s'"
  shows "wpM (applyFinancialMovement w t dec now) c s Q E"
proof -
  have rep: "represents (st_db s) B" and B: "book_inv B" using h by (simp_all add: holds_def)
  have w: "w \<in> set (bk_wallets B)" "wallet_inv w" using o open_onD(1) [OF o] by (simp_all add: open_on_def)
  have dv: "direction_Valid d" using dec(2) by (auto simp: direction_Valid_def)
  have mv: "(if mv_direction (d_movement dec) = Debit then wallet_Debit w else wallet_Credit w)
      (t_id t) (mv_amount (d_movement dec)) eid now = wallet_move w d (t_id t) (t_amount t) eid now" for eid
    using dec by (auto simp: wallet_Debit_def wallet_Credit_def)
  have step: "wpM (Ledger_Append e) c (s\<lparr>st_tick := k\<rparr>)
      (\<lambda>_ s'. wpM (Wallets_Update w' (w_version w)) c s'
        (\<lambda>_ s'. \<forall>t'. MarkProcessed t (w_balance w') r now = Inr t' \<longrightarrow> Q (e, w', t') s') E) E"
    if m: "wallet_move w d (t_id t) (t_amount t) eid now = Inr (e, w')" for e w' eid k
  proof (rule wp_Ledger_Append)
    show "represents (st_db (s\<lparr>st_tick := k\<rparr>)) B" using rep by simp
    fix d1 t1 assume i: "le_id e \<notin> le_id ` set (bk_entries B)"
      and r1: "represents d1 (B\<lparr>bk_entries := bk_entries B @ [e]\<rparr>)"
      and m1: "same_mail (st_db (s\<lparr>st_tick := k\<rparr>)) d1"
    note f = m [unfolded wallet_move_eq_Inr [OF w(2) dv]]
    show "wpM (Wallets_Update w' (w_version w)) c (s\<lparr>st_tick := k\<rparr>\<lparr>st_tick := t1, st_db := d1\<rparr>)
        (\<lambda>_ s'. \<forall>t'. MarkProcessed t (w_balance w') r now = Inr t' \<longrightarrow> Q (e, w', t') s') E"
    proof (rule wp_Wallets_Update [where B = B and w = w and B' = "B\<lparr>bk_entries := bk_entries B @ [e]\<rparr>"])
      fix d2 t2 assume "represents d2 (B\<lparr>bk_entries := bk_entries B @ [e]\<rparr>
          \<lparr>bk_wallets := replace_wallet w' (bk_wallets (B\<lparr>bk_entries := bk_entries B @ [e]\<rparr>))\<rparr>)"
        and m2: "same_mail (st_db (s\<lparr>st_tick := k\<rparr>\<lparr>st_tick := t1, st_db := d1\<rparr>)) d2"
      then have r2: "represents d2 (half_moved w' e B)" by (cases B) (simp add: half_moved_def)
      have "same_mail (st_db s) d2" using m1 m2 by (simp add: same_mail_def)
      moreover have "le_id e = eid" using f by (simp add: moved_entry_def)
      ultimately show "\<forall>t'. MarkProcessed t (w_balance w') r now = Inr t' \<longrightarrow>
          Q (e, w', t') (s\<lparr>st_tick := k\<rparr>\<lparr>st_tick := t1, st_db := d1\<rparr>\<lparr>st_tick := t2, st_db := d2\<rparr>)"
        using i r2 by (auto intro!: ok [OF m])
    qed (use r1 B w f err in \<open>auto simp: moved_wallet_def\<close>)
  qed (rule err)
  show ?thesis
    unfolding applyFinancialMovement_def Let_def mv
    by (auto simp: wp err dec(1) split: option.splits sum.splits intro!: step)
qed

text \<open>The write-back of the operation completes the movement.\<close>

lemma wp_Update_movement:
  assumes rep: "represents (st_db s) (half_moved w' e B)" and o: "open_on B w t"
    and mv: "wallet_move w d (t_id t) (t_amount t) eid now = Inr (e, w')" and dv: "direction_Valid d"
    and mp: "MarkProcessed t (w_balance w') r now = Inr t'" and eid: "eid \<notin> le_id ` set (bk_entries B)"
    and k: "MovesBalance (t_kind t)" and dir: "moved_direction (bk_txs B) t' d"
    and rv: "processed_reversal t' \<longrightarrow> (\<exists>t0 \<in> set (bk_txs B). undoes t' t0)"
    and ok: "\<And>dd k. \<lbrakk>holds dd (settle_movement w' t' e B); same_mail (st_db s) dd\<rbrakk>
      \<Longrightarrow> Q () (s\<lparr>st_tick := k, st_db := dd\<rparr>)"
    and err: "\<And>e s'. E e s'"
  shows "wpM (Transactions_Update t') c s Q E"
proof (rule wp_Transactions_Update [OF rep, of B t])
  have B: "book_inv B" and w: "w \<in> set (bk_wallets B)" and t: "t \<in> set (bk_txs B)"
    and wt: "w_id w = t_walletID t" using o by (auto simp: open_on_def)
  have same: "same_identity t t'" by (rule transition_identity(1) [OF mp])
  have wf': "tx_wf t'" by (rule MarkProcessed_wf [OF open_onD(2) [OF o] mp])
  have cur: "currency (w_balance w') = currency (w_balance w)"
    using mv by (auto simp: wallet_move_eq_Inr [OF open_onD(1) [OF o] dv] moved_wallet_def)
  show "bk_txs (half_moved w' e B) = bk_txs B" by (simp add: half_moved_def)
  show "book_inv B" "t \<in> set (bk_txs B)" "same_identity t t'" using B t same by simp_all
  show "status_Valid (t_status t')" using wf' by (simp add: tx_wf_def)
  fix dd kk assume r: "represents dd (half_moved w' e B\<lparr>bk_txs := replace_tx t' (bk_txs (half_moved w' e B))\<rparr>)"
    and m: "same_mail (st_db s) dd" and cl: "\<forall>x \<in> set (bk_txs B). t_id x \<noteq> t_id t' \<longrightarrow> \<not> clash t' x"
  have "movement_ok B t t' d"
    using o same dv dir rv cl mp k
    by (auto simp: movement_ok_def open_on_def moves_def transition_eqs)
  moreover have "storable (currency (w_balance w')) t'" using processed_storable [OF o mp cur] cur by simp
  moreover have "t_resultBalance t' = w_balance w'" using mp by (simp add: transition_eqs)
  ultimately have "book_inv (settle_movement w' t' e B)"
    by (intro book_settle_movement [OF B t w wt mv _ _ _ eid])
  moreover have "represents dd (settle_movement w' t' e B)"
    using r by (cases B) (simp add: half_moved_def settle_movement_def)
  ultimately show "Q () (s\<lparr>st_tick := kk, st_db := dd\<rparr>)" using ok m by (simp add: holds_def)
qed (rule err)

text \<open>
  What the reference of an operation was resolved to: an operation of the book, and for a
  reversal whether a processed reversal of it is in the book.
\<close>

definition resolved :: "book \<Rightarrow> reference option \<Rightarrow> bool" where
  "resolved B ref \<longleftrightarrow> (\<forall>o'. Option.bind ref ref_transaction = Some o' \<longrightarrow> o' \<in> set (bk_txs B))"

lemma moves_by_decision:
  assumes o: "open_on B w t" and ref: "resolved B ref" and d: "Decide w t ref now' = Inr dec"
    and p: "d_outcome dec = OutcomeProcess" "movement_Present (d_movement dec)"
  obtains dr r where "dec = process dr (t_amount t) r" "dr = Debit \<or> dr = Credit" "MovesBalance (t_kind t)"
    "\<And>b now t'. MarkProcessed t b r now = Inr t' \<Longrightarrow> moved_direction (bk_txs B) t' dr
      \<and> (processed_reversal t' \<longrightarrow> (\<exists>t0 \<in> set (bk_txs B). undoes t' t0))"
proof -
  have B: "book_inv B" using o by (simp add: open_on_def)
  have v: "\<forall>o'. Option.bind ref ref_transaction = Some o' \<longrightarrow> status_Valid (t_status o')"
    using ref book_tx_wf(3) [OF B] by (auto simp: resolved_def)
  from open_onD(4) [OF o] d p(1) v show thesis
  proof (cases rule: Decide_process_cases)
    case loss with p show ?thesis by simp
  next
    case bet then show ?thesis
      by (intro that [of Debit uuid_Nil])
        (auto simp: MovesBalance_def transition_eqs moved_direction_def processed_reversal_def Reversal_def)
  next
    case (win r) then show ?thesis
      by (intro that [of Credit r])
        (auto simp: MovesBalance_def transition_eqs moved_direction_def processed_reversal_def Reversal_def)
  next
    case (reversal o')
    have o': "o' \<in> set (bk_txs B)" using ref reversal by (simp add: resolved_def)
    have nz: "t_id o' \<noteq> uuid_Nil" using book_tx_wf(1) [OF B o'] by (simp add: tx_wf_def)
    have u: "undoes t' o'" if "MarkProcessed t b (t_id o') now = Inr t'" for b now t'
      using that reversal nz by (auto simp: undoes_def transition_eqs sameRound_def)
    have dd: "moved_direction (bk_txs B) t' (reversalDirection (t_kind t) (t_kind o'))"
      if "MarkProcessed t b (t_id o') now = Inr t'" for b now t'
    proof -
      have "t_kind t' = t_kind t" "t_referenceTransactionID t' = t_id o'" using that nz by (auto simp: transition_eqs)
      then show ?thesis using reversal(1) o'
        by (auto simp: moved_direction_def Reversal_def reversalDirection_def)
    qed
    show ?thesis
    proof (rule that [of "reversalDirection (t_kind t) (t_kind o')" "t_id o'"])
      show "dec = process (reversalDirection (t_kind t) (t_kind o')) (t_amount t) (t_id o')" by (rule reversal(7))
      show "reversalDirection (t_kind t) (t_kind o') = Debit \<or> reversalDirection (t_kind t) (t_kind o') = Credit"
        by (simp add: reversalDirection_def)
      show "MovesBalance (t_kind t)" using reversal(1) by (auto simp: MovesBalance_def Reversal_def)
    qed (use u dd o' in blast)
  qed
qed

text \<open>A processed operation without a movement is a loss.\<close>

lemma no_movement_is_loss:
  assumes o: "open_on B w t" and ref: "resolved B ref" and d: "Decide w t ref now' = Inr dec"
    and p: "d_outcome dec = OutcomeProcess" "\<not> movement_Present (d_movement dec)"
  shows "t_kind t = Loss"
proof -
  have B: "book_inv B" using o by (simp add: open_on_def)
  have v: "\<forall>o'. Option.bind ref ref_transaction = Some o' \<longrightarrow> status_Valid (t_status o')"
    using ref book_tx_wf(3) [OF B] by (auto simp: resolved_def)
  from open_onD(4) [OF o] d p(1) v show ?thesis
    using p(2) by (cases rule: Decide_process_cases) (auto simp: reversalDirection_def split: if_splits)
qed

end
