(* ===== verification/Carry.thy ===== *)
theory Carry
  imports Settlement
begin

text \<open>
  Carrying a decision out on the tables, and writing the operation back: the part that
  immediate settlement and the retry of a waiting operation have in common, as an abstract
  effect on the book. \<open>looked_up\<close> is what the lookup of a reference finds, \<open>carried\<close> is what
  a decision does to the book. The rules say that the code does exactly that and keeps the
  invariant, for every decision.
\<close>

section \<open>The abstract effect\<close>

definition refers :: "tx \<Rightarrow> tx \<Rightarrow> bool" where
  "refers t u \<longleftrightarrow> t_providerID u = t_providerID t \<and> t_providerID t \<noteq> []
     \<and> t_externalTransactionID u = t_referenceExternalID t \<and> t_referenceExternalID t \<noteq> []"

text \<open>
  The reference of an operation: the operation it names, if the book has it, and for a reversal
  whether a processed reversal of it is in the book.
\<close>

definition looked_up :: "book \<Rightarrow> tx \<Rightarrow> reference option \<Rightarrow> bool" where
  "looked_up B t ref \<longleftrightarrow>
     (case ref of
        None \<Rightarrow> \<forall>u \<in> set (bk_txs B). \<not> refers t u
      | Some r \<Rightarrow> (\<exists>u \<in> set (bk_txs B). refers t u \<and> ref_transaction r = Some u
          \<and> (Reversal (t_kind t) \<longrightarrow> ref_alreadyReversed r =
               (\<exists>v \<in> set (bk_txs B). processed_reversal v \<and> t_referenceTransactionID v = t_id u))))"

lemma looked_up_resolved: "looked_up B t ref \<Longrightarrow> resolved B ref"
  by (auto simp: looked_up_def resolved_def split: option.splits)

text \<open>
  A decision on the operation \<open>t\<close> of the wallet \<open>w\<close> turns the book \<open>B\<close> into \<open>B'\<close>, the operation
  into \<open>t'\<close>, leaves the balance \<open>b\<close> and writes the entry \<open>eo\<close>, if any.
\<close>

definition carried :: "book \<Rightarrow> wallet \<Rightarrow> tx \<Rightarrow> decision \<Rightarrow> time \<Rightarrow> tx \<Rightarrow> ledger_entry option \<Rightarrow> money
    \<Rightarrow> book \<Rightarrow> bool" where
  "carried B w t dec now t' eo b B' \<longleftrightarrow>
     (\<exists>eid n deadline w'. enact w t dec eid n deadline now = Inr (w', t') \<and> b = w_balance w'
        \<and> (case eo of
             None \<Rightarrow> (d_outcome dec = OutcomeProcess \<longrightarrow> \<not> movement_Present (d_movement dec))
               \<and> B' = B\<lparr>bk_txs := replace_tx t' (bk_txs B)\<rparr>
           | Some e \<Rightarrow> d_outcome dec = OutcomeProcess \<and> movement_Present (d_movement dec)
               \<and> e = moved_entry w (mv_direction (d_movement dec)) (t_id t) (t_amount t) eid now
               \<and> B' = settle_movement w' t' e B))"

section \<open>The code does it\<close>

lemma wp_carry_movement:
  assumes h: "holds (st_db s) B" and o: "open_on B w t" and ref: "resolved B ref"
    and d: "Decide w t ref now' = Inr dec"
    and p: "d_outcome dec = OutcomeProcess" "movement_Present (d_movement dec)"
    and ok: "\<And>e w' t' B' dd k. \<lbrakk>carried B w t dec now t' (Some e) (w_balance w') B'; holds dd B';
      same_mail (st_db s) dd\<rbrakk> \<Longrightarrow> P e w' t' (s\<lparr>st_tick := k, st_db := dd\<rparr>)"
    and err: "\<And>e s'. E e s'"
  shows "wpM (applyFinancialMovement w t dec now) c s
    (\<lambda>(e, w', t') s'. wpM (Transactions_Update t') c s' (\<lambda>_. P e w' t') E) E"
proof -
  obtain dr r where dec: "dec = process dr (t_amount t) r" "dr = Debit \<or> dr = Credit" and k: "MovesBalance (t_kind t)"
    and mp: "\<And>b now t'. MarkProcessed t b r now = Inr t' \<Longrightarrow> moved_direction (bk_txs B) t' dr
      \<and> (processed_reversal t' \<longrightarrow> (\<exists>t0 \<in> set (bk_txs B). undoes t' t0))"
    using moves_by_decision [OF o ref d p] by metis
  have dv: "direction_Valid dr" using dec(2) by (auto simp: direction_Valid_def)
  have wi: "wallet_inv w" by (rule open_onD(1) [OF o])
  show ?thesis
  proof (rule wp_applyFinancialMovement [OF h o dec])
    fix eid e w' t' dd kk
    assume m: "wallet_move w dr (t_id t) (t_amount t) eid now = Inr (e, w')"
      "MarkProcessed t (w_balance w') r now = Inr t'" "eid \<notin> le_id ` set (bk_entries B)"
      and rep: "represents dd (half_moved w' e B)" and sm: "same_mail (st_db s) dd"
    have en: "enact w t dec eid n dl now = Inr (w', t')" for n dl
      using m p by (simp add: enact_def dec(1))
    have "carried B w t dec now t' (Some e) (w_balance w') (settle_movement w' t' e B)"
      unfolding carried_def
      by (rule exI [of _ eid], intro exI [of _ 0] exI [of _ w'])
        (use en p m(1) dec(1) in \<open>simp add: wallet_move_eq_Inr [OF wi dv]\<close>)
    note c = ok [OF this]
    have "wpM (Transactions_Update t') c (s\<lparr>st_tick := kk, st_db := dd\<rparr>) (\<lambda>_. P e w' t') E"
    proof (rule wp_Update_movement [OF _ o m(1) dv m(2,3) k])
      show "represents (st_db (s\<lparr>st_tick := kk, st_db := dd\<rparr>)) (half_moved w' e B)" using rep by simp
      show "moved_direction (bk_txs B) t' dr" using mp [OF m(2)] by simp
      show "processed_reversal t' \<longrightarrow> (\<exists>t0 \<in> set (bk_txs B). undoes t' t0)" using mp [OF m(2)] by simp
      fix d2 k2 assume "holds d2 (settle_movement w' t' e B)"
        and m2: "same_mail (st_db (s\<lparr>st_tick := kk, st_db := dd\<rparr>)) d2"
      moreover have "same_mail (st_db s) d2" using sm m2 by (simp add: same_mail_def)
      ultimately show "P e w' t' (s\<lparr>st_tick := kk, st_db := dd\<rparr>\<lparr>st_tick := k2, st_db := d2\<rparr>)"
        using c by simp
    qed (rule err)
    then show "(case (e, w', t') of (e, w', t') \<Rightarrow> \<lambda>s'. wpM (Transactions_Update t') c s' (\<lambda>_. P e w' t') E)
        (s\<lparr>st_tick := kk, st_db := dd\<rparr>)" by simp
  qed (rule err)
qed

lemma wp_carry_mark:
  assumes h: "holds (st_db s) B" and o: "open_on B w t"
    and m: "harmless (bk_wallets B) t t'" "enact w t dec eid n deadline now = Inr (w, t')"
    and p: "d_outcome dec = OutcomeProcess \<longrightarrow> \<not> movement_Present (d_movement dec)"
    and ok: "\<And>B' dd k. \<lbrakk>carried B w t dec now t' None (w_balance w) B'; holds dd B';
      same_mail (st_db s) dd\<rbrakk> \<Longrightarrow> P (s\<lparr>st_tick := k, st_db := dd\<rparr>)"
    and err: "\<And>e s'. E e s'"
  shows "wpM (Transactions_Update t') c s (\<lambda>_. P) E"
proof (rule wp_Update_harmless [OF h _ m(1)])
  show "t \<in> set (bk_txs B)" using o by (simp add: open_on_def)
  have "carried B w t dec now t' None (w_balance w) (B\<lparr>bk_txs := replace_tx t' (bk_txs B)\<rparr>)"
    unfolding carried_def using m(2) p by auto
  note ok [OF this]
  then show "\<And>d k. holds d (B\<lparr>bk_txs := replace_tx t' (bk_txs B)\<rparr>) \<Longrightarrow> same_mail (st_db s) d
      \<Longrightarrow> P (s\<lparr>st_tick := k, st_db := d\<rparr>)" by blast
qed (rule err)

section \<open>What a carried decision leaves\<close>

lemma transition_status:
  "MarkProcessed t b r now = Inr t' \<Longrightarrow> t_status t' = Processed"
  "MarkRejected t code b now = Inr t' \<Longrightarrow> t_status t' = Rejected"
  "MarkPendingReference t n d now = Inr t' \<Longrightarrow> t_status t' = PendingReference"
  "Reschedule t n now = Inr t' \<Longrightarrow> t_status t' = PendingReference"
  "MarkFailed t now = Inr t' \<Longrightarrow> t_status t' = Failed"
  by (simp_all add: transition_eqs)

fun outcome_status :: "outcome \<Rightarrow> status" where
  "outcome_status OutcomeProcess = Processed"
| "outcome_status OutcomeReject = Rejected"
| "outcome_status OutcomeWaitReference = PendingReference"

lemma enact_step:
  assumes "enact w t dec eid n deadline now = Inr (w', t')"
  shows "tx_step t t'" "t_status t' = outcome_status (d_outcome dec)"
proof -
  have "tx_step t t' \<and> t_status t' = outcome_status (d_outcome dec)"
  proof (cases "d_outcome dec")
    case OutcomeProcess
    then obtain b where "MarkProcessed t b (d_referenceID dec) now = Inr t'"
      using assms by (auto simp: enact_def bindR_eq_Inr)
    then show ?thesis using OutcomeProcess by (simp add: step_processed transition_status)
  next
    case OutcomeReject
    then have "MarkRejected t (d_failureCode dec) (w_balance w) now = Inr t'"
      using assms by (auto simp: enact_def bindR_eq_Inr)
    then show ?thesis using OutcomeReject by (simp add: step_rejected transition_status)
  next
    case OutcomeWaitReference
    show ?thesis
    proof (cases "t_status t = Pending")
      case True
      then have "MarkPendingReference t n deadline now = Inr t'"
        using assms OutcomeWaitReference by (auto simp: enact_def bindR_eq_Inr)
      then show ?thesis using OutcomeWaitReference by (simp add: step_pending_reference transition_status)
    next
      case False
      then have "Reschedule t n now = Inr t'"
        using assms OutcomeWaitReference by (auto simp: enact_def bindR_eq_Inr)
      then show ?thesis using OutcomeWaitReference by (simp add: step_reschedule transition_status)
    qed
  qed
  then show "tx_step t t'" "t_status t' = outcome_status (d_outcome dec)" by simp_all
qed

lemma carried_operation:
  assumes "carried B w t dec now t' eo b B'"
  shows "tx_step t t'" "same_identity t t'" "t_status t' = outcome_status (d_outcome dec)"
    "bk_txs B' = replace_tx t' (bk_txs B)"
    "map w_id (bk_wallets B') = map w_id (bk_wallets B)"
proof -
  obtain eid n deadline w' where en: "enact w t dec eid n deadline now = Inr (w', t')"
    using assms by (auto simp: carried_def)
  show "tx_step t t'" "t_status t' = outcome_status (d_outcome dec)" by (rule enact_step [OF en])+
  then show "same_identity t t'" by (simp add: tx_step_identity)
  show "bk_txs B' = replace_tx t' (bk_txs B)" "map w_id (bk_wallets B') = map w_id (bk_wallets B)"
    using assms by (cases eo; clarsimp simp: carried_def settle_movement_def)+
qed

section \<open>Waking up the operations that wait\<close>

lemma woken_same: "woken now t t' \<Longrightarrow> same_identity t t' \<and> t_status t' = t_status t"
  by (auto simp: woken_def same_identity_def)

lemma woken_harmless:
  assumes inv: "book_inv B" and t: "t \<in> set (bk_txs B)" and now: "now \<noteq> time_zero" and w: "woken now t t'"
  shows "t' = t \<or> harmless (bk_wallets B) t t'"
proof (rule disjCI)
  assume nh: "\<not> harmless (bk_wallets B) t t'"
  show "t' = t"
  proof (rule ccontr)
    assume ne: "t' \<noteq> t"
    then have st: "t_status t = PendingReference" and t': "t' = t\<lparr>t_nextAttemptAt := now, t_updatedAt := now\<rparr>"
      using w by (auto simp: woken_def)
    have same: "same_identity t t'" using woken_same [OF w] by simp
    have wf: "tx_wf t" by (rule book_tx_wf(1) [OF inv t])
    have k: "t_kind t \<noteq> Opening" using open_not_Opening [OF wf] st by simp
    have wf': "tx_wf t'"
      by (rule tx_wf_transition [OF wf same k])
        (use wf st now k in \<open>auto simp: t' tx_wf_def schedule_fields_def external_fields_def\<close>)
    have ow: "on_wallet (bk_wallets B) t" using inv t by (auto simp: book_inv_def txs_ok_def)
    have "on_wallet (bk_wallets B) t'"
      using ow wf' by (auto simp: t' on_wallet_def storable_def)
    then have "harmless (bk_wallets B) t t'"
      using same st by (auto simp: harmless_def moves_def processed_reversal_def Terminal_def t')
    then show False using nh by simp
  qed
qed

lemma wp_WakeUp_holds:
  assumes h: "holds (st_db s) B" and now: "now \<noteq> time_zero"
    and ok: "\<And>n d t f. \<lbrakk>holds d (B\<lparr>bk_txs := map f (bk_txs B)\<rparr>); same_mail (st_db s) d;
      \<forall>x \<in> set (bk_txs B). woken now x (f x)\<rbrakk> \<Longrightarrow> Q n (s\<lparr>st_tick := t, st_db := d\<rparr>)"
    and err: "\<And>e t. E e (s\<lparr>st_tick := t\<rparr>)"
  shows "wpM (Transactions_WakeUpWaitingFor p x now) c s Q E"
proof (rule wp_WakeUp [OF h now])
  fix n d t f assume r: "represents d (B\<lparr>bk_txs := map f (bk_txs B)\<rparr>)" "same_mail (st_db s) d"
    and f: "\<forall>x \<in> set (bk_txs B). woken now x (f x)"
  have inv: "book_inv B" using h by (simp add: holds_def)
  have "book_inv (B\<lparr>bk_txs := map f (bk_txs B)\<rparr>)"
    using woken_harmless [OF inv _ now] f by (intro book_map_txs [OF inv]) blast
  with r f ok show "Q n (s\<lparr>st_tick := t, st_db := d\<rparr>)" by (simp add: holds_def)
qed (rule err)

section \<open>After the write-back\<close>

text \<open>The events of a settlement are appended to the outbox, under the key of the wallet.\<close>

definition announced :: "env \<Rightarrow> tx \<Rightarrow> ledger_entry option \<Rightarrow> db \<Rightarrow> db \<Rightarrow> bool" where
  "announced c t' eo d d' \<longleftrightarrow>
     (\<exists>rs. db_outbox d' = db_outbox d @ rs \<and> map xr_event_type rs = map type_String (settlement_types t' eo)
        \<and> (\<forall>r \<in> set rs. xr_partition_key r = e_uuid_text c (t_walletID t') \<and> xr_published_at r = None))"

lemma wp_announce:
  assumes hd: "holds (st_db s) B" and now: "now \<noteq> time_zero"
    and ok: "\<And>d k f. \<lbrakk>\<forall>x \<in> set (bk_txs B). woken now x (f x); holds d (B\<lparr>bk_txs := map f (bk_txs B)\<rparr>);
      db_inbox d = db_inbox (st_db s); announced c t' eo (st_db s) d\<rbrakk>
      \<Longrightarrow> wpM K c (s\<lparr>st_tick := k, st_db := d\<rparr>) Q E"
    and err: "\<And>e s'. E e s'"
  shows "wpM (bindM (appendSettlementEvents now t' eo b) (\<lambda>_.
       bindM (whenM g (bindM (Transactions_WakeUpWaitingFor (t_providerID t') (t_externalTransactionID t') now)
         (\<lambda>_. returnM ()))) (\<lambda>_. K))) c s Q E"
  unfolding wp_bindM
proof (rule wp_appendSettlementEvents)
  fix k and rs :: "outbox_row list"
  assume ty: "map xr_event_type rs = map type_String (settlement_types t' eo)"
    and pk: "\<forall>r \<in> set rs. xr_partition_key r = e_uuid_text c (t_walletID t') \<and> xr_published_at r = None
      \<and> xr_next_attempt_at r = now"
  let ?d = "st_db s\<lparr>db_outbox := db_outbox (st_db s) @ rs\<rparr>"
  have an: "announced c t' eo (st_db s) d'" if "same_mail ?d d'" for d'
    using that ty pk unfolding announced_def same_mail_def by (intro exI [of _ rs]) simp
  have hd': "holds ?d B" using hd by (simp add: holds_def)
  have id: "B\<lparr>bk_txs := map id (bk_txs B)\<rparr> = B" by (cases B) simp
  show "wpM (whenM g (bindM (Transactions_WakeUpWaitingFor (t_providerID t') (t_externalTransactionID t') now)
         (\<lambda>_. returnM ()))) c (s\<lparr>st_tick := k, st_db := ?d\<rparr>) (\<lambda>_ s'. wpM K c s' Q E) E"
  proof (cases g)
    case False
    have "\<forall>x \<in> set (bk_txs B). woken now x (id x)" by (simp add: woken_def)
    moreover have "holds ?d (B\<lparr>bk_txs := map id (bk_txs B)\<rparr>)" unfolding id by (rule hd')
    ultimately have "wpM K c (s\<lparr>st_tick := k, st_db := ?d\<rparr>) Q E"
      by (rule ok [OF _ _ _ an]) simp_all
    with False show ?thesis by (simp add: wp)
  next
    case True
    have "wpM (Transactions_WakeUpWaitingFor (t_providerID t') (t_externalTransactionID t') now) c
        (s\<lparr>st_tick := k, st_db := ?d\<rparr>) (\<lambda>_ s'. wpM K c s' Q E) E"
    proof (rule wp_WakeUp_holds [OF _ now])
      show "holds (st_db (s\<lparr>st_tick := k, st_db := ?d\<rparr>)) B" using hd' by simp
      fix n d2 k2 f assume "holds d2 (B\<lparr>bk_txs := map f (bk_txs B)\<rparr>)"
        "same_mail (st_db (s\<lparr>st_tick := k, st_db := ?d\<rparr>)) d2" "\<forall>x \<in> set (bk_txs B). woken now x (f x)"
      then have "wpM K c (s\<lparr>st_tick := k2, st_db := d2\<rparr>) Q E"
        by (intro ok [OF _ _ _ an]) (auto simp: same_mail_def)
      then show "wpM K c (s\<lparr>st_tick := k, st_db := ?d\<rparr>\<lparr>st_tick := k2, st_db := d2\<rparr>) Q E" by simp
    qed (rule err)
    with True show ?thesis by (simp add: wp)
  qed
qed (rule err)

end
