(* ===== verification/ProcessWager.thy ===== *)
theory ProcessWager
  imports Carry UnitOfWork
begin

text \<open>
  Settling an operation as it arrives: \<open>process_wager_transaction.go\<close> of
  \<open>internal/application/usecase\<close>, every function of it, over the unit of work. Go's
  \<open>dto.ProcessWagerResult{}\<close> beside an error is no value of the model, and the pair of a result
  and \<open>handled\<close> that \<open>registerInbox\<close> returns is an optional result.

  Facts: a run of the closure answers with a stored outcome and leaves everything else as it
  was, or settles one new operation exactly as the decision on the book says, announces it and
  wakes up who waits for it; the whole keeps the invariant of the service under every fault.
\<close>

section \<open>The code\<close>

definition ConsumerName :: string where
  "ConsumerName = ''wager-transactions-consumer''"

record process_settings =
  ps_referenceBackoff :: duration
  ps_referenceTTL :: duration

definition process_wakeUpWaiting :: "tx \<Rightarrow> time \<Rightarrow> unit M" where
  "process_wakeUpWaiting operation now =
     bindM (Transactions_WakeUpWaitingFor (t_providerID operation) (t_externalTransactionID operation) now)
       (\<lambda>awakened. returnM ())"

text \<open>The second half of \<open>registerInbox\<close>: the message is in the inbox already.\<close>

definition registerInbox_existing :: "process_input \<Rightarrow> inbox_message option \<Rightarrow> process_result option M" where
  "registerInbox_existing input found =
     (case found of
        None \<Rightarrow> throwM (ERepo RepoTransient)
      | Some existing \<Rightarrow>
          if \<not> SameContent existing (pi_rawBodyHash input) then throwM EPayloadMismatch
          else if \<not> Completed existing then throwM (ERepo RepoTransient)
          else bindM (Transactions_FindByID (im_transactionID existing)) (\<lambda>settled.
            case settled of
              None \<Rightarrow> throwM (ERepo RepoTransient)
            | Some t \<Rightarrow>
                returnM (Some (WagerResult t True\<lparr>pr_inboxOutcome := im_outcome existing\<rparr>))))"

definition registerInbox :: "process_input \<Rightarrow> process_result option M" where
  "registerInbox input =
     bindM clock_Now (\<lambda>now.
     bindM (liftR (NewInboxMessage ConsumerName (pi_messageID input) (pi_rawBodyHash input) now)) (\<lambda>message.
     bindM (Inbox_Insert message) (\<lambda>inserted.
     if inserted then returnM None
     else bindM (Inbox_Find ConsumerName (pi_messageID input)) (registerInbox_existing input))))"

definition inbox_outcome_of :: "process_result \<Rightarrow> inbox_outcome" where
  "inbox_outcome_of res =
     (if pr_idempotentReplay res then InboxReplay
      else if pr_status res = Rejected then InboxRejected
      else if pr_status res = PendingReference then InboxPendingReference
      else InboxProcessed)"

definition completeInbox :: "string \<Rightarrow> process_result \<Rightarrow> time \<Rightarrow> unit M" where
  "completeInbox messageID res now =
     Inbox_Complete ConsumerName messageID (inbox_outcome_of res) (pr_transactionID res) now"

definition process_replay :: "process_input \<Rightarrow> string \<Rightarrow> time \<Rightarrow> process_result M" where
  "process_replay input payloadHash now =
     bindM (Transactions_FindByIdempotencyKey (pi_providerID input) (pi_idempotencyKey input)) (\<lambda>found.
     case found of
       Some existing \<Rightarrow>
         if t_payloadHash existing \<noteq> payloadHash
         then throwM (EConflict ConflictIdempotencyKey (t_id existing))
         else (let res = WagerResult existing True in
           bindM (whenM (FromQueue input) (completeInbox (pi_messageID input) res now)) (\<lambda>_.
           returnM res))
     | None \<Rightarrow>
         bindM (Transactions_FindByExternalID (pi_providerID input) (pi_externalTransactionID input)) (\<lambda>reused.
         case reused of
           Some t \<Rightarrow> throwM (EConflict ConflictExternalID (t_id t))
         | None \<Rightarrow> throwM (ERepo RepoTransient)))"

definition process_resolveReference :: "tx \<Rightarrow> reference option M" where
  "process_resolveReference operation =
     (if t_referenceExternalID operation = [] then returnM None
      else bindM (Transactions_FindByExternalID (t_providerID operation) (t_referenceExternalID operation)) (\<lambda>found.
        case found of
          None \<Rightarrow> returnM None
        | Some original \<Rightarrow>
            if Reversal (t_kind operation)
            then bindM (Transactions_HasSuccessfulReversal (t_id original)) (\<lambda>reversed.
              returnM (Some \<lparr>ref_transaction = Some original, ref_alreadyReversed = reversed\<rparr>))
            else returnM (Some \<lparr>ref_transaction = Some original, ref_alreadyReversed = False\<rparr>)))"

definition process_applyMovement ::
  "wallet \<Rightarrow> tx \<Rightarrow> decision \<Rightarrow> time \<Rightarrow> (ledger_entry option \<times> wallet \<times> tx) M" where
  "process_applyMovement account operation dec now =
     bindM (applyFinancialMovement account operation dec now) (\<lambda>(entry, account', operation').
     returnM (Some entry, account', operation'))"

definition process_settle :: "process_settings \<Rightarrow> wallet \<Rightarrow> tx \<Rightarrow> decision \<Rightarrow> time
    \<Rightarrow> (ledger_entry option \<times> wallet \<times> tx) M" where
  "process_settle settings account operation dec now =
     (case d_outcome dec of
        OutcomeReject \<Rightarrow>
          bindM (liftR (MarkRejected operation (d_failureCode dec) (w_balance account) now))
            (\<lambda>operation'. returnM (None, account, operation'))
      | OutcomeWaitReference \<Rightarrow>
          (let deadline = t_createdAt operation + ps_referenceTTL settings;
               nextAttempt = now + ps_referenceBackoff settings in
           bindM (liftR (MarkPendingReference operation nextAttempt deadline now))
             (\<lambda>operation'. returnM (None, account, operation')))
      | OutcomeProcess \<Rightarrow>
          if \<not> movement_Present (d_movement dec)
          then bindM (liftR (MarkProcessed operation (w_balance account) (d_referenceID dec) now))
            (\<lambda>operation'. returnM (None, account, operation'))
          else process_applyMovement account operation dec now)"

text \<open>The answer, once the operation is settled.\<close>

definition process_answer :: "process_input \<Rightarrow> time \<Rightarrow> tx \<Rightarrow> process_result M" where
  "process_answer input now operation =
     (let res = WagerResult operation False in
      bindM (whenM (FromQueue input) (completeInbox (pi_messageID input) res now)) (\<lambda>_.
      returnM res))"

text \<open>The rest of \<open>run\<close>, for a message that is not in the inbox yet.\<close>

definition process_register :: "process_settings \<Rightarrow> process_input \<Rightarrow> string \<Rightarrow> time \<Rightarrow> process_result M" where
  "process_register settings input payloadHash now =
     bindM ids_New (\<lambda>i.
     bindM (liftR (NewExternal (WagerCommand input payloadHash) i now)) (\<lambda>operation.
     bindM (Transactions_Insert operation) (\<lambda>inserted.
     if \<not> inserted then process_replay input payloadHash now
     else
     bindM (Wallets_FindForUpdate (pi_walletID input)) (\<lambda>account.
     bindM (process_resolveReference operation) (\<lambda>ref.
     bindM (liftR (Decide account operation ref now)) (\<lambda>dec.
     bindM (process_settle settings account operation dec now) (\<lambda>(entry, account', operation').
     bindM (Transactions_Update operation') (\<lambda>_.
     bindM (appendSettlementEvents now operation' entry (w_balance account')) (\<lambda>_.
     bindM (whenM (Terminal (t_status operation')) (process_wakeUpWaiting operation' now)) (\<lambda>_.
     process_answer input now operation'))))))))))"

definition process_run :: "process_settings \<Rightarrow> process_input \<Rightarrow> string \<Rightarrow> process_result M" where
  "process_run settings input payloadHash =
     bindM clock_Now (\<lambda>now.
     bindM (if FromQueue input then registerInbox input else returnM None) (\<lambda>handled.
     case handled of
       Some replay \<Rightarrow> returnM replay
     | None \<Rightarrow> process_register settings input payloadHash now))"

definition process_Execute :: "uow_settings \<Rightarrow> process_settings \<Rightarrow> process_input \<Rightarrow> process_result M" where
  "process_Execute unitOfWork settings input =
     bindM (askM (\<lambda>c. c)) (\<lambda>c.
     bindM (liftR (process_Validate c input)) (\<lambda>_.
     bindM clock_Now (\<lambda>startedAt.
     (let payloadHash = idempotency_Hash (e_uuid_text c) (IdempotencyPayload input) in
     bindM (uow_Do unitOfWork (process_run settings input payloadHash)) (\<lambda>res.
     bindM clock_Now (\<lambda>endedAt. returnM res))))))"

section \<open>The steps\<close>

text \<open>
  The rules below are for safety: what holds of the tables when a call succeeds. A
  postcondition speaks of the result and of the tables.
\<close>

lemma wp_resolveReference:
  assumes h: "holds (st_db s) B"
    and ok: "\<And>ref t. looked_up B operation ref \<Longrightarrow> Q ref (s\<lparr>st_tick := t\<rparr>)"
    and err: "\<And>e s'. E e s'"
  shows "wpM (process_resolveReference operation) c s Q E"
proof (cases "t_referenceExternalID operation = []")
  case True
  then have "looked_up B operation None" by (simp add: looked_up_def refers_def)
  from ok [OF this, of "st_tick s"] have "Q None s" by simp
  with True show ?thesis by (simp add: process_resolveReference_def wp)
next
  case ext: False
  show ?thesis
    unfolding process_resolveReference_def if_not_P [OF ext] wp_bindM
  proof (rule wp_FindByExternalID [OF h])
    fix x t
    assume x: "case x of
          None \<Rightarrow> \<forall>u \<in> set (bk_txs B). \<not> (t_providerID u = t_providerID operation \<and> t_providerID operation \<noteq> []
            \<and> t_externalTransactionID u = t_referenceExternalID operation \<and> t_referenceExternalID operation \<noteq> [])
        | Some u \<Rightarrow> u \<in> set (bk_txs B) \<and> t_providerID u = t_providerID operation \<and> t_providerID operation \<noteq> []
            \<and> t_externalTransactionID u = t_referenceExternalID operation \<and> t_referenceExternalID operation \<noteq> []"
    show "wpM (case x of None \<Rightarrow> returnM None | Some original \<Rightarrow>
            if Reversal (t_kind operation)
            then bindM (Transactions_HasSuccessfulReversal (t_id original)) (\<lambda>reversed.
              returnM (Some \<lparr>ref_transaction = Some original, ref_alreadyReversed = reversed\<rparr>))
            else returnM (Some \<lparr>ref_transaction = Some original, ref_alreadyReversed = False\<rparr>)) c
          (s\<lparr>st_tick := t\<rparr>) Q E"
    proof (cases x)
      case None
      with x have "looked_up B operation None" by (simp add: looked_up_def refers_def)
      with None ok show ?thesis by (simp add: wp)
    next
      case (Some u)
      with x have u: "u \<in> set (bk_txs B)" "refers operation u" by (simp_all add: refers_def)
      have nz: "t_id u \<noteq> uuid_Nil" using h book_tx_wf(1) [of B u] u by (simp add: holds_def tx_wf_def)
      show ?thesis
      proof (cases "Reversal (t_kind operation)")
        case True
        have h': "holds (st_db (s\<lparr>st_tick := t\<rparr>)) B" using h by simp
        have "wpM (Transactions_HasSuccessfulReversal (t_id u)) c (s\<lparr>st_tick := t\<rparr>)
            (\<lambda>b. Q (Some \<lparr>ref_transaction = Some u, ref_alreadyReversed = b\<rparr>)) E"
        proof (rule wp_HasSuccessfulReversal [OF h'])
          fix b k
          assume "b = (\<exists>v \<in> set (bk_txs B). processed_reversal v \<and> t_referenceTransactionID v = t_id u
              \<and> t_id u \<noteq> uuid_Nil)"
          then have "looked_up B operation (Some \<lparr>ref_transaction = Some u, ref_alreadyReversed = b\<rparr>)"
            using u nz by (auto simp: looked_up_def)
          from ok [OF this, of k]
          show "Q (Some \<lparr>ref_transaction = Some u, ref_alreadyReversed = b\<rparr>) (s\<lparr>st_tick := t\<rparr>\<lparr>st_tick := k\<rparr>)"
            by simp
        qed (rule err)
        with Some True show ?thesis by (simp add: wp)
      next
        case False
        then have "looked_up B operation (Some \<lparr>ref_transaction = Some u, ref_alreadyReversed = False\<rparr>)"
          using u by (auto simp: looked_up_def)
        with Some False ok show ?thesis by (simp add: wp)
      qed
    qed
  qed (rule err)
qed

lemma wp_process_settle:
  assumes h: "holds (st_db s) B" and o: "open_on B w t" and ref: "resolved B ref"
    and st: "d_outcome dec = OutcomeWaitReference \<longrightarrow> t_status t = Pending" and d: "Decide w t ref now' = Inr dec"
    and ok: "\<And>eo w' t' B' dd k. \<lbrakk>carried B w t dec now t' eo (w_balance w') B'; holds dd B';
      same_mail (st_db s) dd\<rbrakk> \<Longrightarrow> P eo w' t' (s\<lparr>st_tick := k, st_db := dd\<rparr>)"
    and err: "\<And>e s'. E e s'"
  shows "wpM (process_settle settings w t dec now) c s
    (\<lambda>(eo, w', t') s'. wpM (Transactions_Update t') c s' (\<lambda>_. P eo w' t') E) E"
proof (cases "d_outcome dec")
  case OutcomeProcess
  show ?thesis
  proof (cases "movement_Present (d_movement dec)")
    case True
    have "wpM (applyFinancialMovement w t dec now) c s
        (\<lambda>(e, w', t') s'. wpM (Transactions_Update t') c s' (\<lambda>_. P (Some e) w' t') E) E"
      using wp_carry_movement [OF h o ref d OutcomeProcess True, where P = "\<lambda>e. P (Some e)"] ok err by blast
    then show ?thesis
      using True OutcomeProcess
      by (simp add: process_settle_def process_applyMovement_def wp split_def)
  next
    case False
    have k: "t_kind t = Loss" by (rule no_movement_is_loss [OF o ref d OutcomeProcess False])
    have "wpM (Transactions_Update t') c s (\<lambda>_. P None w t') E"
      if m: "MarkProcessed t (w_balance w) (d_referenceID dec) now = Inr t'" for t'
    proof (rule wp_carry_mark [OF h o loss_harmless [OF o _ k]])
      show "enact w t dec 0 0 0 now = Inr (w, t')" using m False OutcomeProcess by (simp add: enact_def)
    qed (use False ok err m in auto)
    then show ?thesis
      using False OutcomeProcess by (auto simp: process_settle_def wp err split: sum.splits)
  qed
next
  case OutcomeReject
  have "wpM (Transactions_Update t') c s (\<lambda>_. P None w t') E"
    if m: "MarkRejected t (d_failureCode dec) (w_balance w) now = Inr t'" for t'
  proof (rule wp_carry_mark [OF h o rejected_harmless [OF o m]])
    show "enact w t dec 0 0 0 now = Inr (w, t')" using m OutcomeReject by (simp add: enact_def)
  qed (use OutcomeReject ok err in auto)
  then show ?thesis
    using OutcomeReject by (auto simp: process_settle_def wp err split: sum.splits)
next
  case OutcomeWaitReference
  have "wpM (Transactions_Update t') c s (\<lambda>_. P None w t') E"
    if m: "MarkPendingReference t n dl now = Inr t'" for t' n dl
  proof (rule wp_carry_mark [OF h o parked_harmless [OF o m]])
    show "enact w t dec 0 n dl now = Inr (w, t')" using m OutcomeWaitReference st by (simp add: enact_def)
  qed (use OutcomeWaitReference ok err in auto)
  then show ?thesis
    using OutcomeWaitReference by (auto simp: process_settle_def Let_def wp err split: sum.splits)
qed

section \<open>One new operation\<close>

definition with_tx :: "tx \<Rightarrow> book \<Rightarrow> book" where
  "with_tx t B = B\<lparr>bk_txs := bk_txs B @ [t]\<rparr>"

lemma with_tx_sel [simp]:
  "bk_wallets (with_tx t B) = bk_wallets B" "bk_txs (with_tx t B) = bk_txs B @ [t]"
  "bk_entries (with_tx t B) = bk_entries B"
  by (simp_all add: with_tx_def)

text \<open>
  The effect of settling a new operation on the book: it is created, decided on with the
  reference the book holds, carried out, and who waits for it is woken up.
\<close>

definition settled_new :: "command \<Rightarrow> book \<Rightarrow> tx \<Rightarrow> ledger_entry option \<Rightarrow> book \<Rightarrow> bool" where
  "settled_new cmd B t' eo B' \<longleftrightarrow>
     (\<exists>j now t w ref dec b B1 f. NewExternal cmd j now = Inr t \<and> (\<forall>u \<in> set (bk_txs B). \<not> clash t u)
        \<and> w \<in> set (bk_wallets B) \<and> w_id w = t_walletID t \<and> looked_up (with_tx t B) t ref
        \<and> Decide w t ref now = Inr dec \<and> carried (with_tx t B) w t dec now t' eo b B1
        \<and> (\<forall>x \<in> set (bk_txs B1). woken now x (f x)) \<and> B' = B1\<lparr>bk_txs := map f (bk_txs B1)\<rparr>)"

lemma new_storable:
  assumes "NewExternal cmd j now = Inr t" "wallet_inv w"
  shows "storable (currency (w_balance w)) t" "\<not> moves t" "\<not> processed_reversal t"
    "t_status t = Pending" "t_walletID t = c_walletID cmd" "kind_Valid (t_kind t)" "status_Valid (t_status t)"
    "now \<noteq> time_zero"
proof -
  have wf: "tx_wf t" "t_status t = Pending" using NewExternal_wf [OF assms(1)] by simp_all
  show "t_status t = Pending" "\<not> moves t" "\<not> processed_reversal t" using wf by (simp_all add: moves_def processed_reversal_def)
  show "status_Valid (t_status t)" "kind_Valid (t_kind t)"
    using wf tx_wf_kind_origin [OF wf(1)] by (simp_all add: tx_wf_def)
  have eq: "t = new_tx cmd j now" "now \<noteq> time_zero" using assms(1) by (simp_all add: NewExternal_eq_Inr)
  then show "t_walletID t = c_walletID cmd" "now \<noteq> time_zero" by (simp_all add: new_tx_def)
  have "\<not> Valid (t_resultBalance t)" using wf by (auto simp: tx_wf_def)
  moreover have "t_resultBalance t = money_zero_value" using eq by (simp add: new_tx_def)
  ultimately show "storable (currency (w_balance w)) t"
    using wf assms(2) by (simp add: storable_def wallet_inv_def Valid_def)
qed

lemma new_open_on:
  assumes "book_inv B" "NewExternal cmd j now = Inr t" "\<forall>u \<in> set (bk_txs B). \<not> clash t u"
    "w \<in> set (bk_wallets B)" "w_id w = t_walletID t"
  shows "open_on (with_tx t B) w t"
proof -
  have wi: "wallet_inv w" by (rule book_wallet_inv [OF assms(1,4)])
  note n = new_storable [OF assms(2) wi]
  have "on_wallet (bk_wallets B) t" using assms(4,5) n by (auto simp: on_wallet_def)
  then have "book_inv (with_tx t B)"
    unfolding with_tx_def using book_add_tx [OF assms(1) _ assms(3)] n by blast
  then show ?thesis using assms(4,5) n by (simp add: open_on_def Terminal_def)
qed

lemma wp_settle_new:
  assumes rep: "represents (st_db s) (with_tx t B)" and inv: "book_inv B"
    and new: "NewExternal (WagerCommand input h) j now = Inr t"
    and cl: "\<forall>u \<in> set (bk_txs B). \<not> clash t u"
    and ok: "\<And>eo t' B' d k. \<lbrakk>settled_new (WagerCommand input h) B t' eo B'; holds d B';
      db_inbox d = db_inbox (st_db s); announced c t' eo (st_db s) d\<rbrakk>
      \<Longrightarrow> wpM (K t') c (s\<lparr>st_tick := k, st_db := d\<rparr>) Q E"
    and err: "\<And>e s'. E e s'" and wal: "\<exists>w \<in> set (bk_wallets B). w_id w = t_walletID t"
  shows "wpM (bindM (Wallets_FindForUpdate (pi_walletID input)) (\<lambda>account.
     bindM (process_resolveReference t) (\<lambda>ref.
     bindM (liftR (Decide account t ref now)) (\<lambda>dec.
     bindM (process_settle settings account t dec now) (\<lambda>(entry, account', operation').
     bindM (Transactions_Update operation') (\<lambda>_.
     bindM (appendSettlementEvents now operation' entry (w_balance account')) (\<lambda>_.
     bindM (whenM (Terminal (t_status operation')) (process_wakeUpWaiting operation' now)) (\<lambda>_.
     K operation')))))))) c s Q E"
proof -
  have wid: "t_walletID t = pi_walletID input"
    using new by (auto simp: NewExternal_eq_Inr new_tx_def WagerCommand_def)
  obtain w0 where "w0 \<in> set (bk_wallets B)" "w_id w0 = t_walletID t" using wal by blast
  then have bi: "book_inv (with_tx t B)" using new_open_on [OF inv new cl] by (simp add: open_on_def)
  have h: "holds (st_db s) (with_tx t B)" using rep bi by (simp add: holds_def)
  have st: "d_outcome dec = OutcomeWaitReference \<longrightarrow> t_status t = Pending" for dec :: decision
    using NewExternal_wf [OF new] by simp
  show ?thesis
    unfolding wp_bindM
  proof (rule wp_Wallets_FindForUpdate [OF h])
    fix w k assume w: "w \<in> set (bk_wallets (with_tx t B))" "w_id w = pi_walletID input"
    then have w': "w \<in> set (bk_wallets B)" "w_id w = t_walletID t" by (simp_all add: wid)
    note o = new_open_on [OF inv new cl w']
    have h1: "holds (st_db (s\<lparr>st_tick := k\<rparr>)) (with_tx t B)" using h by simp
    have now: "now \<noteq> time_zero" using new by (simp add: NewExternal_eq_Inr)
    show "wpM (process_resolveReference t) c (s\<lparr>st_tick := k\<rparr>) (\<lambda>x s'.
        wpM (liftR (Decide w t x now)) c s' (\<lambda>x s'. wpM (process_settle settings w t x now) c s' (\<lambda>x s'.
        wpM (case x of (entry, account', operation') \<Rightarrow> bindM (Transactions_Update operation') (\<lambda>_.
          bindM (appendSettlementEvents now operation' entry (w_balance account')) (\<lambda>_.
          bindM (whenM (Terminal (t_status operation')) (process_wakeUpWaiting operation' now)) (\<lambda>_.
          K operation')))) c s' Q E) E) E) E"
    proof (rule wp_resolveReference [OF h1])
      fix ref k2 assume lk: "looked_up (with_tx t B) t ref"
      note res = looked_up_resolved [OF lk]
      have h2: "holds (st_db (s\<lparr>st_tick := k2\<rparr>)) (with_tx t B)" using h by simp
      have "wpM (process_settle settings w t dec now) c (s\<lparr>st_tick := k2\<rparr>) (\<lambda>x s'.
        wpM (case x of (entry, account', operation') \<Rightarrow> bindM (Transactions_Update operation') (\<lambda>_.
          bindM (appendSettlementEvents now operation' entry (w_balance account')) (\<lambda>_.
          bindM (whenM (Terminal (t_status operation')) (process_wakeUpWaiting operation' now)) (\<lambda>_.
          K operation')))) c s' Q E) E" if dec: "Decide w t ref now = Inr dec" for dec
      proof (rule wpM_mono [OF wp_process_settle [OF h2 o res st dec, where now = now and E = E
            and P = "\<lambda>eo w' t' s'. wpM (bindM (appendSettlementEvents now t' eo (w_balance w')) (\<lambda>_.
              bindM (whenM (Terminal (t_status t')) (process_wakeUpWaiting t' now)) (\<lambda>_. K t'))) c s' Q E"]])
        fix eo w1 t' B1 d k3
        assume ca: "carried (with_tx t B) w t dec now t' eo (w_balance w1) B1" and hd: "holds d B1"
          and sm: "same_mail (st_db (s\<lparr>st_tick := k2\<rparr>)) d"
        show "wpM (bindM (appendSettlementEvents now t' eo (w_balance w1)) (\<lambda>_.
            bindM (whenM (Terminal (t_status t')) (process_wakeUpWaiting t' now)) (\<lambda>_. K t'))) c
            (s\<lparr>st_tick := k2\<rparr>\<lparr>st_tick := k3, st_db := d\<rparr>) Q E"
          unfolding process_wakeUpWaiting_def
        proof (rule wp_announce [OF _ now])
          show "holds (st_db (s\<lparr>st_tick := k2\<rparr>\<lparr>st_tick := k3, st_db := d\<rparr>)) B1" using hd by simp
          fix d2 k4 f assume f: "\<forall>x \<in> set (bk_txs B1). woken now x (f x)"
            and e: "holds d2 (B1\<lparr>bk_txs := map f (bk_txs B1)\<rparr>)"
            and m: "db_inbox d2 = db_inbox (st_db (s\<lparr>st_tick := k2\<rparr>\<lparr>st_tick := k3, st_db := d\<rparr>))"
              "announced c t' eo (st_db (s\<lparr>st_tick := k2\<rparr>\<lparr>st_tick := k3, st_db := d\<rparr>)) d2"
          have "settled_new (WagerCommand input h) B t' eo (B1\<lparr>bk_txs := map f (bk_txs B1)\<rparr>)"
            unfolding settled_new_def using new cl w' lk dec ca f by blast
          from ok [OF this e] show "wpM (K t') c
              (s\<lparr>st_tick := k2\<rparr>\<lparr>st_tick := k3, st_db := d\<rparr>\<lparr>st_tick := k4, st_db := d2\<rparr>) Q E"
            using m sm by (simp add: same_mail_def announced_def)
        qed (rule err)
      qed (auto simp: wp_bindM err)
      then show "wpM (liftR (Decide w t ref now)) c (s\<lparr>st_tick := k\<rparr>\<lparr>st_tick := k2\<rparr>)
         (\<lambda>x s'. wpM (process_settle settings w t x now) c s' (\<lambda>x s'.
        wpM (case x of (entry, account', operation') \<Rightarrow> bindM (Transactions_Update operation') (\<lambda>_.
          bindM (appendSettlementEvents now operation' entry (w_balance account')) (\<lambda>_.
          bindM (whenM (Terminal (t_status operation')) (process_wakeUpWaiting operation' now)) (\<lambda>_.
          K operation')))) c s' Q E) E) E"
        by (auto simp: wp_liftR err split: sum.split)
    qed (rule err)
  qed (rule err)
qed

section \<open>The whole run\<close>

text \<open>
  What the inbox keeps of a message: handled, with the outcome and the operation answered with.
\<close>

definition handled_row :: "process_input \<Rightarrow> process_result \<Rightarrow> inbox_row \<Rightarrow> bool" where
  "handled_row input res r \<longleftrightarrow> same_message ConsumerName (pi_messageID input) r
     \<and> ir_payload_hash r = pi_rawBodyHash input
     \<and> ir_outcome r = Some (outcome_String (inbox_outcome_of res))
     \<and> ir_transaction_id r = nullUUID (pr_transactionID res)"

definition recorded :: "process_input \<Rightarrow> process_result \<Rightarrow> db \<Rightarrow> db \<Rightarrow> bool" where
  "recorded input res d d' \<longleftrightarrow>
     (if FromQueue input
      then (\<forall>r \<in> set (db_inbox d). \<not> same_message ConsumerName (pi_messageID input) r)
        \<and> (\<exists>r. db_inbox d' = db_inbox d @ [r] \<and> handled_row input res r)
      else db_inbox d' = db_inbox d)"

text \<open>
  The three ways an operation is answered: the message was handled before, the operation was
  recorded before, or it is new.
\<close>

inductive process_outcome :: "env \<Rightarrow> process_input \<Rightarrow> string \<Rightarrow> book \<Rightarrow> db \<Rightarrow> process_result \<Rightarrow> db \<Rightarrow> bool"
  for c input h B d where
  redelivered: "\<lbrakk>FromQueue input; r \<in> set (db_inbox d); same_message ConsumerName (pi_messageID input) r;
      scanInboxMessage r = Inr m; SameContent m (pi_rawBodyHash input); Completed m;
      t \<in> set (bk_txs B); t_id t = im_transactionID m\<rbrakk>
    \<Longrightarrow> process_outcome c input h B d (WagerResult t True\<lparr>pr_inboxOutcome := im_outcome m\<rparr>) d"
| replayed: "\<lbrakk>t \<in> set (bk_txs B); t_providerID t = pi_providerID input;
      t_idempotencyKey t = pi_idempotencyKey input; t_payloadHash t = h;
      pi_providerID input \<noteq> []; pi_idempotencyKey input \<noteq> []; represents d' B; db_outbox d' = db_outbox d; recorded input (WagerResult t True) d d'\<rbrakk>
    \<Longrightarrow> process_outcome c input h B d (WagerResult t True) d'"
| settled: "\<lbrakk>settled_new (WagerCommand input h) B t eo B'; holds d' B'; announced c t eo d d';
      recorded input (WagerResult t False) d d'\<rbrakk>
    \<Longrightarrow> process_outcome c input h B d (WagerResult t False) d'"

inductive_cases process_outcome_from: "process_outcome c input h B d res d'"

text \<open>The state after the message was registered: its row is open, or there was no message.\<close>

definition registered :: "process_input \<Rightarrow> db \<Rightarrow> db \<Rightarrow> bool" where
  "registered input d d1 \<longleftrightarrow>
     (if FromQueue input
      then (\<forall>r \<in> set (db_inbox d). \<not> same_message ConsumerName (pi_messageID input) r)
        \<and> (\<exists>r. d1 = d\<lparr>db_inbox := db_inbox d @ [r]\<rparr> \<and> same_message ConsumerName (pi_messageID input) r
              \<and> ir_payload_hash r = pi_rawBodyHash input)
      else d1 = d)"

lemma wp_completeInbox:
  assumes reg: "registered input d d1" and mail: "db_inbox (st_db s) = db_inbox d1"
    and ok: "\<And>d' k. \<lbrakk>recorded input res d d'; db_outbox d' = db_outbox (st_db s);
      \<And>B. represents (st_db s) B \<Longrightarrow> represents d' B\<rbrakk> \<Longrightarrow> Q () (s\<lparr>st_tick := k, st_db := d'\<rparr>)"
  shows "wpM (whenM (FromQueue input) (completeInbox (pi_messageID input) res now)) c s Q (\<lambda>_ _. True)"
proof (cases "FromQueue input")
  case False
  then have "Q () (s\<lparr>st_tick := st_tick s, st_db := st_db s\<rparr>)"
    by (intro ok) (use reg mail in \<open>simp_all add: recorded_def registered_def\<close>)
  with False show ?thesis by (simp add: wp)
next
  case True
  obtain r where r: "db_inbox (st_db s) = db_inbox d @ [r]" "same_message ConsumerName (pi_messageID input) r"
      "ir_payload_hash r = pi_rawBodyHash input"
      "\<forall>r \<in> set (db_inbox d). \<not> same_message ConsumerName (pi_messageID input) r"
    using reg mail True by (auto simp: registered_def)
  let ?g = "\<lambda>r. r\<lparr>ir_outcome := Some (outcome_String (inbox_outcome_of res)),
      ir_transaction_id := nullUUID (pr_transactionID res), ir_completed_at := Some now\<rparr>"
  have keep: "map (\<lambda>x. if same_message ConsumerName (pi_messageID input) x then ?g x else x) (db_inbox d) = db_inbox d"
    using r(4) by (simp add: map_idI)
  have upd: "update_where (same_message ConsumerName (pi_messageID input)) ?g (db_inbox (st_db s))
      = db_inbox d @ [?g r]"
    using r(1,2) keep by (simp add: update_where_def)
  have row: "handled_row input res (?g r)"
    using r by (simp add: handled_row_def same_message_def)
  show ?thesis
    unfolding wp_whenM if_P [OF True] completeInbox_def
  proof (rule wp_Inbox_Complete)
    fix d' k assume d': "d' = st_db s\<lparr>db_inbox := update_where (same_message ConsumerName (pi_messageID input))
        ?g (db_inbox (st_db s))\<rparr>"
    show "Q () (s\<lparr>st_tick := k, st_db := d'\<rparr>)"
      by (rule ok) (use d' row r(4) True upd in \<open>auto simp: recorded_def\<close>)
  qed simp
qed

text \<open>A message that is in the inbox is answered with what was stored, or with an error.\<close>

lemma wp_registerInbox_existing:
  assumes h: "holds (st_db s) B"
    and x: "case x of None \<Rightarrow> True
      | Some m \<Rightarrow> \<exists>r \<in> set (db_inbox (st_db s)). same_message ConsumerName (pi_messageID input) r
          \<and> scanInboxMessage r = Inr m"
    and again: "\<And>r m t k. \<lbrakk>r \<in> set (db_inbox (st_db s));
      same_message ConsumerName (pi_messageID input) r; scanInboxMessage r = Inr m;
      SameContent m (pi_rawBodyHash input); Completed m; t \<in> set (bk_txs B); t_id t = im_transactionID m\<rbrakk>
      \<Longrightarrow> Q (Some (WagerResult t True\<lparr>pr_inboxOutcome := im_outcome m\<rparr>)) (s\<lparr>st_tick := k\<rparr>)"
  shows "wpM (registerInbox_existing input x) c s Q (\<lambda>_ _. True)"
proof (cases "\<exists>m. x = Some m \<and> SameContent m (pi_rawBodyHash input) \<and> Completed m")
  case False
  then show ?thesis by (cases x) (auto simp: registerInbox_existing_def wp)
next
  case True
  then obtain m where m: "x = Some m" "SameContent m (pi_rawBodyHash input)" "Completed m" by blast
  obtain r where r: "r \<in> set (db_inbox (st_db s))" "same_message ConsumerName (pi_messageID input) r"
    "scanInboxMessage r = Inr m" using x m by auto
  have "wpM (Transactions_FindByID (im_transactionID m)) c s
     (\<lambda>x s'. wpM (case x of None \<Rightarrow> throwM (ERepo RepoTransient)
      | Some t \<Rightarrow> returnM (Some (WagerResult t True\<lparr>pr_inboxOutcome := im_outcome m\<rparr>))) c s' Q (\<lambda>_ _. True))
     (\<lambda>_ _. True)"
  proof (rule wp_FindByID(1) [OF h])
    fix y k assume "case y of None \<Rightarrow> \<forall>u \<in> set (bk_txs B). t_id u \<noteq> im_transactionID m
        | Some u \<Rightarrow> u \<in> set (bk_txs B) \<and> t_id u = im_transactionID m"
    then show "wpM (case y of None \<Rightarrow> throwM (ERepo RepoTransient)
        | Some t \<Rightarrow> returnM (Some (WagerResult t True\<lparr>pr_inboxOutcome := im_outcome m\<rparr>))) c
        (s\<lparr>st_tick := k\<rparr>) Q (\<lambda>_ _. True)"
      using again [OF r] m by (cases y) (simp_all add: wp)
  qed simp
  with m show ?thesis by (simp add: wp registerInbox_existing_def)
qed

lemma wp_registerInbox:
  assumes h: "holds (st_db s) B"
    and ok: "\<And>d k. registered input (st_db s) d \<Longrightarrow> Q None (s\<lparr>st_tick := k, st_db := d\<rparr>)"
    and again: "\<And>r m t k. \<lbrakk>FromQueue input; r \<in> set (db_inbox (st_db s));
      same_message ConsumerName (pi_messageID input) r; scanInboxMessage r = Inr m;
      SameContent m (pi_rawBodyHash input); Completed m; t \<in> set (bk_txs B); t_id t = im_transactionID m\<rbrakk>
      \<Longrightarrow> Q (Some (WagerResult t True\<lparr>pr_inboxOutcome := im_outcome m\<rparr>)) (s\<lparr>st_tick := k\<rparr>)"
  shows "wpM (if FromQueue input then registerInbox input else returnM None) c s Q (\<lambda>_ _. True)"
proof (cases "FromQueue input")
  case False
  then have "registered input (st_db s) (st_db s)" by (simp add: registered_def)
  from ok [OF this, of "st_tick s"] have "Q None s" by simp
  with False show ?thesis by (simp add: wp)
next
  case True
  let ?mi = "pi_messageID input"
  have find: "wpM (Inbox_Find ConsumerName ?mi) c (s\<lparr>st_tick := k\<rparr>)
      (\<lambda>x s'. wpM (registerInbox_existing input x) c s' Q (\<lambda>_ _. True)) (\<lambda>_ _. True)" for k
  proof (rule wp_Inbox_Find)
    fix x k2 assume "case x of
        None \<Rightarrow> \<forall>r \<in> set (db_inbox (st_db (s\<lparr>st_tick := k\<rparr>))). \<not> same_message ConsumerName ?mi r
      | Some m \<Rightarrow> \<exists>r \<in> set (db_inbox (st_db (s\<lparr>st_tick := k\<rparr>))). same_message ConsumerName ?mi r
          \<and> scanInboxMessage r = Inr m"
    then show "wpM (registerInbox_existing input x) c (s\<lparr>st_tick := k\<rparr>\<lparr>st_tick := k2\<rparr>) Q (\<lambda>_ _. True)"
      by (intro wp_registerInbox_existing [where B = B])
        (use h again [OF True] in \<open>simp_all split: option.splits\<close>)
  qed simp
  have ins: "wpM (Inbox_Insert m) c (s\<lparr>st_tick := k\<rparr>) (\<lambda>x s'. wpM (if x then returnM None
      else bindM (Inbox_Find ConsumerName ?mi) (registerInbox_existing input)) c s' Q (\<lambda>_ _. True)) (\<lambda>_ _. True)"
    if m: "NewInboxMessage ConsumerName ?mi (pi_rawBodyHash input) now = Inr m" for k m now
  proof (rule wp_Inbox_Insert)
    fix d k2 assume d: "d = st_db (s\<lparr>st_tick := k\<rparr>)\<lparr>db_inbox := db_inbox (st_db (s\<lparr>st_tick := k\<rparr>)) @ [inbox_row_of m]\<rparr>"
      "\<forall>r \<in> set (db_inbox (st_db (s\<lparr>st_tick := k\<rparr>))). \<not> same_message (im_consumerName m) (im_messageID m) r"
    have f: "im_consumerName m = ConsumerName" "im_messageID m = ?mi" "im_payloadHash m = pi_rawBodyHash input"
      using m by (auto simp: NewInboxMessage_def split: if_splits)
    have "registered input (st_db s) d"
      unfolding registered_def if_P [OF True]
      using d f by (intro conjI exI [of _ "inbox_row_of m"]) (simp_all add: same_message_def inbox_row_of_def)
    from ok [OF this, of k2] show "wpM (if True then returnM None
        else bindM (Inbox_Find ConsumerName ?mi) (registerInbox_existing input)) c
         (s\<lparr>st_tick := k\<rparr>\<lparr>st_tick := k2, st_db := d\<rparr>) Q (\<lambda>_ _. True)"
      by (simp add: wp)
  qed (use find in \<open>simp_all add: wp\<close>)
  show ?thesis
    unfolding if_P [OF True] registerInbox_def wp_bindM wp_clock_Now wp_liftR
    using ins by (auto split: sum.split)
qed

lemma wp_process_replay:
  assumes h: "holds (st_db s) B" and reg: "registered input d (st_db s)"
    and ok: "\<And>t d' k. \<lbrakk>t \<in> set (bk_txs B); t_providerID t = pi_providerID input;
      t_idempotencyKey t = pi_idempotencyKey input; t_payloadHash t = hash;
      pi_providerID input \<noteq> []; pi_idempotencyKey input \<noteq> []; represents d' B;
      db_outbox d' = db_outbox d; recorded input (WagerResult t True) d d'\<rbrakk>
      \<Longrightarrow> Q (WagerResult t True) (s\<lparr>st_tick := k, st_db := d'\<rparr>)"
  shows "wpM (process_replay input hash now) c s Q (\<lambda>_ _. True)"
proof -
  let ?done = "\<lambda>existing. if t_payloadHash existing \<noteq> hash
      then throwM (EConflict ConflictIdempotencyKey (t_id existing))
      else (let res = WagerResult existing True in
        bindM (whenM (FromQueue input) (completeInbox (pi_messageID input) res now)) (\<lambda>_. returnM res))"
  let ?reused = "bindM (Transactions_FindByExternalID (pi_providerID input) (pi_externalTransactionID input)) (\<lambda>reused.
      case reused of Some t \<Rightarrow> throwM (EConflict ConflictExternalID (t_id t)) | None \<Rightarrow> throwM (ERepo RepoTransient))"
  have none: "wpM ?reused c (s\<lparr>st_tick := k\<rparr>) Q (\<lambda>_ _. True)" for k
    unfolding wp_bindM
    by (rule wp_FindByExternalID [of _ B]) (use h in \<open>simp_all add: wp split: option.split\<close>)
  have ob: "db_outbox (st_db s) = db_outbox d" using reg by (auto simp: registered_def split: if_splits)
  have some: "wpM (?done t) c (s\<lparr>st_tick := k\<rparr>) Q (\<lambda>_ _. True)"
    if t: "t \<in> set (bk_txs B)" "t_providerID t = pi_providerID input" "t_idempotencyKey t = pi_idempotencyKey input"
      and ne: "pi_providerID input \<noteq> []" "pi_idempotencyKey input \<noteq> []"
    for t k
  proof (cases "t_payloadHash t = hash")
    case True
    have "wpM (whenM (FromQueue input) (completeInbox (pi_messageID input) (WagerResult t True) now)) c
        (s\<lparr>st_tick := k\<rparr>) (\<lambda>_ s'. Q (WagerResult t True) s') (\<lambda>_ _. True)"
    proof (rule wp_completeInbox [OF reg])
      fix d' k2 assume d': "recorded input (WagerResult t True) d d'"
        "db_outbox d' = db_outbox (st_db (s\<lparr>st_tick := k\<rparr>))"
        "\<And>B. represents (st_db (s\<lparr>st_tick := k\<rparr>)) B \<Longrightarrow> represents d' B"
      have "represents d' B" by (rule d'(3)) (use h in \<open>simp add: holds_def\<close>)
      from ok [OF t True ne this _ d'(1), of k2] d'(2) ob
      show "Q (WagerResult t True) (s\<lparr>st_tick := k\<rparr>\<lparr>st_tick := k2, st_db := d'\<rparr>)" by simp
    qed simp
    with True show ?thesis by (simp add: wp Let_def)
  qed (simp add: wp)
  show ?thesis
    unfolding process_replay_def wp_bindM [of "Transactions_FindByIdempotencyKey p k" for p k]
  proof (rule wp_FindByIdempotencyKey [OF h])
    fix x k assume x: "case x of
        None \<Rightarrow> \<forall>u \<in> set (bk_txs B). \<not> (t_providerID u = pi_providerID input \<and> pi_providerID input \<noteq> []
          \<and> t_idempotencyKey u = pi_idempotencyKey input \<and> pi_idempotencyKey input \<noteq> [])
      | Some u \<Rightarrow> u \<in> set (bk_txs B) \<and> t_providerID u = pi_providerID input \<and> pi_providerID input \<noteq> []
          \<and> t_idempotencyKey u = pi_idempotencyKey input \<and> pi_idempotencyKey input \<noteq> []"
    show "wpM (case x of Some existing \<Rightarrow> ?done existing | None \<Rightarrow> ?reused) c (s\<lparr>st_tick := k\<rparr>) Q (\<lambda>_ _. True)"
    proof (cases x)
      case None with none show ?thesis by simp
    next
      case (Some t) with x some [of t k] show ?thesis by simp
    qed
  qed simp
qed

lemma wp_process_answer:
  assumes reg: "registered input d d1" and m: "db_inbox (st_db s) = db_inbox d1"
    and se: "settled_new (WagerCommand input hash) B t eo B'" and hb: "holds (st_db s) B'"
    and an: "announced c t eo d (st_db s)"
  shows "wpM (process_answer input now t) c s
    (\<lambda>res s'. process_outcome c input hash B d res (st_db s')) (\<lambda>_ _. True)"
  unfolding process_answer_def Let_def wp_bindM wp_returnM
proof (rule wp_completeInbox [OF reg m])
  fix d' k assume d': "recorded input (WagerResult t False) d d'" "db_outbox d' = db_outbox (st_db s)"
    "\<And>B. represents (st_db s) B \<Longrightarrow> represents d' B"
  have "holds d' B'" using hb d'(3) by (simp add: holds_def)
  moreover have "announced c t eo d d'" using an d'(2) by (simp add: announced_def)
  ultimately show "process_outcome c input hash B d (WagerResult t False) (st_db (s\<lparr>st_tick := k, st_db := d'\<rparr>))"
    using settled [OF se _ _ d'(1)] by simp
qed

lemma wp_process_register:
  assumes h: "holds (st_db s) B" and reg: "registered input d (st_db s)"
  shows "wpM (process_register settings input hash now) c s
    (\<lambda>res s'. process_outcome c input hash B d res (st_db s')) (\<lambda>_ _. True)"
proof -
  let ?Q = "\<lambda>res s'. process_outcome c input hash B d res (st_db s')"
  let ?settle = "\<lambda>t. bindM (Wallets_FindForUpdate (pi_walletID input)) (\<lambda>account.
     bindM (process_resolveReference t) (\<lambda>ref. bindM (liftR (Decide account t ref now)) (\<lambda>dec.
     bindM (process_settle settings account t dec now) (\<lambda>(entry, account', operation').
     bindM (Transactions_Update operation') (\<lambda>_.
     bindM (appendSettlementEvents now operation' entry (w_balance account')) (\<lambda>_.
     bindM (whenM (Terminal (t_status operation')) (process_wakeUpWaiting operation' now)) (\<lambda>_.
     process_answer input now operation')))))))"
  have inv: "book_inv B" using h by (simp add: holds_def)
  have ob: "db_outbox (st_db s) = db_outbox d" using reg by (auto simp: registered_def split: if_splits)
  have ins: "wpM (Transactions_Insert t) c (s\<lparr>st_tick := k\<rparr>)
      (\<lambda>x s'. wpM (if \<not> x then process_replay input hash now else ?settle t) c s' ?Q (\<lambda>_ _. True)) (\<lambda>_ _. True)"
    if new: "NewExternal (WagerCommand input hash) j now = Inr t" for t j k
  proof (rule wp_Transactions_Insert)
    show "holds (st_db (s\<lparr>st_tick := k\<rparr>)) B" using h by simp
    have wf: "tx_wf t" using NewExternal_wf [OF new] by simp
    then show "status_Valid (t_status t)" "kind_Valid (t_kind t)"
      using tx_wf_kind_origin [OF wf] by (simp_all add: tx_wf_def)
    fix k2 show "wpM (if \<not> False then process_replay input hash now else ?settle t) c
        (s\<lparr>st_tick := k\<rparr>\<lparr>st_tick := k2\<rparr>) ?Q (\<lambda>_ _. True)"
      using wp_process_replay [of "s\<lparr>st_tick := k2\<rparr>" B input d hash ?Q now c] h reg replayed by simp
    fix d2 assume cl: "\<forall>u \<in> set (bk_txs B). \<not> clash t u" and wal: "\<exists>w \<in> set (bk_wallets B). w_id w = t_walletID t"
      and r2: "represents d2 (B\<lparr>bk_txs := bk_txs B @ [t]\<rparr>)" and m2: "same_mail (st_db (s\<lparr>st_tick := k\<rparr>)) d2"
    have "wpM (?settle t) c (s\<lparr>st_tick := k2, st_db := d2\<rparr>) ?Q (\<lambda>_ _. True)"
    proof (rule wp_settle_new [OF _ inv new cl _ _ wal])
      show "represents (st_db (s\<lparr>st_tick := k2, st_db := d2\<rparr>)) (with_tx t B)" using r2 by (simp add: with_tx_def)
      fix eo t' B' d3 k3 assume se: "settled_new (WagerCommand input hash) B t' eo B'" "holds d3 B'"
        and m3: "db_inbox d3 = db_inbox (st_db (s\<lparr>st_tick := k2, st_db := d2\<rparr>))"
          "announced c t' eo (st_db (s\<lparr>st_tick := k2, st_db := d2\<rparr>)) d3"
      show "wpM (process_answer input now t') c (s\<lparr>st_tick := k2, st_db := d2\<rparr>\<lparr>st_tick := k3, st_db := d3\<rparr>)
          ?Q (\<lambda>_ _. True)"
        by (rule wp_process_answer [OF reg _ se(1)])
          (use m2 m3 se(2) ob in \<open>simp_all add: same_mail_def announced_def\<close>)
    qed simp
    then show "wpM (if \<not> True then process_replay input hash now else ?settle t) c
        (s\<lparr>st_tick := k\<rparr>\<lparr>st_tick := k2, st_db := d2\<rparr>) ?Q (\<lambda>_ _. True)" by simp
  qed simp
  show ?thesis
    unfolding process_register_def wp_bindM [of ids_New] wp_bindM [of "liftR r" for r]
      wp_bindM [of "Transactions_Insert t" for t] wp_ids_New wp_liftR
    using ins by (auto split: option.split sum.split)
qed

lemma wp_process_run:
  assumes h: "holds (st_db s) B"
  shows "wpM (process_run settings input hash) c s
    (\<lambda>res s'. process_outcome c input hash B (st_db s) res (st_db s')) (\<lambda>_ _. True)"
  unfolding process_run_def wp_bindM [of clock_Now] wp_clock_Now
    wp_bindM [of "if FromQueue input then registerInbox input else returnM None"]
proof (rule wp_registerInbox)
  show "holds (st_db (s\<lparr>st_tick := st_tick s + 1\<rparr>)) B" using h by simp
  fix d k assume reg: "registered input (st_db (s\<lparr>st_tick := st_tick s + 1\<rparr>)) d"
  then have "holds d B" using h by (auto simp: registered_def holds_def split: if_splits)
  with wp_process_register [of "s\<lparr>st_tick := k, st_db := d\<rparr>" B input "st_db s"] reg
  show "wpM (case None of None \<Rightarrow> process_register settings input hash (e_now c (st_tick s))
      | Some replay \<Rightarrow> returnM replay) c (s\<lparr>st_tick := st_tick s + 1\<rparr>\<lparr>st_tick := k, st_db := d\<rparr>)
     (\<lambda>res s'. process_outcome c input hash B (st_db s) res (st_db s')) (\<lambda>_ _. True)" by simp
next
  fix r m t k assume r: "FromQueue input" "r \<in> set (db_inbox (st_db (s\<lparr>st_tick := st_tick s + 1\<rparr>)))"
    "same_message ConsumerName (pi_messageID input) r" "scanInboxMessage r = Inr m"
    "SameContent m (pi_rawBodyHash input)" "Completed m" "t \<in> set (bk_txs B)" "t_id t = im_transactionID m"
  show "wpM (case Some (WagerResult t True\<lparr>pr_inboxOutcome := im_outcome m\<rparr>) of
      None \<Rightarrow> process_register settings input hash (e_now c (st_tick s)) | Some replay \<Rightarrow> returnM replay) c
     (s\<lparr>st_tick := st_tick s + 1\<rparr>\<lparr>st_tick := k\<rparr>)
     (\<lambda>res s'. process_outcome c input hash B (st_db s) res (st_db s')) (\<lambda>_ _. True)"
    using redelivered [OF r(1) _ r(3-8), of "st_db s"] r(2) by (simp add: wp)
qed

section \<open>What a settled operation leaves\<close>

text \<open>Lists whose operations differ at most in their schedule, place by place.\<close>

definition rescheduled_only :: "tx \<Rightarrow> tx \<Rightarrow> bool" where
  "rescheduled_only t t' \<longleftrightarrow>
     t' = t\<lparr>t_nextAttemptAt := t_nextAttemptAt t', t_updatedAt := t_updatedAt t'\<rparr>"

lemma rescheduled_only_same:
  assumes "rescheduled_only t t'"
  shows "same_identity t t'" "t_status t' = t_status t" "WagerResult t' b = WagerResult t b"
    "t_referenceTransactionID t' = t_referenceTransactionID t"
proof -
  obtain n u where t': "t' = t\<lparr>t_nextAttemptAt := n, t_updatedAt := u\<rparr>"
    using assms unfolding rescheduled_only_def by blast
  show "same_identity t t'" "t_status t' = t_status t" "WagerResult t' b = WagerResult t b"
    "t_referenceTransactionID t' = t_referenceTransactionID t"
    by (simp_all add: t' same_identity_def WagerResult_def)
qed

definition same_txs :: "tx list \<Rightarrow> tx list \<Rightarrow> bool" where
  "same_txs ts ts' \<longleftrightarrow> list_all2 rescheduled_only ts ts'"

lemma woken_rescheduled: "woken now t t' \<Longrightarrow> rescheduled_only t t'"
  by (auto simp: woken_def rescheduled_only_def)

lemma woken_same_txs: "\<forall>x \<in> set ts. woken now x (f x) \<Longrightarrow> same_txs ts (map f ts)"
  unfolding same_txs_def list_all2_map2
  by (intro list.rel_refl_strong) (use woken_rescheduled in blast)

lemma same_txs_ex: "same_txs ts ts' \<Longrightarrow> t \<in> set ts \<Longrightarrow> \<exists>t' \<in> set ts'. rescheduled_only t t'"
  unfolding same_txs_def by (induction rule: list_all2_induct) auto

lemma same_txs_ex': "same_txs ts ts' \<Longrightarrow> t' \<in> set ts' \<Longrightarrow> \<exists>t \<in> set ts. rescheduled_only t t'"
  unfolding same_txs_def by (induction rule: list_all2_induct) auto

lemma same_txs_ids: "same_txs ts ts' \<Longrightarrow> \<forall>t \<in> set ts. \<exists>t' \<in> set ts'. t_id t' = t_id t"
  using same_txs_ex rescheduled_only_same(1) unfolding same_identity_def by metis

text \<open>The new operation is appended, settled; the others keep identity and status.\<close>

lemma settled_new_txs:
  assumes "settled_new cmd B t' eo B'"
  obtains t j now where "NewExternal cmd j now = Inr t" "\<forall>u \<in> set (bk_txs B). \<not> clash t u"
    "same_identity t t'" "tx_step t t'" "t_status t' \<noteq> Pending" "same_txs (bk_txs B @ [t']) (bk_txs B')"
proof -
  obtain j now t w ref dec b B1 f where n: "NewExternal cmd j now = Inr t" "\<forall>u \<in> set (bk_txs B). \<not> clash t u"
    and ca: "carried (with_tx t B) w t dec now t' eo b B1"
    and f: "\<forall>x \<in> set (bk_txs B1). woken now x (f x)" "B' = B1\<lparr>bk_txs := map f (bk_txs B1)\<rparr>"
    using assms unfolding settled_new_def by blast
  note c = carried_operation [OF ca]
  have i: "t_id t' = t_id t" using c(2) by (simp add: same_identity_def)
  have "t_id u \<noteq> t_id t'" if "u \<in> set (bk_txs B)" for u using n(2) that i by (auto simp: clash_def)
  then have "bk_txs B1 = bk_txs B @ [t']" using c(4) i by (simp add: replace_tx_def map_idI)
  then have "same_txs (bk_txs B @ [t']) (bk_txs B')" using woken_same_txs [OF f(1)] f(2) by simp
  moreover have "t_status t' \<noteq> Pending" using c(3) by (cases "d_outcome dec") simp_all
  ultimately show thesis using that n c by blast
qed

text \<open>The wallets change with the entry, and only with it.\<close>

lemma settled_new_wallets:
  assumes "settled_new cmd B t' eo B'" "book_inv B"
  shows "case eo of
      None \<Rightarrow> bk_wallets B' = bk_wallets B \<and> bk_entries B' = bk_entries B
    | Some e \<Rightarrow> \<exists>w w'. w \<in> set (bk_wallets B) \<and> w_id w = c_walletID cmd
        \<and> bk_wallets B' = replace_wallet w' (bk_wallets B) \<and> w_id w' = w_id w
        \<and> amount_of (w_balance w') = amount_of (w_balance w) + signed_amount (le_direction e) (le_amount e)
        \<and> bk_entries B' = bk_entries B @ [e] \<and> le_transactionID e = t_id t' \<and> le_walletID e = w_id w
        \<and> 0 \<le> amount_of (w_balance w') \<and> t_status t' = Processed"
proof -
  obtain j now t w ref dec b B1 f where n: "NewExternal cmd j now = Inr t" "\<forall>u \<in> set (bk_txs B). \<not> clash t u"
    "w \<in> set (bk_wallets B)" "w_id w = t_walletID t" "looked_up (with_tx t B) t ref" "Decide w t ref now = Inr dec"
    and ca: "carried (with_tx t B) w t dec now t' eo b B1" and f: "B' = B1\<lparr>bk_txs := map f (bk_txs B1)\<rparr>"
    using assms(1) unfolding settled_new_def by blast
  note o = new_open_on [OF assms(2) n(1,2,3,4)]
  note wi = book_wallet_inv [OF assms(2) n(3)]
  have wid: "w_id w = c_walletID cmd" using new_storable(5) [OF n(1) wi] n(4) by simp
  show ?thesis
  proof (cases eo)
    case None
    with ca f show ?thesis by (auto simp: carried_def)
  next
    case (Some e)
    then obtain eid nx dl w' where en: "enact w t dec eid nx dl now = Inr (w', t')"
      and p: "d_outcome dec = OutcomeProcess" "movement_Present (d_movement dec)"
      and e: "e = moved_entry w (mv_direction (d_movement dec)) (t_id t) (t_amount t) eid now"
      and B1: "B1 = settle_movement w' t' e (with_tx t B)"
      using ca by (auto simp: carried_def)
    obtain dr r where dec: "dec = process dr (t_amount t) r" "dr = Debit \<or> dr = Credit"
      using moves_by_decision [OF o looked_up_resolved [OF n(5)] n(6) p] by metis
    then have dv: "direction_Valid dr" by (auto simp: direction_Valid_def)
    have m: "wallet_move w dr (t_id t) (t_amount t) eid now = Inr (e, w')"
      using en p e dec by (auto simp: enact_def bindR_eq_Inr wallet_move_eq_Inr [OF wi dv])
    have i: "t_id t' = t_id t" using carried_operation(2) [OF ca] by (simp add: same_identity_def)
    have st: "t_status t' = Processed" using carried_operation(3) [OF ca] p by simp
    note mi = wallet_move_inv [OF wi dv m] m [unfolded wallet_move_eq_Inr [OF wi dv]]
    have "amount_of (w_balance w') = amount_of (w_balance w) + signed_amount dr (t_amount t)"
      using amount_moved [OF wi dv] mi by (auto simp: moved_wallet_def)
    moreover have "le_direction e = dr" "le_amount e = t_amount t" "le_transactionID e = t_id t'" "w_id w' = w_id w"
      "le_walletID e = w_id w"
      using mi i by (auto simp: moved_entry_def moved_wallet_def)
    moreover have "0 \<le> amount_of (w_balance w')" using mi(1) by (simp add: wallet_inv_def)
    ultimately show ?thesis
      unfolding Some option.case
      by (intro exI [of _ w] exI [of _ w']) (use B1 f n(3) wid st in \<open>simp add: settle_movement_def\<close>)
  qed
qed

section \<open>The invariant of the service\<close>

text \<open>
  Between units of work: the tables represent an invariant book, no operation is left undecided,
  and every message of the inbox was completed with an operation of the book.
\<close>

definition message_key :: "inbox_row \<Rightarrow> string \<times> string" where
  "message_key r = (ir_consumer_name r, ir_message_id r)"

lemma same_message_key: "same_message consumer message r \<longleftrightarrow> message_key r = (consumer, message)"
  by (simp add: same_message_def message_key_def)

definition inbox_ok :: "db \<Rightarrow> book \<Rightarrow> bool" where
  "inbox_ok d B \<longleftrightarrow> distinct (map message_key (db_inbox d)) \<and> (\<forall>r \<in> set (db_inbox d). \<exists>t \<in> set (bk_txs B). ir_transaction_id r = Some (t_id t)
     \<and> (\<exists>out. ir_outcome r = Some (outcome_String out) \<and> outcome_Valid out))"

definition sound_book :: "db \<Rightarrow> book \<Rightarrow> bool" where
  "sound_book d B \<longleftrightarrow> holds d B \<and> (\<forall>t \<in> set (bk_txs B). t_status t \<noteq> Pending) \<and> inbox_ok d B"

definition sound :: "db \<Rightarrow> bool" where
  "sound d \<longleftrightarrow> (\<exists>B. sound_book d B)"

lemma inbox_outcome_valid [simp]: "outcome_Valid (inbox_outcome_of res)"
  by (simp add: inbox_outcome_of_def outcome_Valid_def)

lemma handled_row_ok:
  assumes "handled_row input (WagerResult t b) r" "t_id t \<noteq> uuid_Nil"
  shows "ir_transaction_id r = Some (t_id t) \<and> (\<exists>out. ir_outcome r = Some (outcome_String out) \<and> outcome_Valid out)"
  using assms by (auto simp: handled_row_def WagerResult_def nullUUID_def)

lemma inbox_ok_recorded:
  assumes "inbox_ok d B" "recorded input (WagerResult t b) d d'" "t_id t \<noteq> uuid_Nil"
    and "\<forall>u \<in> set (bk_txs B) \<union> {t}. \<exists>u' \<in> set (bk_txs B'). t_id u' = t_id u"
  shows "inbox_ok d' B'"
proof -
  have rows: "\<exists>t \<in> set (bk_txs B'). ir_transaction_id r = Some (t_id t)
      \<and> (\<exists>out. ir_outcome r = Some (outcome_String out) \<and> outcome_Valid out)" if "r \<in> set (db_inbox d')" for r
  proof -
    have "r \<in> set (db_inbox d) \<or> handled_row input (WagerResult t b) r"
      using assms(2) \<open>r \<in> set (db_inbox d')\<close> by (auto simp: recorded_def split: if_splits)
    then have "\<exists>u \<in> set (bk_txs B) \<union> {t}. ir_transaction_id r = Some (t_id u)
        \<and> (\<exists>out. ir_outcome r = Some (outcome_String out) \<and> outcome_Valid out)"
    proof
      assume "r \<in> set (db_inbox d)"
      then show ?thesis using assms(1) unfolding inbox_ok_def by (meson UnI1)
    next
      assume "handled_row input (WagerResult t b) r"
      from handled_row_ok [OF this assms(3)] show ?thesis by blast
    qed
    then show ?thesis using assms(4) by metis
  qed
  have di: "distinct (map message_key (db_inbox d))" using assms(1) by (simp add: inbox_ok_def)
  have "distinct (map message_key (db_inbox d'))"
  proof (cases "FromQueue input")
    case True
    then obtain r where r: "db_inbox d' = db_inbox d @ [r]" "same_message ConsumerName (pi_messageID input) r"
        "\<forall>r \<in> set (db_inbox d). \<not> same_message ConsumerName (pi_messageID input) r"
      using assms(2) unfolding recorded_def handled_row_def by auto
    then have "message_key r \<notin> message_key ` set (db_inbox d)" by (auto simp: same_message_key)
    then show ?thesis using di r(1) by simp
  next
    case False
    then show ?thesis using assms(2) di by (simp add: recorded_def)
  qed
  with rows show ?thesis unfolding inbox_ok_def by blast
qed

lemma replayed_sound:
  assumes "sound_book d B" "t \<in> set (bk_txs B)" "represents d' B" "recorded input (WagerResult t True) d d'"
  shows "sound_book d' B"
proof -
  have "book_inv B" using assms(1) by (simp add: sound_book_def holds_def)
  then have "tx_wf t" by (rule book_tx_wf(1)) (rule assms(2))
  then have "t_id t \<noteq> uuid_Nil" by (simp add: tx_wf_def)
  moreover have "inbox_ok d B" using assms(1) by (simp add: sound_book_def)
  ultimately have "inbox_ok d' B"
    by (intro inbox_ok_recorded [OF _ assms(4)]) (use assms(2) in auto)
  then show ?thesis using assms(1,3) by (simp add: sound_book_def holds_def)
qed

lemma settled_sound:
  assumes "sound_book d B" "settled_new (WagerCommand input h) B t' eo B'" "holds d' B'"
    "recorded input (WagerResult t' False) d d'"
  shows "sound_book d' B'"
proof -
  obtain t j now where n: "NewExternal (WagerCommand input h) j now = Inr t" "same_identity t t'"
    "t_status t' \<noteq> Pending" "same_txs (bk_txs B @ [t']) (bk_txs B')"
    using settled_new_txs [OF assms(2)] by metis
  have "t_id t' \<noteq> uuid_Nil" using n by (auto simp: NewExternal_eq_Inr new_tx_def same_identity_def)
  moreover have "\<forall>u \<in> set (bk_txs B) \<union> {t'}. \<exists>u' \<in> set (bk_txs B'). t_id u' = t_id u"
    using same_txs_ids [OF n(4)] by simp
  moreover have "inbox_ok d B" using assms(1) by (simp add: sound_book_def)
  ultimately have "inbox_ok d' B'" by (intro inbox_ok_recorded [OF _ assms(4)])
  moreover have "t_status u \<noteq> Pending" if "u \<in> set (bk_txs B')" for u
    using same_txs_ex' [OF n(4) that] rescheduled_only_same(2) n(3) assms(1) by (fastforce simp: sound_book_def)
  ultimately show ?thesis using assms(3) by (simp add: sound_book_def)
qed

lemma process_outcome_sound:
  assumes "process_outcome c input h B d res d'" "sound_book d B"
  shows "sound d'"
  using assms(1)
proof cases
  case redelivered
  then have "d' = d" by simp
  with assms(2) show ?thesis unfolding sound_def by blast
next
  case (replayed t)
  from replayed_sound [OF assms(2) replayed(2,8,10)] show ?thesis unfolding sound_def by blast
next
  case (settled t' eo B')
  from settled_sound [OF assms(2) settled(2,3,5)] show ?thesis unfolding sound_def by blast
qed

section \<open>The unit of work around it\<close>

definition payload_hash :: "env \<Rightarrow> process_input \<Rightarrow> string" where
  "payload_hash c input = idempotency_Hash (e_uuid_text c) (IdempotencyPayload input)"

text \<open>
  What \<open>Execute\<close> leaves: the outcome of one complete run, or on an error nothing, unless the
  outcome of the commit is unknown.
\<close>

lemma wp_process_Execute:
  assumes c: "honest_commit c" and h: "holds (st_db s) B"
  shows "wpM (process_Execute u settings input) c s
    (\<lambda>res s'. process_outcome c input (payload_hash c input) B (st_db s) res (st_db s'))
    (\<lambda>e s'. st_db s' = st_db s \<or> errors_is e (ERepo RepoCommitOutcomeUnknown)
       \<and> (\<exists>res. process_outcome c input (payload_hash c input) B (st_db s) res (st_db s')))"
proof -
  let ?run = "process_run settings input (payload_hash c input)"
  have ran: "process_outcome c input (payload_hash c input) B (st_db s) res d" if "ran ?run c (st_db s) res d" for res d
  proof -
    obtain s1 s2 where r: "st_db s1 = st_db s" "?run c s1 = (Inr res, s2)" "st_db s2 = d"
      using \<open>ran ?run c (st_db s) res d\<close> by (auto simp: ran_def)
    have "holds (st_db s1) B" using h r by simp
    from result_of_wpM(1) [OF wp_process_run [OF this] r(2)] r show ?thesis by simp
  qed
  have "wpM (uow_Do u ?run) c s'
      (\<lambda>res s'. process_outcome c input (payload_hash c input) B (st_db s) res (st_db s'))
      (\<lambda>e s'. st_db s' = st_db s \<or> errors_is e (ERepo RepoCommitOutcomeUnknown)
       \<and> (\<exists>res. process_outcome c input (payload_hash c input) B (st_db s) res (st_db s')))"
    if s': "st_db s' = st_db s" for s'
    unfolding wpM_iff_run
    using uow_do.atomic [OF c, of u ?run s'] ran s' by (fastforce simp: atomic_outcome_def)
  then show ?thesis
    by (auto simp: process_Execute_def wp Let_def payload_hash_def split: sum.splits)
qed

end
