(* ===== verification/ProcessProps.thy ===== *)
theory ProcessProps
  imports ProcessWager
begin

text \<open>
  What settling an operation promises, on the code of \<open>process_wager_transaction.go\<close> under
  every fault of its surroundings: it implements its effect on the book, keeps the invariant of
  the service, has its effect once, refuses a key used for something else, and moves exactly
  the money its ledger entry says.
\<close>

section \<open>Answering again\<close>

text \<open>
  The tables know an operation of an input: by its message, or by its key and payload. That is
  what a first answer leaves for the second one to find.
\<close>

definition known :: "process_input \<Rightarrow> string \<Rightarrow> db \<Rightarrow> book \<Rightarrow> tx \<Rightarrow> bool" where
  "known input h d B t \<longleftrightarrow> sound_book d B \<and> t \<in> set (bk_txs B)
     \<and> (if FromQueue input
        then \<exists>r \<in> set (db_inbox d). same_message ConsumerName (pi_messageID input) r
               \<and> ir_transaction_id r = Some (t_id t)
        else t_providerID t = pi_providerID input \<and> t_idempotencyKey t = pi_idempotencyKey input
          \<and> t_payloadHash t = h \<and> pi_providerID input \<noteq> [] \<and> pi_idempotencyKey input \<noteq> [])"

definition answered :: "process_input \<Rightarrow> string \<Rightarrow> process_result \<Rightarrow> db \<Rightarrow> book \<Rightarrow> tx \<Rightarrow> bool" where
  "answered input h res d B t \<longleftrightarrow> known input h d B t
     \<and> WagerResult t True = res\<lparr>pr_idempotentReplay := True, pr_inboxOutcome := no_outcome\<rparr>"

lemmas answered_simps = answered_def known_def

lemma scan_transaction_id: "scanInboxMessage r = Inr m \<Longrightarrow> im_transactionID m = uuid_of (ir_transaction_id r)"
  by (auto simp: scanInboxMessage_def RehydrateInboxMessage_eq_Inr)

lemma first_answer:
  assumes "process_outcome c input h B d res d'" "sound_book d B"
  shows "\<exists>B' t. answered input h res d' B' t"
  using assms(1)
proof cases
  case (redelivered r m t)
  have "inbox_ok d B" using assms(2) by (simp add: sound_book_def)
  then obtain t0 where "t0 \<in> set (bk_txs B)" "ir_transaction_id r = Some (t_id t0)"
    using redelivered(4) unfolding inbox_ok_def by blast
  then have "ir_transaction_id r = Some (t_id t)"
    using redelivered(10) scan_transaction_id [OF redelivered(6)] by (simp add: uuid_of_def)
  then have "answered input h res d' B t"
    using redelivered assms(2) unfolding answered_simps by (auto simp: WagerResult_def)
  then show ?thesis by blast
next
  case (replayed t)
  note sb = replayed_sound [OF assms(2) replayed(2,8,10)]
  have nz: "t_id t \<noteq> uuid_Nil"
    using book_tx_wf(1) [of B t] replayed(2) sb by (simp add: sound_book_def holds_def tx_wf_def)
  have "\<exists>r \<in> set (db_inbox d'). same_message ConsumerName (pi_messageID input) r
      \<and> ir_transaction_id r = Some (t_id t)" if "FromQueue input"
    using replayed(10) that nz unfolding recorded_def
    by (auto simp: handled_row_def WagerResult_def nullUUID_def)
  then have "answered input h res d' B t"
    using replayed(1-7) sb unfolding answered_simps by (simp add: WagerResult_def)
  then show ?thesis by blast
next
  case (settled t' eo B')
  note sb = settled_sound [OF assms(2) settled(2,3,5)]
  obtain t j now where n: "NewExternal (WagerCommand input h) j now = Inr t" "same_identity t t'"
    "same_txs (bk_txs B @ [t']) (bk_txs B')"
    using settled_new_txs [OF settled(2)] by metis
  obtain u where u: "u \<in> set (bk_txs B')" "rescheduled_only t' u" using same_txs_ex [OF n(3)] by auto
  note us = rescheduled_only_same [OF u(2)]
  have t: "t = new_tx (WagerCommand input h) j now" "\<not> blank (t_providerID t)" "\<not> blank (t_idempotencyKey t)" "j \<noteq> uuid_Nil"
    using n(1) by (auto simp: NewExternal_eq_Inr external_fields_def)
  then have key: "t_providerID u = pi_providerID input" "t_idempotencyKey u = pi_idempotencyKey input"
    "t_payloadHash u = h" "pi_providerID input \<noteq> []" "pi_idempotencyKey input \<noteq> []" "t_id u \<noteq> uuid_Nil" "t_id u = t_id t'"
    using n(2) us(1) by (auto simp: same_identity_def new_tx_def WagerCommand_def)
  have "\<exists>r \<in> set (db_inbox d'). same_message ConsumerName (pi_messageID input) r
      \<and> ir_transaction_id r = Some (t_id u)" if "FromQueue input"
    using settled(5) that key unfolding recorded_def
    by (auto simp: handled_row_def WagerResult_def nullUUID_def)
  moreover have "WagerResult u True = res\<lparr>pr_idempotentReplay := True, pr_inboxOutcome := no_outcome\<rparr>"
    using us(3) [of True] settled(1) by (simp add: WagerResult_def)
  ultimately have "answered input h res d' B' u"
    using key u(1) sb unfolding answered_simps by simp
  then show ?thesis by blast
qed

text \<open>
  Answering again, whatever became of the commit: nothing moves, and the answer is what has become
  of the operation.
\<close>

lemma known_answer:
  assumes a: "known input h d B t" and o: "process_outcome c input h B d res2 d2"
  shows "res2 = WagerResult t True\<lparr>pr_inboxOutcome := pr_inboxOutcome res2\<rparr> \<and> represents d2 B
    \<and> db_outbox d2 = db_outbox d"
proof -
  have sb: "sound_book d B" and t: "t \<in> set (bk_txs B)"
    using a by (simp_all add: known_def)
  have B: "book_inv B" "represents d B" and ib: "inbox_ok d B" using sb by (simp_all add: sound_book_def holds_def)
  have di: "distinct (map t_id (bk_txs B))" using B(1) by (simp add: book_inv_def txs_ok_def)
  have row: "FromQueue input \<Longrightarrow> \<exists>r \<in> set (db_inbox d). same_message ConsumerName (pi_messageID input) r
      \<and> ir_transaction_id r = Some (t_id t)"
    and key: "\<not> FromQueue input \<Longrightarrow> t_providerID t = pi_providerID input \<and> t_idempotencyKey t = pi_idempotencyKey input
      \<and> pi_providerID input \<noteq> [] \<and> pi_idempotencyKey input \<noteq> []"
    using a by (auto simp: known_def)
  have nq: "\<not> FromQueue input" if "recorded input x d d2" for x
    using row that unfolding recorded_def by (auto split: if_splits)
  from o show ?thesis
  proof cases
    case (redelivered r m t2)
    obtain r0 where r0: "r0 \<in> set (db_inbox d)" "same_message ConsumerName (pi_messageID input) r0"
      "ir_transaction_id r0 = Some (t_id t)" using row redelivered(3) by blast
    have "distinct (map message_key (db_inbox d))" using ib by (simp add: inbox_ok_def)
    then have "r0 = r" using r0 redelivered(4,5) by (auto simp: same_message_key distinct_map inj_on_def)
    then have "t_id t2 = t_id t"
      using redelivered(10) scan_transaction_id [OF redelivered(6)] r0(3) by (simp add: uuid_of_def)
    then have "t2 = t" using id_unique(1) [OF di redelivered(9) t] by simp
    then show ?thesis using redelivered(1,2) B by (simp add: WagerResult_def)
  next
    case (replayed t2)
    note k = key [OF nq [OF replayed(10)]]
    have "clash t t2" using k replayed(3,4) by (simp add: clash_def)
    then have "t_id t2 = t_id t" using B(1) t replayed(2) unfolding book_inv_def txs_ok_def by metis
    then have "t2 = t" using id_unique(1) [OF di replayed(2) t] by simp
    then show ?thesis using replayed(1,8,9) by (simp add: WagerResult_def)
  next
    case (settled t' eo B')
    note k = key [OF nq [OF settled(5)]]
    obtain t1 j now where n: "NewExternal (WagerCommand input h) j now = Inr t1" "\<forall>u \<in> set (bk_txs B). \<not> clash t1 u"
      using settled_new_txs [OF settled(2)] by metis
    have "clash t1 t" using k n(1) by (auto simp: NewExternal_eq_Inr new_tx_def WagerCommand_def clash_def)
    with n(2) t show ?thesis by blast
  qed
qed

lemma second_answer:
  assumes a: "answered input h res d B t" and o: "process_outcome c input h B d res2 d2"
  shows "res2 = res\<lparr>pr_idempotentReplay := True, pr_inboxOutcome := pr_inboxOutcome res2\<rparr> \<and> represents d2 B
    \<and> db_outbox d2 = db_outbox d"
  using known_answer [OF _ o, of t] a by (cases res) (auto simp: answered_def WagerResult_def)

lemma known_executed:
  assumes c: "honest_commit c" and k: "known input (payload_hash c input) (st_db s) B t"
    and r: "process_Execute u settings input c s = (r2, s')"
  shows "holds (st_db s') B \<and> db_outbox (st_db s') = db_outbox (st_db s)
    \<and> (\<forall>res2. r2 = Inr res2 \<longrightarrow> res2 = WagerResult t True\<lparr>pr_inboxOutcome := pr_inboxOutcome res2\<rparr>)"
proof -
  have h: "holds (st_db s) B" using k by (simp add: known_def sound_book_def)
  have again: "holds d2 B \<and> db_outbox d2 = db_outbox (st_db s)
      \<and> res2 = WagerResult t True\<lparr>pr_inboxOutcome := pr_inboxOutcome res2\<rparr>"
    if "process_outcome c input (payload_hash c input) B (st_db s) res2 d2" for res2 d2
    using known_answer [OF k that] h by (simp add: holds_def)
  show ?thesis
    using wp_process_Execute [OF c h, of u settings input] r again h
    by (cases r2) (auto simp: wpM_def dest!: again)
qed

lemma execute_again:
  assumes c: "honest_commit c" and a: "answered input (payload_hash c input) res d B1 t" and s2: "st_db s2 = d"
  shows "case process_Execute u settings input c s2 of (r2, s3) \<Rightarrow>
      holds (st_db s3) B1 \<and> db_outbox (st_db s3) = db_outbox d
      \<and> (case r2 of Inl _ \<Rightarrow> True | Inr res2 \<Rightarrow>
           res2 = res\<lparr>pr_idempotentReplay := True, pr_inboxOutcome := pr_inboxOutcome res2\<rparr>)"
proof (cases "process_Execute u settings input c s2")
  case p2: (Pair r2 s3)
  have "known input (payload_hash c input) (st_db s2) B1 t" using a s2 by (simp add: answered_def)
  from known_executed [OF c this p2] a p2 s2 show ?thesis
    by (cases r2) (auto simp: answered_def)
qed

section \<open>Properties\<close>

text \<open>An input to run on, for the wallet of the sample book: a win of 25.00.\<close>

definition sample_input :: process_input where
  "sample_input = \<lparr>pi_origin = HTTP, pi_providerID = ''p'', pi_externalTransactionID = ''x'',
     pi_idempotencyKey = ''k'', pi_playerID = 2, pi_walletID = 1, pi_roundID = ''r'', pi_gameID = ''g'',
     pi_kind = Win, pi_amount = \<lparr>minor = 2500, currency = BRL\<rparr>, pi_referenceExternalID = [],
     pi_correlationID = ''c'', pi_messageID = [], pi_rawBodyHash = []\<rparr>"

definition sample_settings :: process_settings where
  "sample_settings = \<lparr>ps_referenceBackoff = 5, ps_referenceTTL = 50\<rparr>"

lemma sample_sound: "sound_book sample_db sample_book" "sound (st_db sample_st)"
proof -
  show "sound_book sample_db sample_book"
    using sample_holds by (simp add: sound_book_def inbox_ok_def sample_db_def sample_book_def empty_book_def)
  then show "sound (st_db sample_st)" unfolding sound_def sample_st_def by auto
qed



text \<open>
  The invariant of the service survives every execution: under every fault, on success and
  on failure, the tables keep representing a book whose wallets, ledger and operations agree,
  in which no operation is left undecided and every handled message has its operation.
\<close>

theorem process_keeps_invariant:
  assumes "honest_commit c" and "sound (st_db s)"
  shows "sound (st_db (snd (process_Execute u settings input c s)))"
proof -
  obtain B where B: "sound_book (st_db s) B" using assms(2) by (auto simp: sound_def)
  then have h: "holds (st_db s) B" by (simp add: sound_book_def)
  show ?thesis
    using wp_process_Execute [OF assms(1) h, of u settings input] assms(2) process_outcome_sound [OF _ B]
    by (cases "process_Execute u settings input c s") (auto simp: wpM_def split: sum.splits)
qed

theorem process_keeps_invariant_witness:
  "honest_commit lost_answer_env \<and> sound (st_db sample_st)
    \<and> sound (st_db (snd (process_Execute sample_uow sample_settings sample_input lost_answer_env sample_st)))"
  using process_keeps_invariant [OF honest_samples(2) sample_sound(2)] sample_sound(2) by simp

text \<open>
  An operation takes effect once. After an execution that answered, executing the same
  input again - from the same tables, at any later moment - moves nothing, whether or not it
  answers: the book and the outbox stay as they are; and when it answers, the answer is the
  first one again, marked as a replay.
\<close>

theorem executed_once:
  assumes "honest_commit c" and "sound (st_db s)"
  shows "case process_Execute u settings input c s of
      (Inl _, _) \<Rightarrow> True
    | (Inr res, s1) \<Rightarrow> (\<exists>B1. holds (st_db s1) B1 \<and> (\<forall>s2. st_db s2 = st_db s1 \<longrightarrow>
        (case process_Execute u settings input c s2 of (r2, s3) \<Rightarrow>
          holds (st_db s3) B1 \<and> db_outbox (st_db s3) = db_outbox (st_db s1)
          \<and> (case r2 of Inl _ \<Rightarrow> True | Inr res2 \<Rightarrow>
               res2 = res\<lparr>pr_idempotentReplay := True, pr_inboxOutcome := pr_inboxOutcome res2\<rparr>))))"
proof (cases "process_Execute u settings input c s")
  case (Pair r s1)
  show ?thesis
  proof (cases r)
    case (Inr res)
    obtain B where B: "sound_book (st_db s) B" using assms(2) by (auto simp: sound_def)
    then have h: "holds (st_db s) B" by (simp add: sound_book_def)
    have "process_outcome c input (payload_hash c input) B (st_db s) res (st_db s1)"
      using result_of_wpM(1) [OF wp_process_Execute [OF assms(1) h]] Pair Inr by blast
    from first_answer [OF this B] obtain B1 t where a: "answered input (payload_hash c input) res (st_db s1) B1 t"
      by blast
    then have h1: "holds (st_db s1) B1" by (simp add: answered_simps sound_book_def)
    note again = execute_again [OF assms(1) a]
    show ?thesis
      unfolding Pair Inr prod.case sum.case
      by (intro exI [of _ B1] conjI allI impI h1) (rule again)
  qed (use Pair in simp)
qed

theorem executed_once_witness:
  "honest_commit quiet_env \<and> sound (st_db sample_st) \<and>
   (case process_Execute sample_uow sample_settings sample_input quiet_env sample_st of
      (Inl _, _) \<Rightarrow> True
    | (Inr res, s1) \<Rightarrow> (\<exists>B1. holds (st_db s1) B1 \<and> (\<forall>s2. st_db s2 = st_db s1 \<longrightarrow>
        (case process_Execute sample_uow sample_settings sample_input quiet_env s2 of (r2, s3) \<Rightarrow>
          holds (st_db s3) B1 \<and> db_outbox (st_db s3) = db_outbox (st_db s1)
          \<and> (case r2 of Inl _ \<Rightarrow> True | Inr res2 \<Rightarrow>
               res2 = res\<lparr>pr_idempotentReplay := True, pr_inboxOutcome := pr_inboxOutcome res2\<rparr>)))))"
  using executed_once [OF honest_samples(1) sample_sound(2), of sample_uow sample_settings sample_input]
    sample_sound(2) by simp

text \<open>
  C12. A key is bound to its payload. An operation that came over HTTP with an idempotency key
  its provider already used for another payload is never accepted: the execution fails and the
  tables stay as they are - whatever fails around it, this run never reaches its commit.
\<close>

theorem key_bound_to_payload:
  assumes "honest_commit c" and "holds (st_db s) B" and "\<not> FromQueue input"
    and "t \<in> set (bk_txs B)" and "t_providerID t = pi_providerID input" and "pi_providerID input \<noteq> []"
    and "t_idempotencyKey t = pi_idempotencyKey input" and "pi_idempotencyKey input \<noteq> []"
    and "t_payloadHash t \<noteq> payload_hash c input"
  shows "(\<exists>e. fst (process_Execute u settings input c s) = Inl e)
    \<and> st_db (snd (process_Execute u settings input c s)) = st_db s"
proof -
  have B: "book_inv B" using assms(2) by (simp add: holds_def)
  have no: "\<not> process_outcome c input (payload_hash c input) B (st_db s) res d" for res d
  proof
    assume "process_outcome c input (payload_hash c input) B (st_db s) res d"
    then show False
    proof cases
      case redelivered with assms(3) show ?thesis by simp
    next
      case (replayed t2)
      have "clash t t2" using assms(5-8) replayed(3,4) by (simp add: clash_def)
      then have "t_id t2 = t_id t" using B assms(4) replayed(2) unfolding book_inv_def txs_ok_def by metis
      then have "t2 = t" using id_unique(1) [of "bk_txs B" t2 t] replayed(2) assms(4) B
        by (simp add: book_inv_def txs_ok_def)
      with assms(9) replayed(5) show ?thesis by simp
    next
      case (settled t' eo B')
      obtain t1 j now where n: "NewExternal (WagerCommand input (payload_hash c input)) j now = Inr t1"
        "\<forall>u \<in> set (bk_txs B). \<not> clash t1 u"
        using settled_new_txs [OF settled(2)] by metis
      have "clash t1 t" using assms(5-8) n(1) by (auto simp: NewExternal_eq_Inr new_tx_def WagerCommand_def clash_def)
      with n(2) assms(4) show ?thesis by blast
    qed
  qed
  show ?thesis
    using wp_process_Execute [OF assms(1,2), of u settings input] no
    by (cases "process_Execute u settings input c s") (auto simp: wpM_def split: sum.splits)
qed

text \<open>The sample book with one operation more, under the key of the sample input.\<close>

definition keyed_tx :: "char \<Rightarrow> tx" where
  "keyed_tx x = new_tx (sample_command Win []\<lparr>c_payloadHash := replicate 64 x\<rparr>) 7 9"

lemma keyed_new:
  "is_lower_hex x \<Longrightarrow> NewExternal (sample_command Win []\<lparr>c_payloadHash := replicate 64 x\<rparr>) 7 9 = Inr (keyed_tx x)"
  by (simp add: NewExternal_eq_Inr sample_command_def external_fields_def keyed_tx_def new_tx_def kind_defs
      origin_External_def not_blank_letter hash_pattern_replicate amount_policy_def Valid_def Supported_def
      amount_of_def)

lemma keyed_holds:
  assumes "is_lower_hex x"
  shows "holds (sample_db\<lparr>db_transactions := [tx_row_of (keyed_tx x)]\<rparr>) (with_tx (keyed_tx x) sample_book)"
proof -
  let ?w = "sample_wallet\<lparr>w_balance := \<lparr>minor = 0, currency = BRL\<rparr>\<rparr>"
  have i: "book_inv sample_book" using sample_holds by (simp add: holds_def)
  have "open_on (with_tx (keyed_tx x) sample_book) ?w (keyed_tx x)"
    by (rule new_open_on [OF i keyed_new [OF assms]])
      (simp_all add: sample_book_def empty_book_def sample_wallet_def keyed_tx_def new_tx_def sample_command_def)
  then show ?thesis
    by (simp add: open_on_def holds_def represents_def sample_book_def empty_book_def sample_db_def with_tx_def)
qed

theorem key_bound_to_payload_witness:
  "\<exists>x. x \<in> {CHR ''a'', CHR ''b''} \<and> (let s = sample_st\<lparr>st_db := sample_db\<lparr>db_transactions := [tx_row_of (keyed_tx x)]\<rparr>\<rparr> in
     (\<exists>e. fst (process_Execute sample_uow sample_settings sample_input quiet_env s) = Inl e)
     \<and> st_db (snd (process_Execute sample_uow sample_settings sample_input quiet_env s)) = st_db s)"
proof -
  have "\<exists>x \<in> {CHR ''a'', CHR ''b''}. replicate 64 x \<noteq> payload_hash quiet_env sample_input"
  proof (rule ccontr)
    assume "\<not> ?thesis"
    then have "replicate 64 CHR ''a'' = replicate 64 CHR ''b''" by simp
    then show False by (simp add: replicate_eq_replicate)
  qed
  then obtain x where x: "x \<in> {CHR ''a'', CHR ''b''}" "replicate 64 x \<noteq> payload_hash quiet_env sample_input"
    by blast
  then have "is_lower_hex x" by (auto simp: is_lower_hex_def is_digit_def)
  note h = keyed_holds [OF this]
  let ?s = "sample_st\<lparr>st_db := sample_db\<lparr>db_transactions := [tx_row_of (keyed_tx x)]\<rparr>\<rparr>"
  have hs: "holds (st_db ?s) (with_tx (keyed_tx x) sample_book)" using h by simp
  show ?thesis
    using key_bound_to_payload [OF honest_samples(1) hs, of sample_input "keyed_tx x" sample_uow sample_settings] x
    by (intro exI [of _ x])
      (simp add: FromQueue_def sample_input_def keyed_tx_def new_tx_def sample_command_def)
qed

text \<open>How one entry changes the wallets.\<close>

definition moved_by :: "ledger_entry list \<Rightarrow> wallet \<Rightarrow> wallet \<Rightarrow> bool" where
  "moved_by es w w' \<longleftrightarrow> w_id w' = w_id w \<and> 0 \<le> amount_of (w_balance w')
     \<and> amount_of (w_balance w') = amount_of (w_balance w)
        + sum_list (map (\<lambda>e. signed_amount (le_direction e) (le_amount e)) (entries_of (w_id w) es))"

lemma unmoved: "book_inv B \<Longrightarrow> list_all2 (moved_by []) (bk_wallets B) (bk_wallets B)"
  using book_wallet_inv by (intro list.rel_refl_strong) (auto simp: moved_by_def entries_of_def wallet_inv_def)

lemma settled_moved:
  assumes "settled_new cmd B t' eo B'" "book_inv B"
  shows "\<exists>es. bk_entries B' = bk_entries B @ es \<and> length es \<le> 1
    \<and> list_all2 (moved_by es) (bk_wallets B) (bk_wallets B')"
proof (cases eo)
  case None
  with settled_new_wallets [OF assms] unmoved [OF assms(2)] show ?thesis by (intro exI [of _ "[]"]) simp
next
  case (Some e)
  obtain w w' where w: "w \<in> set (bk_wallets B)" "bk_wallets B' = replace_wallet w' (bk_wallets B)" "w_id w' = w_id w"
      "amount_of (w_balance w') = amount_of (w_balance w) + signed_amount (le_direction e) (le_amount e)"
      "bk_entries B' = bk_entries B @ [e]" "le_walletID e = w_id w" "0 \<le> amount_of (w_balance w')"
    using settled_new_wallets [OF assms] Some by auto
  have di: "distinct (map w_id (bk_wallets B))" using assms(2) by (simp add: book_inv_def wallets_ok_def)
  have "moved_by [e] u (if w_id u = w_id w' then w' else u)" if u: "u \<in> set (bk_wallets B)" for u
  proof (cases "w_id u = w_id w'")
    case True
    then have "u = w" using id_unique(2) [OF di u w(1)] w(3) by simp
    with w show ?thesis by (simp add: moved_by_def entries_of_def)
  next
    case False
    then show ?thesis using book_wallet_inv [OF assms(2) u] w by (simp add: moved_by_def entries_of_def wallet_inv_def)
  qed
  then have "list_all2 (moved_by [e]) (bk_wallets B) (bk_wallets B')"
    unfolding w(2) replace_wallet_def list_all2_map2 by (intro list.rel_refl_strong)
  with w(5) show ?thesis by (intro exI [of _ "[e]"]) simp
qed

text \<open>
  C11. Money moves with its ledger entry and with nothing else. When an execution answers, the
  ledger grew by at most one entry; every wallet keeps its identity and its balance changes by
  exactly the signed amounts of the entries added for it, and never below zero; and a replay
  adds none.
\<close>

theorem money_moves_with_entries:
  assumes "honest_commit c" and "holds (st_db s) B"
  shows "case process_Execute u settings input c s of
      (Inl _, _) \<Rightarrow> True
    | (Inr res, s') \<Rightarrow> (\<exists>B' es. holds (st_db s') B' \<and> bk_entries B' = bk_entries B @ es
        \<and> length es \<le> 1 \<and> (pr_idempotentReplay res \<longrightarrow> es = [])
        \<and> list_all2 (moved_by es) (bk_wallets B) (bk_wallets B'))"
proof -
  have B: "book_inv B" "represents (st_db s) B" using assms(2) by (simp_all add: holds_def)
  have "\<exists>B' es. holds d B' \<and> bk_entries B' = bk_entries B @ es
        \<and> length es \<le> 1 \<and> (pr_idempotentReplay res \<longrightarrow> es = [])
        \<and> list_all2 (moved_by es) (bk_wallets B) (bk_wallets B')"
    if "process_outcome c input (payload_hash c input) B (st_db s) res d" for res d
    using that
  proof cases
    case redelivered
    then show ?thesis using B unmoved [OF B(1)] by (intro exI [of _ B] exI [of _ "[]"]) (simp add: holds_def)
  next
    case (replayed t)
    then show ?thesis using B unmoved [OF B(1)] by (intro exI [of _ B] exI [of _ "[]"]) (simp add: holds_def)
  next
    case (settled t' eo B')
    obtain es where "bk_entries B' = bk_entries B @ es" "length es \<le> 1"
      "list_all2 (moved_by es) (bk_wallets B) (bk_wallets B')"
      using settled_moved [OF settled(2) B(1)] by blast
    then show ?thesis using settled(1,3)
      by (intro exI [of _ B'] exI [of _ es]) (simp add: WagerResult_def)
  qed
  then show ?thesis
    using wp_process_Execute [OF assms, of u settings input]
    by (cases "process_Execute u settings input c s") (auto simp: wpM_def split: sum.splits)
qed

theorem money_moves_with_entries_witness:
  "holds (st_db sample_st) sample_book \<and>
   (case process_Execute sample_uow sample_settings sample_input quiet_env sample_st of
      (Inl _, _) \<Rightarrow> True
    | (Inr res, s') \<Rightarrow> (\<exists>B' es. holds (st_db s') B' \<and> bk_entries B' = bk_entries sample_book @ es
        \<and> length es \<le> 1 \<and> (pr_idempotentReplay res \<longrightarrow> es = [])
        \<and> list_all2 (moved_by es) (bk_wallets sample_book) (bk_wallets B')))"
proof -
  have h: "holds (st_db sample_st) sample_book" using sample_holds by (simp add: sample_st_def)
  from money_moves_with_entries [OF honest_samples(1) h] h show ?thesis by simp
qed

end
