(* ===== verification/Frame.thy ===== *)
theory Frame
  imports UnitOfWork
begin

text \<open>
  What a computation leaves alone. A relation between the state before and the state after that
  is reflexive, transitive and blind to the counter is kept by a computation as soon as its
  statements keep it; one that rolling back keeps too is kept by units of work. The locales
  prove this once for every such relation: reading, growing, leaving a variable alone.
\<close>

definition follows :: "(st \<Rightarrow> st \<Rightarrow> bool) \<Rightarrow> 'a M \<Rightarrow> bool" where
  "follows R m \<longleftrightarrow> (\<forall>c s. R s (snd (m c s)))"

lemma follows_wp: "follows R m \<Longrightarrow> wpM m c s (\<lambda>_ s'. R s s') (\<lambda>_ s'. R s s')"
  unfolding follows_def wpM_iff_run by (metis snd_conv)

lemma follows_run: "follows R m \<Longrightarrow> m c s = (r, s') \<Longrightarrow> R s s'"
  unfolding follows_def by (metis snd_conv)

locale step_relation =
  fixes R :: "st \<Rightarrow> st \<Rightarrow> bool"
  assumes refl: "R s s" and trans: "R s s' \<Longrightarrow> R s' s'' \<Longrightarrow> R s s''" and tick: "R s (s\<lparr>st_tick := n\<rparr>)"
begin

lemma return: "follows R (returnM x)" and throw: "follows R (throwM e)" and lift: "follows R (liftR r)"
  and ask: "follows R (askM f)" and observe: "follows R (observe g)" and getting: "follows R get_claimedID"
  by (simp_all add: follows_def returnM_def throwM_def liftR_def askM_def observe_def get_claimedID_def refl tick)

lemma bind: "follows R m \<Longrightarrow> (\<And>x. follows R (f x)) \<Longrightarrow> follows R (bindM m f)"
  unfolding follows_def bindM_def by (auto split: prod.split sum.split) (metis trans snd_conv)+

lemma mapErr: "follows R m \<Longrightarrow> follows R (mapErrM g m)"
  unfolding follows_def mapErrM_def by (auto split: prod.split sum.split) (metis snd_conv)+

lemma handle: "follows R m \<Longrightarrow> (\<And>e. follows R (h e)) \<Longrightarrow> follows R (catchM m h)"
  unfolding follows_def catchM_def by (auto split: prod.split sum.split) (metis trans snd_conv)+

lemma attempt: "follows R m \<Longrightarrow> follows R (tryM m)"
  unfolding follows_def tryM_def by (auto split: prod.split) (metis snd_conv)

lemma if_then: "follows R m \<Longrightarrow> follows R n \<Longrightarrow> follows R (if b then m else n)"
  by simp

lemma on_option: "follows R m \<Longrightarrow> (\<And>x. follows R (f x)) \<Longrightarrow> follows R (case v of None \<Rightarrow> m | Some x \<Rightarrow> f x)"
  by (cases v) simp_all

lemma on_sum: "(\<And>e. follows R (g e)) \<Longrightarrow> (\<And>x. follows R (f x)) \<Longrightarrow> follows R (case v of Inl e \<Rightarrow> g e | Inr x \<Rightarrow> f x)"
  by (cases v) simp_all

lemma on_pair: "(\<And>x y. follows R (f x y)) \<Longrightarrow> follows R (case v of (x, y) \<Rightarrow> f x y)"
  by (cases v) simp

lemma on_list: "follows R m \<Longrightarrow> (\<And>x xs. follows R (f x xs)) \<Longrightarrow> follows R (case v of [] \<Rightarrow> m | x # xs \<Rightarrow> f x xs)"
  by (cases v) simp_all

lemma now: "follows R clock_Now"
  by (simp add: clock_Now_def observe)

lemma new_id: "follows R ids_New"
  by (auto simp: ids_New_def intro!: bind observe on_option throw return)

lemma guarded: "follows R m \<Longrightarrow> follows R (whenM b m)"
  by (simp add: whenM_def return)

lemma stmt: "(\<And>s x d. f (st_db s) = Inr (x, d) \<Longrightarrow> R s (s\<lparr>st_db := d\<rparr>)) \<Longrightarrow> follows R (statement f)"
proof -
  assume f: "\<And>s x d. f (st_db s) = Inr (x, d) \<Longrightarrow> R s (s\<lparr>st_db := d\<rparr>)"
  have "R s (s\<lparr>st_tick := n, st_db := d\<rparr>)" if "f (st_db s) = Inr (x, d)" for s x d n
    using trans [OF tick [of s n] f [of "s\<lparr>st_tick := n\<rparr>"]] that by simp
  then show ?thesis
    by (auto simp: follows_def statement_def Let_def tick split: option.split sum.split)
qed

lemma call: "(\<And>s b. R s (s\<lparr>st_broker := b\<rparr>)) \<Longrightarrow> follows R (call_broker x)"
proof -
  assume b: "\<And>s b. R s (s\<lparr>st_broker := b\<rparr>)"
  have "R s (s\<lparr>st_tick := n, st_broker := b\<rparr>)" for s n b
    using trans [OF tick [of s n] b [of "s\<lparr>st_tick := n\<rparr>" b]] by simp
  then show ?thesis by (auto simp: follows_def call_broker_def Let_def tick split: option.split)
qed

lemma assign: "(\<And>s. R s (s\<lparr>st_claimedID := i\<rparr>)) \<Longrightarrow> follows R (set_claimedID i)"
  by (simp add: follows_def set_claimedID_def)

lemmas rules = return throw lift ask observe getting bind mapErr handle attempt if_then on_option on_sum
  on_pair on_list now new_id guarded

end

locale undoable_relation = step_relation +
  assumes undo: "R s s' \<Longrightarrow> R s (s'\<lparr>st_db := st_db s\<rparr>)"
begin

lemma undone: "R s s' \<Longrightarrow> R s (s'\<lparr>st_tick := n, st_db := st_db s\<rparr>)"
proof -
  assume "R s s'"
  from trans [OF undo [OF this] tick [of "s'\<lparr>st_db := st_db s\<rparr>" n]] show ?thesis
    by (cases s') simp
qed

lemma unit_run: assumes "follows R fn" shows "follows R (uow_run ro fn)"
proof -
  have control: "follows R control_statement"
    by (auto simp: control_statement_def intro!: stmt) (simp add: refl)
  have body: "follows R (bindM (mapErrM Classify (applyTimeouts ro)) (\<lambda>_. fn))"
    using control assms by (auto simp: applyTimeouts_def intro!: bind mapErr return)
  have commit: "R s (snd (uow_commit (st_db s) x c s'))" if "R s s'" for x c s s'
    using that undone trans [OF that tick]
    by (auto simp: uow_commit_def Let_def split: commit_report.split)
  have rollback: "R s (snd (uow_rollback (st_db s) e c s'))" if "R s s'" for e c s s'
    using that undone by (auto simp: uow_rollback_def Let_def split: option.split)
  have rest: "follows R (\<lambda>c s. case m c s of (Inl e, s') \<Rightarrow> uow_rollback (st_db s) e c s'
        | (Inr x, s') \<Rightarrow> uow_commit (st_db s) x c s')" if "follows R m" for m
    using commit rollback follows_run [OF that] by (fastforce simp: follows_def split: prod.split sum.split)
  show ?thesis
    unfolding uow_run_def by (intro bind mapErr control rest body)
qed

lemma unit_do: assumes "follows R fn" shows "follows R (uow_Do u fn)"
proof -
  have "follows R (uow_attempts k fn)" for k
    by (induction k) (auto simp: unit_run [OF assms] pause_def intro!: handle bind observe on_option return throw)
  then show ?thesis by (simp add: uow_Do_def)
qed

lemma unit_read: "follows R fn \<Longrightarrow> follows R (uow_Read u fn)"
  by (simp add: uow_Read_def unit_run)

end

section \<open>Relations of the service\<close>

text \<open>No table changes.\<close>

abbreviation reads_only :: "st \<Rightarrow> st \<Rightarrow> bool" where
  "reads_only s s' \<equiv> st_db s' = st_db s"

interpretation reading: undoable_relation reads_only
  by unfold_locales simp_all

text \<open>The broker is not called.\<close>

abbreviation calls_nobody :: "st \<Rightarrow> st \<Rightarrow> bool" where
  "calls_nobody s s' \<equiv> st_broker s' = st_broker s"

interpretation silent: undoable_relation calls_nobody
  by unfold_locales simp_all

text \<open>The claimed identifier stays.\<close>

abbreviation keeps_claimed :: "st \<Rightarrow> st \<Rightarrow> bool" where
  "keeps_claimed s s' \<equiv> st_claimedID s' = st_claimedID s"

interpretation claim: undoable_relation keeps_claimed
  by unfold_locales simp_all

text \<open>
  The outbox only grows: by events that no one has claimed yet, under identifiers not used
  before.
\<close>

definition unclaimed :: "outbox_row \<Rightarrow> bool" where
  "unclaimed x \<longleftrightarrow> xr_attempts x = 0 \<and> xr_locked_by x = None \<and> xr_locked_until x = None
     \<and> xr_last_error x = None \<and> xr_published_at x = None"

definition appended :: "outbox_row list \<Rightarrow> outbox_row list \<Rightarrow> bool" where
  "appended R R' \<longleftrightarrow> (\<exists>xs. R' = R @ xs \<and> (\<forall>x \<in> set xs. unclaimed x)
     \<and> (distinct (map xr_id R) \<longrightarrow> distinct (map xr_id R')))"

lemma appended_refl: "appended R R"
  by (auto simp: appended_def)

lemma appended_trans: "appended R R' \<Longrightarrow> appended R' R'' \<Longrightarrow> appended R R''"
  unfolding appended_def by fastforce

abbreviation grows :: "st \<Rightarrow> st \<Rightarrow> bool" where
  "grows s s' \<equiv> appended (db_outbox (st_db s)) (db_outbox (st_db s'))"

interpretation growth: undoable_relation grows
  by unfold_locales (auto intro: appended_refl appended_trans)

end
