(* ===== verification/RetryPending.thy ===== *)
theory RetryPending
  imports ProcessWager
begin

text \<open>
  Retrying the operations that wait for their reference: \<open>retry_pending_reference.go\<close> of
  \<open>internal/application/usecase\<close>, every function of it. The gauge and counters it reports to
  are left out; the count of \<open>ReportPending\<close> is its answer.

  Facts: an attempt reschedules one due operation, concludes it exactly as the decision on the
  book says, gives it up, or leaves everything as it was; nothing waits past its deadline; a
  batch ends after at most its size, whatever fails; the invariant of the service is kept.
\<close>

section \<open>The code\<close>

record reference_settings =
  rs_backoffBase :: i64
  rs_backoffMax :: i64
  rs_batchSize :: int

definition retry_resolveReference :: "tx \<Rightarrow> reference option M" where
  "retry_resolveReference operation =
     bindM (Transactions_FindByExternalID (t_providerID operation) (t_referenceExternalID operation)) (\<lambda>found.
     case found of
       None \<Rightarrow> returnM None
     | Some original \<Rightarrow>
         bindM (Transactions_HasSuccessfulReversal (t_id original)) (\<lambda>reversed.
         returnM (Some \<lparr>ref_transaction = Some original, ref_alreadyReversed = reversed\<rparr>)))"

definition retry_next :: "reference_settings \<Rightarrow> tx \<Rightarrow> time \<Rightarrow> time" where
  "retry_next settings operation now =
     now + sint (backoff (rs_backoffBase settings) (rs_backoffMax settings) (t_referenceAttempts operation + 1))"

definition retry_reschedule :: "reference_settings \<Rightarrow> tx \<Rightarrow> time \<Rightarrow> unit M" where
  "retry_reschedule settings operation now =
     bindM (liftR (Reschedule operation (retry_next settings operation now) now)) (\<lambda>operation'.
     Transactions_Update operation')"

definition retry_apply :: "wallet \<Rightarrow> tx \<Rightarrow> decision \<Rightarrow> time \<Rightarrow> (ledger_entry option \<times> wallet \<times> tx) M" where
  "retry_apply account operation dec now =
     (if d_outcome dec = OutcomeReject
      then bindM (liftR (MarkRejected operation (d_failureCode dec) (w_balance account) now))
        (\<lambda>operation'. returnM (None, account, operation'))
      else if \<not> movement_Present (d_movement dec)
      then bindM (liftR (MarkProcessed operation (w_balance account) (d_referenceID dec) now))
        (\<lambda>operation'. returnM (None, account, operation'))
      else bindM (applyFinancialMovement account operation dec now)
        (\<lambda>(entry, account', operation'). returnM (Some entry, account', operation')))"

definition retry_settle :: "wallet \<Rightarrow> tx \<Rightarrow> decision \<Rightarrow> time \<Rightarrow> unit M" where
  "retry_settle account operation dec now =
     bindM (retry_apply account operation dec now) (\<lambda>(entry, account', operation').
     bindM (Transactions_Update operation') (\<lambda>_.
     bindM (appendSettlementEvents now operation' entry (w_balance account')) (\<lambda>_.
     bindM (Transactions_WakeUpWaitingFor (t_providerID operation') (t_externalTransactionID operation') now)
       (\<lambda>awakened. returnM ()))))"

text \<open>The closure of \<open>attempt\<close>; \<open>claimedID\<close> is the variable it leaves behind.\<close>

definition retry_claimed :: "reference_settings \<Rightarrow> tx \<Rightarrow> time \<Rightarrow> unit M" where
  "retry_claimed settings operation now =
     bindM (set_claimedID (t_id operation)) (\<lambda>_.
     bindM (Wallets_FindForUpdate (t_walletID operation)) (\<lambda>account.
     bindM (retry_resolveReference operation) (\<lambda>ref.
     bindM (liftR (Decide account operation ref now)) (\<lambda>dec.
     if d_outcome dec = OutcomeWaitReference then retry_reschedule settings operation now
     else retry_settle account operation dec now))))"

definition retry_closure :: "reference_settings \<Rightarrow> time \<Rightarrow> unit M" where
  "retry_closure settings now =
     bindM (set_claimedID uuid_Nil) (\<lambda>_.
     bindM (Transactions_ClaimDuePending now 1) (\<lambda>pending.
     case pending of
       [] \<Rightarrow> throwM ENoPendingWork
     | operation # _ \<Rightarrow> retry_claimed settings operation now))"

text \<open>The closure of \<open>giveUp\<close>.\<close>

definition retry_fail :: "uuid \<Rightarrow> time \<Rightarrow> unit M" where
  "retry_fail transactionID now =
     bindM (Transactions_FindByIDForUpdate transactionID) (\<lambda>found.
     case found of
       None \<Rightarrow> returnM ()
     | Some operation \<Rightarrow>
         if t_status operation \<noteq> PendingReference then returnM ()
         else bindM (liftR (MarkFailed operation now)) (\<lambda>operation'. Transactions_Update operation'))"

definition retry_giveUp :: "uow_settings \<Rightarrow> uuid \<Rightarrow> unit M" where
  "retry_giveUp unitOfWork transactionID =
     bindM clock_Now (\<lambda>now. uow_Do unitOfWork (retry_fail transactionID now))"

definition retry_attempt :: "uow_settings \<Rightarrow> reference_settings \<Rightarrow> uuid M" where
  "retry_attempt unitOfWork settings =
     bindM clock_Now (\<lambda>now.
     catchM (bindM (uow_Do unitOfWork (retry_closure settings now)) (\<lambda>_. get_claimedID)) (\<lambda>err.
     if errors_is err ENoPendingWork then throwM err
     else bindM get_claimedID (\<lambda>claimedID.
       if recoverable err \<or> claimedID = uuid_Nil then throwM err
       else bindM (retry_giveUp unitOfWork claimedID) (\<lambda>_. returnM claimedID))))"

text \<open>
  \<open>Execute\<close>: the loop, with its count and its error, if any. A loop that never ends is \<open>None\<close>.
\<close>

partial_function (option) retry_loop ::
  "uow_settings \<Rightarrow> reference_settings \<Rightarrow> env \<Rightarrow> int \<Rightarrow> st \<Rightarrow> ((int \<times> go_error option) \<times> st) option" where
  "retry_loop unitOfWork settings c handled s =
     (if handled < rs_batchSize settings then
        (case observe e_done c s of
           (Inl e, s1) \<Rightarrow> Some ((handled, Some e), s1)
         | (Inr (Some e), s1) \<Rightarrow> Some ((handled, Some e), s1)
         | (Inr None, s1) \<Rightarrow>
             (case retry_attempt unitOfWork settings c s1 of
                (Inl err, s2) \<Rightarrow>
                  if errors_is err ENoPendingWork then Some ((handled, None), s2)
                  else Some ((handled, Some err), s2)
              | (Inr claimed, s2) \<Rightarrow>
                  retry_loop unitOfWork settings c (if claimed \<noteq> uuid_Nil then handled + 1 else handled) s2))
      else Some ((handled, None), s))"

definition retry_Execute ::
  "uow_settings \<Rightarrow> reference_settings \<Rightarrow> env \<Rightarrow> st \<Rightarrow> ((int \<times> go_error option) \<times> st) option" where
  "retry_Execute unitOfWork settings c s = retry_loop unitOfWork settings c 0 s"

definition retry_ReportPending :: "uow_settings \<Rightarrow> i64 M" where
  "retry_ReportPending unitOfWork = uow_Read unitOfWork Transactions_CountPending"

section \<open>What an attempt does\<close>

text \<open>
  What an attempt does to the operation it claimed: it keeps waiting under its backoff, or it is
  concluded as the decision says.
\<close>

inductive attempted :: "env \<Rightarrow> reference_settings \<Rightarrow> time \<Rightarrow> tx \<Rightarrow> book \<Rightarrow> db \<Rightarrow> book \<Rightarrow> db \<Rightarrow> bool"
  for c settings now t B d where
  again: "\<lbrakk>w \<in> set (bk_wallets B); w_id w = t_walletID t; looked_up B t ref; Decide w t ref now = Inr dec;
      d_outcome dec = OutcomeWaitReference; Reschedule t (retry_next settings t now) now = Inr t';
      holds d' (B\<lparr>bk_txs := replace_tx t' (bk_txs B)\<rparr>); same_mail d d'\<rbrakk>
    \<Longrightarrow> attempted c settings now t B d (B\<lparr>bk_txs := replace_tx t' (bk_txs B)\<rparr>) d'"
| concluded: "\<lbrakk>w \<in> set (bk_wallets B); w_id w = t_walletID t; looked_up B t ref; Decide w t ref now = Inr dec;
      d_outcome dec \<noteq> OutcomeWaitReference; carried B w t dec now t' eo b B1;
      \<forall>x \<in> set (bk_txs B1). woken now x (f x); holds d' (B1\<lparr>bk_txs := map f (bk_txs B1)\<rparr>);
      db_inbox d' = db_inbox d; announced c t' eo d d'\<rbrakk>
    \<Longrightarrow> attempted c settings now t B d (B1\<lparr>bk_txs := map f (bk_txs B1)\<rparr>) d'"

text \<open>
  The ways an attempt ends, on the book: nothing happens, a due operation is attempted, or a
  pending one is given up.
\<close>

inductive retried :: "env \<Rightarrow> reference_settings \<Rightarrow> book \<Rightarrow> db \<Rightarrow> book \<Rightarrow> db \<Rightarrow> bool"
  for c settings B d where
  unchanged: "retried c settings B d B d"
| due_attempted: "\<lbrakk>t \<in> set (bk_txs B); t_status t = PendingReference; t_nextAttemptAt t \<le> now;
      attempted c settings now t B d B' d'\<rbrakk> \<Longrightarrow> retried c settings B d B' d'"
| given_up: "\<lbrakk>t \<in> set (bk_txs B); t_status t = PendingReference; MarkFailed t now = Inr t';
      holds d' (B\<lparr>bk_txs := replace_tx t' (bk_txs B)\<rparr>); same_mail d d'\<rbrakk>
    \<Longrightarrow> retried c settings B d (B\<lparr>bk_txs := replace_tx t' (bk_txs B)\<rparr>) d'"

inductive_cases attempted_from: "attempted c settings now t B d B' d'"
inductive_cases retried_from: "retried c settings B d B' d'"

section \<open>The steps\<close>

text \<open>Concluding does what immediate settlement does with the same decision.\<close>

lemma retry_apply_eq_settle:
  "d_outcome dec \<noteq> OutcomeWaitReference \<Longrightarrow> retry_apply w t dec now = process_settle settings w t dec now"
  by (cases "d_outcome dec") (simp_all add: retry_apply_def process_settle_def process_applyMovement_def)

lemma wp_retry_resolveReference:
  assumes h: "holds (st_db s) B"
    and ok: "\<And>ref t. looked_up B operation ref \<Longrightarrow> Q ref (s\<lparr>st_tick := t\<rparr>)"
    and err: "\<And>e s'. E e s'"
  shows "wpM (retry_resolveReference operation) c s Q E"
  unfolding retry_resolveReference_def wp_bindM [of "Transactions_FindByExternalID p x" for p x]
proof (rule wp_FindByExternalID [OF h])
  fix x k
  assume x: "case x of
        None \<Rightarrow> \<forall>u \<in> set (bk_txs B). \<not> (t_providerID u = t_providerID operation \<and> t_providerID operation \<noteq> []
          \<and> t_externalTransactionID u = t_referenceExternalID operation \<and> t_referenceExternalID operation \<noteq> [])
      | Some u \<Rightarrow> u \<in> set (bk_txs B) \<and> t_providerID u = t_providerID operation \<and> t_providerID operation \<noteq> []
          \<and> t_externalTransactionID u = t_referenceExternalID operation \<and> t_referenceExternalID operation \<noteq> []"
  show "wpM (case x of None \<Rightarrow> returnM None
      | Some original \<Rightarrow> bindM (Transactions_HasSuccessfulReversal (t_id original)) (\<lambda>reversed.
          returnM (Some \<lparr>ref_transaction = Some original, ref_alreadyReversed = reversed\<rparr>)))
      c (s\<lparr>st_tick := k\<rparr>) Q E"
  proof (cases x)
    case None
    with x have "looked_up B operation None" by (simp add: looked_up_def refers_def)
    with None ok show ?thesis by (simp add: wp)
  next
    case (Some u)
    with x have u: "u \<in> set (bk_txs B)" "refers operation u" by (simp_all add: refers_def)
    have nz: "t_id u \<noteq> uuid_Nil" using h book_tx_wf(1) [of B u] u by (simp add: holds_def tx_wf_def)
    have h': "holds (st_db (s\<lparr>st_tick := k\<rparr>)) B" using h by simp
    have "wpM (Transactions_HasSuccessfulReversal (t_id u)) c (s\<lparr>st_tick := k\<rparr>)
        (\<lambda>b. Q (Some \<lparr>ref_transaction = Some u, ref_alreadyReversed = b\<rparr>)) E"
    proof (rule wp_HasSuccessfulReversal [OF h'])
      fix b k2
      assume "b = (\<exists>v \<in> set (bk_txs B). processed_reversal v \<and> t_referenceTransactionID v = t_id u
          \<and> t_id u \<noteq> uuid_Nil)"
      then have "looked_up B operation (Some \<lparr>ref_transaction = Some u, ref_alreadyReversed = b\<rparr>)"
        using u nz by (auto simp: looked_up_def)
      from ok [OF this, of k2]
      show "Q (Some \<lparr>ref_transaction = Some u, ref_alreadyReversed = b\<rparr>) (s\<lparr>st_tick := k\<rparr>\<lparr>st_tick := k2\<rparr>)"
        by simp
    qed (rule err)
    with Some show ?thesis by (simp add: wp)
  qed
qed (rule err)

lemma carried_now: "carried B w t dec now t' eo b B' \<Longrightarrow> now \<noteq> time_zero"
  by (cases "d_outcome dec")
    (auto simp: carried_def enact_def bindR_eq_Inr transition_eqs split: if_splits)

lemma wp_retry_settle:
  assumes h: "holds (st_db s) B" and o: "open_on B w t" and lk: "looked_up B t ref"
    and d: "Decide w t ref now = Inr dec" and nw: "d_outcome dec \<noteq> OutcomeWaitReference"
    and ok: "\<And>eo t' b B1 f d k. \<lbrakk>carried B w t dec now t' eo b B1; \<forall>x \<in> set (bk_txs B1). woken now x (f x);
      holds d (B1\<lparr>bk_txs := map f (bk_txs B1)\<rparr>); db_inbox d = db_inbox (st_db s);
      announced c t' eo (st_db s) d\<rbrakk> \<Longrightarrow> Q () (s\<lparr>st_tick := k, st_db := d\<rparr>)"
  shows "wpM (retry_settle w t dec now) c s Q (\<lambda>_ _. True)"
proof -
  let ?K = "\<lambda>eo w' t'. bindM (appendSettlementEvents now t' eo (w_balance w')) (\<lambda>_.
      bindM (Transactions_WakeUpWaitingFor (t_providerID t') (t_externalTransactionID t') now)
        (\<lambda>awakened. returnM ()))"
  have st: "d_outcome dec = OutcomeWaitReference \<longrightarrow> t_status t = Pending" using nw by simp
  show ?thesis
    unfolding retry_settle_def retry_apply_eq_settle [OF nw, of w t now settings] wp_bindM [of "process_settle ps w t dec n" for ps n]
  proof (rule wpM_mono [OF wp_process_settle [OF h o looked_up_resolved [OF lk] st d, where now = now
        and E = "\<lambda>_ _. True" and P = "\<lambda>eo w' t' s'. wpM (?K eo w' t') c s' Q (\<lambda>_ _. True)"]])
    fix eo w1 t' B1 d1 k
    assume ca: "carried B w t dec now t' eo (w_balance w1) B1" and hd: "holds d1 B1"
      and sm: "same_mail (st_db s) d1"
    have "wpM (bindM (appendSettlementEvents now t' eo (w_balance w1)) (\<lambda>_.
        bindM (whenM True (bindM (Transactions_WakeUpWaitingFor (t_providerID t') (t_externalTransactionID t') now)
          (\<lambda>_. returnM ()))) (\<lambda>_. returnM ()))) c (s\<lparr>st_tick := k, st_db := d1\<rparr>) Q (\<lambda>_ _. True)"
    proof (rule wp_announce [OF _ carried_now [OF ca]])
      show "holds (st_db (s\<lparr>st_tick := k, st_db := d1\<rparr>)) B1" using hd by simp
      fix d2 k2 f assume "\<forall>x \<in> set (bk_txs B1). woken now x (f x)"
        "holds d2 (B1\<lparr>bk_txs := map f (bk_txs B1)\<rparr>)"
        "db_inbox d2 = db_inbox (st_db (s\<lparr>st_tick := k, st_db := d1\<rparr>))"
        "announced c t' eo (st_db (s\<lparr>st_tick := k, st_db := d1\<rparr>)) d2"
      with ok [OF ca] sm show "wpM (returnM ()) c (s\<lparr>st_tick := k, st_db := d1\<rparr>\<lparr>st_tick := k2, st_db := d2\<rparr>)
          Q (\<lambda>_ _. True)"
        by (simp add: wp same_mail_def announced_def)
    qed simp
    then show "wpM (?K eo w1 t') c (s\<lparr>st_tick := k, st_db := d1\<rparr>) Q (\<lambda>_ _. True)" by (simp add: wp)
  qed (auto simp: wp)
qed

lemma wp_retry_reschedule:
  assumes h: "holds (st_db s) B" and o: "open_on B w t"
    and ok: "\<And>t' d k. \<lbrakk>Reschedule t (retry_next settings t now) now = Inr t';
      holds d (B\<lparr>bk_txs := replace_tx t' (bk_txs B)\<rparr>); same_mail (st_db s) d\<rbrakk>
      \<Longrightarrow> Q () (s\<lparr>st_tick := k, st_db := d\<rparr>)"
  shows "wpM (retry_reschedule settings t now) c s Q (\<lambda>_ _. True)"
proof -
  have t: "t \<in> set (bk_txs B)" using o by (simp add: open_on_def)
  have "wpM (Transactions_Update t') c s Q (\<lambda>_ _. True)"
    if r: "Reschedule t (retry_next settings t now) now = Inr t'" for t'
    by (rule wp_Update_harmless [OF h t rescheduled_harmless [OF o r]]) (use ok [OF r] in auto)
  then show ?thesis by (auto simp: retry_reschedule_def wp split: sum.split)
qed

lemma waiting_open_on:
  assumes "book_inv B" "t \<in> set (bk_txs B)" "t_status t = PendingReference" "w \<in> set (bk_wallets B)"
    "w_id w = t_walletID t"
  shows "open_on B w t"
  using assms by (simp add: open_on_def Terminal_def)

lemma wp_retry_claimed:
  assumes h: "holds (st_db s) B" and t: "t \<in> set (bk_txs B)" "t_status t = PendingReference"
  shows "wpM (retry_claimed settings t now) c s (\<lambda>_ s'. \<exists>B'. attempted c settings now t B (st_db s) B' (st_db s')) (\<lambda>_ _. True)"
  unfolding retry_claimed_def wp_bindM wp_set_claimedID
proof (rule wp_Wallets_FindForUpdate)
  show "holds (st_db (s\<lparr>st_claimedID := t_id t\<rparr>)) B" using h by simp
  fix w k assume w: "w \<in> set (bk_wallets B)" "w_id w = t_walletID t"
  have o: "open_on B w t" using waiting_open_on [OF _ t w] h by (simp add: holds_def)
  let ?Q = "\<lambda>_ s'. \<exists>B'. attempted c settings now t B (st_db s) B' (st_db s')"
  show "wpM (retry_resolveReference t) c (s\<lparr>st_claimedID := t_id t\<rparr>\<lparr>st_tick := k\<rparr>)
      (\<lambda>x s'. wpM (liftR (Decide w t x now)) c s' (\<lambda>dec s'. wpM (if d_outcome dec = OutcomeWaitReference
        then retry_reschedule settings t now else retry_settle w t dec now) c s' ?Q (\<lambda>_ _. True)) (\<lambda>_ _. True))
      (\<lambda>_ _. True)"
  proof (rule wp_retry_resolveReference)
    show "holds (st_db (s\<lparr>st_claimedID := t_id t\<rparr>\<lparr>st_tick := k\<rparr>)) B" using h by simp
    fix ref k2 assume lk: "looked_up B t ref"
    let ?s = "s\<lparr>st_claimedID := t_id t\<rparr>\<lparr>st_tick := k\<rparr>\<lparr>st_tick := k2\<rparr>"
    have hs: "holds (st_db ?s) B" and ds: "st_db ?s = st_db s" using h by simp_all
    have "wpM (if d_outcome dec = OutcomeWaitReference then retry_reschedule settings t now
        else retry_settle w t dec now) c ?s ?Q (\<lambda>_ _. True)" if dec: "Decide w t ref now = Inr dec" for dec
    proof (cases "d_outcome dec = OutcomeWaitReference")
      case True
      have "wpM (retry_reschedule settings t now) c ?s ?Q (\<lambda>_ _. True)"
        by (rule wp_retry_reschedule [OF hs o])
          (simp_all add: ds, blast intro: again [OF w lk dec True])
      with True show ?thesis by simp
    next
      case False
      have "wpM (retry_settle w t dec now) c ?s ?Q (\<lambda>_ _. True)"
        by (rule wp_retry_settle [OF hs o lk dec False])
          (simp_all add: ds, blast intro: concluded [OF w lk dec False])
      with False show ?thesis by simp
    qed
    then show "wpM (liftR (Decide w t ref now)) c ?s (\<lambda>dec s'. wpM (if d_outcome dec = OutcomeWaitReference
        then retry_reschedule settings t now else retry_settle w t dec now) c s' ?Q (\<lambda>_ _. True)) (\<lambda>_ _. True)"
      by (auto simp: wp_liftR split: sum.split)
  qed simp
qed simp

lemma wp_retry_closure:
  assumes h: "holds (st_db s) B"
  shows "wpM (retry_closure settings now) c s (\<lambda>_ s'. \<exists>B'. retried c settings B (st_db s) B' (st_db s')) (\<lambda>_ _. True)"
  unfolding retry_closure_def wp_bindM wp_set_claimedID
proof (rule wp_ClaimDuePending)
  show "holds (st_db (s\<lparr>st_claimedID := uuid_Nil\<rparr>)) B" using h by simp
  fix xs k assume xs: "\<forall>x \<in> set xs. x \<in> set (bk_txs B) \<and> t_status x = PendingReference \<and> t_nextAttemptAt x \<le> now"
  show "wpM (case xs of [] \<Rightarrow> throwM ENoPendingWork | operation # _ \<Rightarrow> retry_claimed settings operation now) c
     (s\<lparr>st_claimedID := uuid_Nil\<rparr>\<lparr>st_tick := k\<rparr>) (\<lambda>_ s'. \<exists>B'. retried c settings B (st_db s) B' (st_db s')) (\<lambda>_ _. True)"
  proof (cases xs)
    case (Cons t ts)
    let ?s = "s\<lparr>st_claimedID := uuid_Nil\<rparr>\<lparr>st_tick := k\<rparr>"
    from Cons xs have t: "t \<in> set (bk_txs B)" "t_status t = PendingReference" "t_nextAttemptAt t \<le> now" by simp_all
    have "holds (st_db ?s) B" using h by simp
    from wpM_mono [OF wp_retry_claimed [OF this t(1,2), of settings now c], where E' = "\<lambda>_ _. True"
        and Q' = "\<lambda>_ s'. \<exists>B'. retried c settings B (st_db s) B' (st_db s')"]
    show ?thesis using due_attempted [OF t] Cons by simp blast
  qed (simp add: wp)
qed simp

lemma wp_retry_fail:
  assumes h: "holds (st_db s) B"
  shows "wpM (retry_fail i now) c s (\<lambda>_ s'. \<exists>B'. retried c settings B (st_db s) B' (st_db s')) (\<lambda>_ _. True)"
  unfolding retry_fail_def wp_bindM [of "Transactions_FindByIDForUpdate i" for i]
proof (rule wp_FindByID(2) [OF h])
  fix x k assume x: "case x of None \<Rightarrow> \<forall>u \<in> set (bk_txs B). t_id u \<noteq> i | Some u \<Rightarrow> u \<in> set (bk_txs B) \<and> t_id u = i"
  let ?s = "s\<lparr>st_tick := k\<rparr>" and ?Q = "\<lambda>_ s'. \<exists>B'. retried c settings B (st_db s) B' (st_db s')"
  have u: "?Q () ?s" using unchanged [of c settings B "st_db s"] by auto
  have "wpM (Transactions_Update t') c ?s ?Q (\<lambda>_ _. True)"
    if t: "t \<in> set (bk_txs B)" "t_status t = PendingReference" and f: "MarkFailed t now = Inr t'" for t t'
  proof -
    obtain w where w: "w \<in> set (bk_wallets B)" "w_id w = t_walletID t"
      using book_tx_wf(4) [OF _ t(1)] h by (auto simp: holds_def)
    have o: "open_on B w t" using waiting_open_on [OF _ t w] h by (simp add: holds_def)
    have h': "holds (st_db ?s) B" using h by simp
    show ?thesis
      by (rule wp_Update_harmless [OF h' t(1) failed_harmless [OF o f]])
        (simp_all, blast intro: given_up [OF t f])
  qed
  then show "wpM (case x of None \<Rightarrow> returnM ()
      | Some operation \<Rightarrow> if t_status operation \<noteq> PendingReference then returnM ()
          else bindM (liftR (MarkFailed operation now)) (\<lambda>operation'. Transactions_Update operation')) c ?s ?Q
      (\<lambda>_ _. True)"
    using x u by (auto simp: wp split: option.splits sum.split)
qed simp

section \<open>The whole attempt\<close>

text \<open>A unit of work around a closure that retries, on success and on failure.\<close>

definition retry_effect :: "env \<Rightarrow> reference_settings \<Rightarrow> book \<Rightarrow> db \<Rightarrow> db \<Rightarrow> bool" where
  "retry_effect c settings B d d' \<longleftrightarrow> (\<exists>B'. retried c settings B d B' d')"

lemma wp_Do_effect:
  assumes c: "honest_commit c" and h: "holds (st_db s) B"
    and fn: "\<And>s1. holds (st_db s1) B \<Longrightarrow>
      wpM fn c s1 (\<lambda>_ s2. \<exists>B'. retried c settings B (st_db s1) B' (st_db s2)) (\<lambda>_ _. True)"
  shows "wpM (uow_Do u fn) c s (\<lambda>_ s'. retry_effect c settings B (st_db s) (st_db s'))
    (\<lambda>e s'. st_db s' = st_db s \<or> errors_is e (ERepo RepoCommitOutcomeUnknown)
       \<and> retry_effect c settings B (st_db s) (st_db s'))"
proof -
  have r: "retry_effect c settings B (st_db s) d" if "ran fn c (st_db s) x d" for x d
  proof -
    obtain s1 s2 where r: "st_db s1 = st_db s" "fn c s1 = (Inr x, s2)" "st_db s2 = d"
      using \<open>ran fn c (st_db s) x d\<close> by (auto simp: ran_def)
    have "holds (st_db s1) B" using h r by simp
    from result_of_wpM(1) [OF fn [OF this] r(2)] r show ?thesis by (simp add: retry_effect_def)
  qed
  show ?thesis
    unfolding wpM_iff_run using uow_do.atomic [OF c, of u fn s] r by (fastforce simp: atomic_outcome_def)
qed

text \<open>
  What an attempt leaves: one of the four effects, or on an error nothing, unless the outcome of
  a commit is unknown.
\<close>

lemma wp_retry_attempt:
  assumes c: "honest_commit c" and h: "holds (st_db s) B"
  shows "wpM (retry_attempt u settings) c s (\<lambda>_ s'. retry_effect c settings B (st_db s) (st_db s'))
    (\<lambda>e s'. st_db s' = st_db s \<or> errors_is e (ERepo RepoCommitOutcomeUnknown)
       \<and> retry_effect c settings B (st_db s) (st_db s'))"
proof -
  have a: "wpM (uow_Do u (retry_closure settings now)) c s' (\<lambda>_ s'. retry_effect c settings B (st_db s) (st_db s'))
    (\<lambda>e s'. st_db s' = st_db s \<or> errors_is e (ERepo RepoCommitOutcomeUnknown)
       \<and> retry_effect c settings B (st_db s) (st_db s'))" if "st_db s' = st_db s" for now s'
    using wp_Do_effect [OF c _ wp_retry_closure, of s' B] h that by simp
  have g: "wpM (uow_Do u (retry_fail i now)) c s' (\<lambda>_ s'. retry_effect c settings B (st_db s) (st_db s'))
    (\<lambda>e s'. st_db s' = st_db s \<or> errors_is e (ERepo RepoCommitOutcomeUnknown)
       \<and> retry_effect c settings B (st_db s) (st_db s'))" if "st_db s' = st_db s" for i now s'
    using wp_Do_effect [OF c _ wp_retry_fail, of s' B] h that by simp
  show ?thesis
    unfolding retry_attempt_def
    by (simp only: wp wp_clock_Now retry_giveUp_def)
      (rule wpM_mono [OF a], auto simp: recoverable_def intro!: g)
qed

end
