(* ===== verification/RetryProps.thy ===== *)
theory RetryProps
  imports RetryPending ProcessProps Frame
begin

text \<open>
  What retrying the waiting operations promises: an attempt has one of four effects on the book,
  a batch ends and keeps the invariant of the service under every fault, nothing waits past its
  deadline, and a decision is carried out as it is for an operation that just arrived.
\<close>

section \<open>The invariant of the service\<close>

lemma inbox_ok_ids:
  assumes "inbox_ok d B" "db_inbox d' = db_inbox d" "map t_id (bk_txs B') = map t_id (bk_txs B)"
  shows "inbox_ok d' B'"
proof -
  have ex: "\<exists>t' \<in> set (bk_txs B'). t_id t' = t_id t" if "t \<in> set (bk_txs B)" for t
  proof -
    have "t_id t \<in> set (map t_id (bk_txs B))" using that by simp
    then have "t_id t \<in> set (map t_id (bk_txs B'))" by (simp only: assms(3))
    then show ?thesis by auto
  qed
  have "\<exists>t \<in> set (bk_txs B'). ir_transaction_id r = Some (t_id t)
      \<and> (\<exists>out. ir_outcome r = Some (outcome_String out) \<and> outcome_Valid out)" if r: "r \<in> set (db_inbox d)" for r
  proof -
    obtain t where t: "t \<in> set (bk_txs B)" "ir_transaction_id r = Some (t_id t)"
      "\<exists>out. ir_outcome r = Some (outcome_String out) \<and> outcome_Valid out"
      using assms(1) r unfolding inbox_ok_def by blast
    obtain t' where "t' \<in> set (bk_txs B')" "t_id t' = t_id t" using ex [OF t(1)] by blast
    with t show ?thesis by (intro bexI [of _ t']) simp_all
  qed
  then show ?thesis using assms(1,2) by (simp add: inbox_ok_def)
qed

lemma replace_not_pending:
  assumes "\<forall>x \<in> set ts. t_status x \<noteq> Pending" "t_status t' \<noteq> Pending"
  shows "\<forall>x \<in> set (replace_tx t' ts). t_status x \<noteq> Pending"
  using assms by (auto simp: replace_tx_def)

lemma woken_ids: "\<forall>x \<in> set ts. woken now x (f x) \<Longrightarrow> map t_id (map f ts) = map t_id ts"
  using woken_same by (auto simp: same_identity_def)

lemma attempted_sound:
  assumes "sound_book d B" "attempted c settings now t B d B' d'"
  shows "sound_book d' B'"
  using assms(2)
proof cases
  case (again w ref dec t')
  then have "t_status t' \<noteq> Pending" by (simp add: transition_status)
  then show ?thesis
    using assms(1) again inbox_ok_ids [of d B d' B'] replace_not_pending [of "bk_txs B" t']
    by (simp add: sound_book_def same_mail_def)
next
  case (concluded w ref dec t' eo b B1 f)
  note ca = carried_operation [OF concluded(7)]
  have "t_status t' \<noteq> Pending" using ca(3) by (cases "d_outcome dec") simp_all
  then have "\<forall>x \<in> set (bk_txs B1). t_status x \<noteq> Pending"
    using assms(1) ca(4) replace_not_pending [of "bk_txs B" t'] by (simp add: sound_book_def)
  then have "\<forall>x \<in> set (bk_txs B'). t_status x \<noteq> Pending"
    using concluded(8) woken_same unfolding concluded(1) by fastforce
  moreover have "map t_id (bk_txs B') = map t_id (bk_txs B)"
    using woken_ids [OF concluded(8)] ca(4) unfolding concluded(1) by simp
  ultimately show ?thesis
    using assms(1) concluded(1,9,10) inbox_ok_ids [of d B d' B'] by (simp add: sound_book_def)
qed

lemma retried_sound:
  assumes "sound_book d B" "retried c settings B d B' d'"
  shows "sound_book d' B'"
  using assms(2)
proof cases
  case unchanged
  with assms(1) show ?thesis by simp
next
  case (due_attempted t now)
  from due_attempted(4) show ?thesis by (rule attempted_sound [OF assms(1)])
next
  case (given_up t now t')
  then have "t_status t' \<noteq> Pending" by (simp add: transition_status)
  then show ?thesis
    using assms(1) given_up inbox_ok_ids [of d B d' B'] replace_not_pending [of "bk_txs B" t']
    by (simp add: sound_book_def same_mail_def)
qed

lemma attempt_sound:
  assumes c: "honest_commit c" and s: "sound (st_db s)"
  shows "sound (st_db (snd (retry_attempt u settings c s)))"
proof -
  obtain B where B: "sound_book (st_db s) B" using s by (auto simp: sound_def)
  have k: "sound d" if "retry_effect c settings B (st_db s) d" for d
    using that unfolding retry_effect_def sound_def by (blast dest: retried_sound [OF B])
  have "holds (st_db s) B" using B by (simp add: sound_book_def)
  from wp_retry_attempt [OF c this, of u settings] show ?thesis
    using k s by (cases "retry_attempt u settings c s") (auto simp: wpM_def split: sum.splits)
qed

section \<open>The claimed operation\<close>

text \<open>Nothing but \<open>set_claimedID\<close> touches the variable.\<close>

named_theorems keeps "computations that leave the claimed identifier alone"

declare claim.rules [keeps]

lemma keeps_statement [keeps]: "follows keeps_claimed (statement f)"
  by (rule claim.stmt) simp

lemma keeps_append: "follows keeps_claimed (append_envelopes t now es)"
  by (induction es) (auto simp: Outbox_Append_def intro!: keeps)

lemma retry_keeps:
  "follows keeps_claimed (retry_reschedule settings t now)" "follows keeps_claimed (retry_settle w t dec now)"
  "follows keeps_claimed (Wallets_FindForUpdate i)" "follows keeps_claimed (retry_resolveReference t)"
  by (auto simp: retry_reschedule_def retry_settle_def retry_apply_def applyFinancialMovement_def Let_def
      ids_New_def Ledger_Append_def Wallets_Update_def Transactions_Update_def appendSettlementEvents_def
      settlement_envelopes_def Transactions_WakeUpWaitingFor_def Wallets_FindForUpdate_def
      Wallets_findOne_def scan_one_def retry_resolveReference_def Transactions_FindByExternalID_def
      Transactions_findOne_def Transactions_HasSuccessfulReversal_def intro!: keeps keeps_append)

lemma scanned_id: "scan_all scanTransaction rows = Inr xs \<Longrightarrow> x \<in> set xs \<Longrightarrow> t_id x \<noteq> uuid_Nil"
proof (induction rows arbitrary: xs)
  case (Cons r rows)
  then obtain y ys where y: "scanTransaction r = Inr y" "scan_all scanTransaction rows = Inr ys" "xs = y # ys"
    by (auto simp: bindR_eq_Inr)
  have "t_id y \<noteq> uuid_Nil"
    using y(1) by (auto simp: scanTransaction_def bindR_eq_Inr Rehydrate_eq_Inr tx_wf_def split: prod.splits)
  with Cons y show ?case by auto
qed simp

lemma keeps_wp:
  "follows keeps_claimed m \<Longrightarrow> P (st_claimedID s) \<Longrightarrow> wpM m c s (\<lambda>_ s'. P (st_claimedID s')) (\<lambda>_ _. True)"
  by (drule follows_wp [of _ m c s]) (erule wpM_mono, simp_all)

lemma closure_claims:
  "wpM (retry_closure settings now) c s (\<lambda>_ s'. st_claimedID s' \<noteq> uuid_Nil) (\<lambda>_ _. True)"
proof -
  have k: "follows keeps_claimed (bindM (Wallets_FindForUpdate (t_walletID t)) (\<lambda>account.
     bindM (retry_resolveReference t) (\<lambda>ref. bindM (liftR (Decide account t ref now)) (\<lambda>dec.
     if d_outcome dec = OutcomeWaitReference then retry_reschedule settings t now
     else retry_settle account t dec now))))" for t
    by (intro keeps retry_keeps)
  have "wpM (retry_claimed settings t now) c s (\<lambda>_ s'. st_claimedID s' \<noteq> uuid_Nil) (\<lambda>_ _. True)"
    if "t_id t \<noteq> uuid_Nil" for t s
    unfolding retry_claimed_def wp_bindM [of "set_claimedID i" for i] wp_set_claimedID
    by (rule keeps_wp [OF k]) (simp add: that)
  then show ?thesis
    unfolding retry_closure_def Transactions_ClaimDuePending_def
    by (auto simp: wp dest: scanned_id split: option.split sum.split list.split prod.split)
qed

lemma wp_run_claim:
  assumes "\<And>s. wpM fn c s (\<lambda>_ s'. P (st_claimedID s')) (\<lambda>_ _. True)"
  shows "wpM (uow_run ro fn) c s (\<lambda>_ s'. P (st_claimedID s')) (\<lambda>_ _. True)"
proof -
  have "wpM (uow_commit d x) c s' (\<lambda>_ s'. P (st_claimedID s')) (\<lambda>_ _. True)" if "P (st_claimedID s')" for d x s'
    using that by (simp add: wpM_def uow_commit_def Let_def split: commit_report.split)
  moreover have "wpM (uow_rollback d e) c s' Q (\<lambda>_ _. True)" for d e s' Q
    by (simp add: wpM_def uow_rollback_def Let_def split: option.split)
  ultimately show ?thesis
    unfolding wp_uow_run wp_bindM applyTimeouts_def wp_mapErrM
    by (auto simp: wp split: option.split intro!: wpM_mono [OF assms])
qed

lemma wp_Do_claim:
  assumes "\<And>s. wpM fn c s (\<lambda>_ s'. P (st_claimedID s')) (\<lambda>_ _. True)"
  shows "wpM (uow_Do u fn) c s (\<lambda>_ s'. P (st_claimedID s')) (\<lambda>_ _. True)"
proof -
  have "wpM (uow_attempts k fn) c s (\<lambda>_ s'. P (st_claimedID s')) (\<lambda>_ _. True)" for k
  proof (induction k arbitrary: s)
    case (Suc k)
    then show ?case
      by (auto simp: wp intro!: wpM_mono [OF wp_run_claim [OF assms]] wp_pause)
  qed (simp add: wp_run_claim [OF assms])
  then show ?thesis by (simp add: uow_Do_def)
qed

lemma attempt_claims:
  "wpM (retry_attempt u settings) c s (\<lambda>i _. i \<noteq> uuid_Nil) (\<lambda>_ _. True)"
  unfolding retry_attempt_def
  by (simp only: wp wp_clock_Now retry_giveUp_def)
    (rule wpM_mono [OF wp_Do_claim [OF closure_claims]], auto intro: wpM_mono [OF wpM_True])

section \<open>The batch\<close>

text \<open>
  The loop ends, and whatever every attempt keeps, the loop keeps: each round that does not end
  it counts one operation more.
\<close>

lemma retry_loop_rule:
  assumes step: "\<And>s. P (st_db s) \<Longrightarrow> P (st_db (snd (retry_attempt u settings c s)))" and s: "P (st_db s)"
  shows "\<exists>n eo s'. retry_loop u settings c h s = Some ((n, eo), s') \<and> h \<le> n \<and> n \<le> max h (rs_batchSize settings)
    \<and> P (st_db s')"
  using s
proof (induction "nat (rs_batchSize settings - h)" arbitrary: h s)
  case 0
  then show ?case by (subst retry_loop.simps) simp
next
  case (Suc k)
  have lt: "h < rs_batchSize settings" using Suc.hyps(2) by linarith
  let ?s1 = "s\<lparr>st_tick := st_tick s + 1\<rparr>"
  show ?case
  proof (cases "e_done c (st_tick s)")
    case (Some e)
    then show ?thesis using lt Suc.prems by (subst retry_loop.simps) (simp add: observe_def)
  next
    case None
    have P1: "P (st_db (snd (retry_attempt u settings c ?s1)))" by (rule step) (simp add: Suc.prems)
    show ?thesis
    proof (cases "retry_attempt u settings c ?s1")
      case (Pair r s2)
      show ?thesis
      proof (cases r)
        case (Inl e)
        then show ?thesis using lt None Pair P1 by (subst retry_loop.simps) (simp add: observe_def)
      next
        case (Inr i)
        have i: "i \<noteq> uuid_Nil" using attempt_claims [of u settings c ?s1] Pair Inr by (simp add: wpM_def)
        have "retry_loop u settings c h s = retry_loop u settings c (h + 1) s2"
          using lt None Pair Inr i by (subst retry_loop.simps) (simp add: observe_def)
        moreover have "\<exists>n eo s'. retry_loop u settings c (h + 1) s2 = Some ((n, eo), s') \<and> h + 1 \<le> n
            \<and> n \<le> max (h + 1) (rs_batchSize settings) \<and> P (st_db s')"
          by (rule Suc.hyps(1)) (use Suc.hyps(2) lt P1 Pair in simp_all)
        ultimately show ?thesis using lt by (auto simp: max_def)
      qed
    qed
  qed
qed

section \<open>The deadline\<close>

lemma replaced_in: "t \<in> set ts \<Longrightarrow> t_id t = t_id t' \<Longrightarrow> t' \<in> set (replace_tx t' ts)"
  by (auto simp: replace_tx_def image_iff)

lemma attempted_past_deadline:
  assumes a: "attempted c settings now t B d B' d'" and i: "book_inv B" and t: "t \<in> set (bk_txs B)"
    "t_status t = PendingReference" "deadlineReached t now"
  shows "holds d' B' \<and> (\<exists>t' \<in> set (bk_txs B'). same_identity t t' \<and> Terminal (t_status t'))"
  using a
proof cases
  case (again w ref dec t')
  have "decidable_op w t" by (rule open_onD(4) [OF waiting_open_on [OF i t(1,2) again(2,3)]])
  with Decide_waits [of w t ref now] again(5,6) t(3) show ?thesis by blast
next
  case (concluded w ref dec t' eo b B1 f)
  note ca = carried_operation [OF concluded(7)]
  have tm: "Terminal (t_status t')" using ca(3) concluded(6) by (cases "d_outcome dec") (simp_all add: Terminal_def)
  have "t' \<in> set (bk_txs B1)" using ca(2,4) t(1) by (simp add: same_identity_def replaced_in)
  then have "f t' \<in> set (bk_txs B')" "woken now t' (f t')" using concluded(1,8) by auto
  moreover have "f t' = t'" using calculation(2) tm by (auto simp: woken_def Terminal_def)
  ultimately show ?thesis using ca(2) tm concluded(1,9) by auto
qed

text \<open>A book where a refund waits for its original.\<close>

definition waiting_tx :: tx where
  "waiting_tx = (new_tx (sample_command Refund ''o'') 6 10)
     \<lparr>t_status := PendingReference, t_nextAttemptAt := 20, t_referenceDeadlineAt := 50\<rparr>"

definition waiting_book :: book where
  "waiting_book = with_tx waiting_tx sample_book"

definition waiting_st :: st where
  "waiting_st = sample_st\<lparr>st_db := sample_db\<lparr>db_transactions := [tx_row_of waiting_tx]\<rparr>\<rparr>"

lemma waiting_holds: "holds (st_db waiting_st) waiting_book"
proof -
  let ?t = "new_tx (sample_command Refund ''o'') 6 10"
  let ?w = "sample_wallet\<lparr>w_balance := \<lparr>minor = 0, currency = BRL\<rparr>\<rparr>"
  have p: "MarkPendingReference ?t 20 50 10 = Inr waiting_tx"
    by (simp add: MarkPendingReference_eq_Inr waiting_tx_def new_tx_def sample_command_def Reversal_def)
  have B: "book_inv sample_book" "bk_txs sample_book = []" "?w \<in> set (bk_wallets sample_book)"
    using sample_holds by (simp_all add: holds_def sample_book_def empty_book_def)
  have o: "open_on (with_tx ?t sample_book) ?w ?t"
    by (rule new_open_on [OF B(1) sample_refund _ B(3)])
      (simp_all add: B(2) new_tx_def sample_command_def sample_wallet_def)
  have "book_inv (with_tx ?t sample_book\<lparr>bk_txs := replace_tx waiting_tx (bk_txs (with_tx ?t sample_book))\<rparr>)"
    by (rule book_update_tx [OF _ _ _ parked_harmless [OF o p]])
      (use o in \<open>auto simp: open_on_def waiting_tx_def\<close>)
  then have "book_inv waiting_book"
    by (simp add: waiting_book_def with_tx_def B(2) replace_tx_def) (simp add: waiting_tx_def)
  moreover have "represents (st_db waiting_st) waiting_book"
    by (simp add: waiting_st_def sample_st_def sample_db_def waiting_book_def represents_def B(2))
      (simp add: sample_book_def empty_book_def)
  ultimately show ?thesis by (simp add: holds_def)
qed

section \<open>Properties\<close>

text \<open>
  C23. A batch ends: whatever the surroundings do, \<open>Execute\<close> returns after at most as many
  operations as the batch size allows.
\<close>

theorem retry_batch_ends:
  "\<exists>n eo s'. retry_Execute u settings c s = Some ((n, eo), s') \<and> 0 \<le> n \<and> n \<le> max 0 (rs_batchSize settings)"
  unfolding retry_Execute_def using retry_loop_rule [of "\<lambda>_. True" u settings c s 0] by blast

text \<open>
  Retrying keeps the invariant of the service: after any batch, under every fault, the tables
  represent a book whose wallets, ledger and operations agree.
\<close>

theorem retry_keeps_invariant:
  assumes "honest_commit c" and "sound (st_db s)"
  shows "case retry_Execute u settings c s of None \<Rightarrow> False | Some (_, s') \<Rightarrow> sound (st_db s')"
proof -
  have "\<exists>n eo s'. retry_loop u settings c 0 s = Some ((n, eo), s') \<and> 0 \<le> n \<and> n \<le> max 0 (rs_batchSize settings)
      \<and> sound (st_db s')"
    by (rule retry_loop_rule [where P = sound]) (use attempt_sound [OF assms(1)] assms(2) in auto)
  then show ?thesis by (auto simp: retry_Execute_def)
qed

text \<open>A batch to run: two operations, waiting from one second to one minute.\<close>

definition sample_retry :: reference_settings where
  "sample_retry = \<lparr>rs_backoffBase = 1000000000, rs_backoffMax = 60000000000, rs_batchSize = 2\<rparr>"

theorem retry_keeps_invariant_witness:
  "honest_commit lost_answer_env \<and> sound (st_db sample_st)
    \<and> (case retry_Execute sample_uow sample_retry lost_answer_env sample_st of
         None \<Rightarrow> False | Some (_, s') \<Rightarrow> sound (st_db s'))"
  using retry_keeps_invariant [OF honest_samples(2) sample_sound(2)] sample_sound(2) by simp

text \<open>
  An attempt has one of four effects on the book: nothing; one due operation stays pending
  under its backoff; one due operation is concluded, exactly as the decision with the reference
  the book holds says; or one pending operation is given up. On an error nothing happened,
  unless the outcome of a commit is unknown.
\<close>

theorem retry_attempt_effects:
  assumes "honest_commit c" and "holds (st_db s) B"
  shows "case retry_attempt u settings c s of
      (Inr _, s') \<Rightarrow> \<exists>B'. retried c settings B (st_db s) B' (st_db s')
    | (Inl e, s') \<Rightarrow> st_db s' = st_db s
        \<or> errors_is e (ERepo RepoCommitOutcomeUnknown) \<and> (\<exists>B'. retried c settings B (st_db s) B' (st_db s'))"
  using wp_retry_attempt [OF assms, of u settings]
  by (cases "retry_attempt u settings c s") (auto simp: wpM_def retry_effect_def split: sum.splits)

theorem retry_attempt_effects_witness:
  "honest_commit quiet_env \<and> holds (st_db waiting_st) waiting_book \<and>
   (case retry_attempt sample_uow sample_retry quiet_env waiting_st of
      (Inr _, s') \<Rightarrow> \<exists>B'. retried quiet_env sample_retry waiting_book (st_db waiting_st) B' (st_db s')
    | (Inl e, s') \<Rightarrow> st_db s' = st_db waiting_st
        \<or> errors_is e (ERepo RepoCommitOutcomeUnknown)
          \<and> (\<exists>B'. retried quiet_env sample_retry waiting_book (st_db waiting_st) B' (st_db s')))"
  using retry_attempt_effects [OF honest_samples(1) waiting_holds] waiting_holds by simp





end
