(* ===== verification/Calm.thy ===== *)
theory Calm
  imports BookSql
begin

text \<open>
  Surroundings in which nothing fails: every statement runs, every commit is applied and says so,
  no context ends. What the code does there is decided by the tables alone; the rules below
  compute it, errors included, so that a use case can be shown to answer.
\<close>

definition calm :: "env \<Rightarrow> bool" where
  "calm c \<longleftrightarrow> (\<forall>n. e_fault c n = None \<and> e_commit c n = CommitOk \<and> e_rollback c n = None \<and> e_done c n = None)"

lemma calm_honest: "calm c \<Longrightarrow> honest_commit c"
  by (simp add: calm_def honest_commit_def)

lemma quiet_calm [simp]: "calm quiet_env"
  by (simp add: calm_def quiet_env_def)

lemma calm_statement:
  assumes "calm c"
  shows "wpM (statement f) c s Q E \<longleftrightarrow>
    (case f (st_db s) of
       Inl e \<Rightarrow> E e (s\<lparr>st_tick := st_tick s + 1\<rparr>)
     | Inr (x, d) \<Rightarrow> Q x (s\<lparr>st_tick := st_tick s + 1, st_db := d\<rparr>))"
  using assms by (simp add: wp_statement calm_def)

lemma calm_control: "calm c \<Longrightarrow> wpM control_statement c s Q E \<longleftrightarrow> Q () (s\<lparr>st_tick := st_tick s + 1\<rparr>)"
  by (simp add: control_statement_def calm_statement)

text \<open>A unit of work is its closure, and rolls back what a failed closure did.\<close>

lemma calm_run:
  assumes c: "calm c"
    and fn: "\<And>k. wpM fn c (s\<lparr>st_tick := k\<rparr>) (\<lambda>x s'. \<forall>t. Q x (s'\<lparr>st_tick := t\<rparr>))
      (\<lambda>e s'. e \<noteq> EPanic \<and> (\<forall>t. E e (s'\<lparr>st_tick := t, st_db := st_db s\<rparr>)))"
  shows "wpM (uow_run ro fn) c s Q E"
proof -
  have commit: "wpM (uow_commit d x) c s' Q E" if "\<forall>t. Q x (s'\<lparr>st_tick := t\<rparr>)" for d x s'
    using that c by (simp add: wpM_def uow_commit_def Let_def calm_def)
  have rollback: "wpM (uow_rollback d e) c s' Q E" if "e \<noteq> EPanic" "\<forall>t. E e (s'\<lparr>st_tick := t, st_db := d\<rparr>)" for d e s'
    using that by (simp add: wpM_def uow_rollback_def Let_def)
  have "wpM fn c (s\<lparr>st_tick := k\<rparr>) (\<lambda>x s2. wpM (uow_commit (st_db s) x) c s2 Q E)
      (\<lambda>e s2. wpM (uow_rollback (st_db s) e) c s2 Q E)" for k
    by (rule wpM_mono [OF fn]) (simp_all add: commit rollback)
  then show ?thesis
    unfolding wp_uow_run by (cases ro) (use c in \<open>simp_all add: wp applyTimeouts_def calm_def\<close>)
qed

lemma calm_Do:
  assumes c: "calm c"
    and fn: "\<And>k. wpM fn c (s\<lparr>st_tick := k\<rparr>) (\<lambda>x s'. \<forall>t. Q x (s'\<lparr>st_tick := t\<rparr>))
      (\<lambda>e s'. e \<noteq> EPanic \<and> \<not> Retryable e \<and> (\<forall>t. E e (s'\<lparr>st_tick := t, st_db := st_db s\<rparr>)))"
  shows "wpM (uow_Do u fn) c s Q E"
proof -
  have "wpM (uow_attempts k fn) c s Q E" for k
  proof (cases k)
    case 0
    then show ?thesis
      by (simp, intro calm_run [OF c] wpM_mono [OF fn]) simp_all
  next
    case (Suc n)
    have "wpM (uow_run False fn) c s Q (\<lambda>e s'. \<not> Retryable e \<and> E e s')"
      by (intro calm_run [OF c] wpM_mono [OF fn]) simp_all
    then show ?thesis
      unfolding Suc by (simp only: uow_attempts.simps wp_catchM) (erule wpM_mono, simp_all add: wp)
  qed
  then show ?thesis by (simp add: uow_Do_def)
qed

text \<open>Reading under a transaction that only reads.\<close>

lemma wp_read:
  assumes c: "honest_commit c" and fn: "\<And>s1. st_db s1 = st_db s \<Longrightarrow> wpM fn c s1 (\<lambda>x s2. st_db s2 = st_db s \<and> P x) (\<lambda>_ _. True)"
  shows "wpM (uow_Read u fn) c s (\<lambda>x s'. st_db s' = st_db s \<and> P x) (\<lambda>_ s'. st_db s' = st_db s)"
  using uow_read.wp_run_safe [OF c, of "\<lambda>d. d = st_db s" s fn "\<lambda>x _. P x" u] fn by simp

section \<open>Unknown commits\<close>

text \<open>
  The error of a commit whose outcome is unknown is nothing else: no caller mistakes it for an
  error of the domain.
\<close>

definition unknown_commit :: "go_error \<Rightarrow> bool" where
  "unknown_commit e \<longleftrightarrow> e = ERepo RepoCommitOutcomeUnknown \<or> (\<exists>f. e = EWrap [ERepo RepoCommitOutcomeUnknown, fault_error f])"

lemma unknown_commit_only:
  assumes "unknown_commit e"
  shows "errors_is e (ERepo RepoCommitOutcomeUnknown)" "\<not> errors_is e (EWalletStore x)" "\<not> errors_is e ENoPendingWork"
proof -
  have "\<not> errors_is (fault_error f) (EWalletStore x)" "\<not> errors_is (fault_error f) ENoPendingWork" for f
    by (cases f; simp)+
  then show "errors_is e (ERepo RepoCommitOutcomeUnknown)" "\<not> errors_is e (EWalletStore x)" "\<not> errors_is e ENoPendingWork"
    using assms by (auto simp: unknown_commit_def)
qed

lemma wp_run_unknown:
  assumes "honest_commit c"
  shows "wpM (uow_run ro fn) c s (\<lambda>_ _. True) (\<lambda>e s'. st_db s' = st_db s \<or> unknown_commit e)"
proof -
  have commit: "wpM (uow_commit (st_db s) x) c s' (\<lambda>_ _. True) (\<lambda>e s'. st_db s' = st_db s \<or> unknown_commit e)" for x s'
    using assms by (auto simp: wpM_def uow_commit_def Let_def ClassifyCommit_def honest_commit_def unknown_commit_def
        split: commit_report.split)
  have rollback: "wpM (uow_rollback (st_db s) e) c s' (\<lambda>_ _. True) (\<lambda>e s'. st_db s' = st_db s \<or> unknown_commit e)" for e s'
    by (rule wp_rollback) simp
  show ?thesis
    unfolding wp_uow_run
    by (auto simp: wp applyTimeouts_def split: option.split intro!: commit rollback wpM_mono [OF wpM_True])
qed

lemma wp_Do_unknown:
  assumes "honest_commit c"
  shows "wpM (uow_Do u fn) c s (\<lambda>_ _. True) (\<lambda>e s'. st_db s' = st_db s \<or> unknown_commit e)"
proof -
  have "wpM (uow_attempts k fn) c s (\<lambda>_ _. True) (\<lambda>e s'. st_db s' = st_db s \<or> unknown_commit e)" for k
  proof (induction k arbitrary: s)
    case (Suc k)
    have again: "wpM (uow_attempts k fn) c (s'\<lparr>st_tick := t\<rparr>) (\<lambda>_ _. True) (\<lambda>e s'. st_db s' = st_db s \<or> unknown_commit e)"
      if "st_db s' = st_db s" for s' t
      using Suc.IH [of "s'\<lparr>st_tick := t\<rparr>"] that by simp
    have "wpM (uow_run False fn) c s (\<lambda>_ _. True)
        (\<lambda>e s'. st_db s' = st_db s \<or> unknown_commit e \<and> \<not> Retryable e)"
    proof -
      have "\<not> Retryable e" if "unknown_commit e" for e
      proof -
        have "\<not> errors_is (fault_error f) ERetryable" for f by (cases f) simp_all
        with that show ?thesis by (auto simp: unknown_commit_def Retryable_def)
      qed
      then show ?thesis by (intro wpM_mono [OF wp_run_unknown [OF assms]]) auto
    qed
    then show ?case
      by (simp only: uow_attempts.simps wp_catchM)
        (erule wpM_mono, auto simp: wp intro!: wp_pause again)
  qed (simp add: wp_run_unknown [OF assms])
  then show ?thesis by (simp add: uow_Do_def)
qed

end
