(* ===== verification/OpenWallet.thy ===== *)
theory OpenWallet
  imports ProcessProps Calm
begin

text \<open>
  Opening a wallet: \<open>open_wallet.go\<close> of \<open>internal/application/usecase\<close>. Logging is left out.
  Facts: a wallet is opened with its opening operation, its first ledger entry and their events,
  or nothing happens; a player has at most one wallet in a currency, and who asks for a second
  one is told which wallet that is.
\<close>

section \<open>The code\<close>

definition open_recordOpeningBalance ::
  "wallet \<Rightarrow> ledger_entry \<Rightarrow> open_input \<Rightarrow> uuid \<Rightarrow> time \<Rightarrow> unit M" where
  "open_recordOpeningBalance created entry input openingID now =
     bindM (liftR (NewOpening openingID (w_id created) (oi_playerID input) (oi_initialBalance input)
       (oi_correlationID input) now)) (\<lambda>opening.
     bindM (Transactions_Insert opening) (\<lambda>inserted.
     bindM (Ledger_Append entry) (\<lambda>_.
     appendSettlementEvents now opening (Some entry) (w_balance created))))"

definition open_closure :: "open_input \<Rightarrow> uuid \<Rightarrow> time \<Rightarrow> wallet M" where
  "open_closure input openingID now =
     bindM ids_New (\<lambda>walletID. bindM ids_New (\<lambda>entryID.
     bindM (liftR (wallet_Open walletID (oi_playerID input) (oi_initialBalance input) openingID entryID now))
       (\<lambda>(created, entry).
     bindM (Wallets_Create created) (\<lambda>_.
     bindM (case entry of
         None \<Rightarrow> returnM ()
       | Some e \<Rightarrow> open_recordOpeningBalance created e input openingID now) (\<lambda>_.
     returnM created)))))"

definition open_conflict :: "uow_settings \<Rightarrow> open_input \<Rightarrow> 'a M" where
  "open_conflict unitOfWork input =
     bindM (catchM (uow_Read unitOfWork (Wallets_FindByPlayer (oi_playerID input) (currency (oi_initialBalance input))))
       (\<lambda>err. throwM (EWalletStore WalletAlreadyExists))) (\<lambda>existing.
     case existing of
       None \<Rightarrow> throwM (EWalletStore WalletAlreadyExists)
     | Some w \<Rightarrow> throwM (EWalletConflict (w_id w)))"

definition open_Execute :: "uow_settings \<Rightarrow> open_input \<Rightarrow> wallet M" where
  "open_Execute unitOfWork input =
     bindM (askM (\<lambda>c. c)) (\<lambda>c.
     bindM (liftR (open_Validate c input)) (\<lambda>_.
     bindM clock_Now (\<lambda>now.
     bindM ids_New (\<lambda>openingID.
     catchM (uow_Do unitOfWork (open_closure input openingID now)) (\<lambda>err.
       if errors_is err (EWalletStore WalletAlreadyExists) then open_conflict unitOfWork input
       else throwM err)))))"

section \<open>What opening does to the book\<close>

definition has_wallet :: "book \<Rightarrow> uuid \<Rightarrow> currency \<Rightarrow> wallet \<Rightarrow> bool" where
  "has_wallet B playerID cur w \<longleftrightarrow> w \<in> set (bk_wallets B) \<and> w_playerID w = playerID \<and> currency (w_balance w) = cur"

text \<open>
  A wallet of the player, new in its currency, with the initial balance; a funded one with its
  opening operation, its first entry and their events.
\<close>

definition opened :: "env \<Rightarrow> open_input \<Rightarrow> book \<Rightarrow> db \<Rightarrow> wallet \<Rightarrow> book \<Rightarrow> db \<Rightarrow> bool" where
  "opened c input B d w B' d' \<longleftrightarrow>
     w_playerID w = oi_playerID input \<and> w_balance w = oi_initialBalance input \<and> w_version w = 1
     \<and> (\<forall>u \<in> set (bk_wallets B). w_id u \<noteq> w_id w) \<and> (\<forall>u. \<not> has_wallet B (w_playerID w) (currency (w_balance w)) u)
     \<and> bk_wallets B' = bk_wallets B @ [w] \<and> holds d' B' \<and> db_inbox d' = db_inbox d
     \<and> (if amount_of (w_balance w) = 0
        then bk_txs B' = bk_txs B \<and> bk_entries B' = bk_entries B \<and> db_outbox d' = db_outbox d
        else \<exists>t e. bk_txs B' = bk_txs B @ [t] \<and> bk_entries B' = bk_entries B @ [e]
          \<and> t_kind t = Opening \<and> t_status t = Processed \<and> t_walletID t = w_id w \<and> t_amount t = w_balance w
          \<and> le_walletID e = w_id w \<and> le_transactionID e = t_id t \<and> le_direction e = Credit
          \<and> le_amount e = w_balance w \<and> announced c t (Some e) d d')"

section \<open>The steps\<close>

text \<open>The wallet and the entry that \<open>Open\<close> builds.\<close>

lemma Open_facts:
  assumes "wallet_Open i p b tid eid now = Inr (w, oe)"
  shows "wallet_inv w" "sint (w_version w) = 1" "w_version w = 1" "w_id w = i" "w_playerID w = p" "w_balance w = b"
    "amount_of b = 0 \<longleftrightarrow> oe = None"
  using assms by (auto simp: wallet_Open_eq_Inr split: if_splits)

lemma Open_entry:
  assumes "wallet_Open i p b tid eid now = Inr (w, Some e)"
  shows "entry_inv e" "le_walletID e = i" "le_transactionID e = tid" "le_direction e = Credit" "le_amount e = b"
    "le_balanceAfter e = b" "amount_of (le_balanceBefore e) = 0" "le_walletVersion e = 1"
proof -
  show "entry_inv e"
    using assms by (auto simp: wallet_Open_def Let_def bindR_eq_Inr NewLedgerEntry_eq_Inr split: if_splits)
  show "le_walletID e = i" "le_transactionID e = tid" "le_direction e = Credit" "le_amount e = b"
    "le_balanceAfter e = b" "amount_of (le_balanceBefore e) = 0" "le_walletVersion e = 1"
    using assms by (auto simp: wallet_Open_eq_Inr amount_of_def split: if_splits)
qed

lemma Opening_facts:
  assumes "NewOpening tid i p b cid now = Inr t"
  shows "t_kind t = Opening" "t_status t = Processed" "t_walletID t = i" "t_id t = tid" "t_amount t = b"
    "t_resultBalance t = b" "kind_Valid (t_kind t)" "status_Valid (t_status t)" "storable (currency b) t"
proof -
  have wf: "tx_wf t" by (rule NewOpening_wf [OF assms])
  show f: "t_kind t = Opening" "t_status t = Processed" "t_walletID t = i" "t_id t = tid" "t_amount t = b"
    "t_resultBalance t = b" using assms by (simp_all add: NewOpening_eq_Inr)
  show "kind_Valid (t_kind t)" "status_Valid (t_status t)" using tx_wf_kind_origin [OF wf] f by (simp_all add: status_Valid_def)
  have "Valid b" using assms by (simp add: NewOpening_eq_Inr amount_policy_def)
  then show "storable (currency b) t" using wf f by (simp add: storable_def Valid_def)
qed

lemma wp_events_announced:
  assumes "\<And>k d. \<lbrakk>represents d B; db_inbox d = db_inbox (st_db s); announced c t eo (st_db s) d\<rbrakk>
      \<Longrightarrow> Q () (s\<lparr>st_tick := k, st_db := d\<rparr>)" and "represents (st_db s) B" and "\<And>e s'. E e s'"
  shows "wpM (appendSettlementEvents now t eo b) c s Q E"
proof (rule wp_appendSettlementEvents)
  fix k and rs :: "outbox_row list"
  assume r: "map xr_event_type rs = map type_String (settlement_types t eo)"
    "\<forall>r \<in> set rs. xr_partition_key r = e_uuid_text c (t_walletID t) \<and> xr_published_at r = None
        \<and> xr_next_attempt_at r = now"
  let ?d = "st_db s\<lparr>db_outbox := db_outbox (st_db s) @ rs\<rparr>"
  have "announced c t eo (st_db s) ?d"
    using r unfolding announced_def by (intro exI [of _ rs]) simp
  then show "Q () (s\<lparr>st_tick := k, st_db := ?d\<rparr>)" using assms(1,2) by simp
qed (rule assms(3))

lemma wp_recordOpeningBalance:
  assumes rep: "represents (st_db s) (B\<lparr>bk_wallets := bk_wallets B @ [w]\<rparr>)" and inv: "book_inv B"
    and fresh: "\<forall>u \<in> set (bk_wallets B). w_id u \<noteq> w_id w
      \<and> (w_playerID u, currency (w_balance u)) \<noteq> (w_playerID w, currency (w_balance w))"
    and op: "wallet_Open i (oi_playerID input) (oi_initialBalance input) tid eid now = Inr (w, Some e)"
    and ok: "\<And>t d k. \<lbrakk>NewOpening tid (w_id w) (oi_playerID input) (oi_initialBalance input) (oi_correlationID input) now = Inr t;
      holds d \<lparr>bk_wallets = bk_wallets B @ [w], bk_txs = bk_txs B @ [t], bk_entries = bk_entries B @ [e]\<rparr>;
      db_inbox d = db_inbox (st_db s); announced c t (Some e) (st_db s) d\<rbrakk> \<Longrightarrow> Q () (s\<lparr>st_tick := k, st_db := d\<rparr>)"
  shows "wpM (open_recordOpeningBalance w e input tid now) c s Q (\<lambda>_ _. True)"
proof -
  let ?B = "B\<lparr>bk_wallets := bk_wallets B @ [w]\<rparr>"
  note of = Open_facts [OF op] and en = Open_entry [OF op]
  have kv: "\<forall>u \<in> set (bk_txs ?B). kind_Valid (t_kind u) \<and> status_Valid (t_status u)"
    using book_tx_wf [OF inv] by simp
  have other: "t_walletID u \<noteq> w_id w" if "u \<in> set (bk_txs B)" for u
    using book_tx_wf(4) [OF inv that] fresh by metis
  have ins: "wpM (Transactions_Insert t) c s (\<lambda>_ s'. wpM (Ledger_Append e) c s'
      (\<lambda>_ s'. wpM (appendSettlementEvents now t (Some e) (w_balance w)) c s' Q (\<lambda>_ _. True)) (\<lambda>_ _. True)) (\<lambda>_ _. True)"
    if new: "NewOpening tid (w_id w) (oi_playerID input) (oi_initialBalance input) (oi_correlationID input) now = Inr t" for t
  proof (rule wp_Insert_represented [OF rep kv])
    note tf = Opening_facts [OF new]
    show "kind_Valid (t_kind t)" "status_Valid (t_status t)" by (rule tf)+
    fix k show "wpM (Ledger_Append e) c (s\<lparr>st_tick := k\<rparr>)
        (\<lambda>_ s'. wpM (appendSettlementEvents now t (Some e) (w_balance w)) c s' Q (\<lambda>_ _. True)) (\<lambda>_ _. True)"
      by (rule wp_Ledger_Append [of _ ?B]) (use rep other en of in auto)
  next
    fix d k assume cl: "\<forall>u \<in> set (bk_txs ?B). \<not> clash t u"
      and r2: "represents d (?B\<lparr>bk_txs := bk_txs ?B @ [t]\<rparr>)" and m2: "same_mail (st_db s) d"
    note tf = Opening_facts [OF new]
    show "wpM (Ledger_Append e) c (s\<lparr>st_tick := k, st_db := d\<rparr>)
        (\<lambda>_ s'. wpM (appendSettlementEvents now t (Some e) (w_balance w)) c s' Q (\<lambda>_ _. True)) (\<lambda>_ _. True)"
    proof (rule wp_Ledger_Append)
      show "represents (st_db (s\<lparr>st_tick := k, st_db := d\<rparr>)) (?B\<lparr>bk_txs := bk_txs ?B @ [t]\<rparr>)" using r2 by simp
      let ?B3 = "\<lparr>bk_wallets = bk_wallets B @ [w], bk_txs = bk_txs B @ [t], bk_entries = bk_entries B @ [e]\<rparr>"
      fix d3 k3 assume id: "le_id e \<notin> le_id ` set (bk_entries (?B\<lparr>bk_txs := bk_txs ?B @ [t]\<rparr>))"
        and r3: "represents d3 (?B\<lparr>bk_txs := bk_txs ?B @ [t]\<rparr>
          \<lparr>bk_entries := bk_entries (?B\<lparr>bk_txs := bk_txs ?B @ [t]\<rparr>) @ [e]\<rparr>)"
        and m3: "same_mail (st_db (s\<lparr>st_tick := k, st_db := d\<rparr>)) d3"
      have bi: "book_inv ?B3"
        by (rule book_add_funded [OF inv of(1,2) fresh]) (use tf cl id en of in simp_all)
      have r3': "represents d3 ?B3" using r3 by (simp add: represents_def)
      let ?s3 = "s\<lparr>st_tick := k, st_db := d\<rparr>\<lparr>st_tick := k3, st_db := d3\<rparr>"
      show "wpM (appendSettlementEvents now t (Some e) (w_balance w)) c ?s3 Q (\<lambda>_ _. True)"
      proof (rule wp_events_announced [where B = ?B3])
        fix k4 d4 assume r4: "represents d4 ?B3" "db_inbox d4 = db_inbox (st_db ?s3)" "announced c t (Some e) (st_db ?s3) d4"
        have "Q () (s\<lparr>st_tick := k4, st_db := d4\<rparr>)"
          by (rule ok [OF new]) (use r4 bi m2 m3 in \<open>simp_all add: holds_def same_mail_def announced_def\<close>)
        then show "Q () (?s3\<lparr>st_tick := k4, st_db := d4\<rparr>)" by simp
      qed (use r3' in simp_all)
    qed simp
  qed simp
  then show ?thesis
    unfolding open_recordOpeningBalance_def by (auto simp: wp split: sum.split)
qed

lemma no_wallet_iff: "(\<forall>u. \<not> has_wallet B p cur u) \<longleftrightarrow> (\<forall>u \<in> set (bk_wallets B). (w_playerID u, currency (w_balance u)) \<noteq> (p, cur))"
  by (auto simp: has_wallet_def)

lemma wp_open_closure:
  assumes h: "holds (st_db s) B"
  shows "wpM (open_closure input tid now) c s
    (\<lambda>w s'. \<exists>B'. opened c input B (st_db s) w B' (st_db s')) (\<lambda>_ _. True)"
proof -
  let ?Q = "\<lambda>w s'. \<exists>B'. opened c input B (st_db s) w B' (st_db s')"
  have inv: "book_inv B" using h by (simp add: holds_def)
  have create: "wpM (Wallets_Create w) c (s\<lparr>st_tick := k0\<rparr>) (\<lambda>_ s'. wpM (case oe of None \<Rightarrow> returnM ()
      | Some e \<Rightarrow> open_recordOpeningBalance w e input tid now) c s' (\<lambda>_. ?Q w) (\<lambda>_ _. True)) (\<lambda>_ _. True)"
    if op: "wallet_Open i (oi_playerID input) (oi_initialBalance input) tid eid now = Inr (w, oe)" for i eid w oe k0
  proof (rule wp_Wallets_Create)
    note of = Open_facts [OF op]
    show "holds (st_db (s\<lparr>st_tick := k0\<rparr>)) B" using h by simp
    show "Supported (currency (w_balance w))" using of(1) by (simp add: wallet_inv_def Valid_def)
    fix d k assume fresh: "\<forall>u \<in> set (bk_wallets B). w_id u \<noteq> w_id w
        \<and> (w_playerID u, currency (w_balance u)) \<noteq> (w_playerID w, currency (w_balance w))"
      and r: "represents d (B\<lparr>bk_wallets := bk_wallets B @ [w]\<rparr>)" and m: "same_mail (st_db (s\<lparr>st_tick := k0\<rparr>)) d"
    have base: "(\<forall>u \<in> set (bk_wallets B). w_id u \<noteq> w_id w) \<and> (\<forall>u. \<not> has_wallet B (w_playerID w) (currency (w_balance w)) u)"
      using fresh by (simp add: no_wallet_iff)
    show "wpM (case oe of None \<Rightarrow> returnM () | Some e \<Rightarrow> open_recordOpeningBalance w e input tid now) c
        (s\<lparr>st_tick := k0\<rparr>\<lparr>st_tick := k, st_db := d\<rparr>) (\<lambda>_. ?Q w) (\<lambda>_ _. True)"
    proof (cases oe)
      case None
      then have z: "amount_of (w_balance w) = 0" using of by simp
      have "book_inv (B\<lparr>bk_wallets := bk_wallets B @ [w]\<rparr>)"
        by (rule book_add_wallet [OF inv of(1,2) fresh z])
      then have "opened c input B (st_db s) w (B\<lparr>bk_wallets := bk_wallets B @ [w]\<rparr>) d"
        using of base r m z by (simp add: opened_def holds_def same_mail_def)
      with None show ?thesis by (auto simp: wp)
    next
      case (Some e)
      have "wpM (open_recordOpeningBalance w e input tid now) c
          (s\<lparr>st_tick := k0\<rparr>\<lparr>st_tick := k, st_db := d\<rparr>) (\<lambda>_. ?Q w) (\<lambda>_ _. True)"
      proof (rule wp_recordOpeningBalance [OF _ inv fresh op [unfolded Some]])
        show "represents (st_db (s\<lparr>st_tick := k0\<rparr>\<lparr>st_tick := k, st_db := d\<rparr>)) (B\<lparr>bk_wallets := bk_wallets B @ [w]\<rparr>)"
          using r by simp
        let ?B' = "\<lambda>t. \<lparr>bk_wallets = bk_wallets B @ [w], bk_txs = bk_txs B @ [t], bk_entries = bk_entries B @ [e]\<rparr>"
        fix t d2 k2 assume t: "NewOpening tid (w_id w) (oi_playerID input) (oi_initialBalance input) (oi_correlationID input) now = Inr t"
          and hd: "holds d2 (?B' t)" "db_inbox d2 = db_inbox (st_db (s\<lparr>st_tick := k0\<rparr>\<lparr>st_tick := k, st_db := d\<rparr>))"
            "announced c t (Some e) (st_db (s\<lparr>st_tick := k0\<rparr>\<lparr>st_tick := k, st_db := d\<rparr>)) d2"
        have an: "announced c t (Some e) (st_db s) d2" using hd(3) m by (simp add: announced_def same_mail_def)
        have "opened c input B (st_db s) w (?B' t) d2"
          using of base m hd(1,2) an Opening_facts [OF t] Open_entry [OF op [unfolded Some]] Some
          by (auto simp: opened_def same_mail_def)
        then show "?Q w (s\<lparr>st_tick := k0\<rparr>\<lparr>st_tick := k, st_db := d\<rparr>\<lparr>st_tick := k2, st_db := d2\<rparr>)" by auto
      qed
      with Some show ?thesis by simp
    qed
  qed simp
  then show ?thesis
    unfolding open_closure_def
    by (auto simp: wp wp_ids_New split: option.split sum.split)
qed

section \<open>The whole use case\<close>

lemma wp_FindByPlayer:
  assumes h: "holds (st_db s) B" and p: "Supported cur"
    and ok: "\<And>x t. (case x of None \<Rightarrow> \<forall>u. \<not> has_wallet B p cur u | Some w \<Rightarrow> has_wallet B p cur w) \<Longrightarrow> Q x (s\<lparr>st_tick := t\<rparr>)"
    and err: "\<And>e t. E e (s\<lparr>st_tick := t\<rparr>)"
  shows "wpM (Wallets_FindByPlayer p cur) c s Q E"
  unfolding Wallets_FindByPlayer_def
proof (rule wp_Wallets_findOne [OF h])
  have sup: "Supported (currency (w_balance u))" if "u \<in> set (bk_wallets B)" for u
    using book_wallet_inv [of B u] h that by (simp add: holds_def wallet_inv_def Valid_def)
  fix x t assume "case x of None \<Rightarrow> \<forall>w \<in> set (bk_wallets B). \<not> (wr_player_id (wallet_row_of w) = p
        \<and> wr_currency (wallet_row_of w) = currency_String cur)
      | Some w \<Rightarrow> w \<in> set (bk_wallets B) \<and> wr_player_id (wallet_row_of w) = p
        \<and> wr_currency (wallet_row_of w) = currency_String cur"
  then have "case x of None \<Rightarrow> \<forall>u. \<not> has_wallet B p cur u | Some w \<Rightarrow> has_wallet B p cur w"
    using sup p by (cases x) (auto simp: has_wallet_def currency_String_inj)
  then show "Q x (s\<lparr>st_tick := t\<rparr>)" by (rule ok)
qed (rule err)

lemma wp_open_conflict:
  assumes "honest_commit c"
  shows "wpM (open_conflict u input :: 'a M) c s Q (\<lambda>_ s'. st_db s' = st_db s)"
proof -
  have fb: "wpM (Wallets_FindByPlayer p cur) c s1 (\<lambda>_ s2. st_db s2 = st_db s1) (\<lambda>_ _. True)" for p cur s1
    unfolding Wallets_FindByPlayer_def Wallets_findOne_def scan_one_def
    by (auto simp: wp sql_select_wallets_def split: option.split sum.split)
  have "wpM (uow_Read u (Wallets_FindByPlayer (oi_playerID input) (currency (oi_initialBalance input)))) c s
      (\<lambda>_ s'. st_db s' = st_db s \<and> True) (\<lambda>_ s'. st_db s' = st_db s)"
    by (rule wp_read [OF assms], rule wpM_mono [OF fb]) simp_all
  then show ?thesis
    unfolding open_conflict_def wp_bindM [of "catchM m h" for m h] wp_catchM
    by (rule wpM_mono) (auto simp: wp split: option.split)
qed

lemma wp_open_Execute:
  assumes c: "honest_commit c" and h: "holds (st_db s) B"
  shows "wpM (open_Execute u input) c s (\<lambda>w s'. \<exists>B'. opened c input B (st_db s) w B' (st_db s'))
    (\<lambda>e s'. st_db s' = st_db s \<or> errors_is e (ERepo RepoCommitOutcomeUnknown)
       \<and> (\<exists>w B'. opened c input B (st_db s) w B' (st_db s')))"
proof -
  let ?E = "\<lambda>e s'. st_db s' = st_db s \<or> errors_is e (ERepo RepoCommitOutcomeUnknown)
       \<and> (\<exists>w B'. opened c input B (st_db s) w B' (st_db s'))"
  have do: "wpM (uow_Do u (open_closure input tid now)) c s1 (\<lambda>w s'. \<exists>B'. opened c input B (st_db s) w B' (st_db s'))
      (\<lambda>e s'. ?E e s' \<and> (st_db s' = st_db s \<or> unknown_commit e))" if s1: "st_db s1 = st_db s" for tid now s1
  proof -
    have r: "\<exists>B'. opened c input B (st_db s) w B' d" if "ran (open_closure input tid now) c (st_db s) w d" for w d
    proof -
      obtain s2 s3 where r: "st_db s2 = st_db s" "open_closure input tid now c s2 = (Inr w, s3)" "st_db s3 = d"
        using \<open>ran (open_closure input tid now) c (st_db s) w d\<close> by (auto simp: ran_def)
      have "holds (st_db s2) B" using h r by simp
      from result_of_wpM(1) [OF wp_open_closure [OF this] r(2)] r show ?thesis by simp
    qed
    have "wpM (uow_Do u (open_closure input tid now)) c s1 (\<lambda>w s'. \<exists>B'. opened c input B (st_db s) w B' (st_db s')) ?E"
      unfolding wpM_iff_run using uow_do.atomic [OF c, of u "open_closure input tid now" s1] r s1
      by (fastforce simp: atomic_outcome_def)
    from wpM_conj [OF this wp_Do_unknown [OF c, of u "open_closure input tid now" s1]] show ?thesis
      by (rule wpM_mono) (simp_all add: s1)
  qed
  have conf: "wpM (open_conflict u input) c s' Q ?E" if "st_db s' = st_db s" for Q s'
    by (rule wpM_mono [OF wp_open_conflict [OF c]]) (simp_all add: that)
  show ?thesis
    unfolding open_Execute_def
    by (simp add: wp wp_clock_Now wp_ids_New split: sum.split option.split, intro impI allI)
      (rule wpM_mono [OF do], auto simp: wp intro: conf dest: unknown_commit_only(2))
qed

section \<open>A second wallet\<close>

text \<open>Identifiers that no row has yet.\<close>

definition fresh_wallet_ids :: "env \<Rightarrow> book \<Rightarrow> bool" where
  "fresh_wallet_ids c B \<longleftrightarrow> (\<forall>n. \<exists>i. e_new_id c n = Some i \<and> i \<noteq> uuid_Nil \<and> (\<forall>w \<in> set (bk_wallets B). w_id w \<noteq> i))"

lemma has_wallet_unique: "book_inv B \<Longrightarrow> has_wallet B p cur w \<Longrightarrow> has_wallet B p cur w' \<Longrightarrow> w' = w"
  by (auto simp: has_wallet_def book_inv_def wallets_ok_def distinct_map inj_on_def)

lemma insert_second:
  assumes h: "holds d B" and w: "has_wallet B (w_playerID n) (currency (w_balance n)) w"
    and i: "\<forall>u \<in> set (bk_wallets B). w_id u \<noteq> w_id n"
  shows "sql_insert_wallet (wallet_row_of n) d = Inl (EPg PgUniqueViolation ''wallets_player_currency_uq'')"
proof -
  have r: "db_wallets d = map wallet_row_of (bk_wallets B)" using h by (simp add: holds_def represents_tables)
  have "list_ex (\<lambda>r'. wr_player_id r' = w_playerID n \<and> wr_currency r' = currency_String (currency (w_balance n)))
      (db_wallets d)"
    unfolding r list_ex_iff using w by (intro bexI [of _ "wallet_row_of w"]) (auto simp: has_wallet_def)
  moreover have "\<not> list_ex (\<lambda>r'. wr_id r' = w_id n) (db_wallets d)"
    unfolding r list_ex_iff using i by simp
  ultimately show ?thesis by (simp add: sql_insert_wallet_def)
qed

lemma Create_second:
  assumes c: "calm c" and h: "holds (st_db s) B" and w: "has_wallet B (w_playerID n) (currency (w_balance n)) w"
    and i: "\<forall>u \<in> set (bk_wallets B). w_id u \<noteq> w_id n"
    and e: "E (EWalletStore WalletAlreadyExists) (s\<lparr>st_tick := st_tick s + 1\<rparr>)"
  shows "wpM (Wallets_Create n) c s Q E"
  unfolding Wallets_Create_def wp_mapErrM calm_statement [OF c] insert_second [OF h w i]
  using e by (simp add: hasCode_def constraintIs_def)

lemma closure_second:
  assumes c: "calm c" and f: "fresh_wallet_ids c B" and h: "holds (st_db s) B"
    and w: "has_wallet B (oi_playerID input) (currency (oi_initialBalance input)) w"
    and inp: "oi_playerID input \<noteq> uuid_Nil" "Valid (oi_initialBalance input)" "\<not> IsNegative (oi_initialBalance input)"
      "now \<noteq> time_zero" "tid \<noteq> uuid_Nil"
    and e: "\<And>k. E (EWalletStore WalletAlreadyExists) (s\<lparr>st_tick := k\<rparr>)"
  shows "wpM (open_closure input tid now) c s Q E"
proof -
  obtain i j where ids: "e_new_id c (st_tick s) = Some i" "e_new_id c (Suc (st_tick s)) = Some j" "i \<noteq> uuid_Nil" "j \<noteq> uuid_Nil"
    "\<forall>u \<in> set (bk_wallets B). w_id u \<noteq> i" using f unfolding fresh_wallet_ids_def by metis
  let ?n = "\<lparr>w_id = i, w_playerID = oi_playerID input, w_balance = oi_initialBalance input, w_version = 1,
      w_createdAt = now, w_updatedAt = now\<rparr>"
  have wi: "wallet_inv ?n" using inp ids by (simp add: wallet_inv_def sign_simps)
  have "\<exists>oe. wallet_Open i (oi_playerID input) (oi_initialBalance input) tid j now = Inr (?n, oe)"
    unfolding wallet_Open_eq_Inr using wi ids(4) inp(5)
    by (cases "amount_of (oi_initialBalance input) = 0") simp_all
  then obtain oe where op: "wallet_Open i (oi_playerID input) (oi_initialBalance input) tid j now = Inr (?n, oe)"
    by blast
  have "wpM (Wallets_Create ?n) c (s\<lparr>st_tick := Suc (Suc (st_tick s))\<rparr>) Q' E" for Q'
    by (rule Create_second [OF c, where B = B and w = w]) (use h w ids e in simp_all)
  then show ?thesis
    unfolding open_closure_def by (simp add: wp wp_ids_New ids op)
qed

lemma conflict_second:
  assumes c: "calm c" and h: "holds (st_db s) B" and inp: "Valid (oi_initialBalance input)"
    and w: "has_wallet B (oi_playerID input) (currency (oi_initialBalance input)) w"
    and e: "\<And>k. E (EWalletConflict (w_id w)) (s\<lparr>st_tick := k\<rparr>)"
  shows "wpM (open_conflict u input) c s Q E"
proof -
  have inv: "book_inv B" using h by (simp add: holds_def)
  let ?P = "\<lambda>r. wr_player_id r = oi_playerID input \<and> wr_currency r = currency_String (currency (oi_initialBalance input))"
  have sup: "Supported (currency (w_balance u))" if "u \<in> set (bk_wallets B)" for u
    using book_wallet_inv [OF inv that] by (simp add: wallet_inv_def Valid_def)
  have P: "?P (wallet_row_of u) \<longleftrightarrow> u = w" if u: "u \<in> set (bk_wallets B)" for u
  proof -
    have "Supported (currency (oi_initialBalance input))" using inp by (simp add: Valid_def)
    then have "?P (wallet_row_of u) \<longleftrightarrow> has_wallet B (oi_playerID input) (currency (oi_initialBalance input)) u"
      using u sup [OF u] by (simp add: has_wallet_def currency_String_inj)
    then show ?thesis using has_wallet_unique [OF inv w, of u] w by blast
  qed
  have "filter ?P (db_wallets (st_db s)) = map wallet_row_of (filter (\<lambda>u. u = w) (bk_wallets B))"
    using P represents_tables(1) [of "st_db s" B] h by (simp add: holds_def filter_map comp_def cong: filter_cong)
  also have "filter (\<lambda>u. u = w) (bk_wallets B) = [w]"
  proof -
    have "distinct (bk_wallets B)" using inv by (auto simp: book_inv_def wallets_ok_def distinct_map)
    then show ?thesis using w filter_unique [of id "bk_wallets B" w] by (simp add: has_wallet_def)
  qed
  finally have rows: "filter ?P (db_wallets (st_db s)) = [wallet_row_of w]" by simp
  have sc: "scanWallet (wallet_row_of w) = Inr w" using book_wallet_inv [OF inv] w by (simp add: has_wallet_def)
  have "wpM (uow_Read u (Wallets_FindByPlayer (oi_playerID input) (currency (oi_initialBalance input)))) c s
      (\<lambda>x s'. x = Some w \<and> (\<exists>k. s' = s\<lparr>st_tick := k\<rparr>)) (\<lambda>_ _. False)"
    unfolding uow_Read_def
    by (rule calm_run [OF c])
      (auto simp: Wallets_FindByPlayer_def Wallets_findOne_def scan_one_def wp calm_statement [OF c]
        sql_select_wallets_def rows first_row_def sc simp del: wp_statement)
  then show ?thesis
    unfolding open_conflict_def wp_bindM [of "catchM m h" for m h] wp_catchM
    by (rule wpM_mono) (auto simp: wp e)
qed

section \<open>Properties\<close>

text \<open>
  C28. Opening a wallet is all or nothing. On success the player has a new wallet with the initial
  balance at version one, the first in its currency, and a funded one comes with its processed
  opening operation, its first ledger entry and their events; on an error nothing changed,
  unless the outcome of the commit is unknown, and then it is one of the two.
\<close>

theorem open_wallet_effect:
  assumes "honest_commit c" and "holds (st_db s) B"
  shows "case open_Execute u input c s of
      (Inr w, s') \<Rightarrow> \<exists>B'. opened c input B (st_db s) w B' (st_db s')
    | (Inl e, s') \<Rightarrow> st_db s' = st_db s \<or> errors_is e (ERepo RepoCommitOutcomeUnknown)
        \<and> (\<exists>w B'. opened c input B (st_db s) w B' (st_db s'))"
  using wp_open_Execute [OF assms, of u input]
  by (cases "open_Execute u input c s") (auto simp: wpM_def split: sum.splits)

text \<open>An opening for another player, with fifty.\<close>

definition sample_open :: open_input where
  "sample_open = \<lparr>oi_playerID = 3, oi_initialBalance = \<lparr>minor = 5000, currency = BRL\<rparr>, oi_correlationID = ''c''\<rparr>"

theorem open_wallet_effect_witness:
  "case open_Execute sample_uow sample_open lost_answer_env sample_st of
      (Inr w, s') \<Rightarrow> \<exists>B'. opened lost_answer_env sample_open sample_book (st_db sample_st) w B' (st_db s')
    | (Inl e, s') \<Rightarrow> st_db s' = st_db sample_st \<or> errors_is e (ERepo RepoCommitOutcomeUnknown)
        \<and> (\<exists>w B'. opened lost_answer_env sample_open sample_book (st_db sample_st) w B' (st_db s'))"
  by (rule open_wallet_effect [OF honest_samples(2)]) (simp add: sample_st_def sample_holds)

text \<open>
  A player has one wallet per currency: where nothing fails, asking for a second one is
  refused with an error that names the first, and changes nothing.
\<close>

theorem second_wallet_refused:
  assumes "calm c" and "fresh_wallet_ids c B" and "\<forall>n. e_now c n \<noteq> time_zero"
    and "holds (st_db s) B" and "has_wallet B (oi_playerID input) (currency (oi_initialBalance input)) w"
    and "open_Validate c input = Inr ()"
  shows "\<exists>s'. open_Execute u input c s = (Inl (EWalletConflict (w_id w)), s') \<and> st_db s' = st_db s"
proof -
  have bal: "Valid (oi_initialBalance input)" "\<not> IsNegative (oi_initialBalance input)"
    using assms(6) by (auto simp: open_Validate_def OrNil_def split: if_splits)
  have pl: "oi_playerID input \<noteq> uuid_Nil"
    using assms(4,5) book_wallet_inv by (fastforce simp: has_wallet_def holds_def wallet_inv_def)
  obtain i where i: "e_new_id c (st_tick s + 1) = Some i" "i \<noteq> uuid_Nil"
    using assms(2) unfolding fresh_wallet_ids_def by metis
  have do: "wpM (uow_Do u (open_closure input i now)) c (s\<lparr>st_tick := k\<rparr>) (\<lambda>_ _. False)
      (\<lambda>e s'. e = EWalletStore WalletAlreadyExists \<and> st_db s' = st_db s)" if "now \<noteq> time_zero" for now k
  proof (rule calm_Do [OF assms(1)])
    show "wpM (open_closure input i now) c (s\<lparr>st_tick := k\<rparr>\<lparr>st_tick := k2\<rparr>)
        (\<lambda>x s'. \<forall>t. False) (\<lambda>e s'. e \<noteq> EPanic \<and> \<not> Retryable e \<and> (\<forall>t. e = EWalletStore WalletAlreadyExists
          \<and> st_db (s'\<lparr>st_tick := t, st_db := st_db (s\<lparr>st_tick := k\<rparr>)\<rparr>) = st_db s))" for k2
      by (rule closure_second [OF assms(1,2) _ assms(5) pl bal that i(2)])
        (use assms(4) in \<open>simp_all add: Retryable_def\<close>)
  qed
  have conf: "wpM (open_conflict u input) c s' (\<lambda>_ _. False) (\<lambda>e s'. e = EWalletConflict (w_id w) \<and> st_db s' = st_db s)"
    if "st_db s' = st_db s" for s'
    by (rule conflict_second [OF assms(1) _ bal(1) assms(5)]) (use assms(4) that in simp_all)
  have "wpM (open_Execute u input) c s (\<lambda>_ _. False) (\<lambda>e s'. e = EWalletConflict (w_id w) \<and> st_db s' = st_db s)"
    unfolding open_Execute_def using assms(3,6) i
    by (simp add: wp wp_clock_Now wp_ids_New) (rule wpM_mono [OF do], simp_all add: conf)
  then show ?thesis by (cases "open_Execute u input c s") (auto simp: wpM_def split: sum.splits)
qed

theorem second_wallet_refused_witness:
  "\<exists>s'. open_Execute sample_uow (sample_open\<lparr>oi_playerID := 2\<rparr>) (quiet_env\<lparr>e_new_id := \<lambda>_. Some 100\<rparr>) sample_st
     = (Inl (EWalletConflict 1), s') \<and> st_db s' = st_db sample_st"
proof -
  let ?w = "sample_wallet\<lparr>w_balance := \<lparr>minor = 0, currency = BRL\<rparr>\<rparr>"
  have "\<exists>s'. open_Execute sample_uow (sample_open\<lparr>oi_playerID := 2\<rparr>) (quiet_env\<lparr>e_new_id := \<lambda>_. Some 100\<rparr>) sample_st
     = (Inl (EWalletConflict (w_id ?w)), s') \<and> st_db s' = st_db sample_st"
  proof (rule second_wallet_refused [where B = sample_book])
    show "holds (st_db sample_st) sample_book" by (simp add: sample_st_def sample_holds)
    have "\<not> (5000 :: i64) <s 0" by (simp add: i64_less)
    then show "open_Validate (quiet_env\<lparr>e_new_id := \<lambda>_. Some 100\<rparr>) (sample_open\<lparr>oi_playerID := 2\<rparr>) = Inr ()"
      by (simp add: quiet_env_def sample_open_def open_Validate_def OrNil_def Collect_failures_def Valid_def
          Supported_def IsNegative_def)
  qed (simp_all add: calm_def quiet_env_def fresh_wallet_ids_def has_wallet_def sample_open_def
      sample_book_def empty_book_def sample_wallet_def)
  then show ?thesis by (simp add: sample_wallet_def)
qed

end
