(* ===== verification/Footprint.thy ===== *)
theory Footprint
  imports Frame RetryProps OpenWallet
begin

text \<open>
  What the use cases that write leave alone: none of them calls the broker, and all they do to
  the outbox is to append events that no publisher has claimed. The locale carries such a
  relation through every operation of the repositories and every use case, once; its
  interpretations are the two relations.
\<close>

lemma outbox_kept:
  "sql_insert_wallet a d = Inr (x1, d') \<Longrightarrow> db_outbox d' = db_outbox d"
  "sql_select_wallets P d = Inr (x2, d') \<Longrightarrow> db_outbox d' = db_outbox d"
  "sql_update_wallet b1 b2 b3 b4 b5 d = Inr (x3, d') \<Longrightarrow> db_outbox d' = db_outbox d"
  "sql_insert_transaction t d = Inr (x4, d') \<Longrightarrow> db_outbox d' = db_outbox d"
  "sql_update_transaction t d = Inr (x5, d') \<Longrightarrow> db_outbox d' = db_outbox d"
  "sql_select_transactions T d = Inr (x6, d') \<Longrightarrow> db_outbox d' = db_outbox d"
  "sql_claim_due_pending l n k d = Inr (x7, d') \<Longrightarrow> db_outbox d' = db_outbox d"
  "sql_wake_up l p e n d = Inr (x8, d') \<Longrightarrow> db_outbox d' = db_outbox d"
  "sql_has_successful_reversal i d = Inr (x9, d') \<Longrightarrow> db_outbox d' = db_outbox d"
  "sql_insert_entry en d = Inr (x10, d') \<Longrightarrow> db_outbox d' = db_outbox d"
  "sql_insert_inbox ib d = Inr (x11, d') \<Longrightarrow> db_outbox d' = db_outbox d"
  "sql_select_inbox c m d = Inr (x12, d') \<Longrightarrow> db_outbox d' = db_outbox d"
  "sql_complete_inbox c m ou ti ca d = Inr (x13, d') \<Longrightarrow> db_outbox d' = db_outbox d"
  unfolding sql_insert_wallet_def sql_select_wallets_def sql_update_wallet_def sql_insert_transaction_def
    sql_update_transaction_def sql_select_transactions_def sql_claim_due_pending_def sql_wake_up_def
    sql_has_successful_reversal_def sql_insert_entry_def sql_insert_inbox_def sql_select_inbox_def sql_complete_inbox_def
  by (auto simp: Let_def split: if_splits option.splits)

locale writing_relation = undoable_relation +
  assumes elsewhere: "db_outbox d = db_outbox (st_db s) \<Longrightarrow> R s (s\<lparr>st_db := d\<rparr>)"
    and append: "unclaimed r \<Longrightarrow> sql_insert_outbox r (st_db s) = Inr ((), d) \<Longrightarrow> R s (s\<lparr>st_db := d\<rparr>)"
    and claim: "R s (s\<lparr>st_claimedID := i\<rparr>)"
begin

lemma outside: "(\<And>d x d'. f d = Inr (x, d') \<Longrightarrow> db_outbox d' = db_outbox d) \<Longrightarrow> follows R (statement f)"
  by (rule stmt) (simp add: elsewhere)

lemma statements: "follows R (statement (sql_insert_wallet a))" "follows R (statement (sql_select_wallets P))"
  "follows R (statement (sql_update_wallet b1 b2 b3 b4 b5))" "follows R (statement (sql_insert_transaction t))"
  "follows R (statement (sql_update_transaction t))" "follows R (statement (sql_select_transactions T))"
  "follows R (statement (sql_claim_due_pending l n k))" "follows R (statement (sql_wake_up l p e n))"
  "follows R (statement (sql_has_successful_reversal i))" "follows R (statement (sql_insert_entry en))"
  "follows R (statement (sql_insert_inbox ib))" "follows R (statement (sql_select_inbox c m))"
  "follows R (statement (sql_complete_inbox c m ou ti ca))"
  by (rule outside, erule outbox_kept)+

lemma scan: "follows R (scan_one f rows)"
  by (simp add: scan_one_def on_option return lift)

lemma finds: "follows R (Wallets_findOne P)" "follows R (Transactions_findOne T)" "follows R (Inbox_Find c m)"
  unfolding Wallets_findOne_def Transactions_findOne_def Inbox_Find_def
  by (intro bind mapErr statements scan)+

lemma wallets: "follows R (Wallets_Create w)" "follows R (Wallets_FindForUpdate i)" "follows R (Wallets_FindByPlayer p cur)"
  "follows R (Wallets_Update w v)" "follows R (Ledger_Append e)"
  unfolding Wallets_Create_def Wallets_FindForUpdate_def Wallets_FindByPlayer_def Wallets_Update_def Ledger_Append_def
  by (intro rules statements finds)+

lemma transactions: "follows R (Transactions_Insert t)" "follows R (Transactions_Update t)" "follows R (Transactions_FindByID i)"
  "follows R (Transactions_FindByIDForUpdate i)" "follows R (Transactions_FindByIdempotencyKey p k)"
  "follows R (Transactions_FindByExternalID p x)" "follows R (Transactions_ClaimDuePending n l)"
  "follows R (Transactions_WakeUpWaitingFor p x n)" "follows R (Transactions_HasSuccessfulReversal i)"
  unfolding Transactions_Insert_def Transactions_Update_def Transactions_FindByID_def Transactions_FindByIDForUpdate_def
    Transactions_FindByIdempotencyKey_def Transactions_FindByExternalID_def Transactions_ClaimDuePending_def
    Transactions_WakeUpWaitingFor_def Transactions_HasSuccessfulReversal_def
  by (intro rules statements finds)+

lemma inbox: "follows R (Inbox_Insert m)" "follows R (Inbox_Complete c i ou t n)"
  unfolding Inbox_Insert_def Inbox_Complete_def
  by (intro rules statements)+

lemma outbox: "follows R (Outbox_Append e)"
  unfolding Outbox_Append_def
  by (intro rules stmt append) (auto simp: outbox_row_of_def unclaimed_def)

lemmas repositories = finds wallets transactions inbox outbox

lemma movement: "follows R (applyFinancialMovement w t dec now)"
  unfolding applyFinancialMovement_def Let_def by (intro rules repositories)

lemma events: "follows R (append_envelopes t now es)" "follows R (appendSettlementEvents now t eo b)"
proof -
  show e: "follows R (append_envelopes t now es)" for es
    by (induction es) (auto intro!: rules repositories)
  show "follows R (appendSettlementEvents now t eo b)"
    unfolding appendSettlementEvents_def settlement_envelopes_def by (intro rules e)
qed

lemma process: "follows R (process_Execute u settings input)"
proof -
  have replay: "follows R (process_replay input h now)" for h now
    unfolding process_replay_def completeInbox_def Let_def by (intro rules repositories)
  have register: "follows R (registerInbox input)"
    unfolding registerInbox_def registerInbox_existing_def by (intro rules repositories)
  have settle: "follows R (process_settle settings w t dec now)" for w t dec now
    unfolding process_settle_def process_applyMovement_def Let_def
    by (cases "d_outcome dec") (simp_all only: outcome.case, (intro rules movement)+)
  have reference: "follows R (process_resolveReference t)" for t
    unfolding process_resolveReference_def by (intro rules repositories)
  have answer: "follows R (process_answer input now t)" for now t
    unfolding process_answer_def completeInbox_def Let_def by (intro rules repositories)
  have "follows R (process_register settings input h now)" for h now
    unfolding process_register_def process_wakeUpWaiting_def
    by (intro rules repositories replay settle reference answer events)
  then show ?thesis
    unfolding process_Execute_def process_run_def Let_def by (intro rules unit_do register)
qed

lemma retry: "follows R (retry_attempt u settings)"
proof -
  have "follows R (retry_claimed settings t now)" for t now
    unfolding retry_claimed_def retry_resolveReference_def retry_reschedule_def retry_settle_def retry_apply_def
    by (intro rules repositories movement events assign claim)
  then show ?thesis
    unfolding retry_attempt_def retry_closure_def retry_giveUp_def retry_fail_def
    by (intro rules unit_do repositories assign claim)
qed

lemma open_wallet: "follows R (open_Execute u input)"
proof -
  have "follows R (open_closure input i now)" for i now
    unfolding open_closure_def open_recordOpeningBalance_def by (intro rules repositories events)
  then show ?thesis
    unfolding open_Execute_def open_conflict_def by (intro rules unit_do unit_read repositories)
qed

lemmas use_cases = process retry open_wallet

end

interpretation writing_silent: writing_relation calls_nobody
  by unfold_locales simp_all

interpretation writing_growth: writing_relation grows
proof unfold_locales
  fix r d and s :: st assume "unclaimed r" "sql_insert_outbox r (st_db s) = Inr ((), d)"
  then show "grows s (s\<lparr>st_db := d\<rparr>)"
    by (auto simp: sql_insert_outbox_def appended_def list_ex_iff image_iff split: if_splits intro!: exI [of _ "[r]"]) blast
qed (simp_all add: appended_refl)

end
