(* ===== verification/Listener.thy ===== *)
theory Listener
  imports Message ProcessProps Footprint JsonPrint
begin

text \<open>
  The listener of the wagering queue: \<open>sqs/listener\<close> and the correlation identifiers of
  \<open>logging.CorrelationID\<close>. A delivery becomes the input an HTTP request would become and ends in
  the same use case; what comes back is classified for the consumer: handled, rejected for good
  with a reason, of unknown outcome, or to be tried again. Metrics, logging and the crash point
  after the commit are left out. Facts: a delivery that is refused or to be tried again left no
  trace, and one that was handled leaves nothing to do for the next delivery of its message.
\<close>

section \<open>The code\<close>

record delivery_message =
  dm_brokerID :: string
  dm_body :: string
  dm_groupID :: string
  dm_receiveCount :: i64
  dm_attributes :: "(string \<times> string) list"

text \<open>A missing key of a Go map reads as the zero value.\<close>

definition Attribute :: "delivery_message \<Rightarrow> string \<Rightarrow> string" where
  "Attribute m name = (case map_of (dm_attributes m) name of Some v \<Rightarrow> v | None \<Rightarrow> [])"

definition ReasonInvalidPayload :: string where
  "ReasonInvalidPayload = ''INVALID_PAYLOAD''"

definition ReasonOpeningNotAllowed :: string where
  "ReasonOpeningNotAllowed = ''OPENING_NOT_ALLOWED''"

definition ReasonWalletNotFound :: string where
  "ReasonWalletNotFound = ''WALLET_NOT_FOUND''"

definition ReasonInboxMismatch :: string where
  "ReasonInboxMismatch = ''INBOX_HASH_MISMATCH''"

definition Reject :: "string \<Rightarrow> go_error \<Rightarrow> go_error" where
  "Reject reason cause = ERejection reason cause"

definition Unknown :: "go_error \<Rightarrow> go_error" where
  "Unknown cause = EWrap [EUnknownOutcome, cause]"

definition conflict_String :: "conflict_kind \<Rightarrow> string" where
  "conflict_String k =
     (case k of ConflictIdempotencyKey \<Rightarrow> ''IDEMPOTENCY_KEY_CONFLICT''
      | ConflictExternalID \<Rightarrow> ''EXTERNAL_TRANSACTION_ID_CONFLICT'')"

text \<open>Printable ASCII within the limit; \<open>None\<close> is the pair of the empty text and false.\<close>

definition maxCorrelationIDLength :: nat where
  "maxCorrelationIDLength = 128"

definition CorrelationID :: "string \<Rightarrow> string option" where
  "CorrelationID value =
     (if value = [] \<or> maxCorrelationIDLength < length value then None
      else if list_ex (\<lambda>r. r < 0x20 \<or> 0x7e < r) (runes value) then None else Some value)"

definition correlationOf :: "delivery_message \<Rightarrow> wager_message \<Rightarrow> string" where
  "correlationOf m wager =
     (case CorrelationID (Attribute m ''correlationId'') of
        Some value \<Rightarrow> value
      | None \<Rightarrow> if wm_messageID wager \<noteq> [] then wm_messageID wager else dm_brokerID m)"

definition rejectionReason :: "go_error \<Rightarrow> string" where
  "rejectionReason err =
     (case as_conflict err of
        Some (k, i) \<Rightarrow> conflict_String k
      | None \<Rightarrow>
          if errors_is err EPayloadMismatch then ReasonInboxMismatch
          else if errors_is err (EWalletStore WalletNotFound) then ReasonWalletNotFound
          else if as_validation err \<noteq> None then ReasonInvalidPayload
          else if list_ex (\<lambda>e. errors_is err (EWagering e))
            [WageringInvalidKind, WageringInvalidAmount, WageringInvalidOrigin, WageringMissingField,
             WageringMissingIdentifier, WageringInvalidPayloadHash, WageringReferenceRequired,
             WageringReferenceForbidden]
          then ReasonInvalidPayload else [])"

text \<open>What the listener makes of a failure of the use case.\<close>

definition listener_failure :: "go_error \<Rightarrow> go_error" where
  "listener_failure err =
     (if errors_is err (ERepo RepoCommitOutcomeUnknown) then Unknown err
      else if rejectionReason err \<noteq> [] then Reject (rejectionReason err) err else err)"

text \<open>The first part of \<open>Handle\<close>: the input of a delivery, or why it is refused.\<close>

definition delivery_input :: "env \<Rightarrow> delivery_message \<Rightarrow> process_input result" where
  "delivery_input c m =
     (case message_Decode c (dm_body m) of
        Inl err \<Rightarrow> Inl (Reject ReasonInvalidPayload err)
      | Inr wager \<Rightarrow>
          if wd_kind (wm_data wager) = kind_String Opening
          then Inl (Reject ReasonOpeningNotAllowed (EText ''openings are created by the internal service only''))
          else (case WagerInputFromMessage c wager (HashBytes (dm_body m)) (correlationOf m wager) of
              Inl err \<Rightarrow> Inl (Reject ReasonInvalidPayload err)
            | Inr input \<Rightarrow> Inr input))"

definition listener_Handle :: "uow_settings \<Rightarrow> process_settings \<Rightarrow> delivery_message \<Rightarrow> unit M" where
  "listener_Handle unitOfWork settings m =
     bindM (askM (\<lambda>c. delivery_input c m)) (\<lambda>r.
     bindM (liftR r) (\<lambda>input.
     bindM (mapErrM listener_failure (process_Execute unitOfWork settings input)) (\<lambda>res.
     returnM ())))"

section \<open>The input of a delivery\<close>

lemma message_Decode_Inr:
  assumes "documented_engine (e_validate c)" "message_Decode c body = Inr wager"
  shows "\<not> blank (wm_messageID wager)" "wm_type wager = WagerTransactionRequested" "rfc3339 (wm_occurredAt wager)"
proof -
  let ?checks = "[(''messageId'', ''required,max=255,opaque'', VText (wm_messageID wager)),
    (''type'', ''required'', VText (wm_type wager))]"
  have "message_Validate c wager = Inr ()"
    using assms(2) by (auto simp: message_Decode_def bindR_eq_Inr split: option.splits sum.splits if_splits)
  then have e: "e_validate c ?checks = []" and r: "rfc3339 (wm_occurredAt wager)"
    and t: "wm_type wager = WagerTransactionRequested \<or> wm_type wager = []"
    by (auto simp: message_Validate_def OrNil_def Collect_failures_def split: if_splits)
  have "list_all (\<lambda>(f, tag, v). tag_accepts tag v) ?checks"
    using assms(1) e unfolding documented_engine_def by blast
  then show "\<not> blank (wm_messageID wager)" "wm_type wager = WagerTransactionRequested"
    using t by (auto simp: required_opaque) (auto simp: tag_accepts_def value_required_def)
  show "rfc3339 (wm_occurredAt wager)" by (rule r)
qed

lemma delivery_input_Inr:
  "delivery_input c m = Inr input \<longleftrightarrow> (\<exists>wager. message_Decode c (dm_body m) = Inr wager
     \<and> wd_kind (wm_data wager) \<noteq> kind_String Opening
     \<and> WagerInputFromMessage c wager (HashBytes (dm_body m)) (correlationOf m wager) = Inr input)"
  by (auto simp: delivery_input_def split: sum.splits)

lemma input_fields:
  assumes "WagerInputFromMessage c wager h cid = Inr input"
  shows "pi_origin input = Queue" "pi_messageID input = wm_messageID wager" "pi_rawBodyHash input = h"
    "pi_correlationID input = cid" "pi_kind input = kind_of_string (wd_kind (wm_data wager))"
  using assms by (auto simp: WagerInputFromMessage_def Let_def bindR_eq_Inr split: prod.splits)

text \<open>Two deliveries of one body differ at most in their correlation identifier.\<close>

lemma input_correlation:
  "WagerInputFromMessage c wager h cid' = map_sum id (\<lambda>i. i\<lparr>pi_correlationID := cid'\<rparr>) (WagerInputFromMessage c wager h cid)"
  by (auto simp: WagerInputFromMessage_def Let_def OrNil_def split: prod.splits)

lemma same_body_input:
  assumes "dm_body m' = dm_body m" "delivery_input c m = Inr input"
  obtains cid where "delivery_input c m' = Inr (input\<lparr>pi_correlationID := cid\<rparr>)"
proof -
  from assms(2) obtain wager where w: "message_Decode c (dm_body m) = Inr wager"
    "wd_kind (wm_data wager) \<noteq> kind_String Opening"
    "WagerInputFromMessage c wager (HashBytes (dm_body m)) (correlationOf m wager) = Inr input"
    unfolding delivery_input_Inr by blast
  have "delivery_input c m' = Inr (input\<lparr>pi_correlationID := correlationOf m' wager\<rparr>)"
    using w input_correlation [of c wager "HashBytes (dm_body m)" "correlationOf m' wager" "correlationOf m wager"]
    unfolding delivery_input_Inr assms(1) by simp
  then show thesis by (rule that)
qed

lemma known_correlation:
  "known (input\<lparr>pi_correlationID := cid\<rparr>) h d B t \<longleftrightarrow> known input h d B t"
  "payload_hash c (input\<lparr>pi_correlationID := cid\<rparr>) = payload_hash c input"
  by (simp_all add: known_def FromQueue_def payload_hash_def IdempotencyPayload_def)

section \<open>What handling does\<close>

text \<open>Refused or to be tried again: an error that does not say the outcome is unknown.\<close>

lemma listener_failure_unknown:
  "errors_is err (ERepo RepoCommitOutcomeUnknown) \<Longrightarrow> errors_is (listener_failure err) EUnknownOutcome"
  by (simp add: listener_failure_def Unknown_def)

lemma wp_listener_Handle:
  assumes "honest_commit c" and "holds (st_db s) B"
  shows "wpM (listener_Handle u settings m) c s
    (\<lambda>_ s'. \<exists>input res. delivery_input c m = Inr input
      \<and> process_outcome c input (payload_hash c input) B (st_db s) res (st_db s'))
    (\<lambda>e s'. st_db s' = st_db s \<or> errors_is e EUnknownOutcome \<and> (\<exists>input res. delivery_input c m = Inr input
      \<and> process_outcome c input (payload_hash c input) B (st_db s) res (st_db s')))"
proof (cases "delivery_input c m")
  case (Inr input)
  show ?thesis
    unfolding listener_Handle_def
    by (simp add: wp Inr) (rule wpM_mono [OF wp_process_Execute [OF assms]], auto simp: listener_failure_unknown)
qed (simp add: listener_Handle_def wp)

lemma listener_silent: "follows calls_nobody (listener_Handle u settings m)"
  unfolding listener_Handle_def by (intro silent.rules writing_silent.process)

section \<open>Properties\<close>

text \<open>
  What the queue hands to the use case is fit for it: an operation of a provider over the
  queue, never an opening, bound to its message - the identifier is one the inbox accepts and the
  hash is that of the body - and traceable, its correlation identifier is not empty.
\<close>

theorem delivery_ready:
  assumes "documented_engine (e_validate c)" and "delivery_input c m = Inr input"
  shows "pi_origin input = Queue \<and> pi_kind input \<noteq> Opening \<and> kind_input input \<and> FromQueue input
    \<and> pi_rawBodyHash input = HashBytes (dm_body m) \<and> pi_correlationID input \<noteq> []
    \<and> (now \<noteq> time_zero \<longrightarrow> is_ok (NewInboxMessage ConsumerName (pi_messageID input) (pi_rawBodyHash input) now))"
proof -
  obtain wager where w: "message_Decode c (dm_body m) = Inr wager" "wd_kind (wm_data wager) \<noteq> kind_String Opening"
    "WagerInputFromMessage c wager (HashBytes (dm_body m)) (correlationOf m wager) = Inr input"
    using assms(2) unfolding delivery_input_Inr by blast
  note f = input_fields [OF w(3)] and id = message_Decode_Inr(1) [OF assms(1) w(1)]
  have nonempty: "wm_messageID wager \<noteq> []" using id by auto
  then have "correlationOf m wager \<noteq> []"
    by (auto simp: correlationOf_def CorrelationID_def split: option.splits if_splits)
  moreover have "kind_of_string t \<noteq> Opening" if "t \<noteq> kind_String Opening" for t
    using that by (auto simp: kind_of_string_def)
  moreover have "kind_of_string (kind_String (kind_of_string t)) = kind_of_string t" for t
    by (auto simp: kind_of_string_def)
  ultimately show ?thesis using f w(2) id nonempty
    by (auto simp: FromQueue_def kind_input_def NewInboxMessage_eq_Inr is_ok_iff ConsumerName_def hash_shape)
qed

text \<open>A body to run on, and surroundings that answer for it.\<close>

definition sample_document :: json where
  "sample_document = JObj [(''messageId'', JStr ''m''), (''type'', JStr ''WagerTransactionRequested''),
     (''occurredAt'', JStr ''2026-01-01T00:00:00Z''),
     (''data'', JObj [(''playerId'', JStr ''p''), (''walletId'', JStr ''w''), (''kind'', JStr ''BET'')])]"

definition sample_delivery :: delivery_message where
  "sample_delivery = \<lparr>dm_brokerID = ''b'', dm_body = json_print False sample_document, dm_groupID = ''w'',
     dm_receiveCount = 1, dm_attributes = []\<rparr>"

definition strict_env :: env where
  "strict_env = quiet_env\<lparr>e_uuid_parse := \<lambda>_. Some 7, e_validate := \<lambda>checks.
     if list_all (\<lambda>(f, tag, v). tag_accepts tag v) checks then [] else [([], [], [])]\<rparr>"

lemma strict_documented: "documented_engine (e_validate strict_env)"
  by (simp add: documented_engine_def strict_env_def)

definition sample_wager :: wager_message where
  "sample_wager = \<lparr>wm_messageID = ''m'', wm_type = ''WagerTransactionRequested'', wm_occurredAt = ''2026-01-01T00:00:00Z'',
     wm_data = wager_data_zero\<lparr>wd_playerID := ''p'', wd_walletID := ''w'', wd_kind := ''BET''\<rparr>\<rparr>"

lemma sample_decoded: "message_Decode strict_env (dm_body sample_delivery) = Inr sample_wager"
proof -
  have "writable sample_document" by (simp add: sample_document_def valid_utf8_ascii)
  then have "json_first (dm_body sample_delivery) = Some (sample_document, [])"
    using json_first_printed [of sample_document "[]" False] by (simp add: sample_delivery_def)
  moreover have "decode_struct set_wager_message sample_document wager_message_zero = Inr sample_wager"
    by (simp add: sample_document_def sample_wager_def decode_struct_def set_wager_message_def set_wager_data_def
        decode_string_def named_def lower_char_def wager_message_zero_def wager_data_zero_def)
  moreover have "message_Validate strict_env sample_wager = Inr ()"
  proof -
    have "rfc3339 ''2026-01-01T00:00:00Z''" by code_simp
    moreover have "isOpaque ''m''" by (simp add: isOpaque_def trimmed_def runes_ascii Let_def is_space_def is_control_def)
    ultimately show ?thesis
      by (simp add: message_Validate_def sample_wager_def strict_env_def tag_accepts_def value_required_def
          Collect_failures_def OrNil_def WagerTransactionRequested_def runes_ascii)
  qed
  ultimately show ?thesis by (simp add: message_Decode_def)
qed

lemma sample_delivered: "\<exists>input. delivery_input strict_env sample_delivery = Inr input"
proof -
  have "e_uuid_parse strict_env = (\<lambda>_. Some 7)" by (simp add: strict_env_def)
  then show ?thesis
    unfolding delivery_input_Inr sample_decoded
    by (auto simp: WagerInputFromMessage_def Identifier_def OrNil_def sample_wager_def wager_data_zero_def)
qed

theorem delivery_ready_witness:
  "\<exists>input. delivery_input strict_env sample_delivery = Inr input \<and> pi_origin input = Queue \<and> FromQueue input"
  using sample_delivered delivery_ready [OF strict_documented] by blast

text \<open>
  A correlation identifier of blanks is printable ASCII, so it is taken over; the domain refuses
  it, and the message is rejected for its attribute.
\<close>

lemma blank_correlation:
  assumes "CorrelationID (Attribute m ''correlationId'') = Some cid"
  shows "CorrelationID '' '' = Some '' '' \<and> blank '' '' \<and> correlationOf m wager = cid
    \<and> (blank cid \<longrightarrow> \<not> is_ok (NewExternal (WagerCommand (input\<lparr>pi_correlationID := cid\<rparr>) h) i now))"
  using assms by (auto simp: CorrelationID_def maxCorrelationIDLength_def runes_ascii blank_def is_space_def correlationOf_def
      is_ok_iff NewExternal_eq_Inr external_fields_def WagerCommand_def)

end
