(* ===== verification/PublishOutbox.thy ===== *)
theory PublishOutbox
  imports Settlement Calm
begin

text \<open>
  The publisher of the outbox: \<open>usecase/publish_outbox.go\<close> and the notifier that hands an event
  to the queue, \<open>sqs/publisher/wallet_event_notifier_sqs.go\<close>. A batch is claimed in one unit of
  work under a lease, every event is sent, and marked or rescheduled in a unit of work of its
  own, which changes the row only while the claim is current. Logging, metrics and the crash
  point between sending and marking are left out: a process that dies there is a step that
  never comes in \<open>Publication\<close>.
\<close>

record outbox_settings =
  os_owner :: string
  os_lease :: duration
  os_batchSize :: nat
  os_backoffBase :: i64
  os_backoffMax :: i64

section \<open>The notifier\<close>

definition StringAttribute :: "string \<Rightarrow> string \<times> string" where
  "StringAttribute v = (''String'', v)"

definition NumberAttribute :: "i64 \<Rightarrow> string \<times> string" where
  "NumberAttribute v = (''Number'', format_int64 v)"

text \<open>
  The message of an event: its group is the wallet, its deduplication id is the event's own.
  The attributes are a Go map; they are listed by name.
\<close>

definition notifier_message :: "(uuid \<Rightarrow> string) \<Rightarrow> string \<Rightarrow> outbox_event \<Rightarrow> queue_message" where
  "notifier_message us queueURL event =
     \<lparr>qm_queueURL = queueURL, qm_body = Some (oe_payload event), qm_groupID = oe_partitionKey event,
      qm_deduplicationID = us (oe_id event),
      qm_attributes = [(''eventType'', StringAttribute (oe_eventType event)),
        (''eventVersion'', NumberAttribute (oe_eventVersion event)),
        (''aggregateType'', StringAttribute (oe_aggregateType event)),
        (''correlationId'', StringAttribute (oe_correlationID event))]\<rparr>"

text \<open>\<open>Send\<close>: the message of its error, if any.\<close>

definition notifier_Send :: "string \<Rightarrow> outbox_event \<Rightarrow> string option M" where
  "notifier_Send queueURL event =
     bindM (askM e_uuid_text) (\<lambda>us.
     bindM (call_broker (SendMessage (notifier_message us queueURL event))) (\<lambda>err.
     returnM (map_option (\<lambda>text. ''sqs: could not publish event '' @ us (oe_id event) @ '': '' @ text) err)))"

section \<open>The use case\<close>

definition publish_claim :: "uow_settings \<Rightarrow> outbox_settings \<Rightarrow> outbox_event list M" where
  "publish_claim unitOfWork settings =
     bindM clock_Now (\<lambda>now.
     uow_Do unitOfWork (Outbox_Claim (os_owner settings) now (os_lease settings) (os_batchSize settings)))"

definition publish_mark :: "uow_settings \<Rightarrow> receipt \<Rightarrow> bool M" where
  "publish_mark unitOfWork receipt =
     uow_Do unitOfWork (bindM clock_Now (\<lambda>now. Outbox_MarkPublished receipt now))"

definition publish_reschedule :: "uow_settings \<Rightarrow> outbox_settings \<Rightarrow> receipt \<Rightarrow> string \<Rightarrow> unit M" where
  "publish_reschedule unitOfWork settings receipt cause =
     bindM clock_Now (\<lambda>now.
     let nextAttempt = now + sint (backoff (os_backoffBase settings) (os_backoffMax settings) (rc_generation receipt)) in
     bindM (tryM (uow_Do unitOfWork (Outbox_MarkFailed receipt cause nextAttempt))) (\<lambda>_. returnM ()))"

definition publish_deliver :: "uow_settings \<Rightarrow> string \<Rightarrow> outbox_settings \<Rightarrow> outbox_event \<Rightarrow> bool M" where
  "publish_deliver unitOfWork queueURL settings pending =
     bindM clock_Now (\<lambda>now.
     let receipt = Receipt pending in
     if \<not> LeaseValid receipt now then returnM False
     else bindM (notifier_Send queueURL pending) (\<lambda>err.
       case err of
         Some cause \<Rightarrow> bindM (publish_reschedule unitOfWork settings receipt cause) (\<lambda>_. returnM False)
       | None \<Rightarrow> bindM (tryM (publish_mark unitOfWork receipt)) (\<lambda>marked.
           case marked of Inl _ \<Rightarrow> returnM False | Inr applied \<Rightarrow> returnM applied)))"

text \<open>The loop over the claimed events: how many were published, and the error that ended it.\<close>

fun publish_batch ::
  "uow_settings \<Rightarrow> string \<Rightarrow> outbox_settings \<Rightarrow> outbox_event list \<Rightarrow> nat \<Rightarrow> (nat \<times> go_error option) M" where
  "publish_batch unitOfWork queueURL settings [] published = returnM (published, None)"
| "publish_batch unitOfWork queueURL settings (pending # rest) published =
     bindM (observe e_done) (\<lambda>ended.
     case ended of
       Some err \<Rightarrow> returnM (published, Some err)
     | None \<Rightarrow> bindM (publish_deliver unitOfWork queueURL settings pending) (\<lambda>ok.
         publish_batch unitOfWork queueURL settings rest (if ok then published + 1 else published)))"

definition publish_Execute :: "uow_settings \<Rightarrow> string \<Rightarrow> outbox_settings \<Rightarrow> (nat \<times> go_error option) M" where
  "publish_Execute unitOfWork queueURL settings =
     bindM (tryM (publish_claim unitOfWork settings)) (\<lambda>claimed.
     case claimed of
       Inl err \<Rightarrow> returnM (0, Some err)
     | Inr events \<Rightarrow> publish_batch unitOfWork queueURL settings events 0)"

definition publish_ReportPending :: "uow_settings \<Rightarrow> pending_stats M" where
  "publish_ReportPending unitOfWork =
     uow_Read unitOfWork (bindM clock_Now (\<lambda>now. Outbox_PendingStats now))"

end
