(* ===== verification/Consumer.thy ===== *)
theory Consumer
  imports Listener PublishOutbox "HOL-Library.Sublist"
begin

text \<open>
  The consumer of the wagering queue: \<open>sqs/consumer.go\<close>, \<open>sqs/identity.go\<close> and \<open>sqs/attributes.go\<close>.
  It routes a received message to the listener of its queue and owns the acknowledgement: a
  handled message is deleted, a rejected one is copied to the dead letter queue and then deleted,
  one of unknown outcome is left alone, any other comes back after a backoff. A message in flight
  when the consumer stops is made visible again. The broker is the environment's: a call is
  accepted or fails. Logging, metrics and the timeouts of the broker's calls are left out, and
  polling, which only decides when a message is dispatched.
\<close>

section \<open>Messages of the queue\<close>

text \<open>The library's struct: pointers are optional, the two maps are lists of their members.\<close>

record sqs_message =
  sm_messageID :: "string option"
  sm_receiptHandle :: "string option"
  sm_body :: "string option"
  sm_attributes :: "(string \<times> string) list"
  sm_messageAttributes :: "(string \<times> string option) list"

definition aws_ToString :: "string option \<Rightarrow> string" where
  "aws_ToString p = (case p of None \<Rightarrow> [] | Some s \<Rightarrow> s)"

text \<open>\<open>strconv.Atoi\<close> is \<open>ParseInt\<close> at the width of \<open>int\<close>, 64 bits.\<close>

definition receiveCount :: "sqs_message \<Rightarrow> i64" where
  "receiveCount message =
     (case map_of (sm_attributes message) ''ApproximateReceiveCount'' of
        None \<Rightarrow> 1
      | Some raw \<Rightarrow>
          (case parse_int64 raw of
             None \<Rightarrow> 1
           | Some v \<Rightarrow> if v <s 1 then 1 else v))"

definition groupOf :: "sqs_message \<Rightarrow> string" where
  "groupOf message =
     (case map_of (sm_attributes message) ''MessageGroupId'' of
        Some g \<Rightarrow> if g \<noteq> [] then g else aws_ToString (sm_messageID message)
      | None \<Rightarrow> aws_ToString (sm_messageID message))"

definition deliveryOf :: "sqs_message \<Rightarrow> delivery_message" where
  "deliveryOf message =
     \<lparr>dm_brokerID = aws_ToString (sm_messageID message), dm_body = aws_ToString (sm_body message),
      dm_groupID = groupOf message, dm_receiveCount = receiveCount message,
      dm_attributes = map (\<lambda>(name, v). (name, aws_ToString v)) (sm_messageAttributes message)\<rparr>"

section \<open>Identities\<close>

definition InboundDeduplicationID :: "string \<Rightarrow> string" where
  "InboundDeduplicationID messageID = hex_EncodeToString (Sum256 messageID)"

fun json_strings :: "string list \<Rightarrow> string" where
  "json_strings [] = []"
| "json_strings [s] = json_string False s"
| "json_strings (s # ss) = json_string False s @ '','' @ json_strings ss"

text \<open>The encoder ends its output with a line feed, which is cut off again; encoding strings never fails.\<close>

definition deadLetterDeduplicationID :: "string \<Rightarrow> string \<Rightarrow> string \<Rightarrow> string" where
  "deadLetterDeduplicationID sourceQueueARN brokerMessageID reason =
     hex_EncodeToString (Sum256
       (''['' @ json_strings [''wallet-dlq-v1'', sourceQueueARN, brokerMessageID, reason] @ '']''))"

section \<open>The consumer\<close>

record consumer_settings =
  cs_workers :: int
  cs_waitTime :: duration
  cs_visibility :: duration
  cs_messageDeadline :: duration
  cs_backoffBase :: i64
  cs_backoffMax :: i64
  cs_maxReceiveCount :: i64
  cs_shutdownTimeout :: duration

record listener =
  ls_Name :: string
  ls_Watching :: string
  ls_Handle :: "delivery_message \<Rightarrow> unit M"

record delivery =
  dl_queue :: string
  dl_message :: sqs_message

record consumer =
  cn_deadLetterQueue :: string
  cn_listeners :: "(string \<times> listener) list"
  cn_sources :: "(string \<times> string) list"
  cn_settings :: consumer_settings
  cn_inFlight :: "(string \<times> delivery) list"
  cn_releasing :: bool

fun add_routes :: "(string \<times> listener) list \<Rightarrow> listener list \<Rightarrow> (string \<times> listener) list result" where
  "add_routes routes [] = Inr routes"
| "add_routes routes (target # targets) =
     (if ls_Watching target = []
      then Inl (EText (''sqs: listener '' @ ls_Name target @ '' does not say which queue it watches''))
      else case map_of routes (ls_Watching target) of
        Some existing \<Rightarrow> Inl (EText (''sqs: '' @ ls_Name existing @ '' and '' @ ls_Name target @ '' watch the same queue''))
      | None \<Rightarrow> add_routes (routes @ [(ls_Watching target, target)]) targets)"

definition NewConsumer :: "string \<Rightarrow> consumer_settings \<Rightarrow> listener list \<Rightarrow> consumer result" where
  "NewConsumer deadLetterQueue settings listeners =
     (let settings' = (if cs_shutdownTimeout settings \<le> 0
           then settings\<lparr>cs_shutdownTimeout := 15 * 10 ^ 9\<rparr> else settings) in
      bindR (add_routes [] listeners) (\<lambda>routes.
      Inr \<lparr>cn_deadLetterQueue = deadLetterQueue, cn_listeners = routes, cn_sources = [],
        cn_settings = settings', cn_inFlight = [], cn_releasing = False\<rparr>))"

text \<open>The sources that \<open>Run\<close> asks for before it watches; \<open>arn\<close> is the answer of \<open>QueueARN\<close>.\<close>

fun find_sources :: "(string \<Rightarrow> string result) \<Rightarrow> (string \<times> listener) list \<Rightarrow> (string \<times> string) list result" where
  "find_sources arn [] = Inr []"
| "find_sources arn ((queueURL, target) # routes) =
     bindR (arn queueURL) (\<lambda>a. bindR (find_sources arn routes) (\<lambda>rest. Inr ((queueURL, a) # rest)))"

definition Run_sources :: "(string \<Rightarrow> string result) \<Rightarrow> consumer \<Rightarrow> consumer result" where
  "Run_sources arn cn =
     bindR (find_sources arn (cn_listeners cn)) (\<lambda>sources. Inr (cn\<lparr>cn_sources := sources\<rparr>))"

section \<open>Acknowledging\<close>

text \<open>
  \<open>int32(delay.Seconds())\<close> cuts the fraction off. The floating-point quotient is exact enough
  for that as long as a delay is below some weeks, far above what SQS allows.
\<close>

definition seconds :: "i64 \<Rightarrow> int" where
  "seconds delay = (if 0 \<le> sint delay then sint delay div 10 ^ 9 else - (- sint delay div 10 ^ 9))"

definition consumer_remove :: "string \<Rightarrow> sqs_message \<Rightarrow> unit M" where
  "consumer_remove queueURL message =
     bindM (call_broker (DeleteMessage queueURL (sm_receiptHandle message))) (\<lambda>err. returnM ())"

text \<open>The loop of \<open>backoff\<close> is the one of the use cases.\<close>

definition retryLater :: "consumer \<Rightarrow> string \<Rightarrow> sqs_message \<Rightarrow> unit M" where
  "retryLater cn queueURL message =
     (let received = receiveCount message;
          delay = backoff (cs_backoffBase (cn_settings cn)) (cs_backoffMax (cn_settings cn)) (sint (received - 1)) in
      bindM (call_broker (ChangeMessageVisibility queueURL (sm_receiptHandle message) (seconds delay))) (\<lambda>err.
      returnM ()))"

definition deadLetter_message :: "consumer \<Rightarrow> string \<Rightarrow> sqs_message \<Rightarrow> string \<Rightarrow> queue_message" where
  "deadLetter_message cn queueURL message reason =
     (let brokerID = aws_ToString (sm_messageID message) in
      \<lparr>qm_queueURL = cn_deadLetterQueue cn, qm_body = sm_body message, qm_groupID = groupOf message,
       qm_deduplicationID =
         deadLetterDeduplicationID (aws_ToString (map_of (cn_sources cn) queueURL)) brokerID reason,
       qm_attributes = [(''reason'', StringAttribute reason), (''originalMessageId'', StringAttribute brokerID),
         (''receiveCount'', NumberAttribute (receiveCount message))]\<rparr>)"

definition deadLetter :: "consumer \<Rightarrow> string \<Rightarrow> sqs_message \<Rightarrow> string \<Rightarrow> unit M" where
  "deadLetter cn queueURL message reason =
     bindM (call_broker (SendMessage (deadLetter_message cn queueURL message reason))) (\<lambda>err.
     case err of
       Some cause \<Rightarrow> returnM ()
     | None \<Rightarrow> consumer_remove queueURL message)"

text \<open>The switch over what the listener answered.\<close>

definition acknowledge :: "consumer \<Rightarrow> string \<Rightarrow> sqs_message \<Rightarrow> unit result \<Rightarrow> unit M" where
  "acknowledge cn queueURL message answer =
     (case answer of
        Inr _ \<Rightarrow> consumer_remove queueURL message
      | Inl err \<Rightarrow>
          if errors_is err EUnknownOutcome then returnM ()
          else (case as_rejection err of
              Some (reason, cause) \<Rightarrow> deadLetter cn queueURL message reason
            | None \<Rightarrow> retryLater cn queueURL message))"

section \<open>Dispatching\<close>

definition release :: "delivery \<Rightarrow> unit M" where
  "release pending =
     bindM (call_broker (ChangeMessageVisibility (dl_queue pending) (sm_receiptHandle (dl_message pending)) 0))
       (\<lambda>err. returnM ())"

definition receipt_key :: "sqs_message \<Rightarrow> string" where
  "receipt_key message = aws_ToString (sm_receiptHandle message)"

definition dropped :: "string \<Rightarrow> (string \<times> delivery) list \<Rightarrow> (string \<times> delivery) list" where
  "dropped key flight = filter (\<lambda>(k, d). k \<noteq> key) flight"

text \<open>The first critical section: \<open>None\<close> when the consumer is releasing what it holds.\<close>

definition admit :: "consumer \<Rightarrow> string \<Rightarrow> sqs_message \<Rightarrow> consumer option" where
  "admit cn queueURL message =
     (if cn_releasing cn then None
      else Some (cn\<lparr>cn_inFlight := (receipt_key message, \<lparr>dl_queue = queueURL, dl_message = message\<rparr>)
             # dropped (receipt_key message) (cn_inFlight cn)\<rparr>))"

definition land :: "consumer \<Rightarrow> sqs_message \<Rightarrow> consumer" where
  "land cn message = cn\<lparr>cn_inFlight := dropped (receipt_key message) (cn_inFlight cn)\<rparr>"

text \<open>
  The parent context is asked after the handler and again when the function returns; a panic of
  the handler is not recovered.
\<close>

definition dispatch :: "consumer \<Rightarrow> string \<Rightarrow> listener \<Rightarrow> sqs_message \<Rightarrow> consumer M" where
  "dispatch cn queueURL target message =
     (case admit cn queueURL message of
        None \<Rightarrow> bindM (release \<lparr>dl_queue = queueURL, dl_message = message\<rparr>) (\<lambda>_. returnM cn)
      | Some cn' \<Rightarrow>
          bindM (tryM (ls_Handle target (deliveryOf message))) (\<lambda>answer.
          if answer = Inl EPanic then throwM EPanic
          else bindM (observe e_done) (\<lambda>ended.
            if ended \<noteq> None then returnM cn'
            else bindM (acknowledge cn' queueURL message answer) (\<lambda>_.
              bindM (observe e_done) (\<lambda>ended. returnM (if ended = None then land cn' message else cn'))))))"

text \<open>The critical section of \<open>Stop\<close>, once draining took too long: what is in flight is to be released.\<close>

definition begin_release :: "consumer \<Rightarrow> delivery list \<times> consumer" where
  "begin_release cn = (map snd (cn_inFlight cn), cn\<lparr>cn_releasing := True\<rparr>)"

fun release_all :: "delivery list \<Rightarrow> unit M" where
  "release_all [] = returnM ()"
| "release_all (d # ds) = bindM (release d) (\<lambda>_. release_all ds)"

definition Stop_release :: "consumer \<Rightarrow> consumer M" where
  "Stop_release cn =
     (let (unfinished, cn') = begin_release cn in bindM (release_all unfinished) (\<lambda>_. returnM cn'))"

text \<open>The listener of the wagering queue, as the consumer sees it.\<close>

definition wager_listener :: "string \<Rightarrow> uow_settings \<Rightarrow> process_settings \<Rightarrow> listener" where
  "wager_listener watching unitOfWork settings =
     \<lparr>ls_Name = ''wager-transaction-listener'', ls_Watching = watching,
      ls_Handle = listener_Handle unitOfWork settings\<rparr>"

section \<open>What a listener promises\<close>

text \<open>
  The contract between a listener and the consumer: handling calls no broker, what it reports as
  handled took effect, and a failure that does not call the outcome unknown left no trace.
\<close>

locale queue_listener =
  fixes handle :: "delivery_message \<Rightarrow> unit M"
    and ready :: "db \<Rightarrow> bool"
    and carried_out :: "env \<Rightarrow> delivery_message \<Rightarrow> db \<Rightarrow> db \<Rightarrow> bool"
  assumes silent: "follows calls_nobody (handle m)"
    and handled: "\<lbrakk>honest_commit c; ready (st_db s); handle m c s = (Inr (), s')\<rbrakk> \<Longrightarrow> carried_out c m (st_db s) (st_db s')"
    and refused: "\<lbrakk>honest_commit c; ready (st_db s); handle m c s = (Inl e, s'); \<not> errors_is e EUnknownOutcome\<rbrakk>
      \<Longrightarrow> st_db s' = st_db s"

text \<open>The calls an answer leads to, if the broker accepts them; otherwise it is a beginning of them.\<close>

definition disposition :: "consumer \<Rightarrow> string \<Rightarrow> sqs_message \<Rightarrow> unit result \<Rightarrow> broker_call list" where
  "disposition cn queueURL message answer =
     (case answer of
        Inr _ \<Rightarrow> [DeleteMessage queueURL (sm_receiptHandle message)]
      | Inl err \<Rightarrow>
          if errors_is err EUnknownOutcome then []
          else (case as_rejection err of
              Some (reason, cause) \<Rightarrow> [SendMessage (deadLetter_message cn queueURL message reason),
                DeleteMessage queueURL (sm_receiptHandle message)]
            | None \<Rightarrow> [ChangeMessageVisibility queueURL (sm_receiptHandle message)
                (seconds (backoff (cs_backoffBase (cn_settings cn)) (cs_backoffMax (cn_settings cn))
                   (sint (receiveCount message - 1))))]))"

text \<open>The broker accepted a beginning of these calls.\<close>

definition called :: "broker_call list \<Rightarrow> st \<Rightarrow> st \<Rightarrow> bool" where
  "called plan s s' \<longleftrightarrow> (\<exists>calls. prefix calls plan \<and> st_broker s' = st_broker s @ calls)"

lemma called_tick [simp]: "called plan s (s'\<lparr>st_tick := n\<rparr>) = called plan s s'" "called plan (s\<lparr>st_tick := n\<rparr>) s' = called plan s s'"
  by (simp_all add: called_def)

lemma calledI: "called plan s (s'\<lparr>st_broker := st_broker s\<rparr>)" "called plan s (s'\<lparr>st_broker := st_broker s @ plan\<rparr>)" "called plan s s"
  "called (x # plan) s (s'\<lparr>st_broker := st_broker s @ [x]\<rparr>)"
  by (auto simp: called_def)

lemma wp_acknowledge:
  "wpM (acknowledge cn queueURL message answer) c s
     (\<lambda>_ s'. st_db s' = st_db s \<and> called (disposition cn queueURL message answer) s s') (\<lambda>_ _. False)"
  by (simp add: acknowledge_def disposition_def consumer_remove_def deadLetter_def retryLater_def Let_def wp called_def
      split: sum.split option.split)

lemma deadLetter_message_flight: "deadLetter_message (cn\<lparr>cn_inFlight := f\<rparr>) q m reason = deadLetter_message cn q m reason"
  by (simp add: deadLetter_message_def Let_def)

lemma disposition_flight: "disposition (cn\<lparr>cn_inFlight := f\<rparr>) q m answer = disposition cn q m answer"
  by (simp add: disposition_def deadLetter_message_flight split: sum.split option.split)

text \<open>
  A dispatched message: it is released unread, or it is handled once, and then acknowledged as the
  answer says unless the consumer is told to stop.
\<close>

lemma dispatch_run:
  assumes "dispatch cn q target m c s = (r, s')"
  shows "cn_releasing cn \<and> st_db s' = st_db s \<and> called [ChangeMessageVisibility q (sm_receiptHandle m) 0] s s'
    \<or> \<not> cn_releasing cn \<and> (\<exists>answer s1. ls_Handle target (deliveryOf m) c s = (answer, s1)
      \<and> st_db s' = st_db s1 \<and> called (disposition cn q m answer) s1 s')"
proof (cases "cn_releasing cn")
  case True
  have "wpM (dispatch cn q target m) c s (\<lambda>_ s'. st_db s' = st_db s
      \<and> called [ChangeMessageVisibility q (sm_receiptHandle m) 0] s s') (\<lambda>_ _. False)"
    using True by (simp add: dispatch_def admit_def release_def called_def wp split: option.split)
  then show ?thesis using assms True by (auto simp: wpM_def split: sum.splits)
next
  case False
  obtain answer s1 where h: "ls_Handle target (deliveryOf m) c s = (answer, s1)" by fastforce
  let ?P = "\<lambda>s'. st_db s' = st_db s1 \<and> called (disposition cn q m answer) s1 s'"
  have t: "wpM (tryM (ls_Handle target (deliveryOf m))) c s Q E \<longleftrightarrow> Q answer s1" for Q E
    using h by (simp add: wpM_def tryM_def)
  have z: "?P s1" by (simp add: called_def)
  have a: "wpM (acknowledge cn' q m answer) c (s1\<lparr>st_tick := n\<rparr>) Q (\<lambda>_. ?P)"
    if "cn' = cn\<lparr>cn_inFlight := f\<rparr>" "\<And>s3. ?P s3 \<Longrightarrow> Q () s3" for cn' f n and Q :: "unit \<Rightarrow> st \<Rightarrow> bool"
    unfolding that(1) by (rule wpM_mono [OF wp_acknowledge]) (simp_all add: disposition_flight that(2))
  obtain cn' f where cn': "admit cn q m = Some cn'" "cn' = cn\<lparr>cn_inFlight := f\<rparr>"
    using False by (simp add: admit_def)
  have "wpM (dispatch cn q target m) c s (\<lambda>_. ?P) (\<lambda>_. ?P)"
    unfolding dispatch_def cn'(1) option.case wp_bindM t
    by (simp only: wp_if wp_throwM wp_bindM wp_observe wp_returnM) (use z in \<open>auto intro!: a [OF cn'(2)]\<close>)
  then show ?thesis using assms False h by (auto simp: wpM_def split: sum.splits)
qed

context queue_listener begin

text \<open>A message is deleted only when it took effect, or when the dead letter queue has it and it left no trace.\<close>

lemma deleted_settled:
  assumes "honest_commit c" "ready (st_db s)" "ls_Handle target = handle" "dispatch cn q target m c s = (r, s')"
  obtains calls where "st_broker s' = st_broker s @ calls"
    "DeleteMessage q (sm_receiptHandle m) \<in> set calls \<Longrightarrow> carried_out c (deliveryOf m) (st_db s) (st_db s')
       \<or> (\<exists>reason. calls = [SendMessage (deadLetter_message cn q m reason), DeleteMessage q (sm_receiptHandle m)]
            \<and> st_db s' = st_db s)"
    "\<And>letter. SendMessage letter \<in> set calls \<Longrightarrow> st_db s' = st_db s"
  using dispatch_run [OF assms(4)]
proof (elim disjE conjE exE)
  assume "called [ChangeMessageVisibility q (sm_receiptHandle m) 0] s s'"
  then obtain calls where "prefix calls [ChangeMessageVisibility q (sm_receiptHandle m) 0]" "st_broker s' = st_broker s @ calls"
    by (auto simp: called_def)
  then show thesis by (intro that [of calls]) (auto simp: prefix_Cons)
next
  fix answer s1
  assume h: "ls_Handle target (deliveryOf m) c s = (answer, s1)" and d: "st_db s' = st_db s1"
    and b: "called (disposition cn q m answer) s1 s'"
  have "st_broker s1 = st_broker s"
    using follows_run [OF silent, of "deliveryOf m" c s answer s1] h assms(3) by simp
  with b obtain calls where p: "prefix calls (disposition cn q m answer)" and b: "st_broker s' = st_broker s @ calls"
    by (auto simp: called_def)
  note h = h [unfolded assms(3)]
  show thesis
  proof (cases answer)
    case (Inr x)
    then show thesis using p handled [OF assms(1,2)] h d
      by (intro that [OF b]) (auto simp: disposition_def prefix_Cons)
  next
    case (Inl e)
    show thesis
    proof (cases "errors_is e EUnknownOutcome")
      case True
      then show thesis using p Inl by (intro that [OF b]) (auto simp: disposition_def)
    next
      case False
      have "st_db s' = st_db s" using refused [OF assms(1,2) _ False] h d Inl by simp
      then show thesis using p Inl False
        by (intro that [OF b]) (auto simp: disposition_def prefix_Cons split: option.splits)
    qed
  qed
qed

end

interpretation wager_queue: queue_listener "listener_Handle u settings" "\<lambda>d. \<exists>B. holds d B"
  "\<lambda>c m d d'. \<forall>B. holds d B \<longrightarrow> (\<exists>input res. delivery_input c m = Inr input
     \<and> process_outcome c input (payload_hash c input) B d res d')" for u settings
proof
  show "follows calls_nobody (listener_Handle u settings m)" for m by (rule listener_silent)
  fix c m and s s' :: st and e
  assume c: "honest_commit c" and "\<exists>B. holds (st_db s) B"
  then obtain B where B: "holds (st_db s) B" by blast
  show "\<forall>B. holds (st_db s) B \<longrightarrow> (\<exists>input res. delivery_input c m = Inr input
      \<and> process_outcome c input (payload_hash c input) B (st_db s) res (st_db s'))"
    if "listener_Handle u settings m c s = (Inr (), s')"
    using wp_listener_Handle [OF c, of s _ u settings m] that by (auto simp: wpM_def)
  show "st_db s' = st_db s" if "listener_Handle u settings m c s = (Inl e, s')" "\<not> errors_is e EUnknownOutcome"
    using wp_listener_Handle [OF c B, of u settings m] that by (auto simp: wpM_def)
qed

section \<open>Properties\<close>

text \<open>
  C24. No message is lost and none is buried that took effect. Whatever fails, a message is deleted
  from the queue only when its operation is settled - the tables are those of an outcome of the
  use case for its input - or when the dead letter queue accepted its copy, with the same body,
  before; and a message goes to the dead letter queue only when it left no trace in the tables.
\<close>

theorem deleted_only_if_settled:
  assumes "honest_commit c" and "holds (st_db s) B"
    and "dispatch cn q (wager_listener watching u settings) m c s = (r, s')"
  shows "\<exists>calls. st_broker s' = st_broker s @ calls
    \<and> (DeleteMessage q (sm_receiptHandle m) \<in> set calls \<longrightarrow>
        (\<exists>input res. delivery_input c (deliveryOf m) = Inr input
           \<and> process_outcome c input (payload_hash c input) B (st_db s) res (st_db s'))
        \<or> (\<exists>reason. calls = [SendMessage (deadLetter_message cn q m reason), DeleteMessage q (sm_receiptHandle m)]
           \<and> qm_body (deadLetter_message cn q m reason) = sm_body m))
    \<and> (\<forall>letter. SendMessage letter \<in> set calls \<longrightarrow> st_db s' = st_db s)"
proof -
  have ready: "\<exists>B. holds (st_db s) B" using assms(2) by blast
  have h: "ls_Handle (wager_listener watching u settings) = listener_Handle u settings" by (simp add: wager_listener_def)
  from wager_queue.deleted_settled [OF assms(1) ready h assms(3)] obtain calls where
    calls: "st_broker s' = st_broker s @ calls"
    "DeleteMessage q (sm_receiptHandle m) \<in> set calls \<Longrightarrow> (\<forall>B. holds (st_db s) B \<longrightarrow> (\<exists>input res.
        delivery_input c (deliveryOf m) = Inr input \<and> process_outcome c input (payload_hash c input) B (st_db s) res (st_db s')))
       \<or> (\<exists>reason. calls = [SendMessage (deadLetter_message cn q m reason), DeleteMessage q (sm_receiptHandle m)]
            \<and> st_db s' = st_db s)"
    "\<And>letter. SendMessage letter \<in> set calls \<Longrightarrow> st_db s' = st_db s" by metis
  have body: "qm_body (deadLetter_message cn q m reason) = sm_body m" for reason
    by (simp add: deadLetter_message_def Let_def)
  show ?thesis
    using calls(1,3) calls(2) assms(2) body by (intro exI [of _ calls] conjI impI allI) blast+
qed

text \<open>
  A message that is to come back does so after a wait within the configured bounds: whatever
  its receive count says, the visibility timeout asked for is not negative and at most the
  configured maximum, or zero when the consumer is stopping.
\<close>

theorem visibility_bounded:
  assumes "0 < sint (cs_backoffBase (cn_settings cn))" "sint (cs_backoffBase (cn_settings cn)) \<le> sint (cs_backoffMax (cn_settings cn))"
    and "sint (cs_backoffMax (cn_settings cn)) < 2 ^ 62"
    and "follows calls_nobody (ls_Handle target (deliveryOf m))" and "dispatch cn q target m c s = (r, s')"
  shows "\<exists>calls. st_broker s' = st_broker s @ calls \<and> (\<forall>receipt secs. ChangeMessageVisibility q receipt secs \<in> set calls
    \<longrightarrow> 0 \<le> secs \<and> secs \<le> sint (cs_backoffMax (cn_settings cn)) div 10 ^ 9)"
proof -
  let ?base = "cs_backoffBase (cn_settings cn)" and ?max = "cs_backoffMax (cn_settings cn)"
  have "0 \<le> seconds (backoff ?base ?max n) \<and> seconds (backoff ?base ?max n) \<le> sint ?max div 10 ^ 9" for n
  proof -
    let ?d = "backoff ?base ?max n"
    have b: "sint ?d = min (sint ?max) (sint ?base * 2 ^ nat (max n 0))"
      unfolding backoff_def by (rule backoff_loop_value) (use assms(1-3) in simp_all)
    have "0 \<le> sint ?d" "sint ?d \<le> sint ?max" unfolding b using assms(1,2) by simp_all
    then show ?thesis by (simp add: seconds_def pos_imp_zdiv_nonneg_iff zdiv_mono1)
  qed
  then have d: "\<forall>receipt secs. ChangeMessageVisibility q receipt secs \<in> set (disposition cn q m answer)
      \<longrightarrow> 0 \<le> secs \<and> secs \<le> sint ?max div 10 ^ 9" for answer
    by (auto simp: disposition_def split: sum.split option.split)
  have z: "0 \<le> sint ?max div 10 ^ 9" using assms(1,2) by (simp add: pos_imp_zdiv_nonneg_iff)
  from dispatch_run [OF assms(5)] show ?thesis
  proof (elim disjE conjE exE)
    assume "called [ChangeMessageVisibility q (sm_receiptHandle m) 0] s s'"
    then show ?thesis using z by (auto simp: called_def prefix_Cons)
  next
    fix answer s1 assume "ls_Handle target (deliveryOf m) c s = (answer, s1)" "called (disposition cn q m answer) s1 s'"
    moreover from this(1) have "st_broker s1 = st_broker s" using follows_run [OF assms(4)] by blast
    ultimately obtain calls where "prefix calls (disposition cn q m answer)" "st_broker s' = st_broker s @ calls"
      by (auto simp: called_def)
    then show ?thesis using d [of answer] set_mono_prefix [of calls "disposition cn q m answer"] by (intro exI [of _ calls]) blast
  qed
qed

text \<open>A consumer and a message to run on.\<close>

definition sample_consumer :: consumer where
  "sample_consumer = \<lparr>cn_deadLetterQueue = ''dlq'', cn_listeners = [], cn_sources = [(''q'', ''arn'')],
     cn_settings = \<lparr>cs_workers = 4, cs_waitTime = 20, cs_visibility = 30, cs_messageDeadline = 25,
       cs_backoffBase = 5000000000, cs_backoffMax = 60000000000, cs_maxReceiveCount = 5, cs_shutdownTimeout = 15\<rparr>,
     cn_inFlight = [], cn_releasing = False\<rparr>"

definition sample_message :: sqs_message where
  "sample_message = \<lparr>sm_messageID = Some ''b'', sm_receiptHandle = Some ''h'',
     sm_body = Some (dm_body sample_delivery), sm_attributes = [(''ApproximateReceiveCount'', ''3'')],
     sm_messageAttributes = []\<rparr>"

theorem deleted_only_if_settled_witness:
  "\<exists>r s'. dispatch sample_consumer ''q'' (wager_listener ''q'' sample_uow sample_settings) sample_message quiet_env sample_st = (r, s')
    \<and> honest_commit quiet_env \<and> holds (st_db sample_st) sample_book
    \<and> (\<exists>calls. st_broker s' = st_broker sample_st @ calls)"
proof -
  have h: "holds (st_db sample_st) sample_book" using sample_holds by (simp add: sample_st_def)
  obtain r s' where "dispatch sample_consumer ''q'' (wager_listener ''q'' sample_uow sample_settings) sample_message
    quiet_env sample_st = (r, s')" by fastforce
  with deleted_only_if_settled [OF honest_samples(1) h this] h honest_samples(1) show ?thesis by blast
qed

theorem visibility_bounded_witness:
  "\<exists>r s' calls. dispatch sample_consumer ''q'' (wager_listener ''q'' sample_uow sample_settings) sample_message quiet_env sample_st = (r, s')
    \<and> st_broker s' = st_broker sample_st @ calls \<and> (\<forall>receipt secs. ChangeMessageVisibility ''q'' receipt secs \<in> set calls
       \<longrightarrow> 0 \<le> secs \<and> secs \<le> 60)"
proof -
  obtain r s' where d: "dispatch sample_consumer ''q'' (wager_listener ''q'' sample_uow sample_settings) sample_message
    quiet_env sample_st = (r, s')" by fastforce
  have "follows calls_nobody (ls_Handle (wager_listener ''q'' sample_uow sample_settings) (deliveryOf sample_message))"
    by (simp add: wager_listener_def listener_silent)
  from visibility_bounded [OF _ _ _ this d] d show ?thesis by (fastforce simp: sample_consumer_def)
qed

end
