(* ===== verification/Shutdown.thy ===== *)
theory Shutdown
  imports Consumer
begin

text \<open>
  Stopping the consumer: \<open>dispatch\<close> and \<open>Stop\<close> of \<open>sqs/consumer.go\<close> as a machine whose steps are
  their critical sections, in any interleaving of any number of messages. A message is admitted
  or turned away, answered and acknowledged or given up, and landed; stopping takes what is in
  flight, then aborts, then releases. A receipt handle names one receipt of a message, which is
  what SQS documents. Fact: nothing that was admitted is forgotten.
\<close>

record flight =
  fl_consumer :: consumer
  fl_seen :: "delivery list"
  fl_running :: "delivery list"
  fl_acked :: "delivery list"
  fl_unfinished :: "delivery list"
  fl_released :: "delivery list"
  fl_aborted :: bool

definition delivery_key :: "delivery \<Rightarrow> string" where
  "delivery_key d = receipt_key (dl_message d)"

inductive flight_step :: "flight \<Rightarrow> flight \<Rightarrow> bool" where
  admits: "\<lbrakk>admit (fl_consumer f) (dl_queue d) (dl_message d) = Some cn; delivery_key d \<notin> delivery_key ` set (fl_seen f);
      f' = f\<lparr>fl_consumer := cn, fl_seen := d # fl_seen f, fl_running := d # fl_running f\<rparr>\<rbrakk> \<Longrightarrow> flight_step f f'"
| turns_away: "\<lbrakk>admit (fl_consumer f) (dl_queue d) (dl_message d) = None; delivery_key d \<notin> delivery_key ` set (fl_seen f);
      f' = f\<lparr>fl_seen := d # fl_seen f, fl_released := d # fl_released f\<rparr>\<rbrakk> \<Longrightarrow> flight_step f f'"
| acknowledges: "\<lbrakk>d \<in> set (fl_running f); \<not> fl_aborted f;
      f' = f\<lparr>fl_running := remove1 d (fl_running f), fl_acked := d # fl_acked f\<rparr>\<rbrakk> \<Longrightarrow> flight_step f f'"
| gives_up: "\<lbrakk>d \<in> set (fl_running f); fl_aborted f; f' = f\<lparr>fl_running := remove1 d (fl_running f)\<rparr>\<rbrakk> \<Longrightarrow> flight_step f f'"
| lands: "\<lbrakk>d \<in> set (fl_acked f); \<not> fl_aborted f; f' = f\<lparr>fl_consumer := land (fl_consumer f) (dl_message d)\<rparr>\<rbrakk>
    \<Longrightarrow> flight_step f f'"
| stops: "\<lbrakk>\<not> cn_releasing (fl_consumer f); begin_release (fl_consumer f) = (unfinished, cn);
      f' = f\<lparr>fl_consumer := cn, fl_unfinished := unfinished\<rparr>\<rbrakk> \<Longrightarrow> flight_step f f'"
| aborts: "\<lbrakk>cn_releasing (fl_consumer f); f' = f\<lparr>fl_aborted := True\<rparr>\<rbrakk> \<Longrightarrow> flight_step f f'"
| releases: "\<lbrakk>d \<in> set (fl_unfinished f); fl_aborted f; f' = f\<lparr>fl_released := d # fl_released f\<rparr>\<rbrakk> \<Longrightarrow> flight_step f f'"

inductive_cases flight_step_cases: "flight_step f f'"

definition grounded :: "consumer \<Rightarrow> flight" where
  "grounded cn = \<lparr>fl_consumer = cn\<lparr>cn_inFlight := [], cn_releasing := False\<rparr>, fl_seen = [], fl_running = [],
     fl_acked = [], fl_unfinished = [], fl_released = [], fl_aborted = False\<rparr>"

definition flight_reachable :: "consumer \<Rightarrow> flight \<Rightarrow> bool" where
  "flight_reachable cn f \<longleftrightarrow> flight_step\<^sup>*\<^sup>* (grounded cn) f"

text \<open>
  What is admitted and not acknowledged is in flight; once the consumer releases, it is among the
  unfinished.
\<close>

definition flight_inv :: "flight \<Rightarrow> bool" where
  "flight_inv f \<longleftrightarrow>
     inj_on delivery_key (set (fl_seen f)) \<and> set (fl_running f) \<subseteq> set (fl_seen f) \<and> set (fl_acked f) \<subseteq> set (fl_seen f)
     \<and> distinct (fl_running f) \<and> (\<forall>d \<in> set (fl_running f). d \<notin> set (fl_acked f))
     \<and> (fl_aborted f \<longrightarrow> cn_releasing (fl_consumer f))
     \<and> (\<forall>(k, d) \<in> set (cn_inFlight (fl_consumer f)). k = delivery_key d \<and> d \<in> set (fl_seen f))
     \<and> (if cn_releasing (fl_consumer f)
        then set (fl_seen f) \<subseteq> set (fl_acked f) \<union> set (fl_unfinished f) \<union> set (fl_released f)
        else fl_released f = [] \<and> set (fl_seen f) = set (fl_running f) \<union> set (fl_acked f)
          \<and> (\<forall>d \<in> set (fl_running f). (delivery_key d, d) \<in> set (cn_inFlight (fl_consumer f))))"

lemma dropped_set [simp]: "set (dropped k xs) = {(j, d) \<in> set xs. j \<noteq> k}"
  by (auto simp: dropped_def)

lemma running_in_flight:
  assumes "flight_inv f" "\<not> cn_releasing (fl_consumer f)" "d \<in> set (fl_running f)"
  shows "d \<in> set (fst (begin_release (fl_consumer f)))"
proof -
  have "(delivery_key d, d) \<in> set (cn_inFlight (fl_consumer f))" using assms by (simp add: flight_inv_def)
  then show ?thesis by (auto simp: begin_release_def intro: rev_image_eqI)
qed

lemma flight_step_inv: "flight_step f f' \<Longrightarrow> flight_inv f \<Longrightarrow> flight_inv f'"
proof (induction rule: flight_step.induct)
  case (admits f d cn f')
  then have r: "\<not> cn_releasing (fl_consumer f)"
    and cn: "cn = (fl_consumer f)\<lparr>cn_inFlight := (delivery_key d, d) # dropped (delivery_key d) (cn_inFlight (fl_consumer f))\<rparr>"
    by (auto simp: admit_def delivery_key_def split: if_splits)
  have n: "d \<notin> set (fl_seen f)" "\<forall>e \<in> set (fl_seen f). delivery_key e \<noteq> delivery_key d"
    using admits(2) by (auto intro: rev_image_eqI)
  from admits.prems r n show ?case
    unfolding admits(3) cn flight_inv_def by (auto simp: inj_on_def)
next
  case (acknowledges d f f')
  then show ?case by (auto simp: flight_inv_def)
next
  case (stops f unfinished cn f')
  have "set (fl_running f) \<subseteq> set unfinished"
    using running_in_flight [OF stops.prems stops(1)] stops(2) by auto
  with stops show ?case by (auto simp: flight_inv_def begin_release_def)
next
  case (lands d f f')
  then have "\<forall>e \<in> set (fl_running f). delivery_key e \<noteq> receipt_key (dl_message d)"
    unfolding flight_inv_def inj_on_def delivery_key_def by blast
  with lands show ?case by (auto simp: flight_inv_def land_def)
qed (auto simp: flight_inv_def admit_def split: if_splits)

lemma flight_reachable_inv: "flight_reachable cn f \<Longrightarrow> flight_inv f"
  unfolding flight_reachable_def
proof (induction rule: rtranclp_induct)
  case base
  show ?case by (simp add: grounded_def flight_inv_def)
next
  case (step f f')
  from step.hyps(2) step.IH show ?case by (rule flight_step_inv)
qed

text \<open>
  C25. No message is forgotten when the consumer stops. In every interleaving, a message the
  consumer took is still being handled, or was acknowledged, or was turned away and released, or
  is one of those that stopping releases; and once it has aborted, nothing more is acknowledged
  and nothing more is admitted.
\<close>

theorem nothing_forgotten:
  assumes "flight_reachable cn f" and "d \<in> set (fl_seen f)"
  shows "(cn_releasing (fl_consumer f) \<longrightarrow> d \<in> set (fl_acked f) \<or> d \<in> set (fl_unfinished f) \<or> d \<in> set (fl_released f))
    \<and> (\<not> cn_releasing (fl_consumer f) \<longrightarrow> d \<in> set (fl_acked f)
        \<or> d \<in> set (fl_running f) \<and> d \<in> set (fst (begin_release (fl_consumer f))))
    \<and> (\<forall>f'. fl_aborted f \<and> flight_step f f' \<longrightarrow> fl_acked f' = fl_acked f \<and> cn_inFlight (fl_consumer f') = cn_inFlight (fl_consumer f))"
proof -
  have i: "flight_inv f" by (rule flight_reachable_inv [OF assms(1)])
  have "fl_acked f' = fl_acked f \<and> cn_inFlight (fl_consumer f') = cn_inFlight (fl_consumer f)"
    if a: "fl_aborted f" "flight_step f f'" for f'
  proof -
    have "cn_releasing (fl_consumer f)" using i a(1) by (simp add: flight_inv_def)
    then show ?thesis using a(1) by (cases rule: flight_step_cases [OF a(2)]) (auto simp: admit_def begin_release_def)
  qed
  moreover note running_in_flight [OF i, of d]
  moreover have "d \<in> set (fl_acked f) \<or> d \<in> set (fl_unfinished f) \<or> d \<in> set (fl_released f)" if "cn_releasing (fl_consumer f)"
    using i assms(2) that by (auto simp: flight_inv_def)
  moreover have "d \<in> set (fl_running f) \<or> d \<in> set (fl_acked f)" if "\<not> cn_releasing (fl_consumer f)"
    using i assms(2) that by (auto simp: flight_inv_def)
  ultimately show ?thesis by blast
qed

theorem nothing_forgotten_witness:
  "let d = \<lparr>dl_queue = ''q'', dl_message = sample_message\<rparr>;
       cn = the (admit (fl_consumer (grounded sample_consumer)) ''q'' sample_message);
       f = (grounded sample_consumer)\<lparr>fl_consumer := cn, fl_seen := [d], fl_running := [d]\<rparr> in
   flight_reachable sample_consumer f \<and> d \<in> set (fst (begin_release (fl_consumer f)))"
proof -
  let ?d = "\<lparr>dl_queue = ''q'', dl_message = sample_message\<rparr>"
  let ?cn = "the (admit (fl_consumer (grounded sample_consumer)) ''q'' sample_message)"
  let ?f = "(grounded sample_consumer)\<lparr>fl_consumer := ?cn, fl_seen := [?d], fl_running := [?d]\<rparr>"
  have "flight_step (grounded sample_consumer) ?f"
    by (rule flight_step.admits [of _ ?d ?cn]) (simp_all add: grounded_def admit_def)
  then have r: "flight_reachable sample_consumer ?f" by (simp add: flight_reachable_def)
  have "\<not> cn_releasing (fl_consumer ?f)" "?d \<notin> set (fl_acked ?f)" by (simp_all add: grounded_def admit_def)
  with nothing_forgotten [OF r, of ?d] r show ?thesis by (simp add: Let_def)
qed

end
