(* ===== verification/Answering.thy ===== *)
theory Answering
  imports ProcessProps Calm
begin

text \<open>
  That an operation is answered. Where nothing fails, where identifiers are fresh and clocks run,
  a valid operation for a wallet of the book that was not recorded before is settled: no guard, no
  constraint of the tables and no check of a constructor stands in its way. Each step of the
  processing answers under what the steps before it left; what they left is said by the rules of
  the theories before.
\<close>

section \<open>Computations that answer\<close>

definition answers :: "'a M \<Rightarrow> env \<Rightarrow> st \<Rightarrow> bool" where
  "answers m c s \<longleftrightarrow> is_ok (fst (m c s))"

lemma answers_wp: "answers m c s \<longleftrightarrow> wpM m c s (\<lambda>_ _. True) (\<lambda>_ _. False)"
  by (auto simp: answers_def wpM_def split: prod.split sum.split)

lemma answers_bind:
  assumes "answers m c s" "wpM m c s (\<lambda>x s'. answers (f x) c s') (\<lambda>_ _. True)"
  shows "answers (bindM m f) c s"
  using assms by (auto simp: answers_def wpM_def bindM_def split: prod.splits sum.splits)

text \<open>Safety and an answer together: the postcondition is met, and no error is.\<close>

lemma answers_post: "answers m c s \<Longrightarrow> wpM m c s Q (\<lambda>_ _. True) \<Longrightarrow> wpM m c s Q (\<lambda>_ _. False)"
  by (auto simp: answers_def wpM_def split: prod.splits sum.splits)

lemma answers_pure [simp]:
  "answers (returnM x) c s" "answers (askM g) c s" "answers clock_Now c s"
  "answers (liftR r) c s \<longleftrightarrow> is_ok r"
  "answers (mapErrM h m) c s \<longleftrightarrow> answers m c s"
  by (auto simp: answers_wp wp split: sum.split)

lemma answers_when: "(b \<Longrightarrow> answers m c s) \<Longrightarrow> answers (whenM b m) c s"
  by (simp add: whenM_def)

lemma answers_statement: "calm c \<Longrightarrow> answers (statement f) c s \<longleftrightarrow> is_ok (f (st_db s))"
  by (auto simp: answers_wp calm_statement split: sum.split)

section \<open>The repositories\<close>

lemma answers_Wallets_FindForUpdate:
  assumes c: "calm c" and h: "holds (st_db s) B" and w: "w \<in> set (bk_wallets B)" "w_id w = i"
  shows "answers (Wallets_FindForUpdate i) c s"
proof -
  let ?rows = "filter (\<lambda>r. wr_id r = i) (map wallet_row_of (bk_wallets B))"
  have "wallet_row_of w \<in> set ?rows" using w by simp
  then obtain r rs where r: "?rows = r # rs" by (cases ?rows) auto
  then have "r \<in> set ?rows" by simp
  then obtain w' where "w' \<in> set (bk_wallets B)" "r = wallet_row_of w'" by auto
  with h have "scanWallet r = Inr w'" by (auto simp: holds_def dest: book_wallet_inv)
  moreover have "db_wallets (st_db s) = map wallet_row_of (bk_wallets B)"
    using h by (simp add: holds_def represents_def)
  ultimately show ?thesis
    using c r by (simp add: answers_wp Wallets_FindForUpdate_def Wallets_findOne_def wp_bindM wp_mapErrM calm_statement
        sql_select_wallets_def scan_one_def first_row_def
        wp_liftR wp_throwM wp_returnM)
qed

lemma answers_findOne:
  assumes c: "calm c" and h: "holds (st_db s) B"
  shows "answers (Transactions_findOne P) c s"
proof -
  note h' = h [unfolded holds_def]
  note j = joined_book(2) [OF conjunct1 [OF h'] conjunct2 [OF h']]
  let ?rows = "filter (\<lambda>(t, c). P t) (joined (st_db s))"
  have "answers (scan_one scanTransaction ?rows) c s'" for s'
  proof (cases ?rows)
    case (Cons p ps)
    then have "p \<in> set ?rows" by (metis list.set_intros(1))
    then have "p \<in> set (joined (st_db s))" by simp
    then have "\<exists>t. scanTransaction p = Inr t" using j [of "fst p" "snd p"] by auto
    then show ?thesis by (auto simp: Cons scan_one_def first_row_def)
  qed (simp add: scan_one_def first_row_def)
  then show ?thesis
    using c by (simp add: answers_wp Transactions_findOne_def wp_bindM wp_mapErrM calm_statement sql_select_transactions_def)
qed

lemma answers_HasSuccessfulReversal: "calm c \<Longrightarrow> answers (Transactions_HasSuccessfulReversal i) c s"
  by (simp add: Transactions_HasSuccessfulReversal_def answers_statement sql_has_successful_reversal_def)

lemma answers_Transactions_Insert:
  assumes "calm c" "represents (st_db s) B" "w \<in> set (bk_wallets B)" "w_id w = t_walletID t"
    "t_referenceTransactionID t = uuid_Nil"
  shows "answers (Transactions_Insert t) c s"
  using assms
  by (auto simp: Transactions_Insert_def answers_statement sql_insert_transaction_def represents_tables
      list_ex_iff reference_exists_def nullUUID_def)

lemma answers_Outbox_Append:
  assumes "calm c" "oe_id e \<notin> xr_id ` set (db_outbox (st_db s))"
  shows "answers (Outbox_Append e) c s"
proof -
  have "\<not> list_ex (\<lambda>x. xr_id x = oe_id e) (db_outbox (st_db s))" using assms(2) by (simp add: list_ex_iff image_iff) metis
  with assms(1) show ?thesis
    by (simp add: Outbox_Append_def answers_wp wp_bindM wp_askM wp_mapErrM calm_statement sql_insert_outbox_def
        outbox_row_of_def)
qed

lemma answers_WakeUp: "calm c \<Longrightarrow> answers (Transactions_WakeUpWaitingFor p x now) c s"
  by (simp add: answers_wp Transactions_WakeUpWaitingFor_def wp_if wp_bindM wp_observe wp_mapErrM wp_returnM
      calm_statement sql_wake_up_def Let_def)

lemma answers_Inbox_Insert: "calm c \<Longrightarrow> answers (Inbox_Insert m) c s"
  by (simp add: Inbox_Insert_def answers_statement sql_insert_inbox_def)

lemma answers_Inbox_Complete:
  assumes "calm c" "\<exists>r \<in> set (db_inbox (st_db s)). same_message cn mi r" "represents (st_db s) B"
    "t \<in> set (bk_txs B)" "t_id t = i"
  shows "answers (Inbox_Complete cn mi out i at) c s"
proof -
  have "filter (same_message cn mi) (db_inbox (st_db s)) \<noteq> []" using assms(2) by (auto simp: filter_empty_conv)
  moreover have "reference_exists (nullUUID i) (st_db s)"
    using assms(3-5) by (auto simp: reference_exists_def nullUUID_def represents_tables list_ex_iff)
  ultimately show ?thesis
    using assms(1)
    by (simp add: answers_wp Inbox_Complete_def wp_bindM wp_mapErrM calm_statement sql_complete_inbox_def Let_def
        affected_def wp_throwM wp_returnM)
qed

section \<open>Writing a movement\<close>

lemma chain_version_bound: "chain b v es b' v' \<Longrightarrow> e \<in> set es \<Longrightarrow> sint (le_walletVersion e) \<le> v'"
proof (induction es arbitrary: b v)
  case (Cons x es)
  then show ?case using chain_length [of _ _ es] by fastforce
qed simp

text \<open>What the ledger of an open operation's wallet cannot have yet.\<close>

lemma no_entry_yet:
  assumes o: "open_on B w t" and x: "x \<in> set (bk_entries B)"
  shows "le_transactionID x \<noteq> t_id t"
    and "le_walletID x = w_id w \<Longrightarrow> sint (le_walletVersion x) \<le> sint (w_version w)"
proof -
  have B: "book_inv B" and w: "w \<in> set (bk_wallets B)" and t: "t \<in> set (bk_txs B)" using o by (simp_all add: open_on_def)
  show "le_transactionID x \<noteq> t_id t"
  proof (rule entry_tx [OF B x])
    fix u assume u: "u \<in> set (bk_txs B)" "entry_for (bk_txs B) u x"
    have "u \<noteq> t" using u(2) open_onD(6) [OF o] by (auto simp: entry_for_def)
    then have "t_id u \<noteq> t_id t" using id_unique(1) [of "bk_txs B" u t] u t B by (auto simp: book_inv_def txs_ok_def)
    with u(2) show ?thesis by (simp add: entry_for_def)
  qed
  show "sint (le_walletVersion x) \<le> sint (w_version w)" if "le_walletID x = w_id w"
  proof -
    have "wallet_chain (bk_entries B) w" using B w by (simp add: book_inv_def entries_ok_def)
    then show ?thesis using x that chain_version_bound by (fastforce simp: wallet_chain_def entries_of_def)
  qed
qed

lemma answers_Ledger_Append:
  assumes c: "calm c" and h: "holds (st_db s) B" and o: "open_on B w t"
    and m: "wallet_move w d (t_id t) (t_amount t) eid now = Inr (e, w')" and d: "direction_Valid d"
    and fresh: "eid \<notin> er_id ` set (db_entries (st_db s))"
  shows "answers (Ledger_Append e) c s"
proof -
  have rep: "represents (st_db s) B" using h by (simp add: holds_def)
  note e = m [unfolded wallet_move_eq_Inr [OF open_onD(1) [OF o] d]]
  have f: "le_id e = eid" "le_walletID e = w_id w" "le_transactionID e = t_id t" "le_amount e = t_amount t"
    "le_walletVersion e = w_version w + 1" "currency (t_amount t) = currency (w_balance w)"
    "sint (w_version w + 1) = sint (w_version w) + 1"
    using e by (auto simp: moved_entry_def movement_allowed_def version_succ_eq)
  have "\<not> list_ex (\<lambda>r. er_id r = eid) (db_entries (st_db s))" using fresh by (simp add: list_ex_iff image_iff) metis
  moreover have "le_transactionID x \<noteq> t_id t" "le_walletID x = w_id w \<longrightarrow> le_walletVersion x \<noteq> w_version w + 1"
    if "x \<in> set (bk_entries B)" for x
    using no_entry_yet [OF o that] f(7) by auto
  then have "\<not> list_ex (\<lambda>r. er_transaction_id r = t_id t) (db_entries (st_db s))"
    "\<not> list_ex (\<lambda>r. er_wallet_id r = w_id w \<and> er_transaction_id r = t_id t) (db_entries (st_db s))"
    "\<not> list_ex (\<lambda>r. er_wallet_id r = w_id w \<and> er_wallet_version r = w_version w + 1) (db_entries (st_db s))"
    using rep by (auto simp: represents_def list_ex_iff)
  moreover have "list_ex (\<lambda>r. wr_id r = w_id w \<and> wr_currency r = currency_String (currency (t_amount t))) (db_wallets (st_db s))"
    "list_ex (\<lambda>r. tr_id r = t_id t \<and> tr_wallet_id r = w_id w \<and> tr_currency r = currency_String (currency (t_amount t)))
      (db_transactions (st_db s))"
    using rep o f(6) by (auto simp: represents_def list_ex_iff open_on_def)
  moreover have "er_currency (entry_row_of e) = currency_String (currency (t_amount t))"
    by (simp add: entry_row_of_def f)
  ultimately show ?thesis
    using c by (simp add: Ledger_Append_def answers_statement sql_insert_entry_def f)
qed

lemma answers_Wallets_Update:
  assumes "calm c" "represents (st_db s) B" "w \<in> set (bk_wallets B)" "w_id w' = w_id w"
  shows "answers (Wallets_Update w' (w_version w)) c s"
proof -
  have "filter (\<lambda>r. wr_id r = w_id w' \<and> wr_version r = w_version w) (db_wallets (st_db s)) \<noteq> []"
    using assms(2-4) by (auto simp: represents_def filter_empty_conv)
  with assms(1) show ?thesis
    by (simp add: answers_wp Wallets_Update_def wp_bindM wp_mapErrM calm_statement sql_update_wallet_def Let_def
        affected_def wp_throwM wp_returnM)
qed

text \<open>An operation may be written back if no reversal of the same operation is processed already.\<close>

definition recordable :: "book \<Rightarrow> tx \<Rightarrow> bool" where
  "recordable B t \<longleftrightarrow> t_referenceTransactionID t = uuid_Nil
     \<or> (\<exists>u \<in> set (bk_txs B). t_id u = t_referenceTransactionID t)
       \<and> (\<forall>u \<in> set (bk_txs B). processed_reversal t \<and> processed_reversal u
           \<longrightarrow> t_referenceTransactionID u \<noteq> t_referenceTransactionID t)"

lemma answers_Transactions_Update:
  assumes c: "calm c" and rep: "represents (st_db s) B'" "bk_txs B' = bk_txs B" and B: "book_inv B"
    and t: "t \<in> set (bk_txs B)" "same_identity t t'" "status_Valid (t_status t')" and wr: "recordable B t'"
  shows "answers (Transactions_Update t') c s"
proof -
  have rows: "db_transactions (st_db s) = map tx_row_of (bk_txs B)" using rep by (simp add: represents_def)
  have i: "t_id t' = t_id t" "t_kind t' = t_kind t" using t(2) by (simp_all add: same_identity_def)
  have kv: "kind_Valid (t_kind t')" using book_tx_wf(2) [OF B t(1)] i by simp
  have own: "u = t" if "u \<in> set (bk_txs B)" "t_id u = t_id t'" for u
    using that t(1) i B id_unique(1) [of "bk_txs B" u t] by (simp add: book_inv_def txs_ok_def)
  have "\<not> single_reversal_conflict (set_transaction (tx_row_of t') (tx_row_of t)) (tx_row_of u)"
    if u: "u \<in> set (bk_txs B)" for u
    using wr book_tx_wf(2,3) [OF B u] kv t(3) u unfolding set_transaction_row [OF t(2)]
    by (auto simp: single_reversal_conflict_def recordable_def)
  then have nc: "\<not> list_ex (\<lambda>r. tr_id r = t_id t' \<and> list_ex (\<lambda>r'. tr_id r' \<noteq> t_id t'
      \<and> single_reversal_conflict (set_transaction (tx_row_of t') r) r') (map tx_row_of (bk_txs B))) (map tx_row_of (bk_txs B))"
    using own by (auto simp: list_ex_iff)
  have "reference_exists (tr_reference_transaction_id (tx_row_of t')) (st_db s)"
    using wr by (auto simp: reference_exists_def nullUUID_def recordable_def rows list_ex_iff)
  moreover have "filter (\<lambda>r. tr_id r = t_id t') (map tx_row_of (bk_txs B)) \<noteq> []"
    using t(1) i by (auto simp: filter_empty_conv)
  ultimately show ?thesis
    using c nc by (simp add: answers_wp Transactions_Update_def wp_bindM wp_mapErrM calm_statement
        sql_update_transaction_def Let_def rows affected_def filter_map wp_throwM wp_returnM)
qed

section \<open>Carrying a decision out\<close>

text \<open>
  An operation may name itself as its reference. It then finds itself, unsettled, and is rejected
  or waits like one whose reference is missing: that too can be carried out.
\<close>

lemma self_reference:
  assumes op: "decidable_op w t" and r: "Option.bind ref ref_transaction = Some t"
  shows "(\<exists>code. decision_table w t ref now = reject code \<and> failure_Valid code \<and> code \<noteq> PermanentFailure)
    \<or> decision_table w t ref now = decision_table w t None now"
proof -
  obtain rr where ref: "ref = Some rr" "ref_transaction rr = Some t" using r by (auto simp: bind_eq_Some_conv)
  have st: "t_status t = Pending \<or> t_status t = PendingReference" using op by (simp add: decidable_op_def)
  show ?thesis
    using st by (auto simp: ref decision_table_def win_table_def reversal_table_def failure_Valid_def)
qed

lemma open_enactable:
  assumes o: "open_on B w t" and lk: "looked_up B t ref" and room: "sint (w_version w) < 2 ^ 63 - 1"
    and args: "eid \<noteq> uuid_Nil" "now \<noteq> time_zero" "n \<noteq> time_zero" "dl \<noteq> time_zero"
    and d: "Decide w t ref now' = Inr dec"
  shows "\<exists>r. enact w t dec eid n dl now = Inr r"
proof -
  note op = open_onD(4) [OF o]
  have dec: "dec = decision_table w t ref now'" using d Decide_decision_table [OF op] by simp
  have B: "book_inv B" and t: "t \<in> set (bk_txs B)" using o by (simp_all add: open_on_def)
  show ?thesis
  proof (cases "Option.bind ref ref_transaction = Some t")
    case True
    from self_reference [OF op True, of now'] consider
      (reject) code where "dec = reject code" "failure_Valid code" "code \<noteq> PermanentFailure"
      | (none) "dec = decision_table w t None now'" by (auto simp: dec)
    then show ?thesis
    proof cases
      case reject
      then have "\<exists>t'. MarkRejected t code (w_balance w) now = Inr t'"
        using open_onD(1,8) [OF o] args by (auto simp: MarkRejected_eq_Inr wallet_inv_def)
      then show ?thesis using reject by (auto simp: enact_def)
    next
      case none
      then show ?thesis using enact_succeeds [OF op _ room args, of None] by (simp add: reference_ok_def)
    qed
  next
    case False
    have "reference_ok t ref"
      unfolding reference_ok_def
    proof (cases "Option.bind ref ref_transaction")
      case (Some u)
      then have u: "u \<in> set (bk_txs B)" using looked_up_resolved [OF lk] by (simp add: resolved_def)
      have "t_id u \<noteq> t_id t"
        using id_unique(1) [of "bk_txs B" u t] u t B False Some by (auto simp: book_inv_def txs_ok_def)
      then show "case Option.bind ref ref_transaction of None \<Rightarrow> True
          | Some original \<Rightarrow> t_id original \<noteq> uuid_Nil \<and> t_id original \<noteq> t_id t"
        using Some book_tx_wf(1) [OF B u] by (simp add: tx_wf_def)
    qed simp
    then show ?thesis unfolding dec by (rule enact_succeeds [OF op _ room args])
  qed
qed

lemma recordable_processed:
  assumes o: "open_on B w t" and lk: "looked_up B t ref" and d: "Decide w t ref now' = Inr dec"
    and p: "d_outcome dec = OutcomeProcess" and m: "MarkProcessed t b (d_referenceID dec) now = Inr t'"
  shows "recordable B t'"
proof (cases "d_referenceID dec = uuid_Nil")
  case True
  have "t_referenceTransactionID t = uuid_Nil" using open_fields(3) open_onD(2,8) [OF o] by blast
  with True m show ?thesis by (simp add: MarkProcessed_eq_Inr recordable_def)
next
  case r: False
  note op = open_onD(4) [OF o]
  have dec: "dec = decision_table w t ref now'" using d Decide_decision_table [OF op] by simp
  have B: "book_inv B" using o by (simp add: open_on_def)
  have t': "t_referenceTransactionID t' = d_referenceID dec" "t_kind t' = t_kind t"
    using m r by (simp_all add: MarkProcessed_eq_Inr)
  have "known_reference t ref (d_referenceID dec)"
    using op p r unfolding dec by (cases rule: decision_cases [where ref = ref and now = now']) auto
  then obtain u where u: "Option.bind ref ref_transaction = Some u" "d_referenceID dec = t_id u"
    by (auto simp: known_reference_def)
  then have ub: "u \<in> set (bk_txs B)" using looked_up_resolved [OF lk] by (simp add: resolved_def)
  have "t_referenceTransactionID v \<noteq> t_id u"
    if v: "v \<in> set (bk_txs B)" "processed_reversal v" and t: "processed_reversal t'" for v
  proof -
    have k: "Reversal (t_kind t)" using t t' by (simp add: processed_reversal_def)
    have "\<forall>o'. Option.bind ref ref_transaction = Some o' \<longrightarrow> status_Valid (t_status o')"
      using u ub book_tx_wf(3) [OF B] by simp
    with op d p show ?thesis
    proof (cases rule: Decide_process_cases)
      case (reversal o')
      with lk k have "\<not> (\<exists>v \<in> set (bk_txs B). processed_reversal v \<and> t_referenceTransactionID v = t_id o')"
        by (simp add: looked_up_def)
      with reversal u v show ?thesis by auto
    qed (use k in \<open>auto simp: Reversal_def\<close>)
  qed
  with u ub t' show ?thesis unfolding recordable_def by metis
qed

section \<open>Surroundings that let it\<close>

text \<open>
  Every identifier that is made is new: no operation, entry or event of the tables has it, and two
  in a row differ. Clocks run, and no deadline counted from them is the zero time.
\<close>

definition fresh_ids :: "env \<Rightarrow> db \<Rightarrow> bool" where
  "fresh_ids c d \<longleftrightarrow> (\<forall>n. e_new_id c (Suc n) \<noteq> e_new_id c n \<and> (\<exists>i. e_new_id c n = Some i \<and> i \<noteq> uuid_Nil
     \<and> i \<notin> tr_id ` set (db_transactions d) \<and> i \<notin> er_id ` set (db_entries d) \<and> i \<notin> xr_id ` set (db_outbox d)))"

definition timely :: "env \<Rightarrow> process_settings \<Rightarrow> bool" where
  "timely c settings \<longleftrightarrow> (\<forall>n. e_now c n \<noteq> time_zero \<and> e_now c n + ps_referenceBackoff settings \<noteq> time_zero
     \<and> e_now c n + ps_referenceTTL settings \<noteq> time_zero)"

text \<open>An identifier for each table, whatever the others hold.\<close>

definition new_for :: "env \<Rightarrow> uuid set \<Rightarrow> bool" where
  "new_for c ids \<longleftrightarrow> (\<forall>n. e_new_id c (Suc n) \<noteq> e_new_id c n
     \<and> (\<exists>i. e_new_id c n = Some i \<and> i \<noteq> uuid_Nil \<and> i \<notin> ids))"

lemma fresh_for:
  assumes "fresh_ids c d"
  shows "new_for c (tr_id ` set (db_transactions d))" "new_for c (er_id ` set (db_entries d))"
    "new_for c (xr_id ` set (db_outbox d))"
  using assms unfolding fresh_ids_def new_for_def by blast+

lemma wp_new_id:
  assumes "new_for c ids"
    and "\<And>i k. \<lbrakk>i \<noteq> uuid_Nil; i \<notin> ids\<rbrakk> \<Longrightarrow> Q i (s\<lparr>st_tick := k\<rparr>)"
  shows "wpM ids_New c s Q E"
proof -
  obtain i where "e_new_id c (st_tick s) = Some i" "i \<noteq> uuid_Nil" "i \<notin> ids"
    using assms(1) unfolding new_for_def by blast
  with assms(2) show ?thesis by (simp add: wp_ids_New)
qed

section \<open>Settling\<close>

lemma wpM_weaken: "wpM m c s Q (\<lambda>_ _. False) \<Longrightarrow> (\<And>x s'. Q x s' \<Longrightarrow> Q' x s') \<Longrightarrow> wpM m c s Q' E"
  by (erule wpM_mono) simp_all

lemma answers_wpI: "wpM m c s (\<lambda>_ _. True) (\<lambda>_ _. False) \<Longrightarrow> answers m c s"
  by (simp add: answers_wp)

lemma answers_movement:
  assumes c: "calm c" and ids: "new_for c (er_id ` set (db_entries (st_db s)))"
    and h: "holds (st_db s) B" and o: "open_on B w t"
    and lk: "looked_up B t ref" and room: "sint (w_version w) < 2 ^ 63 - 1" and now: "now \<noteq> time_zero"
    and d: "Decide w t ref now' = Inr dec"
    and p: "d_outcome dec = OutcomeProcess" "movement_Present (d_movement dec)"
  shows "answers (applyFinancialMovement w t dec now) c s"
proof -
  have wi: "wallet_inv w" by (rule open_onD(1) [OF o])
  have B: "book_inv B" and rep: "represents (st_db s) B" using h by (simp_all add: holds_def)
  have w: "w \<in> set (bk_wallets B)" using o by (simp add: open_on_def)
  obtain dr r where dec: "dec = process dr (t_amount t) r" "dr = Debit \<or> dr = Credit"
    using moves_by_decision [OF o looked_up_resolved [OF lk] d p] by metis
  then have dv: "direction_Valid dr" by (auto simp: direction_Valid_def)
  have move: "(if mv_direction (d_movement dec) = Debit then wallet_Debit w else wallet_Credit w)
      (t_id t) (mv_amount (d_movement dec)) eid now = wallet_move w dr (t_id t) (t_amount t) eid now" for eid
    using dec by (auto simp: wallet_Debit_def wallet_Credit_def)
  have en: "\<exists>e w' t'. wallet_move w dr (t_id t) (t_amount t) eid now = Inr (e, w')
      \<and> MarkProcessed t (w_balance w') r now = Inr t'" if "eid \<noteq> uuid_Nil" for eid
    using open_enactable [OF o lk room that now now now d] p
    by (auto simp: enact_def dec bindR_eq_Inr)
  have step: "wpM (Ledger_Append e) c (s\<lparr>st_tick := k\<rparr>)
      (\<lambda>_ s'. answers (Wallets_Update w' (w_version w)) c s') (\<lambda>_ _. False)"
    if m: "wallet_move w dr (t_id t) (t_amount t) eid now = Inr (e, w')" and f: "eid \<notin> er_id ` set (db_entries (st_db s))"
    for e w' eid k
  proof (rule answers_post)
    show "answers (Ledger_Append e) c (s\<lparr>st_tick := k\<rparr>)"
      by (rule answers_Ledger_Append [OF c _ o m dv, of "s\<lparr>st_tick := k\<rparr>"]) (use h f in simp_all)
    have i: "w_id w' = w_id w" using m by (auto simp: wallet_move_eq_Inr [OF wi dv] moved_wallet_def)
    show "wpM (Ledger_Append e) c (s\<lparr>st_tick := k\<rparr>) (\<lambda>_ s'. answers (Wallets_Update w' (w_version w)) c s') (\<lambda>_ _. True)"
    proof (rule wp_Ledger_Append [where B = B])
      fix d t' assume "represents d (B\<lparr>bk_entries := bk_entries B @ [e]\<rparr>)"
      then show "answers (Wallets_Update w' (w_version w)) c (s\<lparr>st_tick := k\<rparr>\<lparr>st_tick := t', st_db := d\<rparr>)"
        using w i by (intro answers_Wallets_Update [OF c, where B = "B\<lparr>bk_entries := bk_entries B @ [e]\<rparr>"]) simp_all
    qed (use rep in simp_all)
  qed
  show ?thesis
  proof (rule answers_wpI)
    show "wpM (applyFinancialMovement w t dec now) c s (\<lambda>_ _. True) (\<lambda>_ _. False)"
      unfolding applyFinancialMovement_def Let_def move wp_bindM
    proof (rule wp_new_id [OF ids])
      fix eid k assume eid: "eid \<noteq> uuid_Nil" "eid \<notin> er_id ` set (db_entries (st_db s))"
      obtain e w' t' where m: "wallet_move w dr (t_id t) (t_amount t) eid now = Inr (e, w')"
        "MarkProcessed t (w_balance w') r now = Inr t'" using en [OF eid(1)] by blast
      have r: "d_referenceID dec = r" using dec by simp
      show "wpM (liftR (wallet_move w dr (t_id t) (t_amount t) eid now)) c (s\<lparr>st_tick := k\<rparr>)
          (\<lambda>x s'. wpM (case x of (entry, account') \<Rightarrow> bindM (Ledger_Append entry) (\<lambda>_.
            bindM (Wallets_Update account' (w_version w)) (\<lambda>_.
            bindM (liftR (MarkProcessed t (w_balance account') (d_referenceID dec) now)) (\<lambda>operation'.
            returnM (entry, account', operation'))))) c s' (\<lambda>_ _. True) (\<lambda>_ _. False)) (\<lambda>_ _. False)"
        unfolding wp_liftR m(1) r sum.case prod.case wp_bindM wp_returnM m(2)
        by (rule wpM_weaken [OF step [OF m(1) eid(2)]]) (simp add: answers_wp)
    qed
  qed
qed

lemma answers_settle:
  assumes c: "calm c" and ids: "new_for c (er_id ` set (db_entries (st_db s)))"
    and h: "holds (st_db s) B" and o: "open_on B w t" and st: "t_status t = Pending"
    and lk: "looked_up B t ref" and room: "sint (w_version w) < 2 ^ 63 - 1"
    and now: "now \<noteq> time_zero" "now + ps_referenceBackoff settings \<noteq> time_zero"
      "t_createdAt t + ps_referenceTTL settings \<noteq> time_zero"
    and d: "Decide w t ref now = Inr dec"
  shows "answers (process_settle settings w t dec now) c s"
proof -
  have one: "(1 :: uuid) \<noteq> uuid_Nil" by simp
  obtain r where en: "enact w t dec 1 (now + ps_referenceBackoff settings) (t_createdAt t + ps_referenceTTL settings) now = Inr r"
    using open_enactable [OF o lk room one now d] by blast
  show ?thesis
  proof (cases "d_outcome dec")
    case OutcomeProcess
    show ?thesis
    proof (cases "movement_Present (d_movement dec)")
      case True
      have "answers (applyFinancialMovement w t dec now) c s"
        by (rule answers_movement [OF c ids h o lk room now(1) d OutcomeProcess True])
      then show ?thesis
        using OutcomeProcess True
        by (simp add: process_settle_def process_applyMovement_def answers_wp wp_bindM split_def wp_returnM)
    next
      case False
      with OutcomeProcess en show ?thesis
        by (auto simp: process_settle_def enact_def bindR_eq_Inr answers_wp wp_bindM wp_liftR wp_returnM)
    qed
  qed (use en st in \<open>auto simp: process_settle_def enact_def bindR_eq_Inr answers_wp Let_def wp_bindM wp_liftR wp_returnM\<close>)
qed

text \<open>What it answers with can be written back.\<close>

lemma settle_recordable:
  assumes c: "calm c" and h: "holds (st_db s) B" and o: "open_on B w t" and lk: "looked_up B t ref"
    and d: "Decide w t ref now = Inr dec"
  shows "wpM (process_settle settings w t dec now) c s (\<lambda>(eo, w', t') s'. answers (Transactions_Update t') c s') (\<lambda>_ _. True)"
proof -
  have rep: "represents (st_db s) B" and B: "book_inv B" using h by (simp_all add: holds_def)
  have t: "t \<in> set (bk_txs B)" using o by (simp add: open_on_def)
  have nil: "t_referenceTransactionID t = uuid_Nil" using open_fields(3) open_onD(2,8) [OF o] by blast
  have wr: "answers (Transactions_Update t') c s'"
    if "represents (st_db s') B'" "bk_txs B' = bk_txs B" "tx_step t t'" "recordable B t'" for s' B' t'
  proof (rule answers_Transactions_Update [OF c that(1,2) B t _ _ that(4)])
    show "same_identity t t'" by (rule tx_step_identity [OF that(3)])
    show "status_Valid (t_status t')" using that(3) by (cases rule: tx_step.cases) (auto simp: transition_eqs status_Valid_def)
  qed
  show ?thesis
  proof (cases "d_outcome dec")
    case OutcomeReject
    then show ?thesis
      using wr [OF rep refl step_rejected] nil
      by (auto simp: process_settle_def wp_bindM wp_liftR wp_returnM transition_eqs recordable_def split: sum.split)
  next
    case OutcomeWaitReference
    then show ?thesis
      using wr [OF rep refl step_pending_reference] nil
      by (auto simp: process_settle_def Let_def wp_bindM wp_liftR wp_returnM transition_eqs recordable_def split: sum.split)
  next
    case OutcomeProcess
    note pr = recordable_processed [OF o lk d OutcomeProcess]
    show ?thesis
    proof (cases "movement_Present (d_movement dec)")
      case False
      then show ?thesis
        using OutcomeProcess wr [OF rep refl step_processed pr]
        by (auto simp: process_settle_def wp_bindM wp_liftR wp_returnM split: sum.split)
    next
      case True
      obtain dr r where dec: "dec = process dr (t_amount t) r" "dr = Debit \<or> dr = Credit"
        using moves_by_decision [OF o looked_up_resolved [OF lk] d OutcomeProcess True] by metis
      have "wpM (applyFinancialMovement w t dec now) c s
          (\<lambda>(e, w', t') s'. answers (Transactions_Update t') c s') (\<lambda>_ _. True)"
      proof (rule wp_applyFinancialMovement [OF h o dec])
        fix eid e w' t' dd k
        assume m: "MarkProcessed t (w_balance w') r now = Inr t'" and r: "represents dd (half_moved w' e B)"
        have "recordable B t'" using pr m by (simp add: dec)
        moreover have "bk_txs (half_moved w' e B) = bk_txs B" by (simp add: half_moved_def)
        ultimately show "(case (e, w', t') of (e, w', t') \<Rightarrow> \<lambda>s'. answers (Transactions_Update t') c s')
            (s\<lparr>st_tick := k, st_db := dd\<rparr>)"
          using wr [OF _ _ step_processed [OF m], of "s\<lparr>st_tick := k, st_db := dd\<rparr>"] r by simp
      qed simp
      then show ?thesis
        using OutcomeProcess True
        by (simp add: process_settle_def process_applyMovement_def wp_bindM split_def wp_returnM)
    qed
  qed
qed

section \<open>Announcing\<close>

lemma answers_append_envelopes:
  assumes c: "calm c" and now: "now \<noteq> time_zero" "t_walletID t \<noteq> uuid_Nil"
    and es: "distinct (map ev_eventID es)" "\<forall>e \<in> set es. list_all Valid (payload_amounts (ev_data e))"
      "\<forall>e \<in> set es. ev_eventID e \<notin> xr_id ` set (db_outbox (st_db s))"
  shows "answers (append_envelopes t now es) c s"
  using es
proof (induction es arbitrary: s)
  case (Cons e es)
  obtain oe where oe: "NewOutboxEvent (e_uuid_text c) e (t_walletID t) now = Inr oe"
    using NewOutboxEvent_ok [of e "t_walletID t" now "e_uuid_text c"] Cons.prems now by (auto simp: is_ok_iff)
  then have i: "oe_id oe = ev_eventID e" by (auto simp: NewOutboxEvent_def bindR_eq_Inr)
  have "answers (bindM (Outbox_Append oe) (\<lambda>_. append_envelopes t now es)) c s"
  proof (rule answers_bind [OF answers_Outbox_Append [OF c]])
    show "oe_id oe \<notin> xr_id ` set (db_outbox (st_db s))" using Cons.prems(3) i by simp
    show "wpM (Outbox_Append oe) c s (\<lambda>_ s'. answers (append_envelopes t now es) c s') (\<lambda>_ _. True)"
    proof (rule wp_Outbox_Append)
      fix d k r assume d: "d = st_db s\<lparr>db_outbox := db_outbox (st_db s) @ [r]\<rparr>"
        "r = outbox_row_of oe\<lparr>xr_payload := e_jsonb c (oe_payload oe)\<rparr>"
      have "xr_id r = ev_eventID e" using d(2) i by (simp add: outbox_row_of_def)
      then show "answers (append_envelopes t now es) c (s\<lparr>st_tick := k, st_db := d\<rparr>)"
        by (intro Cons.IH) (use Cons.prems d(1) in \<open>auto simp: image_iff\<close>)
    qed simp
  qed
  with oe show ?case by (simp add: answers_wp wp_bindM wp_askM wp_liftR)
qed simp

text \<open>What a settled operation, its entry and the balance must be for the events to be made.\<close>

definition tellable :: "tx \<Rightarrow> ledger_entry option \<Rightarrow> money \<Rightarrow> bool" where
  "tellable t eo b \<longleftrightarrow> tx_wf t \<and> Valid (t_amount t) \<and> Valid b \<and> (\<forall>e. eo = Some e \<longrightarrow> entry_inv e)"

lemma answers_settlement_envelopes:
  assumes ids: "new_for c (xr_id ` set (db_outbox (st_db s)))" and t: "tellable t eo b"
  shows "wpM (settlement_envelopes t eo b) c s (\<lambda>es s'. st_db s' = st_db s \<and> distinct (map ev_eventID es)
      \<and> (\<forall>e \<in> set es. list_all Valid (payload_amounts (ev_data e)))
      \<and> (\<forall>e \<in> set es. ev_eventID e \<notin> xr_id ` set (db_outbox (st_db s)))) (\<lambda>_ _. False)"
proof -
  let ?n = "st_tick s" and ?ids = "xr_id ` set (db_outbox (st_db s))"
  obtain i where i: "e_new_id c ?n = Some i" "i \<noteq> uuid_Nil" "i \<notin> ?ids" using ids unfolding new_for_def by blast
  obtain j where j: "e_new_id c (Suc ?n) = Some j" "j \<noteq> uuid_Nil" "j \<notin> ?ids" using ids unfolding new_for_def by blast
  have ij: "j \<noteq> i" using ids i(1) j(1) unfolding new_for_def by (metis option.inject)
  have t': "t_id t \<noteq> uuid_Nil" "t_correlationID t \<noteq> []" "Valid (t_amount t)" "Valid b"
    "Terminal (t_status t) \<longrightarrow> t_completedAt t \<noteq> time_zero" "t_updatedAt t \<noteq> time_zero"
    using t by (auto simp: tellable_def tx_wf_def)
  have e: "le_walletID e \<noteq> uuid_Nil" "le_createdAt e \<noteq> time_zero" "Valid (le_amount e)"
    "Valid (le_balanceBefore e)" "Valid (le_balanceAfter e)" if "eo = Some e" for e
    using t that by (auto simp: tellable_def entry_inv_def Valid_def)
  show ?thesis
    unfolding settlement_envelopes_def
    by (cases "t_status t"; cases eo)
      (use i j ij t' e in \<open>auto simp: wp_bindM wp_askM wp_ids_New wp_liftR wp_returnM wp_if NewProcessed_def
        NewRejected_def NewBalanceChanged_def NewPendingReference_def newEnvelope_def coreOf_def Terminal_def\<close>)
qed

lemma answers_appendSettlementEvents:
  assumes c: "calm c" and ids: "new_for c (xr_id ` set (db_outbox (st_db s)))" and t: "tellable t eo b"
    and now: "now \<noteq> time_zero"
  shows "answers (appendSettlementEvents now t eo b) c s"
  unfolding appendSettlementEvents_def
proof (rule answers_wpI, unfold wp_bindM, rule wpM_weaken [OF answers_settlement_envelopes [OF ids t]])
  fix es :: "envelope list" and s' :: st assume "st_db s' = st_db s \<and> distinct (map ev_eventID es)
      \<and> (\<forall>e \<in> set es. list_all Valid (payload_amounts (ev_data e)))
      \<and> (\<forall>e \<in> set es. ev_eventID e \<notin> xr_id ` set (db_outbox (st_db s)))"
  moreover have "t_walletID t \<noteq> uuid_Nil" using t by (simp add: tellable_def tx_wf_def)
  ultimately have "answers (append_envelopes t now es) c s'" by (intro answers_append_envelopes [OF c now]) simp_all
  then show "wpM (append_envelopes t now es) c s' (\<lambda>_ _. True) (\<lambda>_ _. False)" by (simp add: answers_wp)
qed

lemma carried_tellable:
  assumes ca: "carried B w t dec now t' eo b B'" and B': "book_inv B'" and o: "open_on B w t"
  shows "tellable t' eo b"
proof -
  note c = carried_operation [OF ca]
  have t: "t \<in> set (bk_txs B)" using o by (simp add: open_on_def)
  have i: "t_id t' = t_id t" "t_amount t' = t_amount t" using c(2) by (simp_all add: same_identity_def)
  have "t' \<in> set (bk_txs B')" unfolding c(4) replace_tx_def using t i(1) by (force simp: image_iff)
  then have wf: "tx_wf t'" by (rule book_tx_wf(1) [OF B'])
  have "Valid (t_amount t')" using decidable_amount(1) [OF open_onD(4) [OF o]] i(2) by simp
  moreover have "Valid b"
  proof -
    obtain eid n dl w' where en: "enact w t dec eid n dl now = Inr (w', t')" "b = w_balance w'"
      using ca by (auto simp: carried_def)
    have wi: "wallet_inv w" by (rule open_onD(1) [OF o])
    have "currency (w_balance w') = currency (w_balance w)"
      using en(1) wallet_move_eq_Inr [OF wi]
      by (auto simp: enact_def bindR_eq_Inr movement_Present_def moved_wallet_def split: outcome.splits if_splits)
    then show ?thesis using wi en(2) by (simp add: wallet_inv_def Valid_def)
  qed
  moreover have "entry_inv e" if "eo = Some e" for e
  proof -
    have "e \<in> set (bk_entries B')" using ca that by (auto simp: carried_def settle_movement_def)
    then show ?thesis using B' by (auto simp: book_inv_def entries_ok_def)
  qed
  ultimately show ?thesis using wf by (simp add: tellable_def)
qed

section \<open>The rest of the run\<close>

lemma answers_wakeUp: "calm c \<Longrightarrow> answers (process_wakeUpWaiting t now) c s"
  using answers_WakeUp by (simp add: process_wakeUpWaiting_def answers_wp wp_bindM wp_returnM)

lemma answers_process_answer:
  assumes c: "calm c" and rep: "represents (st_db s) B" and u: "u \<in> set (bk_txs B)" "t_id u = t_id t"
    and row: "FromQueue input \<Longrightarrow> \<exists>r \<in> set (db_inbox (st_db s)). same_message ConsumerName (pi_messageID input) r"
  shows "answers (process_answer input now t) c s"
proof -
  have "answers (whenM (FromQueue input) (completeInbox (pi_messageID input) (WagerResult t False) now)) c s"
    unfolding completeInbox_def
    by (intro answers_when answers_Inbox_Complete [OF c row rep u(1)]) (simp_all add: u WagerResult_def)
  then show ?thesis by (simp add: process_answer_def Let_def answers_wp wp_bindM wp_returnM)
qed

lemma answers_resolveReference:
  assumes c: "calm c" and h: "holds (st_db s) B"
  shows "answers (process_resolveReference t) c s"
proof -
  have rest: "answers (case x of None \<Rightarrow> returnM None | Some original \<Rightarrow>
      if Reversal (t_kind t) then bindM (Transactions_HasSuccessfulReversal (t_id original)) (\<lambda>reversed.
        returnM (Some \<lparr>ref_transaction = Some original, ref_alreadyReversed = reversed\<rparr>))
      else returnM (Some \<lparr>ref_transaction = Some original, ref_alreadyReversed = False\<rparr>)) c s'" for x s'
    using answers_HasSuccessfulReversal [OF c] by (auto simp: answers_wp wp_bindM wp_returnM split: option.split)
  have "answers (Transactions_FindByExternalID p k) c s" for p k
    unfolding Transactions_FindByExternalID_def by (rule answers_findOne [OF c h])
  then show ?thesis
    unfolding process_resolveReference_def
    by (auto intro!: answers_bind wpM_mono [OF wpM_True] rest)
qed

text \<open>A computation that says whether another one would answer here.\<close>

definition probe :: "'a M \<Rightarrow> bool M" where
  "probe m = (\<lambda>c s. (Inr (answers m c s), s))"

lemma wp_probe: "wpM (probe m) c s Q E \<longleftrightarrow> Q (answers m c s) s"
  by (simp add: wpM_def probe_def)

lemma answers_announce:
  assumes c: "calm c" and ids: "new_for c (xr_id ` set (db_outbox (st_db s)))" and t: "tellable t eo b"
    and now: "now \<noteq> time_zero" and h: "holds (st_db s) B"
    and K: "\<And>d k f. \<lbrakk>\<forall>x \<in> set (bk_txs B). woken now x (f x); holds d (B\<lparr>bk_txs := map f (bk_txs B)\<rparr>);
      db_inbox d = db_inbox (st_db s)\<rbrakk> \<Longrightarrow> answers K c (s\<lparr>st_tick := k, st_db := d\<rparr>)"
  shows "answers (bindM (appendSettlementEvents now t eo b) (\<lambda>_.
    bindM (whenM (Terminal (t_status t)) (process_wakeUpWaiting t now)) (\<lambda>_. K))) c s"
proof (rule answers_bind [OF answers_appendSettlementEvents [OF c ids t now]])
  have "wpM (bindM (appendSettlementEvents now t eo b) (\<lambda>_.
      bindM (whenM (Terminal (t_status t)) (process_wakeUpWaiting t now)) (\<lambda>_. probe K))) c s (\<lambda>x _. x) (\<lambda>_ _. True)"
    unfolding process_wakeUpWaiting_def by (rule wp_announce [OF h now]) (use K in \<open>simp_all add: wp_probe\<close>)
  then have "wpM (appendSettlementEvents now t eo b) c s (\<lambda>_ s'.
      wpM (whenM (Terminal (t_status t)) (process_wakeUpWaiting t now)) c s' (\<lambda>_ s''. answers K c s'') (\<lambda>_ _. True)) (\<lambda>_ _. True)"
    by (simp add: wp_bindM wp_probe)
  then show "wpM (appendSettlementEvents now t eo b) c s (\<lambda>_ s'. answers (bindM
      (whenM (Terminal (t_status t)) (process_wakeUpWaiting t now)) (\<lambda>_. K)) c s') (\<lambda>_ _. True)"
    by (rule wpM_mono) (auto intro!: answers_bind answers_when answers_wakeUp [OF c])
qed

text \<open>What follows the row of the wallet, and what follows the decision.\<close>

abbreviation settle_rest where
  "settle_rest input now \<equiv> \<lambda>(entry, account', operation').
     bindM (Transactions_Update operation') (\<lambda>_.
     bindM (appendSettlementEvents now operation' entry (w_balance account')) (\<lambda>_.
     bindM (whenM (Terminal (t_status operation')) (process_wakeUpWaiting operation' now)) (\<lambda>_.
     process_answer input now operation')))"

abbreviation decide_rest where
  "decide_rest settings input t now account \<equiv>
     bindM (process_resolveReference t) (\<lambda>ref.
     bindM (liftR (Decide account t ref now)) (\<lambda>dec.
     bindM (process_settle settings account t dec now) (settle_rest input now)))"

lemma answers_written_back:
  assumes c: "calm c" and ids: "new_for c (xr_id ` set (db_outbox (st_db s)))" and now: "now \<noteq> time_zero"
    and ca: "carried B w t dec now t' eo (w_balance w') B'" and h: "holds (st_db s) B'" and o: "open_on B w t"
    and row: "FromQueue input \<Longrightarrow> \<exists>r \<in> set (db_inbox (st_db s)). same_message ConsumerName (pi_messageID input) r"
  shows "answers (bindM (appendSettlementEvents now t' eo (w_balance w')) (\<lambda>_.
    bindM (whenM (Terminal (t_status t')) (process_wakeUpWaiting t' now)) (\<lambda>_. process_answer input now t'))) c s"
proof (rule answers_announce [OF c ids _ now h])
  show "tellable t' eo (w_balance w')" using carried_tellable [OF ca _ o] h by (simp add: holds_def)
  fix d k f assume f: "\<forall>x \<in> set (bk_txs B'). woken now x (f x)" and r: "holds d (B'\<lparr>bk_txs := map f (bk_txs B')\<rparr>)"
    and m: "db_inbox d = db_inbox (st_db s)"
  have "t \<in> set (bk_txs B)" using o by (simp add: open_on_def)
  then obtain u where u: "u \<in> set (bk_txs B')" "t_id u = t_id t'"
    using carried_operation(2,4) [OF ca] by (fastforce simp: replace_tx_def same_identity_def)
  have "t_id (f u) = t_id t'" using woken_same [of now u "f u"] f u by (simp add: same_identity_def)
  then show "answers (process_answer input now t') c (s\<lparr>st_tick := k, st_db := d\<rparr>)"
    using r u m row
    by (intro answers_process_answer [OF c, where B = "B'\<lparr>bk_txs := map f (bk_txs B')\<rparr>" and u = "f u"])
      (auto simp: holds_def)
qed

text \<open>The tables just after a new operation was inserted, in surroundings that let it be settled.\<close>

definition settleable :: "env \<Rightarrow> process_settings \<Rightarrow> process_input \<Rightarrow> time \<Rightarrow> book \<Rightarrow> wallet \<Rightarrow> tx \<Rightarrow> st \<Rightarrow> bool" where
  "settleable c settings input now B w t s \<longleftrightarrow>
     new_for c (er_id ` set (db_entries (st_db s))) \<and> new_for c (xr_id ` set (db_outbox (st_db s)))
     \<and> holds (st_db s) B \<and> open_on B w t \<and> t_status t = Pending \<and> t_createdAt t = now \<and> w_id w = pi_walletID input
     \<and> sint (w_version w) < 2 ^ 63 - 1 \<and> now \<noteq> time_zero
     \<and> now + ps_referenceBackoff settings \<noteq> time_zero \<and> now + ps_referenceTTL settings \<noteq> time_zero
     \<and> (FromQueue input \<longrightarrow> (\<exists>r \<in> set (db_inbox (st_db s)). same_message ConsumerName (pi_messageID input) r))"

lemma settleable_tick [simp]:
  "settleable c settings input now B w t (s\<lparr>st_tick := k\<rparr>) \<longleftrightarrow> settleable c settings input now B w t s"
  by (simp add: settleable_def)

lemma answers_decided:
  assumes c: "calm c" and s: "settleable c settings input now B w t s"
    and lk: "looked_up B t ref" and d: "Decide w t ref now = Inr dec"
  shows "answers (bindM (process_settle settings w t dec now) (settle_rest input now)) c s"
proof (rule answers_bind)
  note a = s [unfolded settleable_def]
  have h: "holds (st_db s) B" and o: "open_on B w t" using a by simp_all
  show "answers (process_settle settings w t dec now) c s"
    using a by (intro answers_settle [OF c _ h o _ lk _ _ _ _ d]) simp_all
  have "wpM (process_settle settings w t dec now) c s (\<lambda>(eo, w', t') s'. wpM (Transactions_Update t') c s'
      (\<lambda>_ s''. answers (bindM (appendSettlementEvents now t' eo (w_balance w')) (\<lambda>_.
        bindM (whenM (Terminal (t_status t')) (process_wakeUpWaiting t' now)) (\<lambda>_. process_answer input now t'))) c s'')
      (\<lambda>_ _. True)) (\<lambda>_ _. True)"
  proof (rule wp_process_settle [OF h o looked_up_resolved [OF lk] _ d])
    fix eo w' t' B1 dd k
    assume ca: "carried B w t dec now t' eo (w_balance w') B1" and hd: "holds dd B1" and sm: "same_mail (st_db s) dd"
    show "answers (bindM (appendSettlementEvents now t' eo (w_balance w')) (\<lambda>_.
        bindM (whenM (Terminal (t_status t')) (process_wakeUpWaiting t' now)) (\<lambda>_. process_answer input now t'))) c
        (s\<lparr>st_tick := k, st_db := dd\<rparr>)"
      using a sm hd by (intro answers_written_back [OF c _ _ ca _ o]) (simp_all add: same_mail_def)
  qed (use a in simp_all)
  from wpM_conj [OF settle_recordable [OF c h o lk d, of settings] this]
  show "wpM (process_settle settings w t dec now) c s (\<lambda>x s'. answers (settle_rest input now x) c s') (\<lambda>_ _. True)"
    by (rule wpM_mono) (auto intro!: answers_bind)
qed

lemma answers_settle_new:
  assumes c: "calm c" and s: "settleable c settings input now B w t s"
  shows "answers (bindM (Wallets_FindForUpdate (pi_walletID input)) (decide_rest settings input t now)) c s"
proof -
  have h: "holds (st_db s) B" and o: "open_on B w t" and i: "w_id w = pi_walletID input"
    using s by (simp_all add: settleable_def)
  have w: "w \<in> set (bk_wallets B)" and B: "book_inv B" using o by (simp_all add: open_on_def)
  have rest: "answers (decide_rest settings input t now w) c (s\<lparr>st_tick := k\<rparr>)" for k
  proof -
    have hk: "holds (st_db (s\<lparr>st_tick := k\<rparr>)) B" using h by simp
    show ?thesis
    proof (rule answers_bind [OF answers_resolveReference [OF c hk]], rule wp_resolveReference [OF hk])
      fix ref k2 assume lk: "looked_up B t ref"
      have d: "Decide w t ref now = Inr (decision_table w t ref now)" by (rule Decide_decision_table [OF open_onD(4) [OF o]])
      have "settleable c settings input now B w t (s\<lparr>st_tick := k\<rparr>\<lparr>st_tick := k2\<rparr>)" using s by simp
      from answers_decided [OF c this lk d] show "answers (bindM (liftR (Decide w t ref now)) (\<lambda>dec.
          bindM (process_settle settings w t dec now) (settle_rest input now))) c (s\<lparr>st_tick := k\<rparr>\<lparr>st_tick := k2\<rparr>)"
        using d by (simp add: answers_wp wp_bindM wp_liftR)
    qed simp
  qed
  show ?thesis
  proof (rule answers_bind [OF answers_Wallets_FindForUpdate [OF c h w i]], rule wp_Wallets_FindForUpdate [OF h])
    fix w' k assume "w' \<in> set (bk_wallets B)" "w_id w' = pi_walletID input"
    then have "w' = w" using w i B id_unique(2) [of "bk_wallets B" w' w] by (simp add: book_inv_def wallets_ok_def)
    with rest show "answers (decide_rest settings input t now w') c (s\<lparr>st_tick := k\<rparr>)" by simp
  qed simp
qed

section \<open>The whole run\<close>

text \<open>Neither the key nor the identifier of the provider was used, and the message is new.\<close>

definition unused :: "process_input \<Rightarrow> book \<Rightarrow> bool" where
  "unused input B \<longleftrightarrow> (\<forall>u \<in> set (bk_txs B). t_providerID u = pi_providerID input \<longrightarrow>
     t_idempotencyKey u \<noteq> pi_idempotencyKey input \<and> t_externalTransactionID u \<noteq> pi_externalTransactionID input)"

definition unseen :: "process_input \<Rightarrow> db \<Rightarrow> bool" where
  "unseen input d \<longleftrightarrow> (FromQueue input \<longrightarrow> hash_pattern (pi_rawBodyHash input)
     \<and> (\<forall>r \<in> set (db_inbox d). \<not> same_message ConsumerName (pi_messageID input) r))"

lemma unused_no_clash:
  assumes "NewExternal (WagerCommand input h) j now = Inr t" "unused input B" "j \<notin> t_id ` set (bk_txs B)"
  shows "\<forall>u \<in> set (bk_txs B). \<not> clash t u"
proof
  fix u assume u: "u \<in> set (bk_txs B)"
  then have "t_id u \<noteq> j" using assms(3) by blast
  then show "\<not> clash t u"
    using u assms(1,2)
    by (auto simp: NewExternal_eq_Inr new_tx_def WagerCommand_def clash_def unused_def processed_reversal_def
        external_fields_def kind_defs)
qed

lemma answers_process_register:
  assumes c: "calm c" and ids: "fresh_ids c (st_db s)" and h: "holds (st_db s) B" and un: "unused input B"
    and new: "\<And>j. j \<noteq> uuid_Nil \<Longrightarrow> is_ok (NewExternal (WagerCommand input hash) j now)"
    and w: "w \<in> set (bk_wallets B)" "w_id w = pi_walletID input" "sint (w_version w) < 2 ^ 63 - 1"
    and now: "now \<noteq> time_zero" "now + ps_referenceBackoff settings \<noteq> time_zero" "now + ps_referenceTTL settings \<noteq> time_zero"
    and row: "FromQueue input \<Longrightarrow> \<exists>r \<in> set (db_inbox (st_db s)). same_message ConsumerName (pi_messageID input) r"
  shows "answers (process_register settings input hash now) c s"
proof -
  note fr = fresh_for [OF ids]
  have rep: "represents (st_db s) B" and B: "book_inv B" using h by (simp_all add: holds_def)
  have inserted: "answers (bindM (Transactions_Insert t) (\<lambda>inserted.
      if \<not> inserted then process_replay input hash now
      else bindM (Wallets_FindForUpdate (pi_walletID input)) (decide_rest settings input t now))) c (s\<lparr>st_tick := k\<rparr>)"
    if t: "NewExternal (WagerCommand input hash) j now = Inr t" and j: "j \<notin> tr_id ` set (db_transactions (st_db s))" for t j k
  proof -
    have tf: "t_walletID t = w_id w" "t_status t = Pending" "t_createdAt t = now" "t_referenceTransactionID t = uuid_Nil"
      using t by (auto simp: NewExternal_eq_Inr new_tx_def WagerCommand_def w(2))
    have "j \<notin> t_id ` set (bk_txs B)" using j rep by (auto simp: represents_def image_iff)
    note cl = unused_no_clash [OF t un this]
    have o: "open_on (with_tx t B) w t" by (rule new_open_on [OF B t cl w(1)]) (simp add: tf)
    note st = new_storable(6,7) [OF t book_wallet_inv [OF B w(1)]]
    have hk: "holds (st_db (s\<lparr>st_tick := k\<rparr>)) B" using h by simp
    show ?thesis
    proof (rule answers_bind)
      show "answers (Transactions_Insert t) c (s\<lparr>st_tick := k\<rparr>)"
        using rep by (intro answers_Transactions_Insert [OF c _ w(1)]) (simp_all add: tf)
      show "wpM (Transactions_Insert t) c (s\<lparr>st_tick := k\<rparr>) (\<lambda>inserted s'. answers (if \<not> inserted then process_replay input hash now
          else bindM (Wallets_FindForUpdate (pi_walletID input)) (decide_rest settings input t now)) c s') (\<lambda>_ _. True)"
      proof (rule wp_Transactions_Insert [OF hk st])
        fix d k2 assume r: "represents d (B\<lparr>bk_txs := bk_txs B @ [t]\<rparr>)" and m: "same_mail (st_db (s\<lparr>st_tick := k\<rparr>)) d"
        let ?s = "s\<lparr>st_tick := k\<rparr>\<lparr>st_tick := k2, st_db := d\<rparr>"
        have "db_entries d = db_entries (st_db s)" using r rep by (simp add: represents_def)
        moreover have "holds d (with_tx t B)" using r o by (simp add: holds_def open_on_def with_tx_def)
        ultimately have "settleable c settings input now (with_tx t B) w t ?s"
          using m fr o tf w now row by (simp add: settleable_def same_mail_def)
        from answers_settle_new [OF c this] show "answers (if \<not> True then process_replay input hash now
          else bindM (Wallets_FindForUpdate (pi_walletID input)) (decide_rest settings input t now)) c ?s" by simp
      qed (use cl in auto)
    qed
  qed
  show ?thesis
    unfolding process_register_def
  proof (rule answers_wpI, unfold wp_bindM, rule wp_new_id [OF fr(1)])
    fix j k assume j: "j \<noteq> uuid_Nil" "j \<notin> tr_id ` set (db_transactions (st_db s))"
    then obtain t where t: "NewExternal (WagerCommand input hash) j now = Inr t" using new by (auto simp: is_ok_iff)
    from inserted [OF t j(2), of k] show "wpM (liftR (NewExternal (WagerCommand input hash) j now)) c (s\<lparr>st_tick := k\<rparr>)
       (\<lambda>t s'. wpM (Transactions_Insert t) c s' (\<lambda>x s'. wpM (if \<not> x then process_replay input hash now
          else bindM (Wallets_FindForUpdate (pi_walletID input)) (decide_rest settings input t now)) c s' (\<lambda>_ _. True) (\<lambda>_ _. False))
          (\<lambda>_ _. False)) (\<lambda>_ _. False)"
      unfolding t wp_liftR sum.case by (simp only: answers_wp wp_bindM)
  qed
qed

definition valid_input :: "env \<Rightarrow> process_input \<Rightarrow> bool" where
  "valid_input c input \<longleftrightarrow> process_Validate c input = Inr () \<and> kind_input input
     \<and> origin_External (pi_origin input) \<and> \<not> blank (pi_correlationID input)"

lemma answers_process_run:
  assumes c: "calm c" and ids: "fresh_ids c (st_db s)" and ti: "timely c settings" and h: "holds (st_db s) B"
    and un: "unused input B" "unseen input (st_db s)"
    and new: "\<And>j now. j \<noteq> uuid_Nil \<Longrightarrow> now \<noteq> time_zero \<Longrightarrow> is_ok (NewExternal (WagerCommand input hash) j now)"
    and w: "w \<in> set (bk_wallets B)" "w_id w = pi_walletID input" "sint (w_version w) < 2 ^ 63 - 1"
  shows "answers (process_run settings input hash) c s"
proof -
  let ?now = "e_now c (st_tick s)" and ?s = "s\<lparr>st_tick := st_tick s + 1\<rparr>"
  let ?reg = "if FromQueue input then registerInbox input else returnM None"
  have now: "?now \<noteq> time_zero" "?now + ps_referenceBackoff settings \<noteq> time_zero"
    "?now + ps_referenceTTL settings \<noteq> time_zero" "\<And>n. e_now c n \<noteq> time_zero" using ti by (simp_all add: timely_def)
  have "answers ?reg c ?s"
  proof (cases "FromQueue input")
    case True
    then have nr: "\<forall>r \<in> set (db_inbox (st_db s)). \<not> same_message ConsumerName (pi_messageID input) r"
      "hash_pattern (pi_rawBodyHash input)" using un(2) by (simp_all add: unseen_def)
    have "wpM (Inbox_Insert m) c s' (\<lambda>x _. x) (\<lambda>_ _. False)"
      if "st_db s' = st_db s" "im_consumerName m = ConsumerName" "im_messageID m = pi_messageID input" for m s'
      by (rule answers_post [OF answers_Inbox_Insert [OF c]], rule wp_Inbox_Insert) (use that nr in auto)
    note ins = wpM_weaken [OF this]
    obtain m where "NewInboxMessage ConsumerName (pi_messageID input) (pi_rawBodyHash input) (e_now c (st_tick ?s)) = Inr m"
      using True nr(2) now(4) by (auto simp: NewInboxMessage_def ConsumerName_def FromQueue_def)
    moreover from this have "im_consumerName m = ConsumerName" "im_messageID m = pi_messageID input"
      by (simp_all add: NewInboxMessage_eq_Inr)
    ultimately show ?thesis
      using True by (simp add: registerInbox_def answers_wp wp_bindM wp_clock_Now wp_liftR) (rule ins, simp_all add: wp_returnM)
  qed simp
  moreover have "wpM ?reg c ?s (\<lambda>handled s'. answers (case handled of Some replay \<Rightarrow> returnM replay
      | None \<Rightarrow> process_register settings input hash ?now) c s') (\<lambda>_ _. True)"
  proof (rule wp_registerInbox)
    show "holds (st_db ?s) B" using h by simp
    fix d k assume r: "registered input (st_db ?s) d"
    let ?s1 = "?s\<lparr>st_tick := k, st_db := d\<rparr>"
    have "answers (process_register settings input hash ?now) c ?s1"
    proof (rule answers_process_register [OF c _ _ un(1) new w now(1-3)])
      show "fresh_ids c (st_db ?s1)" "holds (st_db ?s1) B"
        using r ids h by (auto simp: registered_def fresh_ids_def holds_def split: if_splits)
      show "\<exists>r \<in> set (db_inbox (st_db ?s1)). same_message ConsumerName (pi_messageID input) r" if "FromQueue input"
        using r that by (auto simp: registered_def)
    qed (use now in simp_all)
    then show "answers (case None of Some replay \<Rightarrow> returnM replay
        | None \<Rightarrow> process_register settings input hash ?now) c ?s1" by simp
  qed (use un(2) in \<open>auto simp: unseen_def\<close>)
  ultimately have "answers (bindM ?reg (\<lambda>handled. case handled of Some replay \<Rightarrow> returnM replay
      | None \<Rightarrow> process_register settings input hash ?now)) c ?s"
    by (rule answers_bind)
  then show ?thesis by (simp add: process_run_def answers_wp wp_bindM wp_clock_Now)
qed

lemma answers_process_Execute:
  assumes c: "calm c" and ids: "fresh_ids c (st_db s)" and ti: "timely c settings" and h: "holds (st_db s) B"
    and en: "documented_engine (e_validate c)" and v: "valid_input c input" and un: "unused input B" "unseen input (st_db s)"
    and w: "w \<in> set (bk_wallets B)" "w_id w = pi_walletID input" "sint (w_version w) < 2 ^ 63 - 1"
  shows "answers (process_Execute u settings input) c s"
proof -
  have new: "is_ok (NewExternal (WagerCommand input (payload_hash c input)) j now)"
    if "j \<noteq> uuid_Nil" "now \<noteq> time_zero" for j now
    using v validated_accepted [OF en _ _ _ _ that] by (simp add: valid_input_def payload_hash_def is_ok_iff)
  have run: "answers (process_run settings input (payload_hash c input)) c (s\<lparr>st_tick := k\<rparr>)" for k
    by (rule answers_process_run [OF c _ ti _ un(1) _ new w]) (use ids h un in simp_all)
  have "wpM (uow_Do u (process_run settings input (payload_hash c input))) c (s\<lparr>st_tick := k\<rparr>) (\<lambda>_ _. True) (\<lambda>_ _. False)" for k
    by (rule calm_Do [OF c], rule wpM_weaken [where Q = "\<lambda>_ _. True"])
      (use run [unfolded answers_wp] in simp_all)
  from this [of "st_tick s + 1"] show ?thesis
    using v by (simp add: process_Execute_def answers_wp wp_bindM wp_askM wp_liftR wp_clock_Now valid_input_def Let_def
        payload_hash_def wp_returnM)
qed

lemma new_outcome:
  assumes o: "process_outcome c input h B d res d'" and un: "unused input B" "unseen input d"
  shows "\<not> pr_idempotentReplay res \<and> pr_status res \<in> {Processed, Rejected, PendingReference}"
  using o
proof cases
  case redelivered
  with un(2) show ?thesis by (auto simp: unseen_def)
next
  case replayed
  with un(1) show ?thesis by (auto simp: unused_def)
next
  case (settled t' eo B')
  then obtain t w dec now b B1 where "carried (with_tx t B) w t dec now t' eo b B1"
    unfolding settled_new_def by blast
  then have "t_status t' = outcome_status (d_outcome dec)" by (rule carried_operation(3))
  then show ?thesis using settled(1) by (cases "d_outcome dec") (simp_all add: WagerResult_def)
qed

end
