(* ===== verification/Promptness.thy ===== *)
theory Promptness
  imports Answering Consumer
begin

text \<open>
  Nothing is refused for no reason: where nothing fails, a valid operation that was not recorded
  before is settled, and the message that brought it is deleted.
\<close>

section \<open>An operation\<close>


definition fresh_env :: env where
  "fresh_env = strict_env\<lparr>e_new_id := \<lambda>n. Some (if even n then 100 else 101)\<rparr>"

lemma sample_valid: "valid_input fresh_env sample_input"
  by (simp add: valid_input_def sample_input_def process_Validate_eq_Inr fresh_env_def strict_env_def process_checks_def
      tag_accepts_def value_required_def runes_ascii isOpaque_def trimmed_def Let_def is_space_def is_control_def
      wager_kind_rule_def kind_input_def kind_of_string_def kind_defs Valid_def Supported_def checkReferencePolicy_def
      RequiresReference_def ForbidsReference_def checkInputAmountPolicy_def sign_simps amount_of_def origin_External_def
      not_blank_letter)


section \<open>From the queue\<close>


text \<open>A complete body, and surroundings that read it.\<close>

definition full_document :: json where
  "full_document = JObj [(''messageId'', JStr ''m''), (''type'', JStr ''WagerTransactionRequested''),
     (''occurredAt'', JStr ''2026-01-01T00:00:00Z''),
     (''data'', JObj [(''providerId'', JStr ''p''), (''externalTransactionId'', JStr ''x''), (''idempotencyKey'', JStr ''k''),
        (''playerId'', JStr ''p''), (''walletId'', JStr ''w''), (''roundId'', JStr ''r''), (''gameId'', JStr ''g''),
        (''kind'', JStr ''WIN''), (''money'', JObj [(''amount'', JStr ''25.00''), (''currency'', JStr ''BRL'')])])]"

definition full_message :: sqs_message where
  "full_message = \<lparr>sm_messageID = Some ''b'', sm_receiptHandle = Some ''h'',
     sm_body = Some (json_print False full_document), sm_attributes = [], sm_messageAttributes = []\<rparr>"

definition full_wager :: wager_message where
  "full_wager = \<lparr>wm_messageID = ''m'', wm_type = ''WagerTransactionRequested'', wm_occurredAt = ''2026-01-01T00:00:00Z'',
     wm_data = \<lparr>wd_providerID = ''p'', wd_externalTransactionID = ''x'', wd_playerID = ''p'', wd_walletID = ''w'',
       wd_roundID = ''r'', wd_gameID = ''g'', wd_kind = ''WIN'', wd_money = \<lparr>minor = 2500, currency = BRL\<rparr>,
       wd_referenceExternalTransactionID = None, wd_idempotencyKey = ''k''\<rparr>\<rparr>"

definition reading_env :: env where
  "reading_env = fresh_env\<lparr>e_uuid_parse := \<lambda>t. Some (if t = ''w'' then 1 else 2)\<rparr>"

lemma full_decoded: "message_Decode reading_env (json_print False full_document) = Inr full_wager"
proof -
  have "writable full_document" by (simp add: full_document_def valid_utf8_ascii)
  then have "json_first (json_print False full_document) = Some (full_document, [])"
    using json_first_printed [of full_document "[]" False] by simp
  moreover have "decode_struct set_wager_message full_document wager_message_zero = Inr full_wager"
  proof -
    have "Parse ''25.00'' ''BRL'' = Inr \<lparr>minor = 2500, currency = BRL\<rparr>"
      by (simp add: Parse_eq_Inr print_2500 Valid_def Supported_def amount_of_def)
    then have "money_UnmarshalJSON (JObj [(''amount'', JStr ''25.00''), (''currency'', JStr ''BRL'')])
        = Inr \<lparr>minor = 2500, currency = BRL\<rparr>"
      by (simp add: money_UnmarshalJSON_def json_string_field_def json_member_def json_members_def lower_char_def Let_def)
    then show ?thesis
      by (simp add: full_document_def full_wager_def decode_struct_def set_wager_message_def set_wager_data_def
          decode_string_def named_def lower_char_def wager_message_zero_def wager_data_zero_def)
  qed
  moreover have "message_Validate reading_env full_wager = Inr ()"
  proof -
    have "rfc3339 ''2026-01-01T00:00:00Z''" by code_simp
    moreover have "isOpaque ''m''" by (simp add: isOpaque_def trimmed_def runes_ascii Let_def is_space_def is_control_def)
    ultimately show ?thesis
      by (simp add: message_Validate_def full_wager_def reading_env_def fresh_env_def strict_env_def tag_accepts_def
          value_required_def Collect_failures_def OrNil_def WagerTransactionRequested_def runes_ascii)
  qed
  ultimately show ?thesis by (simp add: message_Decode_def)
qed

definition full_input :: process_input where
  "full_input = sample_input\<lparr>pi_origin := Queue, pi_correlationID := ''m'', pi_messageID := ''m'',
     pi_rawBodyHash := HashBytes (json_print False full_document)\<rparr>"

lemma full_delivered: "delivery_input reading_env (deliveryOf full_message) = Inr full_input"
proof -
  have b: "dm_body (deliveryOf full_message) = json_print False full_document"
    "dm_attributes (deliveryOf full_message) = []"
    by (simp_all add: deliveryOf_def full_message_def aws_ToString_def)
  have "e_uuid_parse reading_env = (\<lambda>t. Some (if t = ''w'' then 1 else 2))" by (simp add: reading_env_def)
  then show ?thesis
    by (simp add: delivery_input_def b full_decoded full_wager_def WagerInputFromMessage_def Identifier_def OrNil_def
        kind_of_string_def full_input_def sample_input_def message_Reference_def correlationOf_def
        Attribute_def CorrelationID_def)
qed

lemma full_valid: "valid_input reading_env full_input"
proof -
  have "process_checks full_input = process_checks sample_input" by (simp add: full_input_def process_checks_def)
  moreover have "process_Validate reading_env full_input = process_Validate fresh_env sample_input"
    by (simp add: process_Validate_def reading_env_def full_input_def process_checks_def sample_input_def fresh_env_def strict_env_def
        checkReferencePolicy_def checkInputAmountPolicy_def idempotencyKeyField_def Collect_failures_def)
  ultimately show ?thesis
    using sample_valid by (simp add: valid_input_def full_input_def kind_input_def origin_External_def not_blank_letter)
qed


end
