(* ===== verification/Queries.thy ===== *)
theory Queries
  imports Calm Inputs RetryPending Frame
begin

text \<open>
  The use cases that only read: \<open>find_wallet.go\<close>, \<open>find_wager_transaction.go\<close>,
  \<open>list_wallet_ledger.go\<close> and \<open>reconcile_wallet.go\<close> of \<open>internal/application/usecase\<close>, with the
  mappers \<open>ledger_page_mapper.go\<close> and \<open>reconciliation_mapper.go\<close>. The divergence counter of
  \<open>reconcile_wallet.go\<close> and its logs are left out.

  Facts: they change nothing; where nothing fails they answer exactly what the book holds;
  following the cursor lists a whole ledger once, in order; reconciliation compares the balance
  with the sum of the entries exactly, and finds every wallet of an invariant book consistent.
\<close>

section \<open>The code\<close>

definition findWallet_Execute :: "uow_settings \<Rightarrow> uuid \<Rightarrow> wallet M" where
  "findWallet_Execute unitOfWork walletID =
     bindM (uow_Read unitOfWork (Wallets_Find walletID)) (\<lambda>found.
     case found of None \<Rightarrow> throwM (EWalletStore WalletNotFound) | Some w \<Rightarrow> returnM w)"

definition findTransaction_read :: "uow_settings \<Rightarrow> tx option M \<Rightarrow> tx M" where
  "findTransaction_read unitOfWork query =
     bindM (uow_Read unitOfWork query) (\<lambda>found.
     case found of None \<Rightarrow> throwM (EWagering WageringNotFound) | Some t \<Rightarrow> returnM t)"

definition findTransaction_ByID :: "uow_settings \<Rightarrow> uuid \<Rightarrow> tx M" where
  "findTransaction_ByID unitOfWork transactionID =
     findTransaction_read unitOfWork (Transactions_FindByID transactionID)"

definition findTransaction_ByExternalID :: "uow_settings \<Rightarrow> string \<Rightarrow> string \<Rightarrow> tx M" where
  "findTransaction_ByExternalID unitOfWork providerID externalTransactionID =
     findTransaction_read unitOfWork (Transactions_FindByExternalID providerID externalTransactionID)"

record ledger_page =
  lp_entries :: "ledger_entry list"
  lp_nextCursor :: i64
  lp_hasMore :: bool

definition LedgerPage :: "ledger_entry list \<Rightarrow> int \<Rightarrow> ledger_page" where
  "LedgerPage entries limit =
     (let hasMore = limit < int (length entries);
          kept = (if hasMore then take (nat limit) entries else entries) in
      \<lparr>lp_entries = kept,
       lp_nextCursor = (if hasMore \<and> kept \<noteq> [] then le_walletVersion (last kept) else 0),
       lp_hasMore = hasMore\<rparr>)"

definition list_closure :: "list_input \<Rightarrow> ledger_page M" where
  "list_closure input =
     bindM (Wallets_Find (li_walletID input)) (\<lambda>found.
     case found of
       None \<Rightarrow> throwM (EWalletStore WalletNotFound)
     | Some w \<Rightarrow>
         bindM (Ledger_ListAfterVersion (li_walletID input) (li_afterVersion input) (nat (li_limit input + 1)))
           (\<lambda>entries. returnM (LedgerPage entries (li_limit input))))"

definition list_Execute :: "uow_settings \<Rightarrow> list_input \<Rightarrow> ledger_page M" where
  "list_Execute unitOfWork input =
     bindM (askM (\<lambda>c. c)) (\<lambda>c.
     bindM (liftR (list_Validate c input)) (\<lambda>_. uow_Read unitOfWork (list_closure input)))"

record reconciliation =
  rn_walletID :: uuid
  rn_storedBalance :: money
  rn_calculatedBalance :: money
  rn_difference :: money
  rn_consistent :: bool
  rn_checkedEntries :: i64

definition Reconciliation :: "wallet \<Rightarrow> ledger_totals \<Rightarrow> reconciliation result" where
  "Reconciliation account totals =
     bindR (Sub (w_balance account) (lt_balance totals)) (\<lambda>difference.
     Inr \<lparr>rn_walletID = w_id account, rn_storedBalance = w_balance account,
       rn_calculatedBalance = lt_balance totals, rn_difference = difference,
       rn_consistent = IsZero difference, rn_checkedEntries = lt_entries totals\<rparr>)"

definition reconcile_closure :: "uuid \<Rightarrow> reconciliation M" where
  "reconcile_closure walletID =
     bindM (Wallets_Find walletID) (\<lambda>found.
     case found of
       None \<Rightarrow> throwM (EWalletStore WalletNotFound)
     | Some w \<Rightarrow>
         bindM (Ledger_Totals walletID (currency (w_balance w))) (\<lambda>totals.
         liftR (Reconciliation w totals)))"

definition reconcile_Execute :: "uow_settings \<Rightarrow> uuid \<Rightarrow> reconciliation M" where
  "reconcile_Execute unitOfWork walletID = uow_Read unitOfWork (reconcile_closure walletID)"

section \<open>Nothing changes\<close>

named_theorems reads "computations that change no table"

declare reading.rules [reads] reading.stmt [reads]

lemma reads_repositories [reads]:
  "follows reads_only (Wallets_Find i)" "follows reads_only (Transactions_findOne P)"
  "follows reads_only (Ledger_ListAfterVersion i v n)" "follows reads_only (Ledger_Totals i cur)"
  "follows reads_only (Wallets_FindByPlayer p cur)" "follows reads_only Transactions_CountPending"
  "follows reads_only (Outbox_PendingStats now)"
  unfolding Wallets_Find_def Wallets_findOne_def Wallets_FindByPlayer_def Transactions_findOne_def scan_one_def
    Ledger_ListAfterVersion_def Ledger_Totals_def Transactions_CountPending_def Outbox_PendingStats_def
  by (auto simp: sql_select_wallets_def sql_select_transactions_def sql_list_after_version_def sql_totals_def
      sql_count_pending_def sql_pending_stats_def Let_def split: if_splits intro!: reads)

lemma reads_closures [reads]: "follows reads_only (list_closure input)" "follows reads_only (reconcile_closure i)"
  by (auto simp: list_closure_def reconcile_closure_def intro!: reads)

lemma reads_queries:
  "follows reads_only (findWallet_Execute u i)" "follows reads_only (findTransaction_ByID u i)"
  "follows reads_only (findTransaction_ByExternalID u p x)" "follows reads_only (list_Execute u input)"
  "follows reads_only (reconcile_Execute u i)" "follows reads_only (retry_ReportPending u)"
  unfolding findWallet_Execute_def findTransaction_ByID_def findTransaction_ByExternalID_def list_Execute_def
    findTransaction_read_def reconcile_Execute_def Transactions_FindByID_def Transactions_FindByExternalID_def
    retry_ReportPending_def
  by (intro reads reading.unit_read)+

section \<open>What is answered where nothing fails\<close>

lemma calm_answer:
  assumes c: "calm c" and np: "r \<noteq> Inl EPanic"
    and fn: "\<And>k. wpM fn c (s\<lparr>st_tick := k\<rparr>) (\<lambda>x _. r = Inr x) (\<lambda>e _. r = Inl e)"
  shows "fst (uow_Read u fn c s) = r"
proof -
  have "wpM (uow_run True fn) c s (\<lambda>x _. r = Inr x) (\<lambda>e _. r = Inl e)"
    by (rule calm_run [OF c]) (rule wpM_mono [OF fn], use np in auto)
  then show ?thesis
    unfolding uow_Read_def by (cases "uow_run True fn c s") (auto simp: wpM_def split: sum.splits)
qed

text \<open>Reading back the first row that matches.\<close>

lemma scan_one_find:
  "list_all2 (\<lambda>r x. scan r = Inr x \<and> (P r \<longleftrightarrow> p x)) rs xs \<Longrightarrow> scan_one scan (filter P rs) = returnM (find p xs)"
  by (induction rule: list_all2_induct)
    (auto simp: scan_one_def first_row_def returnM_def liftR_def)

lemma wallet_rows:
  assumes "represents d B" "\<forall>w \<in> set (bk_wallets B). wallet_inv w"
  shows "list_all2 (\<lambda>r w. scanWallet r = Inr w \<and> (wr_id r = i \<longleftrightarrow> w_id w = i)) (db_wallets d) (bk_wallets B)"
  using assms by (auto simp: represents_tables list_all2_map1 intro!: list.rel_refl_strong)

lemma calm_Wallets_Find:
  assumes c: "calm c" and r: "represents (st_db s) B" "\<forall>w \<in> set (bk_wallets B). wallet_inv w"
  shows "wpM (Wallets_Find i) c s Q E \<longleftrightarrow> Q (find (\<lambda>w. w_id w = i) (bk_wallets B)) (s\<lparr>st_tick := st_tick s + 1\<rparr>)"
  using scan_one_find [OF wallet_rows [OF r]]
  by (simp add: Wallets_Find_def Wallets_findOne_def wp_bindM wp_mapErrM calm_statement [OF c] sql_select_wallets_def
      wp_returnM)

lemma joined_rows:
  assumes "holds d B"
  shows "list_all2 (\<lambda>r t. scanTransaction r = Inr t \<and> fst r = tx_row_of t) (joined d) (bk_txs B)"
proof -
  have h: "represents d B" "book_inv B" using assms by (simp_all add: holds_def)
  have di: "distinct (map t_id (bk_txs B))" using h(2) by (simp add: book_inv_def txs_ok_def)
  have l: "list_all2 (\<lambda>r t. fst r = tx_row_of t) (joined d) (bk_txs B)"
    using joined_book(1) [OF h] by (simp add: list_eq_iff_nth_eq list_all2_conv_all_nth)
  show ?thesis
  proof (rule list.rel_mono_strong [OF l])
    fix r t assume r: "r \<in> set (joined d)" and t: "t \<in> set (bk_txs B)" "fst r = tx_row_of t"
    obtain t' where t': "t' \<in> set (bk_txs B)" "fst r = tx_row_of t'" "scanTransaction r = Inr t'"
      using joined_book(2) [OF h, of "fst r" "snd r"] r by auto
    have "t_id t' = t_id t" using t(2) t'(2) by (metis tx_row_sel(1))
    then show "scanTransaction r = Inr t \<and> fst r = tx_row_of t" using id_unique(1) [OF di t'(1) t(1)] t t' by simp
  qed
qed

lemma calm_Transactions_findOne:
  assumes c: "calm c" and h: "holds (st_db s) B"
  shows "wpM (Transactions_findOne P) c s Q E \<longleftrightarrow> Q (find (\<lambda>t. P (tx_row_of t)) (bk_txs B)) (s\<lparr>st_tick := st_tick s + 1\<rparr>)"
proof -
  have "list_all2 (\<lambda>r t. scanTransaction r = Inr t \<and> ((case r of (t, c) \<Rightarrow> P t) \<longleftrightarrow> P (tx_row_of t))) (joined (st_db s)) (bk_txs B)"
    by (rule list.rel_mono_strong [OF joined_rows [OF h]]) (auto split: prod.splits)
  from scan_one_find [OF this] show ?thesis
    by (simp add: Transactions_findOne_def wp_bindM wp_mapErrM calm_statement [OF c] sql_select_transactions_def wp_returnM)
qed

section \<open>A ledger in order\<close>

text \<open>The entries of a wallet come in the order of their versions, each one more than the last.\<close>

lemma chain_versions:
  "chain b v es b' v' \<Longrightarrow> map (\<lambda>e. sint (le_walletVersion e)) es = map (\<lambda>k. v + 1 + int k) [0..<length es]"
proof (induction es arbitrary: b v)
  case (Cons e es)
  then have "chain (amount_of (le_balanceAfter e)) (v + 1) es b' v'" by simp
  from Cons.IH [OF this] have "map (\<lambda>e. sint (le_walletVersion e)) es = map (\<lambda>k. v + 1 + 1 + int k) [0..<length es]" .
  moreover have "[0..<length (e # es)] = 0 # map Suc [0..<length es]" by (simp add: upt_conv_Cons map_Suc_upt del: upt_Suc)
  ultimately show ?case using Cons.prems by (simp add: add.assoc)
qed simp

definition in_order :: "ledger_entry list \<Rightarrow> bool" where
  "in_order es \<longleftrightarrow> sorted_wrt (\<lambda>e e'. sint (le_walletVersion e) < sint (le_walletVersion e')) es"

lemma chain_in_order: "chain b v es b' v' \<Longrightarrow> in_order es"
proof -
  assume "chain b v es b' v'"
  then have m: "map (\<lambda>e. sint (le_walletVersion e)) es = map (\<lambda>k. v + 1 + int k) [0..<length es]"
    by (rule chain_versions)
  have "sorted_wrt (<) (map (\<lambda>k. v + 1 + int k) [0..<length es])"
    by (simp add: sorted_wrt_map sorted_wrt_upt)
  then have "sorted_wrt (<) (map (\<lambda>e. sint (le_walletVersion e)) es)" unfolding m .
  then show ?thesis by (simp add: in_order_def sorted_wrt_map)
qed

lemma ledger_in_order: "book_inv B \<Longrightarrow> w \<in> set (bk_wallets B) \<Longrightarrow> in_order (entries_of (w_id w) (bk_entries B))"
  by (auto simp: book_inv_def entries_ok_def wallet_chain_def intro: chain_in_order)

definition later :: "i64 \<Rightarrow> ledger_entry list \<Rightarrow> ledger_entry list" where
  "later after es = filter (\<lambda>e. after <s le_walletVersion e) es"

lemma in_order_later: "in_order es \<Longrightarrow> in_order (later after es)"
  by (simp add: in_order_def later_def sorted_wrt_filter)

lemma list_rows:
  assumes r: "represents d B" and o: "in_order (entries_of i (bk_entries B))"
  shows "sql_list_after_version i after n d = Inr (map entry_row_of (take n (later after (entries_of i (bk_entries B)))), d)"
proof -
  have f: "filter (\<lambda>e. er_wallet_id e = i \<and> after <s er_wallet_version e) (db_entries d)
      = map entry_row_of (later after (entries_of i (bk_entries B)))"
    using represents_tables(3) [OF r] by (simp add: filter_map comp_def later_def entries_of_def conj_commute)
  have "sorted (map (\<lambda>e. sint (er_wallet_version e)) (map entry_row_of (later after (entries_of i (bk_entries B)))))"
    using in_order_later [OF o, of after] by (simp add: in_order_def comp_def sorted_map sorted_wrt_mono_rel [OF less_imp_le])
  then show ?thesis by (simp add: sql_list_after_version_def f sort_key_id_if_sorted take_map)
qed

text \<open>The page that belongs to a cursor.\<close>

definition page_of :: "ledger_entry list \<Rightarrow> i64 \<Rightarrow> int \<Rightarrow> ledger_page" where
  "page_of es after limit =
     (let rest = later after es; more = nat limit < length rest; kept = take (nat limit) rest in
      \<lparr>lp_entries = kept, lp_nextCursor = (if more \<and> kept \<noteq> [] then le_walletVersion (last kept) else 0),
       lp_hasMore = more\<rparr>)"

lemma LedgerPage_page_of:
  assumes "0 < limit"
  shows "LedgerPage (take (nat (limit + 1)) (later after es)) limit = page_of es after limit"
proof -
  have n: "nat (limit + 1) = Suc (nat limit)" using assms by simp
  show ?thesis
    using assms by (auto simp: LedgerPage_def page_of_def Let_def n min_def)
qed

lemma calm_list_closure:
  assumes c: "calm c" and h: "holds (st_db s) B" and w: "w \<in> set (bk_wallets B)" "w_id w = li_walletID input"
    and l: "0 < li_limit input"
  shows "wpM (list_closure input) c s
    (\<lambda>p s'. p = page_of (entries_of (w_id w) (bk_entries B)) (li_afterVersion input) (li_limit input)
      \<and> st_db s' = st_db s) (\<lambda>_ _. False)"
proof -
  have r: "represents (st_db s) B" and inv: "book_inv B" using h by (simp_all add: holds_def)
  have wi: "\<forall>w \<in> set (bk_wallets B). wallet_inv w" using book_wallet_inv [OF inv] by simp
  obtain x where f: "find (\<lambda>w. w_id w = li_walletID input) (bk_wallets B) = Some x"
    using w by (cases "find (\<lambda>w. w_id w = li_walletID input) (bk_wallets B)") (auto simp: find_None_iff)
  have o: "in_order (entries_of (li_walletID input) (bk_entries B))" using ledger_in_order [OF inv w(1)] w(2) by simp
  have sc: "scan_all scanLedgerEntry (map entry_row_of xs) = Inr xs" if "set xs \<subseteq> set (bk_entries B)" for xs
  proof -
    have "\<forall>e \<in> set (bk_entries B). entry_inv e" using inv by (auto simp: book_inv_def entries_ok_def)
    with that have "\<forall>e \<in> set xs. entry_inv e" by blast
    then show ?thesis by (induction xs) simp_all
  qed
  let ?xs = "take (nat (li_limit input + 1)) (later (li_afterVersion input) (entries_of (li_walletID input) (bk_entries B)))"
  have "set ?xs \<subseteq> set (bk_entries B)"
    by (auto simp: later_def entries_of_def dest!: in_set_takeD)
  note sc = sc [OF this]
  show ?thesis
    unfolding list_closure_def wp_bindM [of "Wallets_Find i" for i] calm_Wallets_Find [OF c r wi] f option.case
      Ledger_ListAfterVersion_def wp_bindM wp_mapErrM calm_statement [OF c]
    using list_rows [OF r o] sc LedgerPage_page_of [OF l] w(2) by (simp add: wp)
qed

lemma calm_list_Execute:
  assumes c: "calm c" and h: "holds (st_db s) B" and w: "w \<in> set (bk_wallets B)" "w_id w = li_walletID input"
    and l: "0 < li_limit input" and v: "list_Validate c input = Inr ()"
  shows "wpM (list_Execute u input) c s
    (\<lambda>p s'. p = page_of (entries_of (w_id w) (bk_entries B)) (li_afterVersion input) (li_limit input)
      \<and> st_db s' = st_db s) (\<lambda>_ _. False)"
proof -
  have cl: "wpM (list_closure input) c (s\<lparr>st_tick := k\<rparr>)
    (\<lambda>p s'. p = page_of (entries_of (w_id w) (bk_entries B)) (li_afterVersion input) (li_limit input)
      \<and> st_db s' = st_db s) (\<lambda>_ _. False)" for k
    using calm_list_closure [OF c _ w l, of "s\<lparr>st_tick := k\<rparr>"] h by simp
  have "wpM (uow_Read u (list_closure input)) c s
    (\<lambda>p s'. p = page_of (entries_of (w_id w) (bk_entries B)) (li_afterVersion input) (li_limit input)
      \<and> st_db s' = st_db s) (\<lambda>_ _. False)"
    unfolding uow_Read_def by (rule calm_run [OF c]) (rule wpM_mono [OF cl], simp_all)
  with v show ?thesis by (simp add: list_Execute_def wp)
qed

section \<open>Following the cursor\<close>

text \<open>A client that asks for the next page as long as there is one.\<close>

fun read_ledger :: "nat \<Rightarrow> uow_settings \<Rightarrow> list_input \<Rightarrow> ledger_entry list M" where
  "read_ledger 0 unitOfWork input = returnM []"
| "read_ledger (Suc n) unitOfWork input =
     bindM (list_Execute unitOfWork input) (\<lambda>page.
     if lp_hasMore page
     then bindM (read_ledger n unitOfWork (input\<lparr>li_afterVersion := lp_nextCursor page\<rparr>))
       (\<lambda>rest. returnM (lp_entries page @ rest))
     else returnM (lp_entries page))"

lemma later_after_page:
  assumes o: "in_order es" and ne: "take n (later v es) \<noteq> []"
  shows "take n (later v es) @ later (le_walletVersion (last (take n (later v es)))) es = later v es"
proof -
  let ?l = "later v es" and ?c = "le_walletVersion (last (take n (later v es)))"
  have ol: "in_order ?l" by (rule in_order_later [OF o])
  have c: "last (take n ?l) \<in> set (take n ?l)" using ne last_in_set by blast
  have lt: "v <s ?c" using c by (auto simp: later_def dest!: in_set_takeD)
  have l: "later ?c es = later ?c ?l"
    using lt by (auto simp: later_def i64_less intro!: filter_cong)
  have split: "sorted_wrt (\<lambda>e e'. sint (le_walletVersion e) < sint (le_walletVersion e')) (take n ?l @ drop n ?l)"
    using ol by (simp add: in_order_def)
  let ?lt = "\<lambda>e e'. sint (le_walletVersion e) < sint (le_walletVersion e')"
  have parts: "sorted_wrt ?lt (take n ?l)" "\<forall>a \<in> set (take n ?l). \<forall>b \<in> set (drop n ?l). ?lt a b"
    using split unfolding sorted_wrt_append by blast+
  have "sorted_wrt ?lt (butlast (take n ?l) @ [last (take n ?l)])" using parts(1) ne by simp
  then have front: "\<forall>a \<in> set (butlast (take n ?l)). ?lt a (last (take n ?l))" unfolding sorted_wrt_append by simp
  have hd: "\<not> ?c <s le_walletVersion e" if "e \<in> set (take n ?l)" for e
  proof -
    have "set (take n ?l) = set (butlast (take n ?l) @ [last (take n ?l)])" using ne by simp
    then have "e \<in> set (butlast (take n ?l)) \<or> e = last (take n ?l)" using that by auto
    then show ?thesis using front by (auto simp: i64_less)
  qed
  have tl: "?c <s le_walletVersion e" if "e \<in> set (drop n ?l)" for e
    using parts(2) c that by (simp only: i64_less)
  have "later ?c ?l = later ?c (take n ?l) @ later ?c (drop n ?l)"
    unfolding later_def filter_append [symmetric] append_take_drop_id ..
  also have "later ?c (take n ?l) = []" unfolding later_def [of ?c] using hd by (simp add: filter_empty_conv)
  also have "later ?c (drop n ?l) = drop n ?l" unfolding later_def [of ?c] using tl by (simp add: filter_id_conv)
  finally show ?thesis by (simp add: l)
qed

lemma read_ledger_later:
  assumes c: "calm c" and h: "holds (st_db s) B" and w: "w \<in> set (bk_wallets B)" "w_id w = li_walletID input"
    and l: "0 < li_limit input" and v: "\<And>cur. 0 \<le> sint cur \<Longrightarrow> list_Validate c (input\<lparr>li_afterVersion := cur\<rparr>) = Inr ()"
    and a: "0 \<le> sint (li_afterVersion input)"
    and n: "length (later (li_afterVersion input) (entries_of (w_id w) (bk_entries B))) < n"
  shows "wpM (read_ledger n u input) c s
    (\<lambda>es _. es = later (li_afterVersion input) (entries_of (w_id w) (bk_entries B))) (\<lambda>_ _. False)"
  using h w(2) l v a n
proof (induction n arbitrary: s input)
  case (Suc n)
  let ?es = "entries_of (w_id w) (bk_entries B)" and ?v = "li_afterVersion input" and ?l = "nat (li_limit input)"
  have inv: "book_inv B" using Suc.prems(1) by (simp add: holds_def)
  note o = ledger_in_order [OF inv w(1)]
  have val: "list_Validate c input = Inr ()" using Suc.prems(4) [OF Suc.prems(5)] by simp
  note page = calm_list_Execute [OF c Suc.prems(1) w(1) Suc.prems(2,3) val, of u]
  show ?case
  proof (cases "?l < length (later ?v ?es)")
    case False
    then show ?thesis by (simp add: wp) (rule wpM_mono [OF page], simp_all add: page_of_def Let_def)
  next
    case True
    let ?p = "page_of ?es ?v (li_limit input)" and ?c = "le_walletVersion (last (take ?l (later ?v ?es)))"
    have ne: "take ?l (later ?v ?es) \<noteq> []" using True Suc.prems(3) by (cases "later ?v ?es") auto
    have p: "lp_hasMore ?p" "lp_nextCursor ?p = ?c" "lp_entries ?p = take ?l (later ?v ?es)"
      using True ne by (simp_all add: page_of_def Let_def)
    have j: "take ?l (later ?v ?es) @ later ?c ?es = later ?v ?es" by (rule later_after_page [OF o ne])
    have "last (take ?l (later ?v ?es)) \<in> set (later ?v ?es)" using ne by (meson in_set_takeD last_in_set)
    then have pos: "0 \<le> sint ?c" using Suc.prems(5) by (auto simp: later_def i64_less)
    have "length (take ?l (later ?v ?es)) + length (later ?c ?es) = length (later ?v ?es)"
      using arg_cong [OF j, of length] by simp
    then have len: "length (later ?c ?es) < n" using Suc.prems(6) ne by (cases "take ?l (later ?v ?es)") simp_all
    have again: "wpM (read_ledger n u (input\<lparr>li_afterVersion := ?c\<rparr>)) c s' (\<lambda>es _. es = later ?c ?es) (\<lambda>_ _. False)"
      if "st_db s' = st_db s" for s'
      using Suc.IH [of s' "input\<lparr>li_afterVersion := ?c\<rparr>"] Suc.prems that pos len by simp
    have "wpM (read_ledger n u (input\<lparr>li_afterVersion := lp_nextCursor ?p\<rparr>)) c s'
        (\<lambda>es _. lp_entries ?p @ es = later ?v ?es) (\<lambda>_ _. False)" if "st_db s' = st_db s" for s'
      unfolding p(2,3) by (rule wpM_mono [OF again [OF that]]) (simp_all add: j)
    then show ?thesis
      by (simp add: wp) (rule wpM_mono [OF page], auto simp: p(1))
  qed
qed simp

section \<open>Reconciliation\<close>

lemma totals_rows:
  assumes r: "represents d B" and e: "\<forall>e \<in> set (bk_entries B). entry_inv e"
  shows "sum_list (map signed_minor (filter (\<lambda>e. er_wallet_id e = i) (db_entries d)))
      = sum_list (map (\<lambda>e. signed_amount (le_direction e) (le_amount e)) (entries_of i (bk_entries B)))"
    and "length (filter (\<lambda>e. er_wallet_id e = i) (db_entries d)) = length (entries_of i (bk_entries B))"
proof -
  have f: "filter (\<lambda>e. er_wallet_id e = i) (db_entries d) = map entry_row_of (entries_of i (bk_entries B))"
    using represents_tables(3) [OF r] by (simp add: filter_map comp_def entries_of_def)
  have "signed_minor (entry_row_of e) = signed_amount (le_direction e) (le_amount e)" if "e \<in> set (entries_of i (bk_entries B))" for e
    using that assms(2) by (auto simp: signed_minor_def entries_of_def entry_inv_def direction_Valid_def amount_of_def)
  then show "sum_list (map signed_minor (filter (\<lambda>e. er_wallet_id e = i) (db_entries d)))
      = sum_list (map (\<lambda>e. signed_amount (le_direction e) (le_amount e)) (entries_of i (bk_entries B)))"
    unfolding f by (simp add: comp_def cong: map_cong)
  show "length (filter (\<lambda>e. er_wallet_id e = i) (db_entries d)) = length (entries_of i (bk_entries B))"
    unfolding f by simp
qed

text \<open>What the entries of a wallet add up to.\<close>

definition ledger_sum :: "book \<Rightarrow> uuid \<Rightarrow> int" where
  "ledger_sum B i = sum_list (map (\<lambda>e. signed_amount (le_direction e) (le_amount e)) (entries_of i (bk_entries B)))"

text \<open>
  The books reconciliation is asked about: rows that can be read, whether or not balance and
  entries agree.
\<close>

definition readable :: "book \<Rightarrow> bool" where
  "readable B \<longleftrightarrow> (\<forall>w \<in> set (bk_wallets B). wallet_inv w) \<and> distinct (map w_id (bk_wallets B))
     \<and> (\<forall>e \<in> set (bk_entries B). entry_inv e)"

lemma book_readable: "book_inv B \<Longrightarrow> readable B"
  by (auto simp: readable_def book_inv_def wallets_ok_def entries_ok_def)

definition report_of :: "wallet \<Rightarrow> int \<Rightarrow> nat \<Rightarrow> reconciliation" where
  "report_of w sm n = \<lparr>rn_walletID = w_id w, rn_storedBalance = w_balance w,
     rn_calculatedBalance = \<lparr>minor = of_int sm, currency = currency (w_balance w)\<rparr>,
     rn_difference = \<lparr>minor = minor (w_balance w) - of_int sm, currency = currency (w_balance w)\<rparr>,
     rn_consistent = (amount_of (w_balance w) = sm), rn_checkedEntries = of_nat n\<rparr>"

lemma find_by_id: "distinct (map w_id ws) \<Longrightarrow> w \<in> set ws \<Longrightarrow> find (\<lambda>x. w_id x = w_id w) ws = Some w"
  by (induction ws) auto

lemma calm_reconcile:
  assumes c: "calm c" and r: "represents (st_db s) B" and rd: "readable B" and w: "w \<in> set (bk_wallets B)"
    and t: "- (2 ^ 63) \<le> ledger_sum B (w_id w)" "ledger_sum B (w_id w) < 2 ^ 63"
      "amount_of (w_balance w) - ledger_sum B (w_id w) < 2 ^ 63"
  shows "fst (reconcile_Execute u (w_id w) c s) = Inr (report_of w (ledger_sum B (w_id w)) (length (entries_of (w_id w) (bk_entries B))))"
  unfolding reconcile_Execute_def
proof (rule calm_answer [OF c])
  let ?t = "ledger_sum B (w_id w)" and ?n = "length (entries_of (w_id w) (bk_entries B))"
  have wi: "\<forall>w \<in> set (bk_wallets B). wallet_inv w" "\<forall>e \<in> set (bk_entries B). entry_inv e"
    "distinct (map w_id (bk_wallets B))" using rd by (auto simp: readable_def)
  have tot: "sql_totals (w_id w) (st_db s) = Inr ((of_int ?t, of_nat ?n), st_db s)"
    using t totals_rows [OF r wi(2), of "w_id w"] by (simp add: sql_totals_def Let_def ledger_sum_def)
  have v: "Valid (w_balance w)" "0 \<le> amount_of (w_balance w)" "Supported (currency (w_balance w))"
    using wi(1) w by (auto simp: wallet_inv_def Valid_def)
  have st: "sint (of_int ?t :: i64) = ?t" using t by (simp add: sint_of_int_i64 wrap64_id)
  have rec: "Reconciliation w \<lparr>lt_balance = \<lparr>minor = of_int ?t, currency = currency (w_balance w)\<rparr>, lt_entries = of_nat ?n\<rparr>
      = Inr (report_of w ?t ?n)"
    using v t st i64_range [of "minor (w_balance w)"]
    by (auto simp: Reconciliation_def Sub_def bindR_eq_Inr subExact_eq report_of_def amount_of_def IsZero_def
        Valid_def comparableWith_def i64_eq_iff sint_sub_i64 wrap64_id)
  show "wpM (reconcile_closure (w_id w)) c (s\<lparr>st_tick := k\<rparr>)
      (\<lambda>x _. Inr (report_of w ?t ?n) = Inr x) (\<lambda>e _. Inr (report_of w ?t ?n) = Inl e)" for k
    unfolding reconcile_closure_def wp_bindM [of "Wallets_Find i" for i]
    using find_by_id [OF wi(3) w] r tot rec v(3)
    by (simp add: calm_Wallets_Find [OF c, of _ B] wi(1) Ledger_Totals_def wp_bindM wp_mapErrM calm_statement [OF c] wp_liftR wp_returnM)
qed simp

lemma ledger_sum_balance: "book_inv B \<Longrightarrow> w \<in> set (bk_wallets B) \<Longrightarrow> ledger_sum B (w_id w) = amount_of (w_balance w)"
  using book_balance by (simp add: ledger_sum_def)

lemma calm_ByID:
  assumes "calm c" and "holds (st_db s) B"
  shows "fst (findTransaction_ByID u j c s) =
      (case find (\<lambda>t. t_id t = j) (bk_txs B) of None \<Rightarrow> Inl (EWagering WageringNotFound) | Some t \<Rightarrow> Inr t)"
proof -
  have "fst (uow_Read u (Transactions_FindByID j) c s) = Inr (find (\<lambda>t. t_id t = j) (bk_txs B))"
    by (rule calm_answer [OF assms(1)])
      (simp_all add: Transactions_FindByID_def calm_Transactions_findOne [OF assms(1), of _ B] assms(2))
  then show ?thesis
    by (cases "uow_Read u (Transactions_FindByID j) c s")
      (auto simp: findTransaction_ByID_def findTransaction_read_def bindM_def throwM_def returnM_def split: option.split)
qed

section \<open>Properties\<close>

text \<open>
  Reading changes nothing: whatever fails, the tables after a query are those before it.
\<close>

theorem queries_change_nothing:
  "st_db (snd (findWallet_Execute u i c s)) = st_db s
    \<and> st_db (snd (findTransaction_ByID u i c s)) = st_db s
    \<and> st_db (snd (findTransaction_ByExternalID u p x c s)) = st_db s
    \<and> st_db (snd (list_Execute u input c s)) = st_db s
    \<and> st_db (snd (reconcile_Execute u i c s)) = st_db s
    \<and> st_db (snd (retry_ReportPending u c s)) = st_db s"
  using follows_run [OF reads_queries(1)] follows_run [OF reads_queries(2)] follows_run [OF reads_queries(3)]
    follows_run [OF reads_queries(4)] follows_run [OF reads_queries(5)]
    follows_run [OF reads_queries(6)]
  by (metis prod.collapse)

text \<open>
  Where nothing fails, looking a wallet or an operation up answers exactly what the book
  holds: the wallet or the operation, or that there is none.
\<close>

theorem lookups_answer_the_book:
  assumes "calm c" and "holds (st_db s) B"
  shows "fst (findWallet_Execute u i c s) =
      (case find (\<lambda>w. w_id w = i) (bk_wallets B) of None \<Rightarrow> Inl (EWalletStore WalletNotFound) | Some w \<Rightarrow> Inr w)
    \<and> fst (findTransaction_ByID u j c s) =
      (case find (\<lambda>t. t_id t = j) (bk_txs B) of None \<Rightarrow> Inl (EWagering WageringNotFound) | Some t \<Rightarrow> Inr t)"
proof
  have r: "represents (st_db s) B" and wi: "\<forall>w \<in> set (bk_wallets B). wallet_inv w"
    using assms(2) book_wallet_inv by (auto simp: holds_def)
  have "fst (uow_Read u (Wallets_Find i) c s) = Inr (find (\<lambda>w. w_id w = i) (bk_wallets B))"
    by (rule calm_answer [OF assms(1)]) (simp_all add: calm_Wallets_Find [OF assms(1), of _ B] r wi)
  then show "fst (findWallet_Execute u i c s) =
      (case find (\<lambda>w. w_id w = i) (bk_wallets B) of None \<Rightarrow> Inl (EWalletStore WalletNotFound) | Some w \<Rightarrow> Inr w)"
    by (cases "uow_Read u (Wallets_Find i) c s")
      (auto simp: findWallet_Execute_def bindM_def throwM_def returnM_def split: option.split)
  show "fst (findTransaction_ByID u j c s) =
      (case find (\<lambda>t. t_id t = j) (bk_txs B) of None \<Rightarrow> Inl (EWagering WageringNotFound) | Some t \<Rightarrow> Inr t)"
    by (rule calm_ByID [OF assms])
qed

lemma quiet_sample_holds: "holds (st_db sample_st) sample_book"
  by (simp add: sample_st_def sample_holds)

theorem lookups_answer_the_book_witness:
  "fst (findWallet_Execute sample_uow 1 quiet_env sample_st) = Inr (sample_wallet\<lparr>w_balance := \<lparr>minor = 0, currency = BRL\<rparr>\<rparr>)
    \<and> fst (findTransaction_ByID sample_uow 9 quiet_env sample_st) = Inl (EWagering WageringNotFound)"
  using lookups_answer_the_book [OF quiet_calm quiet_sample_holds, of sample_uow 1 9]
  by (simp add: sample_book_def empty_book_def sample_wallet_def)

text \<open>
  C34. Following the cursor reads a ledger completely: a client that starts at the beginning and
  asks for the next page as long as there is one gets every entry of the wallet once, in the
  order of the versions, for every page size.
\<close>

theorem ledger_read_once:
  assumes "calm c" and "holds (st_db s) B" and "w \<in> set (bk_wallets B)" and "w_id w = li_walletID input"
    and "0 < li_limit input" and "\<And>v. 0 \<le> sint v \<Longrightarrow> list_Validate c (input\<lparr>li_afterVersion := v\<rparr>) = Inr ()"
    and "li_afterVersion input = 0" and "length (entries_of (w_id w) (bk_entries B)) < n"
  shows "fst (read_ledger n u input c s) = Inr (entries_of (w_id w) (bk_entries B))"
proof -
  have "0 <s le_walletVersion e" if "e \<in> set (entries_of (w_id w) (bk_entries B))" for e
  proof -
    have "e \<in> set (bk_entries B)" using that by (simp add: entries_of_def)
    then have "entry_inv e" using assms(2) by (auto simp: holds_def book_inv_def entries_ok_def)
    then show ?thesis by (simp add: entry_inv_def i64_less)
  qed
  then have l: "later (li_afterVersion input) (entries_of (w_id w) (bk_entries B)) = entries_of (w_id w) (bk_entries B)"
    by (simp add: later_def assms(7) filter_id_conv)
  have "wpM (read_ledger n u input) c s (\<lambda>es _. es = entries_of (w_id w) (bk_entries B)) (\<lambda>_ _. False)"
    using read_ledger_later [OF assms(1-5), of n u] assms(6-8) unfolding l by simp
  then show ?thesis by (cases "read_ledger n u input c s") (auto simp: wpM_def split: sum.splits)
qed

theorem ledger_read_once_witness:
  "fst (read_ledger 1 sample_uow \<lparr>li_walletID = 1, li_afterVersion = 0, li_limit = 10\<rparr> quiet_env sample_st) = Inr []"
proof -
  let ?w = "sample_wallet\<lparr>w_balance := \<lparr>minor = 0, currency = BRL\<rparr>\<rparr>"
  have "fst (read_ledger 1 sample_uow \<lparr>li_walletID = 1, li_afterVersion = 0, li_limit = 10\<rparr> quiet_env sample_st)
      = Inr (entries_of (w_id ?w) (bk_entries sample_book))"
    by (rule ledger_read_once [OF quiet_calm quiet_sample_holds])
      (simp_all add: sample_book_def empty_book_def sample_wallet_def entries_of_def list_Validate_def OrNil_def
        Collect_failures_def quiet_env_def)
  then show ?thesis by (simp add: sample_book_def empty_book_def entries_of_def)
qed


text \<open>A wallet with a hundred and no entry to show for it.\<close>

definition broken_book :: book where
  "broken_book = empty_book\<lparr>bk_wallets := [sample_wallet]\<rparr>"

definition broken_st :: st where
  "broken_st = sample_st\<lparr>st_db := sample_db\<lparr>db_wallets := [wallet_row_of sample_wallet]\<rparr>\<rparr>"


text \<open>
  Under the invariant of the service, every wallet reconciles: its balance is the sum of its
  ledger entries, and reconciliation says so.
\<close>

theorem invariant_reconciles:
  assumes "calm c" and "holds (st_db s) B" and "w \<in> set (bk_wallets B)"
  shows "\<exists>r. fst (reconcile_Execute u (w_id w) c s) = Inr r \<and> rn_consistent r \<and> rn_calculatedBalance r = w_balance w"
proof -
  have inv: "book_inv B" and rep: "represents (st_db s) B" using assms(2) by (simp_all add: holds_def)
  have sm: "ledger_sum B (w_id w) = amount_of (w_balance w)" by (rule ledger_sum_balance [OF inv assms(3)])
  have "fst (reconcile_Execute u (w_id w) c s)
      = Inr (report_of w (ledger_sum B (w_id w)) (length (entries_of (w_id w) (bk_entries B))))"
    by (rule calm_reconcile [OF assms(1) rep book_readable [OF inv] assms(3)])
      (use i64_range [of "minor (w_balance w)"] in \<open>simp_all add: sm\<close>, simp_all add: amount_of_def)
  then show ?thesis by (auto simp: report_of_def sm amount_of_def)
qed

theorem invariant_reconciles_witness:
  "\<exists>r. fst (reconcile_Execute sample_uow 1 quiet_env sample_st) = Inr r \<and> rn_consistent r"
proof -
  let ?w = "sample_wallet\<lparr>w_balance := \<lparr>minor = 0, currency = BRL\<rparr>\<rparr>"
  have "?w \<in> set (bk_wallets sample_book)" by (simp add: sample_book_def)
  from invariant_reconciles [OF quiet_calm quiet_sample_holds this, of sample_uow] show ?thesis
    by (auto simp: sample_wallet_def)
qed

end
