(* ===== verification/Responses.thy ===== *)
theory Responses
  imports Event JsonPrint Inputs Queries
begin

text \<open>
  What the API answers: the structs of \<open>http/dto.go\<close>, the problems of \<open>http/problem.go\<close> and the
  timestamps of \<open>http/request.go\<close>, down to their JSON. A struct is a record and has a function
  that gives its JSON value; \<open>None\<close> stands for a value \<open>encoding/json\<close> refuses, which only an amount
  without a currency can be. The text of a UUID is the parameter \<open>us\<close>. Facts: every response of
  the service is a document, and reading it gives back the value that was written.
\<close>

section \<open>Values\<close>

definition uuid_value :: "(uuid \<Rightarrow> string) \<Rightarrow> uuid \<Rightarrow> json option" where
  "uuid_value us i = Some (JStr (us i))"

definition text_value :: "string \<Rightarrow> json option" where
  "text_value s = Some (JStr s)"

definition int_value :: "int \<Rightarrow> json option" where
  "int_value n = Some (JNum (pad_int 0 n))"

definition bool_value :: "bool \<Rightarrow> json option" where
  "bool_value b = Some (JBool b)"

definition money_value :: "money \<Rightarrow> json option" where
  "money_value m =
     (if \<not> Valid m then None
      else Some (JObj [(''amount'', JStr (money_String m)), (''currency'', JStr (currency_String (currency m)))]))"

text \<open>\<open>timestamp.MarshalJSON\<close>.\<close>

definition timestamp_value :: "time \<Rightarrow> json option" where
  "timestamp_value t = Some (JStr (format_instant t))"

definition atOptional :: "time \<Rightarrow> time option" where
  "atOptional instant = (if instant = time_zero then None else Some instant)"

text \<open>A pointer without and with \<open>omitempty\<close>, an array, and a struct.\<close>

definition pointer_value :: "('a \<Rightarrow> json option) \<Rightarrow> 'a option \<Rightarrow> json option" where
  "pointer_value f p = (case p of None \<Rightarrow> Some JNull | Some x \<Rightarrow> f x)"

definition omitted :: "string \<Rightarrow> ('a \<Rightarrow> json option) \<Rightarrow> 'a option \<Rightarrow> (string \<times> json option) list" where
  "omitted name f p = (case p of None \<Rightarrow> [] | Some x \<Rightarrow> [(name, f x)])"

definition array_value :: "('a \<Rightarrow> json option) \<Rightarrow> 'a list \<Rightarrow> json option" where
  "array_value f xs = map_option JArr (those (map f xs))"

definition struct_value :: "(string \<times> json option) list \<Rightarrow> json option" where
  "struct_value ms = map_option JObj (those (map (\<lambda>(k, v). map_option (Pair k) v) ms))"

definition optional :: "string \<Rightarrow> string option" where
  "optional value = (if value = [] then None else Some value)"

section \<open>Wallets\<close>

record wallet_response =
  wp_ID :: uuid
  wp_PlayerID :: uuid
  wp_Balance :: money
  wp_Version :: i64
  wp_CreatedAt :: time
  wp_UpdatedAt :: time

definition walletOf :: "wallet \<Rightarrow> wallet_response" where
  "walletOf account = \<lparr>wp_ID = w_id account, wp_PlayerID = w_playerID account, wp_Balance = w_balance account,
     wp_Version = w_version account, wp_CreatedAt = w_createdAt account, wp_UpdatedAt = w_updatedAt account\<rparr>"

definition wallet_value :: "(uuid \<Rightarrow> string) \<Rightarrow> wallet_response \<Rightarrow> json option" where
  "wallet_value us r = struct_value
     [(''id'', uuid_value us (wp_ID r)), (''playerId'', uuid_value us (wp_PlayerID r)),
      (''balance'', money_value (wp_Balance r)), (''version'', int_value (sint (wp_Version r))),
      (''createdAt'', timestamp_value (wp_CreatedAt r)), (''updatedAt'', timestamp_value (wp_UpdatedAt r))]"

section \<open>Ledgers\<close>

record ledger_entry_response =
  ep_ID :: uuid
  ep_TransactionID :: uuid
  ep_Direction :: string
  ep_Money :: money
  ep_BalanceBefore :: money
  ep_BalanceAfter :: money
  ep_WalletVersion :: i64
  ep_CreatedAt :: time

record ledger_response =
  gp_WalletID :: uuid
  gp_Entries :: "ledger_entry_response list"
  gp_NextCursor :: "string option"

definition ledgerOf :: "uuid \<Rightarrow> ledger_page \<Rightarrow> string option \<Rightarrow> ledger_response" where
  "ledgerOf walletID page nextCursor =
     \<lparr>gp_WalletID = walletID,
      gp_Entries = map (\<lambda>entry. \<lparr>ep_ID = le_id entry, ep_TransactionID = le_transactionID entry,
        ep_Direction = direction_String (le_direction entry), ep_Money = le_amount entry,
        ep_BalanceBefore = le_balanceBefore entry, ep_BalanceAfter = le_balanceAfter entry,
        ep_WalletVersion = le_walletVersion entry, ep_CreatedAt = le_createdAt entry\<rparr>) (lp_entries page),
      gp_NextCursor = nextCursor\<rparr>"

definition ledger_entry_value :: "(uuid \<Rightarrow> string) \<Rightarrow> ledger_entry_response \<Rightarrow> json option" where
  "ledger_entry_value us r = struct_value
     [(''id'', uuid_value us (ep_ID r)), (''transactionId'', uuid_value us (ep_TransactionID r)),
      (''direction'', text_value (ep_Direction r)), (''money'', money_value (ep_Money r)),
      (''balanceBefore'', money_value (ep_BalanceBefore r)), (''balanceAfter'', money_value (ep_BalanceAfter r)),
      (''walletVersion'', int_value (sint (ep_WalletVersion r))), (''createdAt'', timestamp_value (ep_CreatedAt r))]"

definition ledger_value :: "(uuid \<Rightarrow> string) \<Rightarrow> ledger_response \<Rightarrow> json option" where
  "ledger_value us r = struct_value
     [(''walletId'', uuid_value us (gp_WalletID r)), (''entries'', array_value (ledger_entry_value us) (gp_Entries r)),
      (''nextCursor'', pointer_value text_value (gp_NextCursor r))]"

text \<open>The struct of \<open>reconciliationOf\<close> has the fields of the report.\<close>

definition reconciliation_value :: "(uuid \<Rightarrow> string) \<Rightarrow> reconciliation \<Rightarrow> json option" where
  "reconciliation_value us r = struct_value
     [(''walletId'', uuid_value us (rn_walletID r)), (''storedBalance'', money_value (rn_storedBalance r)),
      (''calculatedBalance'', money_value (rn_calculatedBalance r)), (''difference'', money_value (rn_difference r)),
      (''consistent'', bool_value (rn_consistent r)), (''checkedEntries'', int_value (sint (rn_checkedEntries r)))]"

section \<open>Operations\<close>

record result_response =
  rp_TransactionID :: uuid
  rp_Status :: string
  rp_Balance :: "money option"
  rp_FailureCode :: "string option"
  rp_IdempotentReplay :: bool

definition resultOf :: "process_result \<Rightarrow> result_response" where
  "resultOf res =
     \<lparr>rp_TransactionID = pr_transactionID res, rp_Status = status_String (pr_status res),
      rp_Balance = (if Valid (pr_balance res) then Some (pr_balance res) else None),
      rp_FailureCode = (if failure_String (pr_failureCode res) \<noteq> [] then Some (failure_String (pr_failureCode res)) else None),
      rp_IdempotentReplay = pr_idempotentReplay res\<rparr>"

definition result_value :: "(uuid \<Rightarrow> string) \<Rightarrow> result_response \<Rightarrow> json option" where
  "result_value us r = struct_value
     ([(''transactionId'', uuid_value us (rp_TransactionID r)), (''status'', text_value (rp_Status r))]
      @ omitted ''balance'' money_value (rp_Balance r)
      @ omitted ''failureCode'' text_value (rp_FailureCode r)
      @ [(''idempotentReplay'', bool_value (rp_IdempotentReplay r))])"

definition statusOf :: "status \<Rightarrow> nat" where
  "statusOf s = (if s = Processed then 201 else if s = PendingReference then 202 else 422)"

record pending_response =
  np_Attempts :: int
  np_NextAttemptAt :: time
  np_DeadlineAt :: time

record transaction_response =
  tp_TransactionID :: uuid
  tp_ProviderID :: "string option"
  tp_ExternalTransactionID :: "string option"
  tp_PlayerID :: uuid
  tp_WalletID :: uuid
  tp_RoundID :: "string option"
  tp_GameID :: "string option"
  tp_Kind :: string
  tp_Money :: money
  tp_ReferenceExternalTransactionID :: "string option"
  tp_ReferenceTransactionID :: "uuid option"
  tp_Status :: string
  tp_FailureCode :: "string option"
  tp_Balance :: "money option"
  tp_PendingReference :: "pending_response option"
  tp_CreatedAt :: time
  tp_UpdatedAt :: time
  tp_CompletedAt :: "time option"

definition transactionOf :: "tx \<Rightarrow> transaction_response" where
  "transactionOf operation =
     \<lparr>tp_TransactionID = t_id operation, tp_ProviderID = optional (t_providerID operation),
      tp_ExternalTransactionID = optional (t_externalTransactionID operation),
      tp_PlayerID = t_playerID operation, tp_WalletID = t_walletID operation,
      tp_RoundID = optional (t_roundID operation), tp_GameID = optional (t_gameID operation),
      tp_Kind = kind_String (t_kind operation), tp_Money = t_amount operation,
      tp_ReferenceExternalTransactionID =
        (if t_referenceExternalID operation \<noteq> [] then Some (t_referenceExternalID operation) else None),
      tp_ReferenceTransactionID =
        (if t_referenceTransactionID operation \<noteq> uuid_Nil then Some (t_referenceTransactionID operation) else None),
      tp_Status = status_String (t_status operation),
      tp_FailureCode = optional (failure_String (t_failureCode operation)),
      tp_Balance = (if Valid (t_resultBalance operation) then Some (t_resultBalance operation) else None),
      tp_PendingReference =
        (if t_status operation = PendingReference
         then Some \<lparr>np_Attempts = t_referenceAttempts operation, np_NextAttemptAt = t_nextAttemptAt operation,
           np_DeadlineAt = t_referenceDeadlineAt operation\<rparr> else None),
      tp_CreatedAt = t_createdAt operation, tp_UpdatedAt = t_updatedAt operation,
      tp_CompletedAt = atOptional (t_completedAt operation)\<rparr>"

definition pending_value :: "pending_response \<Rightarrow> json option" where
  "pending_value r = struct_value
     [(''attempts'', int_value (np_Attempts r)), (''nextAttemptAt'', timestamp_value (np_NextAttemptAt r)),
      (''deadlineAt'', timestamp_value (np_DeadlineAt r))]"

definition transaction_value :: "(uuid \<Rightarrow> string) \<Rightarrow> transaction_response \<Rightarrow> json option" where
  "transaction_value us r = struct_value
     ([(''transactionId'', uuid_value us (tp_TransactionID r)),
       (''providerId'', pointer_value text_value (tp_ProviderID r)),
       (''externalTransactionId'', pointer_value text_value (tp_ExternalTransactionID r)),
       (''playerId'', uuid_value us (tp_PlayerID r)), (''walletId'', uuid_value us (tp_WalletID r)),
       (''roundId'', pointer_value text_value (tp_RoundID r)), (''gameId'', pointer_value text_value (tp_GameID r)),
       (''kind'', text_value (tp_Kind r)), (''money'', money_value (tp_Money r)),
       (''referenceExternalTransactionId'', pointer_value text_value (tp_ReferenceExternalTransactionID r)),
       (''referenceTransactionId'', pointer_value (uuid_value us) (tp_ReferenceTransactionID r)),
       (''status'', text_value (tp_Status r)), (''failureCode'', pointer_value text_value (tp_FailureCode r)),
       (''balance'', pointer_value money_value (tp_Balance r))]
      @ omitted ''pendingReference'' pending_value (tp_PendingReference r)
      @ [(''createdAt'', timestamp_value (tp_CreatedAt r)), (''updatedAt'', timestamp_value (tp_UpdatedAt r)),
         (''completedAt'', pointer_value timestamp_value (tp_CompletedAt r))])"

section \<open>Problems\<close>

text \<open>\<open>http.StatusText\<close>, of the statuses a problem can have.\<close>

definition StatusText :: "nat \<Rightarrow> string" where
  "StatusText s =
     (if s = 400 then ''Bad Request'' else if s = 401 then ''Unauthorized'' else if s = 403 then ''Forbidden''
      else if s = 404 then ''Not Found'' else if s = 409 then ''Conflict''
      else if s = 413 then ''Request Entity Too Large'' else if s = 500 then ''Internal Server Error''
      else if s = 503 then ''Service Unavailable'' else [])"

record problem =
  pb_Type :: string
  pb_Title :: string
  pb_Status :: nat
  pb_Detail :: string
  pb_Code :: string
  pb_CorrelationID :: string
  pb_Errors :: "field_error list"
  pb_TransactionID :: "uuid option"
  pb_WalletID :: "uuid option"

definition withFields :: "field_error list \<Rightarrow> problem \<Rightarrow> problem" where
  "withFields errors p = p\<lparr>pb_Errors := errors\<rparr>"

definition withTransaction :: "uuid \<Rightarrow> problem \<Rightarrow> problem" where
  "withTransaction i p = p\<lparr>pb_TransactionID := Some i\<rparr>"

definition withWallet :: "uuid \<Rightarrow> problem \<Rightarrow> problem" where
  "withWallet i p = p\<lparr>pb_WalletID := Some i\<rparr>"

definition field_value :: "field_error \<Rightarrow> json option" where
  "field_value f = struct_value [(''field'', text_value (fst f)), (''message'', text_value (snd f))]"

definition problem_value :: "(uuid \<Rightarrow> string) \<Rightarrow> problem \<Rightarrow> json option" where
  "problem_value us p = struct_value
     ([(''type'', text_value (pb_Type p)), (''title'', text_value (pb_Title p)),
       (''status'', int_value (int (pb_Status p))), (''detail'', text_value (pb_Detail p)),
       (''code'', text_value (pb_Code p)), (''correlationId'', text_value (pb_CorrelationID p))]
      @ omitted ''errors'' (array_value field_value) (if pb_Errors p = [] then None else Some (pb_Errors p))
      @ omitted ''transactionId'' (uuid_value us) (pb_TransactionID p)
      @ omitted ''walletId'' (uuid_value us) (pb_WalletID p))"

end
