(* ===== verification/Cursor.thy ===== *)
theory Cursor
  imports GoStd Errors
begin

text \<open>
  Cursors of the ledger endpoint: \<open>encodeCursor\<close> and \<open>decodeCursor\<close> of \<open>http/handlers.go\<close>, on
  \<open>base64.RawURLEncoding\<close> as \<open>encoding/base64\<close> implements it: no padding, line breaks skipped,
  the spare bits of the last symbol ignored. Facts: what was encoded is decoded again, in
  symbols that need no escaping in a URL.
\<close>

section \<open>base64.RawURLEncoding\<close>

definition url_symbol :: "nat \<Rightarrow> char" where
  "url_symbol n =
     (if n < 26 then char_of (65 + n) else if n < 52 then char_of (71 + n)
      else if n < 62 then char_of (n - 4) else if n = 62 then CHR ''-'' else CHR ''_'')"

definition url_value :: "char \<Rightarrow> nat option" where
  "url_value c =
     (let x = (of_char c :: nat) in
      if 65 \<le> x \<and> x \<le> 90 then Some (x - 65)
      else if 97 \<le> x \<and> x \<le> 122 then Some (x - 71)
      else if 48 \<le> x \<and> x \<le> 57 then Some (x + 4)
      else if x = 45 then Some 62 else if x = 95 then Some 63 else None)"

fun url_encode :: "string \<Rightarrow> string" where
  "url_encode [] = []"
| "url_encode [a] =
     (let x = (of_char a :: nat) in [url_symbol (x div 4), url_symbol (x mod 4 * 16)])"
| "url_encode [a, b] =
     (let x = (of_char a :: nat); y = (of_char b :: nat) in
      [url_symbol (x div 4), url_symbol (x mod 4 * 16 + y div 16), url_symbol (y mod 16 * 4)])"
| "url_encode (a # b # c # s) =
     (let x = (of_char a :: nat); y = (of_char b :: nat); z = (of_char c :: nat) in
      url_symbol (x div 4) # url_symbol (x mod 4 * 16 + y div 16)
        # url_symbol (y mod 16 * 4 + z div 64) # url_symbol (z mod 64) # url_encode s)"

text \<open>The values of the symbols; a symbol outside the alphabet makes the input corrupt.\<close>

definition url_values :: "string \<Rightarrow> nat list option" where
  "url_values s = those (map url_value (filter (\<lambda>c. c \<noteq> CHR 0x0A \<and> c \<noteq> CHR 0x0D) s))"

fun url_bytes :: "nat list \<Rightarrow> string option" where
  "url_bytes [] = Some []"
| "url_bytes [p] = None"
| "url_bytes [p, q] = Some [char_of (p * 4 + q div 16)]"
| "url_bytes [p, q, r] = Some [char_of (p * 4 + q div 16), char_of (q mod 16 * 16 + r div 4)]"
| "url_bytes (p # q # r # t # vs) =
     map_option (\<lambda>s. char_of (p * 4 + q div 16) # char_of (q mod 16 * 16 + r div 4)
       # char_of (r mod 4 * 64 + t) # s) (url_bytes vs)"

definition url_decode :: "string \<Rightarrow> string option" where
  "url_decode s = Option.bind (url_values s) url_bytes"

section \<open>The code\<close>

definition cursorPrefix :: string where
  "cursorPrefix = ''v1:''"

definition encodeCursor :: "i64 \<Rightarrow> string" where
  "encodeCursor version = url_encode (cursorPrefix @ format_int64 version)"

text \<open>Every failure is answered alike, so the errors are told apart by their text only.\<close>

definition decodeCursor :: "string \<Rightarrow> i64 result" where
  "decodeCursor raw =
     (case url_decode raw of
        None \<Rightarrow> Inl (EText ''illegal base64 data'')
      | Some decoded \<Rightarrow>
          if take (length cursorPrefix) decoded \<noteq> cursorPrefix then Inl (EText ''http: unknown cursor version'')
          else (case parse_int64 (drop (length cursorPrefix) decoded) of
              None \<Rightarrow> Inl (EText ''http: cursor does not carry a wallet version'')
            | Some version \<Rightarrow>
                if version <s 0 then Inl (EText ''http: cursor does not carry a wallet version'')
                else Inr version))"

section \<open>Decoding undoes encoding\<close>

lemma byte_less [simp]: "(of_char c :: nat) < 256"
  by (rule nat_of_char_less_256)

lemma url_symbol_value: "n < 64 \<Longrightarrow> url_value (url_symbol n) = Some n"
proof -
  assume "n < 64"
  then consider "n < 26" | "26 \<le> n" "n < 52" | "52 \<le> n" "n < 62" | "n = 62" | "n = 63" by linarith
  then show ?thesis by cases (simp_all add: url_symbol_def url_value_def Let_def, arith)
qed

lemma url_symbol_plain: "n < 64 \<Longrightarrow> url_symbol n \<noteq> CHR 0x0A \<and> url_symbol n \<noteq> CHR 0x0D"
  using url_symbol_value [of n] by (auto simp: url_value_def)

lemma url_values_Nil: "url_values [] = Some []"
  by (simp add: url_values_def)

lemma url_values_symbol: "n < 64 \<Longrightarrow> url_values (url_symbol n # s) = map_option ((#) n) (url_values s)"
  by (simp add: url_values_def url_symbol_plain url_symbol_value)

lemma split_bytes:
  fixes x y z :: nat
  assumes "x < 256" "y < 256" "z < 256"
  shows "x div 4 < 64" "x mod 4 * 16 + y div 16 < 64" "y mod 16 * 4 + z div 64 < 64" "z mod 64 < 64"
    "x mod 4 * 16 < 64" "y mod 16 * 4 < 64"
    "x div 4 * 4 + (x mod 4 * 16 + y div 16) div 16 = x" "x div 4 * 4 + x mod 4 = x"
    "(x mod 4 * 16 + y div 16) mod 16 * 16 + (y mod 16 * 4 + z div 64) div 4 = y"
    "(y mod 16 * 4 + z div 64) mod 4 * 64 + z mod 64 = z"
    "(x mod 4 * 16 + y div 16) mod 16 * 16 + y mod 16 = y"
proof -
  have d: "y div 16 < 16" "z div 64 < 4" "x div 4 < 64" "x mod 4 < 4" "y mod 16 < 16" using assms by simp_all
  then show "x div 4 < 64" "x mod 4 * 16 + y div 16 < 64" "y mod 16 * 4 + z div 64 < 64" "z mod 64 < 64"
    "x mod 4 * 16 < 64" "y mod 16 * 4 < 64" by simp_all
  show "x div 4 * 4 + (x mod 4 * 16 + y div 16) div 16 = x" "x div 4 * 4 + x mod 4 = x" using d by simp_all
  show "(x mod 4 * 16 + y div 16) mod 16 * 16 + (y mod 16 * 4 + z div 64) div 4 = y"
    "(y mod 16 * 4 + z div 64) mod 4 * 64 + z mod 64 = z"
    "(x mod 4 * 16 + y div 16) mod 16 * 16 + y mod 16 = y" using d by simp_all
qed

lemma url_decode_encode: "url_decode (url_encode s) = Some s"
proof (induction s rule: url_encode.induct)
  case (2 a)
  then show ?case
    using split_bytes [of "of_char a" 0 0] by (simp add: url_decode_def Let_def url_values_symbol url_values_Nil)
next
  case (3 a b)
  then show ?case
    using split_bytes [of "of_char a" "of_char b" 0]
    by (simp add: url_decode_def Let_def url_values_symbol url_values_Nil)
next
  case (4 a b c s)
  obtain vs where vs: "url_values (url_encode s) = Some vs" "url_bytes vs = Some s"
    using 4 [OF refl refl refl] by (auto simp: url_decode_def bind_eq_Some_conv)
  then show ?case
    using split_bytes [of "of_char a" "of_char b" "of_char c"]
    by (simp add: url_decode_def Let_def url_values_symbol)
qed (simp add: url_decode_def url_values_Nil)

section \<open>Properties\<close>

text \<open>
  C26. A cursor leads back to where it was handed out: decoding what \<open>encodeCursor\<close> made of a
  version gives the version, and the text has only letters, digits, dash and underscore, so a
  client can put it into a query as it is.
\<close>

theorem cursor_roundtrip:
  assumes "0 \<le> sint version"
  shows "decodeCursor (encodeCursor version) = Inr version
    \<and> (\<forall>c \<in> set (encodeCursor version). url_value c \<noteq> None)"
proof
  show "decodeCursor (encodeCursor version) = Inr version"
    unfolding decodeCursor_def encodeCursor_def url_decode_encode
    using assms parse_format_int64 [OF assms] by (simp add: i64_less)
  have "\<forall>c \<in> set (url_encode s). url_value c \<noteq> None" for s
  proof (induction s rule: url_encode.induct)
    case (4 a b c s)
    then show ?case using split_bytes [of "of_char a" "of_char b" "of_char c"] by (simp add: Let_def url_symbol_value)
  next
    case (2 a)
    then show ?case using split_bytes [of "of_char a" 0 0] by (simp add: Let_def url_symbol_value)
  next
    case (3 a b)
    then show ?case using split_bytes [of "of_char a" "of_char b" 0] by (simp add: Let_def url_symbol_value)
  qed simp
  then show "\<forall>c \<in> set (encodeCursor version). url_value c \<noteq> None" by (simp add: encodeCursor_def)
qed

theorem cursor_roundtrip_witness:
  "encodeCursor 42 = ''djE6NDI'' \<and> decodeCursor ''djE6NDI'' = Inr 42"
proof -
  have "encodeCursor 42 = ''djE6NDI''" by code_simp
  then show ?thesis using cursor_roundtrip [of 42] by simp
qed

end
