(* ===== verification/Credentials.thy ===== *)
theory Credentials
  imports Message
begin

text \<open>
  Credentials: \<open>auth/verifier.go\<close>. The identity provider's keys and the verification of a token
  are a library's; \<open>tokens\<close> stands for the verifier \<open>Connect\<close> stores, \<open>None\<close> before it did: it gives
  the subject and the payload of a token it accepts. Reading the claims of the payload, what a
  principal may do and the bearer scheme are the program's. \<open>Connect\<close> itself, which asks the
  provider over the network, is in the theory \<open>Dependencies\<close>.
\<close>

section \<open>strings.TrimSpace\<close>

fun trim_left :: "nat \<Rightarrow> string \<Rightarrow> string" where
  "trim_left 0 s = s"
| "trim_left (Suc n) s =
     (if s \<noteq> [] \<and> is_space (fst (decode_rune s)) then trim_left n (drop (snd (decode_rune s)) s) else s)"

text \<open>The width of the blank a string ends with, or zero: no blank has more than three bytes.\<close>

definition blank_end :: "string \<Rightarrow> nat" where
  "blank_end s =
     (case List.find (\<lambda>k. k \<le> length s \<and> (case decode_rune (drop (length s - k) s) of (r, w) \<Rightarrow> w = k \<and> is_space r))
        [1, 2, 3] of None \<Rightarrow> 0 | Some k \<Rightarrow> k)"

fun trim_right :: "nat \<Rightarrow> string \<Rightarrow> string" where
  "trim_right 0 s = s"
| "trim_right (Suc n) s = (if blank_end s = 0 then s else trim_right n (take (length s - blank_end s) s))"

definition TrimSpace :: "string \<Rightarrow> string" where
  "TrimSpace s = trim_right (length s) (trim_left (length s) s)"

section \<open>Principals\<close>

definition RoleProvider :: string where
  "RoleProvider = ''wagering-provider''"

definition RoleInternal :: string where
  "RoleInternal = ''wallet-internal''"

record principal =
  pl_subject :: string
  pl_providerID :: string
  pl_roles :: "string list"

definition HasRole :: "principal \<Rightarrow> string \<Rightarrow> bool" where
  "HasRole p role \<longleftrightarrow> role \<in> set (pl_roles p)"

definition principal_Internal :: "principal \<Rightarrow> bool" where
  "principal_Internal p \<longleftrightarrow> HasRole p RoleInternal"

definition principal_Provider :: "principal \<Rightarrow> bool" where
  "principal_Provider p \<longleftrightarrow> HasRole p RoleProvider \<and> pl_providerID p \<noteq> []"

section \<open>Claims\<close>

text \<open>
  \<open>json.Unmarshal\<close>: the whole text is one document, and a member no field is named after is
  ignored. An array is decoded onto the elements that are there.
\<close>

fun decode_strings :: "json list \<Rightarrow> string list \<Rightarrow> string list result" where
  "decode_strings [] old = Inr []"
| "decode_strings (v # vs) old =
     bindR (decode_string v (case old of [] \<Rightarrow> [] | x # xs \<Rightarrow> x)) (\<lambda>t.
     bindR (decode_strings vs (tl old)) (\<lambda>ts. Inr (t # ts)))"

definition decode_string_list :: "json \<Rightarrow> string list \<Rightarrow> string list result" where
  "decode_string_list v old =
     (case v of JArr vs \<Rightarrow> decode_strings vs old | JNull \<Rightarrow> Inr [] | _ \<Rightarrow> Inl type_mismatch)"

record claims =
  cl_providerID :: string
  cl_roles :: "string list"

definition set_realm_access :: "string \<Rightarrow> json \<Rightarrow> string list \<Rightarrow> string list result" where
  "set_realm_access k v roles = (if named ''roles'' k then decode_string_list v roles else Inr roles)"

definition set_claims :: "string \<Rightarrow> json \<Rightarrow> claims \<Rightarrow> claims result" where
  "set_claims k v c =
     (if named ''provider_id'' k then bindR (decode_string v (cl_providerID c)) (\<lambda>t. Inr (c\<lparr>cl_providerID := t\<rparr>))
      else if named ''realm_access'' k
        then bindR (decode_struct set_realm_access v (cl_roles c)) (\<lambda>rs. Inr (c\<lparr>cl_roles := rs\<rparr>))
      else Inr c)"

definition json_Unmarshal :: "(string \<Rightarrow> json \<Rightarrow> 'a \<Rightarrow> 'a result) \<Rightarrow> string \<Rightarrow> 'a \<Rightarrow> 'a result" where
  "json_Unmarshal set_field text old =
     (case json_first text of
        None \<Rightarrow> Inl (EText ''json: syntax error'')
      | Some (v, rest) \<Rightarrow>
          if skip_space rest \<noteq> [] then Inl (EText ''json: syntax error'') else decode_struct set_field v old)"

section \<open>Verifying\<close>

type_synonym tokens = "(string \<Rightarrow> (string \<times> string) option) option"

definition ErrUnauthenticated :: go_error where
  "ErrUnauthenticated = EText ''auth: the credential is missing, malformed or not valid''"

definition Verify :: "tokens \<Rightarrow> string \<Rightarrow> principal result" where
  "Verify tokens rawToken =
     (case tokens of
        None \<Rightarrow> Inl (EWrap [ErrUnauthenticated])
      | Some verify \<Rightarrow>
          (case verify rawToken of
             None \<Rightarrow> Inl (EWrap [ErrUnauthenticated])
           | Some (subject, payload) \<Rightarrow>
               (case json_Unmarshal set_claims payload \<lparr>cl_providerID = [], cl_roles = []\<rparr> of
                  Inl e \<Rightarrow> Inl (EWrap [ErrUnauthenticated])
                | Inr c \<Rightarrow> Inr \<lparr>pl_subject = subject, pl_providerID = cl_providerID c, pl_roles = cl_roles c\<rparr>)))"

text \<open>\<open>strings.Cut\<close> at the first blank, and the scheme without regard to case.\<close>

definition BearerToken :: "string \<Rightarrow> string option" where
  "BearerToken header =
     (let scheme = takeWhile (\<lambda>c. c \<noteq> CHR '' '') header; rest = dropWhile (\<lambda>c. c \<noteq> CHR '' '') header in
      if rest = [] \<or> fold_name scheme \<noteq> fold_name ''bearer'' then None
      else (let token = TrimSpace (tl rest) in if token = [] then None else Some token))"

end
