(* ===== verification/Handlers.thy ===== *)
theory Handlers
  imports Responses Cursor Credentials OpenWallet Listener "HOL-Library.Char_ord" "HOL-Library.List_Lexorder"
begin

text \<open>
  The handlers of the HTTP API: \<open>http/handlers.go\<close> with the bodies of \<open>http/request.go\<close> and
  \<open>writeProblem\<close> and \<open>writeJSON\<close> of \<open>http/problem.go\<close>. A handler takes the request, with what the
  middleware and the router put into it, to the one response it writes. A panic goes through a
  handler; every error becomes a problem. Logging, metrics and the crash point are left out, and
  so is a response the client does not take.
\<close>

section \<open>Requests and responses\<close>

text \<open>
  \<open>rq_header\<close>, \<open>rq_query\<close> and \<open>rq_param\<close> give the first value of a name or the empty string, as
  \<open>Get\<close> and \<open>URLParam\<close> do. \<open>rq_body\<close> is what can be read of the body, \<open>rq_broken\<close> that reading ends
  with an error there, \<open>rq_limit\<close> the reader \<open>bodyLimited\<close> installs.
\<close>

record http_request =
  rq_header :: "string \<Rightarrow> string"
  rq_query :: "string \<Rightarrow> string"
  rq_param :: "string \<Rightarrow> string"
  rq_body :: string
  rq_broken :: bool
  rq_limit :: "int option"
  rq_correlation :: string
  rq_principal :: "principal option"

datatype content = NoContent | ProblemBody problem | WalletBody wallet_response | LedgerBody ledger_response
  | ReconciliationBody reconciliation | ResultBody result_response | TransactionBody transaction_response
  | LiveBody | ReadyBody bool "(string \<times> string option) list"

record http_response =
  rs_status :: nat
  rs_headers :: "(string \<times> string) list"
  rs_content :: content

text \<open>The checks of \<open>ready\<close>: a map from names to the status and, when it is down, the reason.\<close>

definition check_value :: "string option \<Rightarrow> json option" where
  "check_value reason =
     (case reason of
        None \<Rightarrow> struct_value [(''status'', text_value ''UP'')]
      | Some e \<Rightarrow> struct_value [(''error'', text_value e), (''status'', text_value ''DOWN'')])"

fun document :: "(uuid \<Rightarrow> string) \<Rightarrow> content \<Rightarrow> json option" where
  "document us NoContent = None"
| "document us (ProblemBody p) = problem_value us p"
| "document us (WalletBody r) = wallet_value us r"
| "document us (LedgerBody r) = ledger_value us r"
| "document us (ReconciliationBody r) = reconciliation_value us r"
| "document us (ResultBody r) = result_value us r"
| "document us (TransactionBody r) = transaction_value us r"
| "document us LiveBody = struct_value [(''status'', text_value ''UP'')]"
| "document us (ReadyBody up checks) = struct_value
     [(''checks'', struct_value (map (\<lambda>(name, reason). (name, check_value reason)) checks)),
      (''status'', text_value (if up then ''UP'' else ''DOWN''))]"

text \<open>\<open>json.NewEncoder(w).Encode\<close>: the document and a line break, or nothing when it has no JSON.\<close>

definition body_text :: "(uuid \<Rightarrow> string) \<Rightarrow> http_response \<Rightarrow> string" where
  "body_text us r = (case document us (rs_content r) of None \<Rightarrow> [] | Some v \<Rightarrow> json_print True v @ [CHR 0x0A])"

definition writeJSON :: "nat \<Rightarrow> content \<Rightarrow> http_response" where
  "writeJSON status payload =
     \<lparr>rs_status = status, rs_headers = [(''Content-Type'', ''application/json'')], rs_content = payload\<rparr>"

definition writeProblem ::
  "http_request \<Rightarrow> nat \<Rightarrow> string \<Rightarrow> string \<Rightarrow> (problem \<Rightarrow> problem) list \<Rightarrow> http_response" where
  "writeProblem r status problemCode detail options =
     \<lparr>rs_status = status,
      rs_headers = (if status = 503 then [(''Retry-After'', ''1'')] else [])
        @ [(''Content-Type'', ''application/problem+json'')],
      rs_content = ProblemBody (foldl (\<lambda>p f. f p)
        \<lparr>pb_Type = ''about:blank'', pb_Title = StatusText status, pb_Status = status, pb_Detail = detail,
         pb_Code = problemCode, pb_CorrelationID = rq_correlation r, pb_Errors = [], pb_TransactionID = None,
         pb_WalletID = None\<rparr> options)\<rparr>"

section \<open>Failures\<close>

definition CodeValidationFailed :: string where "CodeValidationFailed = ''VALIDATION_FAILED''"
definition CodeInvalidCursor :: string where "CodeInvalidCursor = ''INVALID_CURSOR''"
definition CodeUnauthenticated :: string where "CodeUnauthenticated = ''UNAUTHENTICATED''"
definition CodeForbidden :: string where "CodeForbidden = ''FORBIDDEN''"
definition CodeWalletNotFound :: string where "CodeWalletNotFound = ''WALLET_NOT_FOUND''"
definition CodeTransactionNotFnd :: string where "CodeTransactionNotFnd = ''TRANSACTION_NOT_FOUND''"
definition CodeWalletExists :: string where "CodeWalletExists = ''WALLET_ALREADY_EXISTS''"
definition CodeKeyConflict :: string where "CodeKeyConflict = ''IDEMPOTENCY_KEY_CONFLICT''"
definition CodeExternalConflict :: string where "CodeExternalConflict = ''EXTERNAL_TRANSACTION_ID_CONFLICT''"
definition CodePayloadTooLarge :: string where "CodePayloadTooLarge = ''PAYLOAD_TOO_LARGE''"
definition CodeUnavailable :: string where "CodeUnavailable = ''SERVICE_UNAVAILABLE''"
definition CodeCommitUnknown :: string where "CodeCommitUnknown = ''COMMIT_OUTCOME_UNKNOWN''"
definition CodeInternalError :: string where "CodeInternalError = ''INTERNAL_ERROR''"

lemmas code_defs = CodeValidationFailed_def CodeInvalidCursor_def CodeUnauthenticated_def CodeForbidden_def
  CodeWalletNotFound_def CodeTransactionNotFnd_def CodeWalletExists_def CodeKeyConflict_def CodeExternalConflict_def
  CodePayloadTooLarge_def CodeUnavailable_def CodeCommitUnknown_def CodeInternalError_def

definition fail :: "http_request \<Rightarrow> go_error \<Rightarrow> http_response" where
  "fail r err =
     (if errors_is err (EWalletStore WalletNotFound)
        then writeProblem r 404 CodeWalletNotFound ''this wallet does not exist'' []
      else if errors_is err (EWagering WageringNotFound)
        then writeProblem r 404 CodeTransactionNotFnd ''this transaction does not exist'' []
      else if errors_is err (ERepo RepoCommitOutcomeUnknown)
        then writeProblem r 503 CodeCommitUnknown
          ''the result of this operation is unknown, retry with the same provider, key, external id and payload'' []
      else if errors_is err (ERepo RepoLockTimeout) \<or> errors_is err (ERepo RepoTransient)
        then writeProblem r 503 CodeUnavailable ''the service is busy, please retry'' []
      else writeProblem r 500 CodeInternalError ''the request could not be completed'' [])"

text \<open>\<open>Error\<close> of \<open>validation.Error\<close>.\<close>

definition validation_text :: "field_error list \<Rightarrow> string" where
  "validation_text problems =
     (case problems of [] \<Rightarrow> ''the request is not valid'' | (field, message) # _ \<Rightarrow> field @ '' '' @ message)"

definition failValidation :: "http_request \<Rightarrow> go_error \<Rightarrow> http_response" where
  "failValidation r err =
     (case as_validation err of
        Some problems \<Rightarrow> writeProblem r 400 CodeValidationFailed (validation_text problems) [withFields problems]
      | None \<Rightarrow> fail r err)"

definition failProcessing :: "http_request \<Rightarrow> go_error \<Rightarrow> http_response" where
  "failProcessing r err =
     (case as_conflict err of
        Some (kind, transactionID) \<Rightarrow>
          (if kind = ConflictExternalID
           then writeProblem r 409 CodeExternalConflict
             ''this external transaction id was already used with another idempotency key'' [withTransaction transactionID]
           else writeProblem r 409 CodeKeyConflict
             ''this idempotency key was already used with a different payload'' [withTransaction transactionID])
      | None \<Rightarrow> failValidation r err)"

section \<open>Reading a request\<close>

text \<open>The texts of the JSON package's errors are its own: \<open>err_text\<close>.\<close>

definition decodeMessage :: "(go_error \<Rightarrow> string) \<Rightarrow> go_error \<Rightarrow> string" where
  "decodeMessage err_text err =
     (if errors_is err (EMoney MoneyInvalidAmount) then ''money.amount must be a decimal string with exactly two places''
      else if errors_is err (EMoney MoneyInvalidCurrency) then ''money.currency must be BRL or USD''
      else if errors_is err (EMoney MoneyOverflow) then ''money.amount is above the representable limit''
      else ''the body could not be read: '' @ err_text err)"

definition has_prefix :: "string \<Rightarrow> string \<Rightarrow> bool" where
  "has_prefix p s \<longleftrightarrow> take (length p) s = p"

definition decode ::
  "(go_error \<Rightarrow> string) \<Rightarrow> http_request \<Rightarrow> (string \<Rightarrow> json \<Rightarrow> 'a \<Rightarrow> 'a result) \<Rightarrow> 'a \<Rightarrow> http_response + 'a" where
  "decode err_text r set_field target =
     (let refuse = (\<lambda>detail. Inl (writeProblem r 400 CodeValidationFailed detail []));
          contentType = rq_header r ''Content-Type'' in
      if contentType \<noteq> [] \<and> \<not> has_prefix ''application/json'' contentType
        then refuse ''the request must be application/json''
      else if (case rq_limit r of None \<Rightarrow> False | Some limit \<Rightarrow> limit < int (length (rq_body r)))
        then Inl (writeProblem r 413 CodePayloadTooLarge ''the request body is too large'' [])
      else if rq_broken r then refuse ''the request body could not be read''
      else (case json_first (rq_body r) of
          None \<Rightarrow> refuse (decodeMessage err_text (EText ''json: syntax error''))
        | Some (v, rest) \<Rightarrow>
            (case decode_struct set_field v target of
               Inl err \<Rightarrow> refuse (decodeMessage err_text err)
             | Inr x \<Rightarrow>
                 if skip_space rest \<noteq> [] then refuse ''the body must contain exactly one JSON document'' else Inr x)))"

definition pathUUID :: "env \<Rightarrow> http_request \<Rightarrow> string \<Rightarrow> http_response + uuid" where
  "pathUUID c r name =
     (case e_uuid_parse c (rq_param r name) of
        Some parsed \<Rightarrow>
          if parsed = uuid_Nil then Inl (writeProblem r 400 CodeValidationFailed (name @ '' must be a UUID'') [])
          else Inr parsed
      | None \<Rightarrow> Inl (writeProblem r 400 CodeValidationFailed (name @ '' must be a UUID'') []))"

record wager_request =
  wq_providerID :: string
  wq_externalTransactionID :: string
  wq_playerID :: string
  wq_walletID :: string
  wq_roundID :: string
  wq_gameID :: string
  wq_kind :: string
  wq_money :: money
  wq_referenceExternalTransactionID :: "string option"

definition wager_request_zero :: wager_request where
  "wager_request_zero = \<lparr>wq_providerID = [], wq_externalTransactionID = [], wq_playerID = [], wq_walletID = [],
     wq_roundID = [], wq_gameID = [], wq_kind = [], wq_money = money_zero_value,
     wq_referenceExternalTransactionID = None\<rparr>"

definition set_wager_request :: "string \<Rightarrow> json \<Rightarrow> wager_request \<Rightarrow> wager_request result" where
  "set_wager_request k v d =
     (if named ''providerId'' k
        then bindR (decode_string v (wq_providerID d)) (\<lambda>t. Inr (d\<lparr>wq_providerID := t\<rparr>))
      else if named ''externalTransactionId'' k
        then bindR (decode_string v (wq_externalTransactionID d)) (\<lambda>t. Inr (d\<lparr>wq_externalTransactionID := t\<rparr>))
      else if named ''playerId'' k then bindR (decode_string v (wq_playerID d)) (\<lambda>t. Inr (d\<lparr>wq_playerID := t\<rparr>))
      else if named ''walletId'' k then bindR (decode_string v (wq_walletID d)) (\<lambda>t. Inr (d\<lparr>wq_walletID := t\<rparr>))
      else if named ''roundId'' k then bindR (decode_string v (wq_roundID d)) (\<lambda>t. Inr (d\<lparr>wq_roundID := t\<rparr>))
      else if named ''gameId'' k then bindR (decode_string v (wq_gameID d)) (\<lambda>t. Inr (d\<lparr>wq_gameID := t\<rparr>))
      else if named ''kind'' k then bindR (decode_string v (wq_kind d)) (\<lambda>t. Inr (d\<lparr>wq_kind := t\<rparr>))
      else if named ''money'' k then bindR (money_UnmarshalJSON v) (\<lambda>m. Inr (d\<lparr>wq_money := m\<rparr>))
      else if named ''referenceExternalTransactionId'' k
        then bindR (decode_string_pointer v (wq_referenceExternalTransactionID d))
          (\<lambda>t. Inr (d\<lparr>wq_referenceExternalTransactionID := t\<rparr>))
      else Inl unknown_field)"

definition optionalText :: "string option \<Rightarrow> string" where
  "optionalText value = (case value of None \<Rightarrow> [] | Some t \<Rightarrow> t)"

definition wager_toInput :: "env \<Rightarrow> wager_request \<Rightarrow> string \<Rightarrow> string \<Rightarrow> process_input result" where
  "wager_toInput c r idempotencyKey correlationID =
     (let (playerID, problems) = Identifier (e_uuid_parse c) ''playerId'' (wq_playerID r);
          (walletID, more) = Identifier (e_uuid_parse c) ''walletId'' (wq_walletID r) in
      bindR (OrNil (problems @ more)) (\<lambda>_.
      Inr \<lparr>pi_origin = HTTP, pi_providerID = wq_providerID r, pi_externalTransactionID = wq_externalTransactionID r,
        pi_idempotencyKey = idempotencyKey, pi_playerID = playerID, pi_walletID = walletID,
        pi_roundID = wq_roundID r, pi_gameID = wq_gameID r, pi_kind = kind_of_string (wq_kind r),
        pi_amount = wq_money r, pi_referenceExternalID = optionalText (wq_referenceExternalTransactionID r),
        pi_correlationID = correlationID, pi_messageID = [], pi_rawBodyHash = []\<rparr>))"

record open_request =
  oq_playerID :: string
  oq_initialBalance :: money

definition open_request_zero :: open_request where
  "open_request_zero = \<lparr>oq_playerID = [], oq_initialBalance = money_zero_value\<rparr>"

definition set_open_request :: "string \<Rightarrow> json \<Rightarrow> open_request \<Rightarrow> open_request result" where
  "set_open_request k v d =
     (if named ''playerId'' k then bindR (decode_string v (oq_playerID d)) (\<lambda>t. Inr (d\<lparr>oq_playerID := t\<rparr>))
      else if named ''initialBalance'' k then bindR (money_UnmarshalJSON v) (\<lambda>m. Inr (d\<lparr>oq_initialBalance := m\<rparr>))
      else Inl unknown_field)"

definition open_toInput :: "env \<Rightarrow> open_request \<Rightarrow> string \<Rightarrow> open_input result" where
  "open_toInput c r correlationID =
     (let (playerID, problems) = Identifier (e_uuid_parse c) ''playerId'' (oq_playerID r) in
      bindR (OrNil problems) (\<lambda>_.
      Inr \<lparr>oi_playerID = playerID, oi_initialBalance = oq_initialBalance r, oi_correlationID = correlationID\<rparr>))"

section \<open>Handlers\<close>

text \<open>
  A call of a use case whose error the handler answers; a panic is none. \<open>principalFrom\<close> gives the
  zero value when there is no principal.
\<close>

definition callM :: "'a M \<Rightarrow> ('a result \<Rightarrow> http_response) \<Rightarrow> http_response M" where
  "callM m answer =
     bindM (tryM m) (\<lambda>x.
     case x of
       Inl e \<Rightarrow> if e = EPanic then throwM EPanic else returnM (answer x)
     | Inr y \<Rightarrow> returnM (answer x))"

definition principalFrom :: "http_request \<Rightarrow> principal" where
  "principalFrom r =
     (case rq_principal r of
        Some p \<Rightarrow> p
      | None \<Rightarrow> \<lparr>pl_subject = [], pl_providerID = [], pl_roles = []\<rparr>)"

text \<open>What the handlers have: the use cases, which share their unit of work, and the settings.\<close>

record handlers =
  hs_unitOfWork :: uow_settings
  hs_settings :: process_settings
  hs_maxBodyBytes :: int
  hs_err_text :: "go_error \<Rightarrow> string"

type_synonym handler = "http_request \<Rightarrow> http_response M"

definition openWallet :: "handlers \<Rightarrow> handler" where
  "openWallet h r =
     bindM (askM (\<lambda>c. c)) (\<lambda>c.
     case decode (hs_err_text h) r set_open_request open_request_zero of
       Inl response \<Rightarrow> returnM response
     | Inr request \<Rightarrow>
         (case open_toInput c request (rq_correlation r) of
            Inl err \<Rightarrow> returnM (failValidation r err)
          | Inr input \<Rightarrow>
              callM (open_Execute (hs_unitOfWork h) input) (\<lambda>opened.
              case opened of
                Inr w \<Rightarrow> writeJSON 201 (WalletBody (walletOf w))
              | Inl err \<Rightarrow>
                  (case as_wallet_conflict err of
                     Some walletID \<Rightarrow> writeProblem r 409 CodeWalletExists
                       ''this player already has a wallet in this currency'' [withWallet walletID]
                   | None \<Rightarrow> failValidation r err))))"

definition getWallet :: "handlers \<Rightarrow> handler" where
  "getWallet h r =
     bindM (askM (\<lambda>c. c)) (\<lambda>c.
     case pathUUID c r ''walletId'' of
       Inl response \<Rightarrow> returnM response
     | Inr walletID \<Rightarrow>
         callM (findWallet_Execute (hs_unitOfWork h) walletID) (\<lambda>found.
         case found of Inl err \<Rightarrow> fail r err | Inr w \<Rightarrow> writeJSON 200 (WalletBody (walletOf w))))"

definition defaultLedgerLimit :: int where
  "defaultLedgerLimit = 50"

definition maxLedgerLimit :: int where
  "maxLedgerLimit = 100"

text \<open>The two parameters of the query, or the response that refuses them.\<close>

definition ledger_limit :: "http_request \<Rightarrow> http_response + int" where
  "ledger_limit r =
     (let raw = rq_query r ''limit'' in
      if raw = [] then Inr defaultLedgerLimit
      else (case parse_int64 raw of
          Some parsed \<Rightarrow>
            if sint parsed < 1 \<or> maxLedgerLimit < sint parsed
            then Inl (writeProblem r 400 CodeValidationFailed ''limit must be between 1 and 100'' [])
            else Inr (sint parsed)
        | None \<Rightarrow> Inl (writeProblem r 400 CodeValidationFailed ''limit must be between 1 and 100'' [])))"

definition ledger_cursor :: "http_request \<Rightarrow> http_response + i64" where
  "ledger_cursor r =
     (let raw = rq_query r ''cursor'' in
      if raw = [] then Inr 0
      else (case decodeCursor raw of
          Inl err \<Rightarrow> Inl (writeProblem r 400 CodeInvalidCursor ''the cursor could not be read'' [])
        | Inr decoded \<Rightarrow> Inr decoded))"

definition getLedger :: "handlers \<Rightarrow> handler" where
  "getLedger h r =
     bindM (askM (\<lambda>c. c)) (\<lambda>c.
     case pathUUID c r ''walletId'' of
       Inl response \<Rightarrow> returnM response
     | Inr walletID \<Rightarrow>
         (case ledger_limit r of
            Inl response \<Rightarrow> returnM response
          | Inr limit \<Rightarrow>
              (case ledger_cursor r of
                 Inl response \<Rightarrow> returnM response
               | Inr afterVersion \<Rightarrow>
                   callM (list_Execute (hs_unitOfWork h)
                       \<lparr>li_walletID = walletID, li_afterVersion = afterVersion, li_limit = limit\<rparr>) (\<lambda>found.
                   case found of
                     Inl err \<Rightarrow> fail r err
                   | Inr page \<Rightarrow> writeJSON 200 (LedgerBody (ledgerOf walletID page
                       (if lp_hasMore page then Some (encodeCursor (lp_nextCursor page)) else None)))))))"

definition reconcile :: "handlers \<Rightarrow> handler" where
  "reconcile h r =
     bindM (askM (\<lambda>c. c)) (\<lambda>c.
     case pathUUID c r ''walletId'' of
       Inl response \<Rightarrow> returnM response
     | Inr walletID \<Rightarrow>
         callM (reconcile_Execute (hs_unitOfWork h) walletID) (\<lambda>found.
         case found of Inl err \<Rightarrow> fail r err | Inr report \<Rightarrow> writeJSON 200 (ReconciliationBody report)))"

definition submitTransaction :: "handlers \<Rightarrow> handler" where
  "submitTransaction h r =
     bindM (askM (\<lambda>c. c)) (\<lambda>c.
     case decode (hs_err_text h) r set_wager_request wager_request_zero of
       Inl response \<Rightarrow> returnM response
     | Inr request \<Rightarrow>
         if wq_providerID request \<noteq> pl_providerID (principalFrom r)
         then returnM (writeProblem r 403 CodeForbidden
           ''the operation must carry the provider of the authenticated credential'' [])
         else (case wager_toInput c request (rq_header r ''Idempotency-Key'') (rq_correlation r) of
             Inl err \<Rightarrow> returnM (failValidation r err)
           | Inr input \<Rightarrow>
               callM (process_Execute (hs_unitOfWork h) (hs_settings h) input) (\<lambda>res.
               case res of
                 Inl err \<Rightarrow> failProcessing r err
               | Inr x \<Rightarrow> writeJSON (statusOf (pr_status x)) (ResultBody (resultOf x)))))"

definition not_own :: "principal \<Rightarrow> string \<Rightarrow> bool" where
  "not_own p providerID \<longleftrightarrow> \<not> principal_Internal p \<and> providerID \<noteq> pl_providerID p"

definition getTransaction :: "handlers \<Rightarrow> handler" where
  "getTransaction h r =
     bindM (askM (\<lambda>c. c)) (\<lambda>c.
     case pathUUID c r ''transactionId'' of
       Inl response \<Rightarrow> returnM response
     | Inr transactionID \<Rightarrow>
         callM (findTransaction_ByID (hs_unitOfWork h) transactionID) (\<lambda>found.
         case found of
           Inl err \<Rightarrow> fail r err
         | Inr t \<Rightarrow>
             if not_own (principalFrom r) (t_providerID t)
             then writeProblem r 404 CodeTransactionNotFnd ''this transaction does not exist'' []
             else writeJSON 200 (TransactionBody (transactionOf t))))"

definition getProviderTransaction :: "handlers \<Rightarrow> handler" where
  "getProviderTransaction h r =
     (let providerID = rq_param r ''providerId''; externalTransactionID = rq_param r ''externalTransactionId'' in
      if not_own (principalFrom r) providerID
      then returnM (writeProblem r 403 CodeForbidden ''providers can only read their own operations'' [])
      else callM (findTransaction_ByExternalID (hs_unitOfWork h) providerID externalTransactionID) (\<lambda>found.
        case found of Inl err \<Rightarrow> fail r err | Inr t \<Rightarrow> writeJSON 200 (TransactionBody (transactionOf t))))"

definition live :: handler where
  "live r = returnM (writeJSON 200 LiveBody)"

text \<open>\<open>Health.Ready\<close> asks every probe; \<open>checks\<close> is what they answered, by name.\<close>

definition health_Ready :: "(string \<times> string option) list \<Rightarrow> bool" where
  "health_Ready checks \<longleftrightarrow> list_all (\<lambda>(name, reason). reason = None) checks"

definition ready :: "(string \<times> string option) list \<Rightarrow> handler" where
  "ready checks r =
     (let up = health_Ready checks in
      returnM (writeJSON (if up then 200 else 503) (ReadyBody up (sort_key fst checks))))"

end
