(* ===== verification/Server.thy ===== *)
theory Server
  imports Handlers
begin

text \<open>
  The middleware and the routes of the HTTP API: \<open>http/middleware.go\<close> and \<open>NewRouter\<close> of
  \<open>http/server.go\<close>. A middleware is a function on handlers, a route the composition the router
  builds for it, outermost first. The router's matching of paths is a library's, so a request
  comes with the route it matched; \<open>/metrics\<close>, which a library answers, is left out. What the
  \<open>select\<close> of \<open>limited\<close> chose is an argument; the slots are counted in \<open>Slots\<close>.
\<close>

section \<open>Middleware\<close>

definition correlationHeader :: string where
  "correlationHeader = ''X-Correlation-Id''"

definition correlation :: "handler \<Rightarrow> handler" where
  "correlation next r =
     bindM (case CorrelationID (rq_header r correlationHeader) of
         Some identifier \<Rightarrow> returnM identifier
       | None \<Rightarrow> bindM ids_New (\<lambda>i. askM (\<lambda>c. e_uuid_text c i))) (\<lambda>identifier.
     bindM (next (r\<lparr>rq_correlation := identifier\<rparr>)) (\<lambda>response.
     returnM (response\<lparr>rs_headers := (correlationHeader, identifier) # rs_headers response\<rparr>)))"

text \<open>A recovered panic: nothing was written yet, so the status is, and no body.\<close>

definition observed :: "handler \<Rightarrow> handler" where
  "observed next r =
     catchM (next r) (\<lambda>e.
       if e = EPanic then returnM \<lparr>rs_status = 500, rs_headers = [], rs_content = NoContent\<rparr> else throwM e)"

definition authenticated :: "tokens \<Rightarrow> handler \<Rightarrow> handler" where
  "authenticated tokens next r =
     (case BearerToken (rq_header r ''Authorization'') of
        None \<Rightarrow> returnM (writeProblem r 401 CodeUnauthenticated ''a bearer token is required'' [])
      | Some token \<Rightarrow>
          (case Verify tokens token of
             Inl err \<Rightarrow> returnM (writeProblem r 401 CodeUnauthenticated ''the credential is not valid'' [])
           | Inr p \<Rightarrow> next (r\<lparr>rq_principal := Some p\<rparr>)))"

definition principal_only :: "(principal \<Rightarrow> bool) \<Rightarrow> string \<Rightarrow> handler \<Rightarrow> handler" where
  "principal_only allowed detail next r =
     (case rq_principal r of
        None \<Rightarrow> returnM (writeProblem r 403 CodeForbidden detail [])
      | Some p \<Rightarrow>
          if allowed p then next r else returnM (writeProblem r 403 CodeForbidden detail []))"

definition internalOnly :: "handler \<Rightarrow> handler" where
  "internalOnly = principal_only principal_Internal ''this operation is restricted to the internal service''"

definition providerOnly :: "handler \<Rightarrow> handler" where
  "providerOnly = principal_only principal_Provider ''this operation is restricted to gaming providers''"

definition providerOrInternal :: "handler \<Rightarrow> handler" where
  "providerOrInternal = principal_only (\<lambda>p. principal_Provider p \<or> principal_Internal p)
     ''this operation requires a wagering role''"

datatype admission = SlotTaken | WaitOver | RequestGone

definition limited :: "admission \<Rightarrow> handler \<Rightarrow> handler" where
  "limited admission next r =
     (case admission of
        SlotTaken \<Rightarrow> next r
      | WaitOver \<Rightarrow> returnM (writeProblem r 503 CodeUnavailable
          ''the service is above its write capacity, please retry'' [])
      | RequestGone \<Rightarrow> returnM (writeProblem r 503 CodeUnavailable ''the request was cancelled'' []))"

definition bodyLimited :: "handlers \<Rightarrow> handler \<Rightarrow> handler" where
  "bodyLimited h next r = next (r\<lparr>rq_limit := Some (hs_maxBodyBytes h)\<rparr>)"

section \<open>Routes\<close>

datatype route = Live | Ready | OpenWallet | GetWallet | GetLedger | Reconcile | Submit | GetTransaction
  | GetProviderTransaction

record server =
  sv_handlers :: handlers
  sv_tokens :: tokens
  sv_checks :: "(string \<times> string option) list"

text \<open>The groups of \<open>NewRouter\<close>.\<close>

definition secured :: "server \<Rightarrow> handler \<Rightarrow> handler" where
  "secured sv next = authenticated (sv_tokens sv) (bodyLimited (sv_handlers sv) next)"

fun endpoint :: "server \<Rightarrow> admission \<Rightarrow> route \<Rightarrow> handler" where
  "endpoint sv a Live = live"
| "endpoint sv a Ready = ready (sv_checks sv)"
| "endpoint sv a OpenWallet = secured sv (internalOnly (limited a (openWallet (sv_handlers sv))))"
| "endpoint sv a GetWallet = secured sv (internalOnly (getWallet (sv_handlers sv)))"
| "endpoint sv a GetLedger = secured sv (internalOnly (getLedger (sv_handlers sv)))"
| "endpoint sv a Reconcile = secured sv (internalOnly (limited a (reconcile (sv_handlers sv))))"
| "endpoint sv a Submit = secured sv (providerOnly (limited a (submitTransaction (sv_handlers sv))))"
| "endpoint sv a GetTransaction = secured sv (providerOrInternal (getTransaction (sv_handlers sv)))"
| "endpoint sv a GetProviderTransaction = secured sv (providerOrInternal (getProviderTransaction (sv_handlers sv)))"

definition serve :: "server \<Rightarrow> admission \<Rightarrow> route \<Rightarrow> handler" where
  "serve sv a e = correlation (observed (endpoint sv a e))"

text \<open>Who may use a route, and whom the credential of a request names.\<close>

fun permitted :: "route \<Rightarrow> principal \<Rightarrow> bool" where
  "permitted Live p = True"
| "permitted Ready p = True"
| "permitted Submit p = principal_Provider p"
| "permitted GetTransaction p = (principal_Provider p \<or> principal_Internal p)"
| "permitted GetProviderTransaction p = (principal_Provider p \<or> principal_Internal p)"
| "permitted _ p = principal_Internal p"

definition credential :: "server \<Rightarrow> http_request \<Rightarrow> principal result" where
  "credential sv r =
     (case BearerToken (rq_header r ''Authorization'') of
        None \<Rightarrow> Inl ErrUnauthenticated
      | Some token \<Rightarrow> Verify (sv_tokens sv) token)"

section \<open>Reasoning about handlers\<close>

lemma wp_callM:
  "wpM (callM m answer) c s Q E \<longleftrightarrow>
     wpM m c s (\<lambda>x s'. Q (answer (Inr x)) s') (\<lambda>e s'. if e = EPanic then E EPanic s' else Q (answer (Inl e)) s')"
  by (auto simp: callM_def wp wpM_def tryM_def bindM_def returnM_def throwM_def split: prod.splits sum.splits if_splits)

text \<open>A response of \<open>serve\<close> is that of the endpoint, or a panic's.\<close>

lemma wp_observed:
  "wpM (observed next r) c s Q E \<longleftrightarrow> wpM (next r) c s Q
     (\<lambda>e s'. if e = EPanic then Q \<lparr>rs_status = 500, rs_headers = [], rs_content = NoContent\<rparr> s' else E e s')"
proof -
  have "wpM (if e = EPanic then returnM x else throwM e) c s' Q E = (if e = EPanic then Q x s' else E e s')"
    for e s' and x :: http_response
    by (simp add: wp)
  then show ?thesis by (simp add: observed_def wp)
qed

text \<open>
  The fields of the request and of the response that \<open>correlation\<close> and \<open>observed\<close> change are not
  those the properties are about.
\<close>

lemma wp_serve:
  assumes "\<And>cid t. wpM (endpoint sv a e (r\<lparr>rq_correlation := cid\<rparr>)) c (s\<lparr>st_tick := t\<rparr>)
      (\<lambda>x s'. P (rs_status x) (rs_content x) s') (\<lambda>e s'. e = EPanic \<and> P 500 NoContent s')"
  shows "wpM (serve sv a e r) c s (\<lambda>x s'. P (rs_status x) (rs_content x) s') (\<lambda>e s'. st_db s' = st_db s)"
proof -
  have "wpM (observed (endpoint sv a e) (r\<lparr>rq_correlation := cid\<rparr>)) c (s\<lparr>st_tick := t\<rparr>)
      (\<lambda>x s'. P (rs_status x) (rs_content x) s') (\<lambda>e s'. st_db s' = st_db s)" for cid t
    unfolding wp_observed by (rule wpM_mono [OF assms]) auto
  note o = this and o0 = this [of _ "st_tick s", simplified]
  show ?thesis
    unfolding serve_def correlation_def
    by (auto simp: wp wp_ids_New split: option.split intro!: o o0)
qed

end
