(* ===== verification/History.thy ===== *)
theory History
  imports Footprint "HOL-Library.Sublist"
begin

text \<open>
  What the history of the service never loses. From one state of the tables to a later one,
  operations, wallets, ledger entries and inbox messages are only added; an operation keeps what
  identifies it and does not change any more once it is terminal, a wallet keeps its player and
  its currency. Every effect of a use case continues the history in this sense.
\<close>

section \<open>Growing lists\<close>

definition grown :: "('a \<Rightarrow> 'a \<Rightarrow> bool) \<Rightarrow> 'a list \<Rightarrow> 'a list \<Rightarrow> bool" where
  "grown R xs ys \<longleftrightarrow> (\<exists>zs us. ys = zs @ us \<and> list_all2 R xs zs)"

lemma grown_append: "grown R xs ys \<Longrightarrow> grown R xs (ys @ zs)"
  unfolding grown_def by (metis append.assoc)

lemma grown_refl: "(\<And>x. R x x) \<Longrightarrow> grown R xs xs"
  unfolding grown_def by (intro exI [of _ xs] exI [of _ "[]"]) (auto intro: list.rel_refl)

lemma grown_map: "(\<And>x. x \<in> set xs \<Longrightarrow> R x (f x)) \<Longrightarrow> grown R xs (map f xs)"
  unfolding grown_def by (intro exI [of _ "map f xs"] exI [of _ "[]"]) (auto simp: list_all2_map2 intro: list.rel_refl_strong)

lemma grown_trans:
  assumes t: "\<And>x y z. R x y \<Longrightarrow> R y z \<Longrightarrow> R x z" and "grown R xs ys" "grown R ys zs"
  shows "grown R xs zs"
proof -
  obtain y1 y2 where y: "ys = y1 @ y2" "list_all2 R xs y1" using assms(2) unfolding grown_def by blast
  obtain z1 z2 where z: "zs = z1 @ z2" "list_all2 R (y1 @ y2) z1" using assms(3) unfolding grown_def y by blast
  obtain a b where ab: "z1 = a @ b" "list_all2 R y1 a" using z(2) by (auto simp: list_all2_append1)
  have "list_all2 R xs a" by (rule list_all2_trans [OF _ y(2) ab(2)]) (rule t)
  with z(1) ab(1) show ?thesis unfolding grown_def by auto
qed

lemma grown_in: "grown R xs ys \<Longrightarrow> x \<in> set xs \<Longrightarrow> \<exists>y \<in> set ys. R x y"
proof -
  assume "grown R xs ys" "x \<in> set xs"
  then obtain zs us where zs: "ys = zs @ us" "list_all2 R xs zs" unfolding grown_def by blast
  from zs(2) \<open>x \<in> set xs\<close> have "\<exists>z \<in> set zs. R x z" by (induction rule: list_all2_induct) auto
  then show ?thesis using zs(1) by auto
qed

section \<open>Continuing\<close>

definition kept_tx :: "tx \<Rightarrow> tx \<Rightarrow> bool" where
  "kept_tx t t' \<longleftrightarrow> same_identity t t' \<and> (Terminal (t_status t) \<longrightarrow> t' = t)"

definition kept_wallet :: "wallet \<Rightarrow> wallet \<Rightarrow> bool" where
  "kept_wallet w w' \<longleftrightarrow> w_id w' = w_id w \<and> w_playerID w' = w_playerID w
     \<and> currency (w_balance w') = currency (w_balance w)"

definition continues :: "db \<Rightarrow> book \<Rightarrow> db \<Rightarrow> book \<Rightarrow> bool" where
  "continues d B d' B' \<longleftrightarrow> grown kept_tx (bk_txs B) (bk_txs B') \<and> grown kept_wallet (bk_wallets B) (bk_wallets B')
     \<and> prefix (bk_entries B) (bk_entries B') \<and> prefix (db_inbox d) (db_inbox d')"

lemma kept_tx_refl [simp]: "kept_tx t t"
  by (simp add: kept_tx_def)

lemma kept_tx_trans: "kept_tx t u \<Longrightarrow> kept_tx u v \<Longrightarrow> kept_tx t v"
  unfolding kept_tx_def using same_identity_trans by metis

lemma kept_wallet_refl [simp]: "kept_wallet w w"
  by (simp add: kept_wallet_def)

lemma kept_wallet_trans: "kept_wallet w u \<Longrightarrow> kept_wallet u v \<Longrightarrow> kept_wallet w v"
  by (simp add: kept_wallet_def)

lemma continues_refl: "db_inbox d' = db_inbox d \<Longrightarrow> continues d B d' B"
  by (simp add: continues_def grown_refl)

lemma continues_trans: "continues d B d1 B1 \<Longrightarrow> continues d1 B1 d2 B2 \<Longrightarrow> continues d B d2 B2"
  unfolding continues_def
  by (auto intro: grown_trans [of kept_tx, OF kept_tx_trans] grown_trans [of kept_wallet, OF kept_wallet_trans] prefix_order.trans)

text \<open>An operation in progress is replaced.\<close>

lemma kept_replace:
  assumes "distinct (map t_id ts)" "t \<in> set ts" "same_identity t t'" "\<not> Terminal (t_status t)"
  shows "grown kept_tx ts (replace_tx t' ts)"
  unfolding replace_tx_def
proof (rule grown_map)
  fix x assume x: "x \<in> set ts"
  have "x = t" if "t_id x = t_id t'"
    using id_unique(1) [OF assms(1) x assms(2)] assms(3) that by (simp add: same_identity_def)
  then show "kept_tx x (if t_id x = t_id t' then t' else x)" using assms(3,4) by (auto simp: kept_tx_def)
qed

lemma kept_woken: "\<forall>x \<in> set ts. woken now x (f x) \<Longrightarrow> grown kept_tx ts (map f ts)"
proof (rule grown_map)
  fix x assume w: "\<forall>x \<in> set ts. woken now x (f x)" and x: "x \<in> set ts"
  then have "woken now x (f x)" by blast
  moreover have "same_identity x (f x)" using woken_same [OF calculation] by simp
  ultimately show "kept_tx x (f x)" by (auto simp: kept_tx_def woken_def Terminal_def)
qed

lemma kept_moved:
  assumes "distinct (map w_id ws)" "w \<in> set ws" "kept_wallet w w'"
  shows "grown kept_wallet ws (replace_wallet w' ws)"
  unfolding replace_wallet_def
proof (rule grown_map)
  fix x assume x: "x \<in> set ws"
  have "x = w" if "w_id x = w_id w'"
    using id_unique(2) [OF assms(1) x assms(2)] assms(3) that by (simp add: kept_wallet_def)
  then show "kept_wallet x (if w_id x = w_id w' then w' else x)" using assms(3) by auto
qed

lemma enact_kept:
  assumes "enact w t dec eid n deadline now = Inr (w', t')"
  shows "kept_wallet w w'" "\<not> Terminal (t_status t)"
proof -
  have "kept_wallet w w'" if m: "wallet_move w d tid a eid now = Inr (e, w')" for d tid a e
  proof -
    obtain x where "applyDirection (w_balance w) d a = Inr x"
      and w': "w' = w\<lparr>w_balance := x, w_version := w_version w + 1, w_updatedAt := now\<rparr>"
      using m by (auto simp: wallet_move_def bindR_eq_Inr split: if_splits)
    then have "currency x = currency (w_balance w)"
      by (cases "d = Credit") (simp_all add: applyDirection_def Add_eq_Inr Sub_eq_Inr)
    then show ?thesis by (simp add: kept_wallet_def w')
  qed
  then show "kept_wallet w w'"
    using assms by (auto simp: enact_def bindR_eq_Inr split: outcome.splits if_splits)
  have "tx_step t t'" by (rule enact_step [OF assms])
  then have "(t_status t, t_status t') \<in> diagram" by (rule tx_step_diagram)
  then show "\<not> Terminal (t_status t)" by (auto simp: diagram_def Terminal_def)
qed

section \<open>The use cases continue the history\<close>

lemma carried_continues:
  assumes inv: "distinct (map t_id (bk_txs B))" "distinct (map w_id (bk_wallets B))"
    and t: "t \<in> set (bk_txs B)" and w: "w \<in> set (bk_wallets B)" and ca: "carried B w t dec now t' eo b B1"
    and f: "\<forall>x \<in> set (bk_txs B1). woken now x (f x)" and B': "B' = B1\<lparr>bk_txs := map f (bk_txs B1)\<rparr>"
  shows "grown kept_tx (bk_txs B) (bk_txs B')" "grown kept_wallet (bk_wallets B) (bk_wallets B')"
    "prefix (bk_entries B) (bk_entries B')"
proof -
  obtain eid n deadline w' where en: "enact w t dec eid n deadline now = Inr (w', t')"
    and eo: "case eo of None \<Rightarrow> B1 = B\<lparr>bk_txs := replace_tx t' (bk_txs B)\<rparr> | Some e \<Rightarrow> B1 = settle_movement w' t' e B"
    using ca by (auto simp: carried_def split: option.splits)
  note k = enact_kept [OF en] and c = carried_operation [OF ca]
  have "grown kept_tx (bk_txs B) (bk_txs B1)"
    unfolding c(4) by (rule kept_replace [OF inv(1) t c(2) k(2)])
  from grown_trans [OF kept_tx_trans this kept_woken [OF f]]
  show "grown kept_tx (bk_txs B) (bk_txs B')" by (simp add: B')
  show "grown kept_wallet (bk_wallets B) (bk_wallets B')" "prefix (bk_entries B) (bk_entries B')"
    using eo kept_moved [OF inv(2) w k(1)] grown_refl [of kept_wallet, OF kept_wallet_refl]
    by (auto simp: B' settle_movement_def split: option.splits)
qed

lemma book_ids: "holds d B \<Longrightarrow> distinct (map t_id (bk_txs B))" "holds d B \<Longrightarrow> distinct (map w_id (bk_wallets B))"
  by (simp_all add: holds_def book_inv_def txs_ok_def wallets_ok_def)

lemma recorded_prefix: "recorded input res d d' \<Longrightarrow> prefix (db_inbox d) (db_inbox d')"
  by (auto simp: recorded_def split: if_splits)

lemma process_continues:
  assumes "process_outcome c input h B d res d'" "sound_book d B"
  shows "\<exists>B'. sound_book d' B' \<and> continues d B d' B'"
  using assms(1)
proof cases
  case redelivered
  then show ?thesis using assms(2) continues_refl [of d d B] by auto
next
  case (replayed t)
  have "continues d B d' B"
    using recorded_prefix [OF replayed(10)] by (simp add: continues_def grown_refl)
  then show ?thesis using replayed_sound [OF assms(2) replayed(2,8,10)] by blast
next
  case (settled t' eo B')
  obtain j now t w ref dec b B1 f where n: "NewExternal (WagerCommand input h) j now = Inr t"
    "\<forall>u \<in> set (bk_txs B). \<not> clash t u" "w \<in> set (bk_wallets B)"
    "carried (with_tx t B) w t dec now t' eo b B1" "\<forall>x \<in> set (bk_txs B1). woken now x (f x)"
    "B' = B1\<lparr>bk_txs := map f (bk_txs B1)\<rparr>"
    using settled(2) unfolding settled_new_def by blast
  have h: "holds d B" using assms(2) by (simp add: sound_book_def)
  have "t_id t \<notin> t_id ` set (bk_txs B)" using n(2) by (auto simp: clash_def)
  then have "distinct (map t_id (bk_txs (with_tx t B)))" using book_ids(1) [OF h] by simp
  from carried_continues [OF this _ _ _ n(4-6)] book_ids(2) [OF h] n(3)
  have g: "grown kept_tx (bk_txs B @ [t]) (bk_txs B')" "grown kept_wallet (bk_wallets B) (bk_wallets B')"
    "prefix (bk_entries B) (bk_entries B')" by simp_all
  have "grown kept_tx (bk_txs B) (bk_txs B @ [t])" by (rule grown_append) (simp add: grown_refl)
  from grown_trans [OF kept_tx_trans this g(1)] g(2,3) recorded_prefix [OF settled(5)]
  have "continues d B d' B'" by (simp add: continues_def)
  then show ?thesis using settled_sound [OF assms(2) settled(2,3,5)] by blast
qed

lemma retried_continues:
  assumes "retried c settings B d B' d'" "sound_book d B"
  shows "sound_book d' B' \<and> continues d B d' B'"
proof
  show "sound_book d' B'" by (rule retried_sound [OF assms(2,1)])
  have h: "holds d B" using assms(2) by (simp add: sound_book_def)
  note ids = book_ids [OF h]
  have one: "continues d B d' (B\<lparr>bk_txs := replace_tx t' (bk_txs B)\<rparr>)"
    if "t \<in> set (bk_txs B)" "t_status t = PendingReference" "same_identity t t'" "same_mail d d'" for t t'
    using kept_replace [OF ids(1) that(1,3)] that(2,4)
    by (simp add: continues_def grown_refl Terminal_def same_mail_def)
  from assms(1) show "continues d B d' B'"
  proof cases
    case unchanged
    then show ?thesis using continues_refl by simp
  next
    case (due_attempted t now)
    from due_attempted(4) show ?thesis
    proof cases
      case (again w ref dec t')
      then show ?thesis using one [OF due_attempted(1,2)] transition_identity(4) by simp
    next
      case (concluded w ref dec t' eo b B1 f)
      from carried_continues [OF ids due_attempted(1) concluded(2,7,8) concluded(1)] concluded(10)
      show ?thesis by (simp add: continues_def)
    qed
  next
    case (given_up t now t')
    then show ?thesis using one [OF given_up(2,3)] transition_identity(5) by simp
  qed
qed

lemma inbox_ok_more:
  assumes "inbox_ok d B" "db_inbox d' = db_inbox d" "set (bk_txs B) \<subseteq> set (bk_txs B')"
  shows "inbox_ok d' B'"
  using assms unfolding inbox_ok_def by (metis subsetD)

lemma opened_continues:
  assumes "opened c input B d w B' d'" "sound_book d B"
  shows "sound_book d' B' \<and> continues d B d' B'"
proof -
  have a: "bk_wallets B' = bk_wallets B @ [w]" "holds d' B'" "db_inbox d' = db_inbox d"
    "\<exists>ts es. bk_txs B' = bk_txs B @ ts \<and> bk_entries B' = bk_entries B @ es \<and> (\<forall>t \<in> set ts. t_status t = Processed)"
    using assms(1) by (auto simp: opened_def split: if_splits)
  then obtain ts es where t: "bk_txs B' = bk_txs B @ ts" "bk_entries B' = bk_entries B @ es"
    "\<forall>t \<in> set ts. t_status t = Processed" by blast
  have "inbox_ok d' B'"
    by (rule inbox_ok_more [of d B]) (use assms(2) a(3) t in \<open>simp_all add: sound_book_def\<close>)
  moreover have "continues d B d' B'"
    using a t by (simp add: continues_def grown_append grown_refl)
  ultimately show ?thesis using assms(2) a(2) t(1,3) by (auto simp: sound_book_def)
qed

end
