(* ===== verification/Publication.thy ===== *)
theory Publication
  imports PublishOutbox Frame "HOL-Library.Multiset"
begin

text \<open>
  Several publishers at work on one outbox, as a state machine. Its steps are the units of work
  and the calls of \<open>PublishOutbox\<close>, in any order and by any process, together with what the
  other use cases do to the outbox, which is to append to it. A process may die between any two
  steps, a commit may be applied without an answer, and the queue may accept a message and fail
  to say so. Facts: nothing is marked published before the queue took it, a claim that was
  overtaken changes nothing, and a batch is a run of these steps.
\<close>

section \<open>What a unit of work does to the outbox\<close>

text \<open>
  \<open>RETURNING\<close> yields only rows the statement changed, in an order of the server's choosing.
\<close>

definition returning_ok :: "env \<Rightarrow> bool" where
  "returning_ok c \<longleftrightarrow> (\<forall>n rs. set (e_arrange c n rs) \<subseteq> set rs)"

text \<open>The rows of one claim, and the events read from them.\<close>

definition claim_effect :: "string \<Rightarrow> outbox_row list \<Rightarrow> outbox_event list \<Rightarrow> outbox_row list \<Rightarrow> bool" where
  "claim_effect owner R es R' \<longleftrightarrow> (\<exists>I now until.
     (\<forall>x \<in> set R. xr_id x \<in> I \<longrightarrow> claimable now x)
     \<and> R' = update_where (\<lambda>x. xr_id x \<in> I) (claim_row owner until) R
     \<and> (\<forall>e \<in> set es. \<exists>x \<in> set R. xr_id x \<in> I \<and> scanOutboxEvent (claim_row owner until x) = Inr e))"

definition marked_row :: "time \<Rightarrow> outbox_row \<Rightarrow> outbox_row" where
  "marked_row at x = x\<lparr>xr_published_at := Some at, xr_locked_by := None, xr_locked_until := None,
     xr_last_error := None\<rparr>"

definition failed_row :: "time \<Rightarrow> string \<Rightarrow> outbox_row \<Rightarrow> outbox_row" where
  "failed_row at reason x = x\<lparr>xr_next_attempt_at := at, xr_last_error := Some reason,
     xr_locked_by := None, xr_locked_until := None\<rparr>"

definition mark_effect :: "receipt \<Rightarrow> outbox_row list \<Rightarrow> bool \<Rightarrow> outbox_row list \<Rightarrow> bool" where
  "mark_effect r R applied R' \<longleftrightarrow> (\<exists>clock at.
     R' = update_where (held_by r clock) (marked_row at) R \<and> applied = (0 < affected (held_by r clock) R))"

definition fail_effect :: "receipt \<Rightarrow> outbox_row list \<Rightarrow> outbox_row list \<Rightarrow> bool" where
  "fail_effect r R R' \<longleftrightarrow> (\<exists>clock at reason.
     R' = update_where (held_by r clock) (failed_row at reason) R)"

lemma set_update_where: "set (update_where P f R) = (\<lambda>x. if P x then f x else x) ` set R"
  by (simp add: update_where_def)

lemma ids_update_where: "(\<And>x. xr_id (f x) = xr_id x) \<Longrightarrow> map xr_id (update_where P f R) = map xr_id R"
  by (simp add: update_where_def comp_def if_distrib cong: if_cong)

lemma row_ids [simp]: "xr_id (claim_row owner until x) = xr_id x" "xr_id (marked_row at x) = xr_id x"
  "xr_id (failed_row at reason x) = xr_id x"
  by (simp_all add: claim_row_def marked_row_def failed_row_def)

lemma claim_ids_claimable:
  assumes "distinct (map xr_id R)" "x \<in> set R" "xr_id x \<in> set (claim_ids locked now limit R)"
  shows "claimable now x"
proof -
  obtain y where "y \<in> set R" "claimable now y" "xr_id y = xr_id x"
    using assms(3) by (auto simp: claim_ids_def dest!: in_set_takeD)
  then show ?thesis using assms(1,2) by (metis distinct_map inj_on_eq_iff)
qed

lemma scan_all_from: "scan_all f rs = Inr xs \<Longrightarrow> x \<in> set xs \<Longrightarrow> \<exists>r \<in> set rs. f r = Inr x"
  by (induction rs arbitrary: xs) (auto simp: bindR_eq_Inr)

lemma claim_effectI:
  assumes "returning_ok c" "distinct (map xr_id R)" "I = set (claim_ids locked now limit R)"
    and sc: "scan_all scanOutboxEvent (e_arrange c n (filter (\<lambda>x. xr_id x \<in> I)
      (update_where (\<lambda>x. xr_id x \<in> I) (claim_row owner until) R))) = Inr es"
  shows "claim_effect owner R es (update_where (\<lambda>x. xr_id x \<in> I) (claim_row owner until) R)"
proof -
  have "\<exists>x \<in> set R. xr_id x \<in> I \<and> scanOutboxEvent (claim_row owner until x) = Inr e" if m: "e \<in> set es" for e
  proof -
    obtain r where r: "r \<in> set (e_arrange c n (filter (\<lambda>x. xr_id x \<in> I)
        (update_where (\<lambda>x. xr_id x \<in> I) (claim_row owner until) R)))" "scanOutboxEvent r = Inr e"
      using scan_all_from [OF sc m] by blast
    then have "r \<in> set (filter (\<lambda>x. xr_id x \<in> I) (update_where (\<lambda>x. xr_id x \<in> I) (claim_row owner until) R))"
      using assms(1) unfolding returning_ok_def by blast
    with r(2) show ?thesis by (auto simp: set_update_where split: if_splits)
  qed
  moreover have "\<forall>x \<in> set R. xr_id x \<in> I \<longrightarrow> claimable now x"
    using claim_ids_claimable [OF assms(2)] assms(3) by blast
  ultimately show ?thesis unfolding claim_effect_def by blast
qed

lemma wp_claim_closure:
  assumes "returning_ok c" "distinct (map xr_id (db_outbox (st_db s)))"
  shows "wpM (Outbox_Claim owner now lease limit) c s
    (\<lambda>es s'. claim_effect owner (db_outbox (st_db s)) es (db_outbox (st_db s'))) (\<lambda>_ _. True)"
proof -
  have k: "claim_effect owner R es (update_where (\<lambda>x. xr_id x \<in> set (claim_ids locked now limit R)) (claim_row owner until) R)"
    if "R = db_outbox (st_db s)"
      "scan_all scanOutboxEvent (e_arrange c n (filter (\<lambda>x. xr_id x \<in> set (claim_ids locked now limit R))
        (update_where (\<lambda>x. xr_id x \<in> set (claim_ids locked now limit R)) (claim_row owner until) R))) = Inr es"
    for R locked n es until
    by (rule claim_effectI [OF assms(1) _ refl that(2)]) (simp add: that(1) assms(2))
  show ?thesis
    unfolding Outbox_Claim_def wp_bindM wp_observe wp_mapErrM
  proof (rule wp_statementI)
    fix rows d
    assume "sql_claim_outbox (e_locked c (st_tick s)) (e_arrange c (st_tick (s\<lparr>st_tick := st_tick s + 1\<rparr>))) owner (now + lease) now limit
      (st_db (s\<lparr>st_tick := st_tick s + 1, st_tick := st_tick (s\<lparr>st_tick := st_tick s + 1\<rparr>) + 1\<rparr>)) = Inr (rows, d)"
    then show "wpM (liftR (scan_all scanOutboxEvent rows)) c
        (s\<lparr>st_tick := st_tick s + 1, st_tick := st_tick (s\<lparr>st_tick := st_tick s + 1\<rparr>) + 1,
           st_tick := st_tick (s\<lparr>st_tick := st_tick s + 1, st_tick := st_tick (s\<lparr>st_tick := st_tick s + 1\<rparr>) + 1\<rparr>) + 1, st_db := d\<rparr>)
        (\<lambda>es s'. claim_effect owner (db_outbox (st_db s)) es (db_outbox (st_db s'))) (\<lambda>_ _. True)"
      using k [OF refl] by (cases "scan_all scanOutboxEvent rows") (auto simp: sql_claim_outbox_def Let_def wp_liftR)
  qed simp
qed

text \<open>
  What a unit of work does to the outbox: what its closure does, or, on an error, perhaps that
  or nothing.
\<close>

definition unit_outcome :: "('a \<Rightarrow> outbox_row list \<Rightarrow> bool) \<Rightarrow> outbox_row list \<Rightarrow> 'a result \<Rightarrow> outbox_row list \<Rightarrow> bool" where
  "unit_outcome eff R r R' \<longleftrightarrow> (case r of Inr x \<Rightarrow> eff x R' | Inl _ \<Rightarrow> R' = R \<or> (\<exists>x. eff x R'))"

lemma unit_outcomeI:
  assumes "honest_commit c" and "uow_Do u fn c s = (r, s')"
    and "\<And>s1. st_db s1 = st_db s \<Longrightarrow> wpM fn c s1 (\<lambda>x s2. eff x (db_outbox (st_db s2))) (\<lambda>_ _. True)"
  shows "unit_outcome eff (db_outbox (st_db s)) r (db_outbox (st_db s'))"
proof -
  let ?P = "\<lambda>d. db_outbox d = db_outbox (st_db s) \<or> (\<exists>x. eff x (db_outbox d))"
  have "wpM fn c s1 (\<lambda>x s2. ?P (st_db s2) \<and> eff x (db_outbox (st_db s2))) (\<lambda>_ _. True)" if "st_db s1 = st_db s" for s1
    by (rule wpM_mono [OF assms(3) [OF that]]) blast+
  from uow_do.wp_run_safe [OF assms(1), of ?P s fn "\<lambda>x d. eff x (db_outbox d)" u] this
  show ?thesis using assms(2) by (auto simp: wpM_def unit_outcome_def split: sum.splits)
qed

lemma clock_run: "bindM clock_Now f c s = f (e_now c (st_tick s)) c (s\<lparr>st_tick := st_tick s + 1\<rparr>)"
  by (simp add: bindM_def clock_Now_def observe_def)

lemma try_run: "bindM (tryM m) f c s = (case m c s of (r, s') \<Rightarrow> f r c s')"
  by (simp add: bindM_def tryM_def split: prod.split)

lemma publish_claim_outcome:
  assumes "honest_commit c" "returning_ok c" "distinct (map xr_id (db_outbox (st_db s)))"
    and "publish_claim u settings c s = (r, s')"
  shows "unit_outcome (claim_effect (os_owner settings) (db_outbox (st_db s))) (db_outbox (st_db s)) r (db_outbox (st_db s'))"
proof -
  have "unit_outcome (claim_effect (os_owner settings) (db_outbox (st_db s)))
      (db_outbox (st_db (s\<lparr>st_tick := st_tick s + 1\<rparr>))) r (db_outbox (st_db s'))"
  proof (rule unit_outcomeI [OF assms(1) assms(4) [unfolded publish_claim_def clock_run]])
    fix s1 :: st assume "st_db s1 = st_db (s\<lparr>st_tick := st_tick s + 1\<rparr>)"
    then show "wpM (Outbox_Claim (os_owner settings) (e_now c (st_tick s)) (os_lease settings) (os_batchSize settings)) c s1
        (\<lambda>es s2. claim_effect (os_owner settings) (db_outbox (st_db s)) es (db_outbox (st_db s2))) (\<lambda>_ _. True)"
      using wp_claim_closure [OF assms(2), of s1] assms(3) by simp
  qed
  then show ?thesis by simp
qed

lemma publish_mark_outcome:
  assumes "honest_commit c" and "publish_mark u rc c s = (r, s')"
  shows "unit_outcome (mark_effect rc (db_outbox (st_db s))) (db_outbox (st_db s)) r (db_outbox (st_db s'))"
proof (rule unit_outcomeI [OF assms(1) assms(2) [unfolded publish_mark_def]])
  fix s1 :: st assume "st_db s1 = st_db s"
  then show "wpM (bindM clock_Now (\<lambda>now. Outbox_MarkPublished rc now)) c s1
      (\<lambda>x s2. mark_effect rc (db_outbox (st_db s)) x (db_outbox (st_db s2))) (\<lambda>_ _. True)"
    by (simp add: wp clock_Now_def Outbox_MarkPublished_def sql_mark_published_def split: option.split)
      (auto simp: mark_effect_def marked_row_def [abs_def])
qed

lemma publish_reschedule_outcome:
  assumes "honest_commit c" and "publish_reschedule u settings rc cause c s = (r, s')"
  shows "db_outbox (st_db s') = db_outbox (st_db s) \<or> fail_effect rc (db_outbox (st_db s)) (db_outbox (st_db s'))"
proof -
  have k: "wpM (Outbox_MarkFailed rc cause at) c s1
      (\<lambda>_ s2. fail_effect rc (db_outbox (st_db s)) (db_outbox (st_db s2))) (\<lambda>_ _. True)" if "st_db s1 = st_db s" for s1 at
    using that by (simp add: wp Outbox_MarkFailed_def sql_mark_failed_def split: option.split)
      (auto simp: fail_effect_def failed_row_def [abs_def])
  obtain at r' where "uow_Do u (Outbox_MarkFailed rc cause at) c (s\<lparr>st_tick := st_tick s + 1\<rparr>) = (r', s')"
    using assms(2) unfolding publish_reschedule_def clock_run
    by (auto simp: Let_def tryM_def bindM_def returnM_def split: prod.splits)
  from unit_outcomeI [OF assms(1) this k] show ?thesis
    by (auto simp: unit_outcome_def split: sum.splits)
qed

section \<open>The machine\<close>

text \<open>
  The rows of the outbox, what the broker accepted, and, as history, the claims made and the
  claimed events that were sent. An event carries its claim: the owner, the generation and the
  end of the lease.
\<close>

record publication =
  pb_rows :: "outbox_row list"
  pb_broker :: "broker_call list"
  pb_claimed :: "outbox_event list"
  pb_sent :: "outbox_event list"

text \<open>The identifiers are printed by \<open>us\<close>, the queue is \<open>url\<close>.\<close>

inductive publication_step :: "(uuid \<Rightarrow> string) \<Rightarrow> string \<Rightarrow> publication \<Rightarrow> publication \<Rightarrow> bool"
  for us url where
  claims: "\<lbrakk>honest_commit c; returning_ok c; pb_rows b = db_outbox (st_db s); publish_claim u settings c s = (r, s');
      b' = b\<lparr>pb_rows := db_outbox (st_db s'), pb_claimed := (case r of Inl _ \<Rightarrow> [] | Inr es \<Rightarrow> es) @ pb_claimed b\<rparr>\<rbrakk>
    \<Longrightarrow> publication_step us url b b'"
| sends: "\<lbrakk>e \<in> set (pb_claimed b); e_uuid_text c = us; st_broker s = pb_broker b;
      notifier_Send url e c s = (Inr None, s'); b' = b\<lparr>pb_broker := st_broker s', pb_sent := e # pb_sent b\<rparr>\<rbrakk>
    \<Longrightarrow> publication_step us url b b'"
| sends_unheard: "\<lbrakk>e \<in> set (pb_claimed b);
      b' = b\<lparr>pb_broker := pb_broker b @ [SendMessage (notifier_message us url e)]\<rparr>\<rbrakk>
    \<Longrightarrow> publication_step us url b b'"
| marks: "\<lbrakk>honest_commit c; e \<in> set (pb_sent b); pb_rows b = db_outbox (st_db s);
      publish_mark u (Receipt e) c s = (r, s'); b' = b\<lparr>pb_rows := db_outbox (st_db s')\<rparr>\<rbrakk>
    \<Longrightarrow> publication_step us url b b'"
| reschedules: "\<lbrakk>honest_commit c; e \<in> set (pb_claimed b); pb_rows b = db_outbox (st_db s);
      publish_reschedule u settings (Receipt e) cause c s = (r, s'); b' = b\<lparr>pb_rows := db_outbox (st_db s')\<rparr>\<rbrakk>
    \<Longrightarrow> publication_step us url b b'"
| appends: "\<lbrakk>appended (pb_rows b) R; b' = b\<lparr>pb_rows := R\<rparr>\<rbrakk> \<Longrightarrow> publication_step us url b b'"

inductive_cases publication_step_cases: "publication_step us url b b'"

definition fresh_publication :: publication where
  "fresh_publication = \<lparr>pb_rows = [], pb_broker = [], pb_claimed = [], pb_sent = []\<rparr>"

definition publication_reachable :: "(uuid \<Rightarrow> string) \<Rightarrow> string \<Rightarrow> publication \<Rightarrow> bool" where
  "publication_reachable us url b \<longleftrightarrow> (publication_step us url)\<^sup>*\<^sup>* fresh_publication b"

section \<open>Rows evolve\<close>

text \<open>What an event says, as opposed to where its publication stands.\<close>

definition event_content :: "outbox_row \<Rightarrow> outbox_row" where
  "event_content x = x\<lparr>xr_attempts := 0, xr_next_attempt_at := 0, xr_locked_by := None, xr_locked_until := None,
     xr_last_error := None, xr_published_at := None\<rparr>"

definition evolves :: "outbox_row \<Rightarrow> outbox_row \<Rightarrow> bool" where
  "evolves x y \<longleftrightarrow> event_content y = event_content x \<and> xr_attempts x \<le> xr_attempts y
     \<and> (xr_published_at x \<noteq> None \<longrightarrow> y = x)"

definition row_message :: "(uuid \<Rightarrow> string) \<Rightarrow> string \<Rightarrow> outbox_row \<Rightarrow> queue_message" where
  "row_message us url x = \<lparr>qm_queueURL = url, qm_body = Some (xr_payload x), qm_groupID = xr_partition_key x,
     qm_deduplicationID = us (xr_id x),
     qm_attributes = [(''eventType'', StringAttribute (xr_event_type x)),
       (''eventVersion'', NumberAttribute (xr_event_version x)),
       (''aggregateType'', StringAttribute (xr_aggregate_type x)),
       (''correlationId'', StringAttribute (xr_correlation_id x))]\<rparr>"

lemma content_sel:
  assumes "event_content y = event_content x"
  shows "xr_id y = xr_id x" "row_message us url y = row_message us url x"
proof -
  have "xr_id (event_content y) = xr_id (event_content x)" "xr_payload (event_content y) = xr_payload (event_content x)"
    "xr_partition_key (event_content y) = xr_partition_key (event_content x)"
    "xr_event_type (event_content y) = xr_event_type (event_content x)"
    "xr_event_version (event_content y) = xr_event_version (event_content x)"
    "xr_aggregate_type (event_content y) = xr_aggregate_type (event_content x)"
    "xr_correlation_id (event_content y) = xr_correlation_id (event_content x)"
    using assms by simp_all
  then show "xr_id y = xr_id x" "row_message us url y = row_message us url x"
    by (simp_all add: event_content_def row_message_def)
qed

lemma evolves_refl [simp]: "evolves x x"
  by (simp add: evolves_def)

lemma evolves_rows:
  "xr_published_at x = None \<Longrightarrow> evolves x (claim_row owner until x)"
  "xr_published_at x = None \<Longrightarrow> evolves x (marked_row at x)"
  "xr_published_at x = None \<Longrightarrow> evolves x (failed_row at reason x)"
  by (simp_all add: evolves_def event_content_def claim_row_def marked_row_def failed_row_def)

lemma claimable_open: "claimable now x \<Longrightarrow> xr_published_at x = None"
  by (simp add: claimable_def)

lemma held_open: "held_by r clock x \<Longrightarrow> xr_published_at x = None"
  by (simp add: held_by_def)

lemma scanned_event:
  assumes "scanOutboxEvent x = Inr e"
  shows "oe_id e = xr_id x" "oe_attempts e = xr_attempts x" "oe_lockedBy e = text_of (xr_locked_by x)"
    "notifier_message us url e = row_message us url x"
  using assms
  by (auto simp: scanOutboxEvent_def RehydrateOutboxEvent_eq_Inr notifier_message_def row_message_def)

text \<open>Every step changes rows in place, as they may evolve, or appends new ones.\<close>

definition rows_evolve :: "outbox_row list \<Rightarrow> outbox_row list \<Rightarrow> bool" where
  "rows_evolve R R' \<longleftrightarrow> (\<exists>f xs. R' = map f R @ xs \<and> (\<forall>x \<in> set R. evolves x (f x)) \<and> (\<forall>x \<in> set xs. unclaimed x)
     \<and> (distinct (map xr_id R) \<longrightarrow> distinct (map xr_id R')))"

lemma rows_evolve_refl: "rows_evolve R R"
  unfolding rows_evolve_def by (intro exI [of _ id] exI [of _ "[]"]) simp

lemma rows_evolve_update:
  assumes "\<And>x. x \<in> set R \<Longrightarrow> P x \<Longrightarrow> evolves x (f x)" "\<And>x. xr_id (f x) = xr_id x"
  shows "rows_evolve R (update_where P f R)"
proof -
  have "distinct (map xr_id (update_where P f R)) = distinct (map xr_id R)"
    by (simp only: ids_update_where [OF assms(2)])
  moreover have "update_where P f R = map (\<lambda>x. if P x then f x else x) R @ []" by (simp add: update_where_def)
  moreover have "\<forall>x \<in> set R. evolves x (if P x then f x else x)" using assms(1) by simp
  ultimately show ?thesis
    unfolding rows_evolve_def
    by (intro exI [of _ "\<lambda>x. if P x then f x else x"] exI [of _ "[]"]) simp
qed

lemma rows_evolve_claim: "claim_effect owner R es R' \<Longrightarrow> rows_evolve R R'"
  unfolding claim_effect_def by (auto intro!: rows_evolve_update evolves_rows dest: claimable_open)

lemma rows_evolve_mark: "mark_effect r R b R' \<Longrightarrow> rows_evolve R R'"
  unfolding mark_effect_def by (auto intro!: rows_evolve_update evolves_rows dest: held_open)

lemma rows_evolve_fail: "fail_effect r R R' \<Longrightarrow> rows_evolve R R'"
  unfolding fail_effect_def by (auto intro!: rows_evolve_update evolves_rows dest: held_open)

lemma rows_evolve_append: "appended R R' \<Longrightarrow> rows_evolve R R'"
  unfolding appended_def rows_evolve_def by (force intro: exI [of _ id])

lemma rows_evolve_unit:
  "unit_outcome eff R r R' \<Longrightarrow> (\<And>x. eff x R' \<Longrightarrow> rows_evolve R R') \<Longrightarrow> rows_evolve R R'"
  by (auto simp: unit_outcome_def rows_evolve_refl split: sum.splits)

lemma step_evolves:
  assumes "publication_step us url b b'" "distinct (map xr_id (pb_rows b))"
  shows "rows_evolve (pb_rows b) (pb_rows b')"
  using assms
proof (cases rule: publication_step.cases)
  case (claims c s u settings r s')
  show ?thesis
    using rows_evolve_unit [OF publish_claim_outcome [OF claims(1,2) _ claims(4)] rows_evolve_claim] claims(3,5) assms(2) by simp
next
  case (marks c e s u r s')
  show ?thesis
    using rows_evolve_unit [OF publish_mark_outcome [OF marks(1,4)] rows_evolve_mark] marks(3,5) by simp
next
  case (reschedules c e s u settings cause r s')
  show ?thesis
    using publish_reschedule_outcome [OF reschedules(1,4)] reschedules(3,5) rows_evolve_fail rows_evolve_refl by auto
next
  case (appends R)
  then show ?thesis using rows_evolve_append by simp
qed (simp_all add: rows_evolve_refl)

section \<open>The invariant\<close>

text \<open>
  Every claim is about a row that is still there and says the same, no later than the row's
  generation, and is the only one of its generation; what was sent was claimed and is in the
  queue; what is marked was sent by the claim of that generation.
\<close>

definition claims_ok :: "(uuid \<Rightarrow> string) \<Rightarrow> string \<Rightarrow> publication \<Rightarrow> bool" where
  "claims_ok us url b \<longleftrightarrow> (\<forall>e \<in> set (pb_claimed b). \<exists>x \<in> set (pb_rows b). xr_id x = oe_id e
     \<and> oe_attempts e \<le> xr_attempts x \<and> row_message us url x = notifier_message us url e)"

definition fenced :: "publication \<Rightarrow> bool" where
  "fenced b \<longleftrightarrow> (\<forall>e \<in> set (pb_claimed b). \<forall>e' \<in> set (pb_claimed b).
     oe_id e = oe_id e' \<longrightarrow> oe_attempts e = oe_attempts e' \<longrightarrow> e = e')"

definition sends_ok :: "(uuid \<Rightarrow> string) \<Rightarrow> string \<Rightarrow> publication \<Rightarrow> bool" where
  "sends_ok us url b \<longleftrightarrow> set (pb_sent b) \<subseteq> set (pb_claimed b)
     \<and> (\<forall>e \<in> set (pb_sent b). SendMessage (notifier_message us url e) \<in> set (pb_broker b))"

definition marks_ok :: "publication \<Rightarrow> bool" where
  "marks_ok b \<longleftrightarrow> (\<forall>x \<in> set (pb_rows b). xr_published_at x \<noteq> None \<longrightarrow>
     (\<exists>e \<in> set (pb_sent b). oe_id e = xr_id x \<and> oe_attempts e = xr_attempts x))"

definition publication_inv :: "(uuid \<Rightarrow> string) \<Rightarrow> string \<Rightarrow> publication \<Rightarrow> bool" where
  "publication_inv us url b \<longleftrightarrow> distinct (map xr_id (pb_rows b)) \<and> claims_ok us url b \<and> fenced b
     \<and> sends_ok us url b \<and> marks_ok b"

lemma claims_ok_evolve:
  assumes "claims_ok us url b" "rows_evolve (pb_rows b) R'"
  shows "claims_ok us url (b\<lparr>pb_rows := R'\<rparr>)"
proof -
  obtain f xs where f: "R' = map f (pb_rows b) @ xs" "\<And>x. x \<in> set (pb_rows b) \<Longrightarrow> evolves x (f x)"
    using assms(2) by (auto simp: rows_evolve_def)
  have "\<exists>y \<in> set R'. xr_id y = oe_id e \<and> oe_attempts e \<le> xr_attempts y \<and> row_message us url y = notifier_message us url e"
    if e: "e \<in> set (pb_claimed b)" for e
  proof -
    obtain x where x: "x \<in> set (pb_rows b)" "xr_id x = oe_id e" "oe_attempts e \<le> xr_attempts x"
      "row_message us url x = notifier_message us url e"
      using assms(1) e by (auto simp: claims_ok_def)
    have c: "event_content (f x) = event_content x" "xr_attempts x \<le> xr_attempts (f x)"
      using f(2) [OF x(1)] by (simp_all add: evolves_def)
    have "f x \<in> set R'" using f(1) x(1) by simp
    moreover have "xr_id (f x) = oe_id e" "oe_attempts e \<le> xr_attempts (f x)"
      "row_message us url (f x) = notifier_message us url e"
      using content_sel [OF c(1)] c(2) x(2-4) by simp_all
    ultimately show ?thesis by blast
  qed
  then show ?thesis by (simp add: claims_ok_def)
qed

text \<open>Marks stay right while no row is newly marked.\<close>

lemma marks_ok_update:
  assumes "marks_ok b" "\<And>x. x \<in> set (pb_rows b) \<Longrightarrow> P x \<Longrightarrow> xr_published_at (f x) = None"
  shows "marks_ok (b\<lparr>pb_rows := update_where P f (pb_rows b)\<rparr>)"
  using assms by (auto simp: marks_ok_def set_update_where split: if_splits)

lemma marks_ok_claimed [simp]: "marks_ok (b\<lparr>pb_rows := R, pb_claimed := C\<rparr>) = marks_ok (b\<lparr>pb_rows := R\<rparr>)"
  by (simp add: marks_ok_def)

lemma marks_ok_marked:
  assumes "marks_ok b" "e \<in> set (pb_sent b)" "mark_effect (Receipt e) (pb_rows b) applied R'"
  shows "marks_ok (b\<lparr>pb_rows := R'\<rparr>)"
proof -
  obtain clock at where R: "R' = update_where (held_by (Receipt e) clock) (marked_row at) (pb_rows b)"
    using assms(3) by (auto simp: mark_effect_def)
  have "oe_id e = xr_id x \<and> oe_attempts e = xr_attempts x" if "held_by (Receipt e) clock x" for x
    using that by (simp add: held_by_def Receipt_def)
  then show ?thesis
    using assms(1,2) unfolding marks_ok_def R
    by (fastforce simp: set_update_where marked_row_def split: if_splits)
qed

lemma marks_ok_append: "marks_ok b \<Longrightarrow> appended (pb_rows b) R \<Longrightarrow> marks_ok (b\<lparr>pb_rows := R\<rparr>)"
  by (auto simp: marks_ok_def appended_def unclaimed_def)

text \<open>A new claim is of a generation no one had before.\<close>

lemma claimed_events:
  assumes "publication_inv us url b" "claim_effect owner (pb_rows b) es R'"
  shows "\<forall>e \<in> set es. \<exists>x \<in> set R'. xr_id x = oe_id e \<and> oe_attempts e = xr_attempts x \<and> row_message us url x = notifier_message us url e"
    and "\<forall>e \<in> set es. \<forall>e' \<in> set (pb_claimed b). oe_id e = oe_id e' \<longrightarrow> oe_attempts e' < oe_attempts e"
    and "\<forall>e \<in> set es. \<forall>e' \<in> set es. oe_id e = oe_id e' \<longrightarrow> e = e'"
proof -
  obtain I now until where I: "R' = update_where (\<lambda>x. xr_id x \<in> I) (claim_row owner until) (pb_rows b)"
    "\<forall>e \<in> set es. \<exists>x \<in> set (pb_rows b). xr_id x \<in> I \<and> scanOutboxEvent (claim_row owner until x) = Inr e"
    using assms(2) by (auto simp: claim_effect_def)
  have di: "distinct (map xr_id (pb_rows b))" and co: "claims_ok us url b"
    using assms(1) by (simp_all add: publication_inv_def)
  have same: "x = y" if "x \<in> set (pb_rows b)" "y \<in> set (pb_rows b)" "xr_id x = xr_id y" for x y
    using di that by (metis distinct_map inj_on_eq_iff)
  have from_row: "\<exists>x \<in> set (pb_rows b). xr_id x \<in> I \<and> oe_id e = xr_id x \<and> oe_attempts e = xr_attempts x + 1
      \<and> scanOutboxEvent (claim_row owner until x) = Inr e
      \<and> notifier_message us url e = row_message us url (claim_row owner until x)" if "e \<in> set es" for e
    using I(2) that scanned_event(1,2,4) by (fastforce simp: claim_row_def)
  show "\<forall>e \<in> set es. \<exists>x \<in> set R'. xr_id x = oe_id e \<and> oe_attempts e = xr_attempts x \<and> row_message us url x = notifier_message us url e"
  proof
    fix e assume "e \<in> set es"
    then obtain x where x: "x \<in> set (pb_rows b)" "xr_id x \<in> I" "oe_id e = xr_id x" "oe_attempts e = xr_attempts x + 1"
      "notifier_message us url e = row_message us url (claim_row owner until x)"
      using from_row by blast
    then have "claim_row owner until x \<in> set R'" by (auto simp: I(1) set_update_where)
    then show "\<exists>x \<in> set R'. xr_id x = oe_id e \<and> oe_attempts e = xr_attempts x \<and> row_message us url x = notifier_message us url e"
      by (rule bexI [rotated]) (use x in \<open>simp_all add: claim_row_def\<close>)
  qed
  show "\<forall>e \<in> set es. \<forall>e' \<in> set (pb_claimed b). oe_id e = oe_id e' \<longrightarrow> oe_attempts e' < oe_attempts e"
  proof (intro ballI impI)
    fix e e' assume "e \<in> set es" "e' \<in> set (pb_claimed b)" and i: "oe_id e = oe_id e'"
    then obtain x x' where "x \<in> set (pb_rows b)" "oe_id e = xr_id x" "oe_attempts e = xr_attempts x + 1"
      "x' \<in> set (pb_rows b)" "xr_id x' = oe_id e'" "oe_attempts e' \<le> xr_attempts x'"
      using from_row co unfolding claims_ok_def by blast
    with i same [of x x'] show "oe_attempts e' < oe_attempts e" by simp
  qed
  show "\<forall>e \<in> set es. \<forall>e' \<in> set es. oe_id e = oe_id e' \<longrightarrow> e = e'"
  proof (intro ballI impI)
    fix e e' assume "e \<in> set es" "e' \<in> set es" and i: "oe_id e = oe_id e'"
    then obtain x x' where "x \<in> set (pb_rows b)" "oe_id e = xr_id x" "scanOutboxEvent (claim_row owner until x) = Inr e"
      "x' \<in> set (pb_rows b)" "oe_id e' = xr_id x'" "scanOutboxEvent (claim_row owner until x') = Inr e'"
      using from_row by blast
    with i same [of x x'] show "e = e'" by simp
  qed
qed

lemma inv_evolve:
  assumes "publication_inv us url b" "rows_evolve (pb_rows b) R'" "marks_ok (b\<lparr>pb_rows := R'\<rparr>)"
  shows "publication_inv us url (b\<lparr>pb_rows := R'\<rparr>)"
  using assms claims_ok_evolve [of us url b R']
  by (auto simp: publication_inv_def fenced_def sends_ok_def rows_evolve_def)

lemma inv_claim:
  assumes inv: "publication_inv us url b" and eff: "claim_effect owner (pb_rows b) es R'"
  shows "publication_inv us url (b\<lparr>pb_rows := R', pb_claimed := es @ pb_claimed b\<rparr>)"
proof -
  obtain I now until where I: "\<forall>x \<in> set (pb_rows b). xr_id x \<in> I \<longrightarrow> claimable now x"
    "R' = update_where (\<lambda>x. xr_id x \<in> I) (claim_row owner until) (pb_rows b)"
    using eff by (auto simp: claim_effect_def)
  have m: "marks_ok (b\<lparr>pb_rows := R'\<rparr>)"
    unfolding I(2) by (rule marks_ok_update)
      (use inv I(1) in \<open>auto simp: publication_inv_def claim_row_def dest: claimable_open\<close>)
  have "publication_inv us url (b\<lparr>pb_rows := R'\<rparr>)"
    by (rule inv_evolve [OF inv rows_evolve_claim [OF eff]]) (rule m)
  then have old: "distinct (map xr_id R')" "claims_ok us url (b\<lparr>pb_rows := R'\<rparr>)" "fenced b" "sends_ok us url b"
    using inv by (simp_all add: publication_inv_def)
  note new = claimed_events [OF inv eff]
  have "claims_ok us url (b\<lparr>pb_rows := R', pb_claimed := es @ pb_claimed b\<rparr>)"
    using old(2) new(1) by (fastforce simp: claims_ok_def)
  moreover have "fenced (b\<lparr>pb_rows := R', pb_claimed := es @ pb_claimed b\<rparr>)"
  proof -
    have "e = e'" if "e \<in> set es \<union> set (pb_claimed b)" "e' \<in> set es \<union> set (pb_claimed b)"
      "oe_id e = oe_id e'" "oe_attempts e = oe_attempts e'" for e e'
      using that old(3) new(2) [rule_format, of e e'] new(2) [rule_format, of e' e] new(3) [rule_format, of e e']
      by (auto simp: fenced_def)
    then show ?thesis by (simp add: fenced_def)
  qed
  ultimately show ?thesis
    using old(1,4) m by (auto simp: publication_inv_def sends_ok_def)
qed

lemma inv_unit:
  assumes "publication_inv us url b" "unit_outcome eff (pb_rows b) r R'"
    "\<And>x. eff x R' \<Longrightarrow> publication_inv us url (b\<lparr>pb_rows := R'\<rparr>)"
  shows "publication_inv us url (b\<lparr>pb_rows := R'\<rparr>)"
proof -
  have "b\<lparr>pb_rows := pb_rows b\<rparr> = b" by simp
  then show ?thesis using assms by (auto simp: unit_outcome_def split: sum.splits)
qed

lemma inv_fail:
  assumes "publication_inv us url b" "fail_effect rc (pb_rows b) R'"
  shows "publication_inv us url (b\<lparr>pb_rows := R'\<rparr>)"
proof (rule inv_evolve [OF assms(1) rows_evolve_fail [OF assms(2)]])
  show "marks_ok (b\<lparr>pb_rows := R'\<rparr>)"
    using assms unfolding fail_effect_def
    by (auto simp: publication_inv_def failed_row_def intro!: marks_ok_update dest: held_open)
qed

lemma inv_mark:
  assumes "publication_inv us url b" "e \<in> set (pb_sent b)" "mark_effect (Receipt e) (pb_rows b) applied R'"
  shows "publication_inv us url (b\<lparr>pb_rows := R'\<rparr>)"
  by (rule inv_evolve [OF assms(1) rows_evolve_mark [OF assms(3)] marks_ok_marked [OF _ assms(2,3)]])
    (use assms(1) in \<open>simp add: publication_inv_def\<close>)

lemma sent_call:
  assumes "notifier_Send url e c s = (Inr r, s')"
  shows "st_db s' = st_db s \<and> st_broker s' = st_broker s
      @ (if r = None then [SendMessage (notifier_message (e_uuid_text c) url e)] else [])"
  using assms
  by (auto simp: notifier_Send_def bindM_def askM_def call_broker_def returnM_def Let_def split: option.splits)

lemma step_inv:
  assumes "publication_step us url b b'" and inv: "publication_inv us url b"
  shows "publication_inv us url b'"
  using assms(1)
proof (cases rule: publication_step.cases)
  case (claims c s u settings r s')
  have "unit_outcome (claim_effect (os_owner settings) (pb_rows b)) (pb_rows b) r (db_outbox (st_db s'))"
    using publish_claim_outcome [OF claims(1,2) _ claims(4)] claims(3) inv by (simp add: publication_inv_def)
  then show ?thesis
  proof (cases r)
    case (Inr es)
    with \<open>unit_outcome _ _ _ _\<close> show ?thesis using inv_claim [OF inv] claims(5) by (simp add: unit_outcome_def)
  next
    case (Inl e)
    have "publication_inv us url (b\<lparr>pb_rows := R'\<rparr>)" if "claim_effect owner (pb_rows b) es R'" for owner es R'
      by (rule inv_evolve [OF inv rows_evolve_claim [OF that]])
        (use inv_claim [OF inv that] in \<open>simp add: publication_inv_def marks_ok_def\<close>)
    with Inl show ?thesis
      using inv_unit [OF inv \<open>unit_outcome _ _ _ _\<close>] claims(5) by simp
  qed
next
  case (sends e c s s')
  then show ?thesis using inv sent_call [OF sends(4)]
    by (auto simp: publication_inv_def claims_ok_def fenced_def sends_ok_def marks_ok_def)
next
  case (sends_unheard e)
  then show ?thesis using inv
    by (auto simp: publication_inv_def claims_ok_def fenced_def sends_ok_def marks_ok_def)
next
  case (marks c e s u r s')
  have "unit_outcome (mark_effect (Receipt e) (pb_rows b)) (pb_rows b) r (db_outbox (st_db s'))"
    using publish_mark_outcome [OF marks(1,4)] marks(3) by simp
  then show ?thesis using inv_unit [OF inv _ inv_mark [OF inv marks(2)]] marks(5) by simp
next
  case (reschedules c e s u settings cause r s')
  have "publication_inv us url (b\<lparr>pb_rows := db_outbox (st_db s)\<rparr>)"
    using inv reschedules(3) by (cases b) simp
  then show ?thesis
    using publish_reschedule_outcome [OF reschedules(1,4)] inv_fail [OF inv] reschedules(3,5) by auto
next
  case (appends R)
  then show ?thesis
    using inv_evolve [OF inv rows_evolve_append] marks_ok_append inv by (simp add: publication_inv_def)
qed

lemma fresh_inv: "publication_inv us url fresh_publication"
  by (simp add: fresh_publication_def publication_inv_def claims_ok_def fenced_def sends_ok_def marks_ok_def)

lemma reachable_inv: "publication_reachable us url b \<Longrightarrow> publication_inv us url b"
  unfolding publication_reachable_def
  by (induction rule: rtranclp_induct) (auto intro: fresh_inv step_inv)

section \<open>A batch is a run of the machine\<close>

text \<open>The machine stands where the program does.\<close>

definition stands_at :: "st \<Rightarrow> publication \<Rightarrow> bool" where
  "stands_at s b \<longleftrightarrow> pb_rows b = db_outbox (st_db s) \<and> pb_broker b = st_broker s"

lemma silent_publish:
  "follows calls_nobody (publish_claim u settings)" "follows calls_nobody (publish_mark u rc)"
  "follows calls_nobody (publish_reschedule u settings rc cause)"
  unfolding publish_claim_def publish_mark_def publish_reschedule_def Outbox_Claim_def Outbox_MarkPublished_def
    Outbox_MarkFailed_def Let_def
  by (intro silent.rules silent.unit_do silent.stmt; simp)+

lemma deliver_steps:
  assumes "honest_commit c" "stands_at s b" "e \<in> set (pb_claimed b)"
    and "publish_deliver u url settings e c s = (r, s')"
  shows "\<exists>b'. (publication_step (e_uuid_text c) url)\<^sup>*\<^sup>* b b' \<and> stands_at s' b' \<and> pb_claimed b' = pb_claimed b"
proof (cases "LeaseValid (Receipt e) (e_now c (st_tick s))")
  case False
  then have "s' = s\<lparr>st_tick := st_tick s + 1\<rparr>"
    using assms(4) by (auto simp: publish_deliver_def clock_run returnM_def)
  then show ?thesis using assms(2) by (auto simp: stands_at_def)
next
  case True
  define s1 where "s1 = s\<lparr>st_tick := st_tick s + 1\<rparr>"
  obtain r1 s2 where s2: "notifier_Send url e c s1 = (Inr r1, s2)"
    by (cases "e_broker c (st_tick s1)")
      (auto simp: notifier_Send_def bindM_def askM_def call_broker_def returnM_def Let_def)
  note call = sent_call [OF s2]
  show ?thesis
  proof (cases r1)
    case None
    let ?b1 = "b\<lparr>pb_broker := st_broker s2, pb_sent := e # pb_sent b\<rparr>"
    have one: "publication_step (e_uuid_text c) url b ?b1"
      by (rule sends [OF assms(3) HOL.refl _ s2 [unfolded None] HOL.refl]) (use assms(2) in \<open>simp add: stands_at_def s1_def\<close>)
    obtain r2 where r2: "publish_mark u (Receipt e) c s2 = (r2, s')"
      using assms(4) True s2 None
      by (auto simp: publish_deliver_def clock_run bindM_def [of "notifier_Send url e" for url e] s1_def
          try_run returnM_def Let_def split: prod.splits sum.splits)
    have two: "publication_step (e_uuid_text c) url ?b1 (?b1\<lparr>pb_rows := db_outbox (st_db s')\<rparr>)"
      by (rule marks [OF assms(1) _ _ r2 HOL.refl]) (use assms(2) call in \<open>simp_all add: stands_at_def s1_def\<close>)
    have "st_broker s' = st_broker s2" using follows_run [OF silent_publish(2) r2] by simp
    then have "stands_at s' (?b1\<lparr>pb_rows := db_outbox (st_db s')\<rparr>)" by (simp add: stands_at_def)
    moreover have "(publication_step (e_uuid_text c) url)\<^sup>*\<^sup>* b (?b1\<lparr>pb_rows := db_outbox (st_db s')\<rparr>)"
      using one two by (meson r_into_rtranclp rtranclp.rtrancl_into_rtrancl)
    ultimately show ?thesis by (intro exI conjI) (assumption, assumption, simp)
  next
    case (Some cause)
    obtain r2 where r2: "publish_reschedule u settings (Receipt e) cause c s2 = (r2, s')"
      using assms(4) True s2 Some
      by (auto simp: publish_deliver_def clock_run bindM_def [of "notifier_Send url e" for url e] s1_def
          bindM_def [of "publish_reschedule u settings rc cause" for u settings rc cause] returnM_def Let_def split: prod.splits sum.splits)
    have one: "publication_step (e_uuid_text c) url b (b\<lparr>pb_rows := db_outbox (st_db s')\<rparr>)"
      by (rule reschedules [OF assms(1,3) _ r2 HOL.refl]) (use assms(2) call in \<open>simp add: stands_at_def s1_def\<close>)
    have "st_broker s' = st_broker s"
      using follows_run [OF silent_publish(3) r2] call Some by (simp add: s1_def)
    then have "stands_at s' (b\<lparr>pb_rows := db_outbox (st_db s')\<rparr>)" using assms(2) by (simp add: stands_at_def)
    with one show ?thesis by (intro exI conjI) (rule r_into_rtranclp, assumption, assumption, simp)
  qed
qed

lemma batch_steps:
  assumes "honest_commit c" "stands_at s b" "set es \<subseteq> set (pb_claimed b)"
    and "publish_batch u url settings es n c s = (r, s')"
  shows "\<exists>b'. (publication_step (e_uuid_text c) url)\<^sup>*\<^sup>* b b' \<and> stands_at s' b'"
  using assms(2-4)
proof (induction es arbitrary: s b n)
  case Nil
  then show ?case by (auto simp: returnM_def)
next
  case (Cons e es)
  let ?s1 = "s\<lparr>st_tick := st_tick s + 1\<rparr>"
  have at1: "stands_at ?s1 b" using Cons.prems(1) by (simp add: stands_at_def)
  show ?case
  proof (cases "e_done c (st_tick s)")
    case (Some x)
    then have "s' = ?s1" using Cons.prems(3) by (simp add: bindM_def observe_def returnM_def)
    with at1 show ?thesis by blast
  next
    case None
    obtain r1 s2 where d: "publish_deliver u url settings e c ?s1 = (r1, s2)" by fastforce
    obtain b2 where b2: "(publication_step (e_uuid_text c) url)\<^sup>*\<^sup>* b b2" "stands_at s2 b2" "pb_claimed b2 = pb_claimed b"
      using deliver_steps [OF assms(1) at1 _ d] Cons.prems(2) by auto
    show ?thesis
    proof (cases r1)
      case (Inl x)
      then have "s' = s2" using Cons.prems(3) None d by (simp add: bindM_def observe_def)
      with b2 show ?thesis by blast
    next
      case (Inr ok)
      then have rest: "publish_batch u url settings es (if ok then n + 1 else n) c s2 = (r, s')"
        using Cons.prems(3) None d by (simp add: bindM_def observe_def)
      have "\<exists>b'. (publication_step (e_uuid_text c) url)\<^sup>*\<^sup>* b2 b' \<and> stands_at s' b'"
        by (rule Cons.IH [OF b2(2) _ rest]) (use b2(3) Cons.prems(2) in simp)
      with b2(1) show ?thesis by (meson rtranclp_trans)
    qed
  qed
qed

lemma execute_steps:
  assumes "honest_commit c" "returning_ok c" "stands_at s b"
    and "publish_Execute u url settings c s = (r, s')"
  shows "\<exists>b'. (publication_step (e_uuid_text c) url)\<^sup>*\<^sup>* b b' \<and> stands_at s' b'"
proof -
  obtain r1 s1 where cl: "publish_claim u settings c s = (r1, s1)" by fastforce
  let ?b1 = "b\<lparr>pb_rows := db_outbox (st_db s1), pb_claimed := (case r1 of Inl _ \<Rightarrow> [] | Inr es \<Rightarrow> es) @ pb_claimed b\<rparr>"
  have one: "publication_step (e_uuid_text c) url b ?b1"
    by (rule claims [OF assms(1,2) _ cl HOL.refl]) (use assms(3) in \<open>simp add: stands_at_def\<close>)
  have at1: "stands_at s1 ?b1"
    using follows_run [OF silent_publish(1) cl] assms(3) by (simp add: stands_at_def)
  show ?thesis
  proof (cases r1)
    case (Inl e)
    then have "s' = s1" using assms(4) cl by (simp add: publish_Execute_def bindM_def tryM_def returnM_def)
    with one at1 show ?thesis by (intro exI conjI) (rule r_into_rtranclp, assumption, simp)
  next
    case (Inr es)
    then have "publish_batch u url settings es 0 c s1 = (r, s')"
      using assms(4) cl by (simp add: publish_Execute_def bindM_def tryM_def)
    from batch_steps [OF assms(1) at1 _ this] Inr
    obtain b' where "(publication_step (e_uuid_text c) url)\<^sup>*\<^sup>* ?b1 b'" "stands_at s' b'" by auto
    with one show ?thesis by (meson converse_rtranclp_into_rtranclp)
  qed
qed

section \<open>A quiet batch\<close>

text \<open>
  Where nothing fails, no row is locked, the queue takes every message and the lease outlasts
  the batch, what was claimed is published.
\<close>

definition prompt_env :: "env \<Rightarrow> outbox_settings \<Rightarrow> bool" where
  "prompt_env c settings \<longleftrightarrow> calm c \<and> os_owner settings \<noteq> [] \<and> (\<forall>n. e_broker c n = None)
     \<and> (\<forall>n i. \<not> e_locked c n i) \<and> (\<forall>n rs. mset (e_arrange c n rs) = mset rs)
     \<and> (\<forall>m n. e_now c m < e_now c n + os_lease settings \<and> e_server_clock c m < e_now c n + os_lease settings
          \<and> e_now c n + os_lease settings \<noteq> time_zero)"

text \<open>A row under a claim that stays current.\<close>

definition claimed_row :: "env \<Rightarrow> outbox_row \<Rightarrow> bool" where
  "claimed_row c x \<longleftrightarrow> xr_published_at x = None \<and> (\<exists>owner until. owner \<noteq> [] \<and> until \<noteq> time_zero
     \<and> xr_locked_by x = Some owner \<and> xr_locked_until x = Some until
     \<and> (\<forall>n. e_now c n < until \<and> e_server_clock c n < until))"

lemma held_claimed:
  assumes "distinct (map xr_id R)" "x \<in> set R" "y \<in> set R" "scanOutboxEvent x = Inr e" "claimed_row c x"
  shows "held_by (Receipt e) (e_server_clock c n) y \<longleftrightarrow> y = x"
proof -
  have "y = x" if "xr_id y = xr_id x" using assms(1-3) that by (metis distinct_map inj_on_eq_iff)
  then show ?thesis
    using scanned_event(1-3) [OF assms(4)] assms(5)
    by (auto simp: held_by_def Receipt_def claimed_row_def text_of_def)
qed

lemma mark_rows: "sql_mark_published rc clock at d = Inr (affected (held_by rc clock) (db_outbox d),
    d\<lparr>db_outbox := update_where (held_by rc clock) (marked_row at) (db_outbox d)\<rparr>)"
  by (simp add: sql_mark_published_def marked_row_def [abs_def])

lemma published_compose:
  assumes "list_all2 (\<lambda>z y. if z \<in> set xs then P z y else y = z) (update_where (\<lambda>y. y = x) f R) R'"
    and "f x \<notin> set xs" "x \<notin> set xs" "P x (f x)"
  shows "list_all2 (\<lambda>z y. if z \<in> set (x # xs) then P z y else y = z) R R'"
  using assms(1) unfolding update_where_def list_all2_map1
  by (rule list_all2_mono) (use assms(2-4) in \<open>auto split: if_splits\<close>)

lemma claimed_lease:
  assumes "scanOutboxEvent x = Inr e" "claimed_row c x"
  shows "LeaseValid (Receipt e) (e_now c n)"
  using assms
  by (auto simp: LeaseValid_def Receipt_def claimed_row_def scanOutboxEvent_def RehydrateOutboxEvent_eq_Inr moment_def text_of_def)

lemma calm_deliver:
  assumes p: "prompt_env c settings" and R: "db_outbox (st_db s) = R" "distinct (map xr_id R)" "x \<in> set R"
    and e: "scanOutboxEvent x = Inr e" "claimed_row c x"
  shows "wpM (publish_deliver u url settings e) c s
    (\<lambda>ok s'. ok \<and> (\<exists>at. db_outbox (st_db s') = update_where (\<lambda>y. y = x) (marked_row at) R)
       \<and> st_broker s' = st_broker s @ [SendMessage (notifier_message (e_uuid_text c) url e)]) (\<lambda>_ _. False)"
proof -
  have c: "calm c" and nb: "\<And>n. e_broker c n = None" using p by (simp_all add: prompt_env_def)
  have rows: "update_where (held_by (Receipt e) (e_server_clock c n)) f R = update_where (\<lambda>y. y = x) f R"
    "0 < affected (held_by (Receipt e) (e_server_clock c n)) R" for n f
    using held_claimed [OF R(2,3) _ e] R(3)
    by (auto simp: update_where_def affected_def filter_empty_conv)
  have m: "wpM (publish_mark u (Receipt e)) c s1 (\<lambda>ok s'. ok
       \<and> (\<exists>at. db_outbox (st_db s') = update_where (\<lambda>y. y = x) (marked_row at) R) \<and> st_broker s' = st_broker s1) (\<lambda>_ _. False)"
    if "st_db s1 = st_db s" for s1
    unfolding publish_mark_def
  proof (rule calm_Do [OF c])
    show "wpM (bindM clock_Now (\<lambda>now. Outbox_MarkPublished (Receipt e) now)) c (s1\<lparr>st_tick := k\<rparr>)
      (\<lambda>x' s'. \<forall>t. x' \<and> (\<exists>at. db_outbox (st_db (s'\<lparr>st_tick := t\<rparr>)) = update_where (\<lambda>y. y = x) (marked_row at) R)
          \<and> st_broker (s'\<lparr>st_tick := t\<rparr>) = st_broker s1)
      (\<lambda>e s'. e \<noteq> EPanic \<and> \<not> Retryable e \<and> (\<forall>t. False))" for k
      using rows R(1) that
      by (simp add: wp clock_Now_def Outbox_MarkPublished_def calm_statement [OF c] mark_rows
          del: wp_statement) blast
  qed
  show ?thesis
    unfolding publish_deliver_def Let_def clock_Now_def wp_bindM [of "observe g" for g] wp_observe
    using claimed_lease [OF e] nb
    by (auto simp: notifier_Send_def wp intro!: wpM_mono [OF m])
qed

lemma calm_batch:
  assumes p: "prompt_env c settings"
  shows "db_outbox (st_db s) = R \<Longrightarrow> distinct (map xr_id R) \<Longrightarrow> set xs \<subseteq> set R \<Longrightarrow> distinct (map xr_id xs)
    \<Longrightarrow> list_all2 (\<lambda>x e. scanOutboxEvent x = Inr e) xs es \<Longrightarrow> \<forall>x \<in> set xs. claimed_row c x
    \<Longrightarrow> wpM (publish_batch u url settings es n) c s
      (\<lambda>r s'. r = (n + length es, None)
         \<and> list_all2 (\<lambda>x y. if x \<in> set xs then xr_published_at y \<noteq> None \<and> event_content y = event_content x else y = x)
             R (db_outbox (st_db s'))
         \<and> st_broker s' = st_broker s @ map (\<lambda>e. SendMessage (notifier_message (e_uuid_text c) url e)) es)
      (\<lambda>_ _. False)"
proof (induction es arbitrary: s R xs n)
  case Nil
  then show ?case by (simp add: wp list.rel_refl)
next
  case (Cons e es)
  obtain x xs' where x: "xs = x # xs'" "scanOutboxEvent x = Inr e" "list_all2 (\<lambda>x e. scanOutboxEvent x = Inr e) xs' es"
    using Cons.prems(5) by (auto simp: list_all2_Cons2)
  have going: "e_done c k = None" for k using p by (simp add: prompt_env_def calm_def)
  let ?out = "\<lambda>r s'. r = (n + length (e # es), None)
         \<and> list_all2 (\<lambda>x y. if x \<in> set xs then xr_published_at y \<noteq> None \<and> event_content y = event_content x else y = x)
             R (db_outbox (st_db s'))
         \<and> st_broker s' = st_broker s @ map (\<lambda>e. SendMessage (notifier_message (e_uuid_text c) url e)) (e # es)"
  have rest: "wpM (publish_batch u url settings es (n + 1)) c s1 ?out (\<lambda>_ _. False)"
    if s1: "db_outbox (st_db s1) = update_where (\<lambda>y. y = x) (marked_row at) R"
      "st_broker s1 = st_broker s @ [SendMessage (notifier_message (e_uuid_text c) url e)]" for s1 at
  proof (rule wpM_mono [OF Cons.IH [OF s1(1)]])
    let ?R1 = "update_where (\<lambda>y. y = x) (marked_row at) R"
    have ids: "map xr_id ?R1 = map xr_id R" by (rule ids_update_where) simp
    then show "distinct (map xr_id ?R1)" using Cons.prems(2) by simp
    show "set xs' \<subseteq> set ?R1" "distinct (map xr_id xs')" "\<forall>x \<in> set xs'. claimed_row c x"
      using Cons.prems(3,4,6) x(1) by (force simp: set_update_where)+
    show "list_all2 (\<lambda>x e. scanOutboxEvent x = Inr e) xs' es" by (rule x(3))
    fix r s'
    assume o: "r = (n + 1 + length es, None)
         \<and> list_all2 (\<lambda>x y. if x \<in> set xs' then xr_published_at y \<noteq> None \<and> event_content y = event_content x else y = x)
             ?R1 (db_outbox (st_db s'))
         \<and> st_broker s' = st_broker s1 @ map (\<lambda>e. SendMessage (notifier_message (e_uuid_text c) url e)) es"
    have notin: "x \<notin> set xs'" "marked_row at x \<notin> set xs'"
      using Cons.prems(4) x(1) by (auto simp: image_iff)
    have "list_all2 (\<lambda>z y. if z \<in> set xs then xr_published_at y \<noteq> None \<and> event_content y = event_content z else y = z)
        R (db_outbox (st_db s'))"
      unfolding x(1)
    proof (rule published_compose [where f = "marked_row at", OF _ notin(2,1)])
      show "list_all2 (\<lambda>z y. if z \<in> set xs' then xr_published_at y \<noteq> None \<and> event_content y = event_content z else y = z)
          ?R1 (db_outbox (st_db s'))" using o by blast
    qed (simp add: marked_row_def event_content_def)
    with o s1(2) show "?out r s'" by simp
  qed
  have "wpM (publish_deliver u url settings e) c (s\<lparr>st_tick := k\<rparr>)
      (\<lambda>ok s'. wpM (publish_batch u url settings es (if ok then n + 1 else n)) c s' ?out (\<lambda>_ _. False)) (\<lambda>_ _. False)" for k
  proof (rule wpM_mono [OF calm_deliver [OF p _ Cons.prems(2) _ x(2)]])
    fix ok and s' :: st
    assume o: "ok \<and> (\<exists>at. db_outbox (st_db s') = update_where (\<lambda>y. y = x) (marked_row at) R)
       \<and> st_broker s' = st_broker (s\<lparr>st_tick := k\<rparr>) @ [SendMessage (notifier_message (e_uuid_text c) url e)]"
    then obtain at where "db_outbox (st_db s') = update_where (\<lambda>y. y = x) (marked_row at) R" by blast
    from rest [OF this] o show "wpM (publish_batch u url settings es (if ok then n + 1 else n)) c s' ?out (\<lambda>_ _. False)"
      by simp
  qed (use Cons.prems(1,3,6) x(1) in auto)
  then show ?case by (simp add: wp going)
qed

text \<open>What is read back from a row depends on what the event says.\<close>

lemma scan_all_ok:
  "(\<And>r. r \<in> set rs \<Longrightarrow> \<exists>x. f r = Inr x) \<Longrightarrow> \<exists>xs. scan_all f rs = Inr xs \<and> list_all2 (\<lambda>r x. f r = Inr x) rs xs"
proof (induction rs)
  case (Cons r rs)
  then obtain x xs where "f r = Inr x" "scan_all f rs = Inr xs" "list_all2 (\<lambda>r x. f r = Inr x) rs xs" by force
  then show ?case by (intro exI [of _ "x # xs"]) simp
qed simp

lemma scan_claimed: "is_ok (scanOutboxEvent x) \<Longrightarrow> \<exists>e. scanOutboxEvent (claim_row owner until x) = Inr e"
  by (auto simp: is_ok_iff scanOutboxEvent_def RehydrateOutboxEvent_eq_Inr claim_row_def outbox_wf_def)

text \<open>The rows a claim takes where no row is locked, and those it leaves behind.\<close>

definition due_ids :: "time \<Rightarrow> nat \<Rightarrow> outbox_row list \<Rightarrow> uuid set" where
  "due_ids now limit R = set (claim_ids (\<lambda>_. False) now limit R)"

definition taken :: "outbox_settings \<Rightarrow> time \<Rightarrow> outbox_row list \<Rightarrow> outbox_row list" where
  "taken settings now R = update_where (\<lambda>x. xr_id x \<in> due_ids now (os_batchSize settings) R)
     (claim_row (os_owner settings) (now + os_lease settings)) R"

lemma calm_claim:
  assumes p: "prompt_env c settings" and R: "db_outbox (st_db s) = R" "\<forall>x \<in> set R. is_ok (scanOutboxEvent x)"
    and now: "now = e_now c (st_tick s)" and I: "I = due_ids now (os_batchSize settings) R"
  shows "wpM (publish_claim u settings) c s
    (\<lambda>es s'. db_outbox (st_db s') = taken settings now R \<and> st_broker s' = st_broker s
       \<and> (\<exists>A. mset A = mset (filter (\<lambda>x. xr_id x \<in> I) (taken settings now R))
            \<and> list_all2 (\<lambda>x e. scanOutboxEvent x = Inr e) A es)) (\<lambda>_ _. False)"
proof -
  have c: "calm c" and nl: "e_locked c n = (\<lambda>_. False)" and ar: "mset (e_arrange c n rs) = mset rs" for n rs
    using p by (auto simp: prompt_env_def)
  let ?R1 = "taken settings now R"
  have sc: "\<exists>es. scan_all scanOutboxEvent (e_arrange c n (filter (\<lambda>x. xr_id x \<in> I) ?R1)) = Inr es
      \<and> list_all2 (\<lambda>x e. scanOutboxEvent x = Inr e) (e_arrange c n (filter (\<lambda>x. xr_id x \<in> I) ?R1)) es" for n
  proof (rule scan_all_ok)
    fix r assume "r \<in> set (e_arrange c n (filter (\<lambda>x. xr_id x \<in> I) ?R1))"
    then have "r \<in> set (filter (\<lambda>x. xr_id x \<in> I) ?R1)" using ar by (metis set_mset_mset)
    then show "\<exists>e. scanOutboxEvent r = Inr e"
      using R(2) scan_claimed I by (auto simp: taken_def set_update_where split: if_splits)
  qed
  have stmt: "sql_claim_outbox (\<lambda>_. False) arr (os_owner settings) (now + os_lease settings) now (os_batchSize settings) d
      = Inr (arr (filter (\<lambda>x. xr_id x \<in> I) ?R1), d\<lparr>db_outbox := ?R1\<rparr>)" if "db_outbox d = R" for d arr
    using that by (simp add: sql_claim_outbox_def Let_def taken_def I due_ids_def)
  have "wpM (Outbox_Claim (os_owner settings) now (os_lease settings) (os_batchSize settings)) c (s\<lparr>st_tick := k\<rparr>)
      (\<lambda>es s'. \<forall>t. db_outbox (st_db (s'\<lparr>st_tick := t\<rparr>)) = ?R1 \<and> st_broker (s'\<lparr>st_tick := t\<rparr>) = st_broker s
        \<and> (\<exists>A. mset A = mset (filter (\<lambda>x. xr_id x \<in> I) ?R1) \<and> list_all2 (\<lambda>x e. scanOutboxEvent x = Inr e) A es))
      (\<lambda>e s'. e \<noteq> EPanic \<and> \<not> Retryable e \<and> (\<forall>t. False))" for k
  proof -
    obtain es where "scan_all scanOutboxEvent (e_arrange c (k + 1) (filter (\<lambda>x. xr_id x \<in> I) ?R1)) = Inr es"
      "list_all2 (\<lambda>x e. scanOutboxEvent x = Inr e) (e_arrange c (k + 1) (filter (\<lambda>x. xr_id x \<in> I) ?R1)) es"
      using sc by blast
    then show ?thesis
      using ar by (auto simp: Outbox_Claim_def wp calm_statement [OF c] nl stmt R(1) simp del: wp_statement mset_filter
          intro!: exI [of _ "e_arrange c (Suc k) (filter (\<lambda>x. xr_id x \<in> I) ?R1)"])
  qed
  then have "wpM (Outbox_Claim (os_owner settings) now (os_lease settings) (os_batchSize settings)) c
      ((s\<lparr>st_tick := st_tick s + 1\<rparr>)\<lparr>st_tick := k\<rparr>)
      (\<lambda>es s'. \<forall>t. db_outbox (st_db (s'\<lparr>st_tick := t\<rparr>)) = ?R1 \<and> st_broker (s'\<lparr>st_tick := t\<rparr>) = st_broker s
        \<and> (\<exists>A. mset A = mset (filter (\<lambda>x. xr_id x \<in> I) ?R1) \<and> list_all2 (\<lambda>x e. scanOutboxEvent x = Inr e) A es))
      (\<lambda>e s'. e \<noteq> EPanic \<and> \<not> Retryable e \<and> (\<forall>t. False))" for k
    by simp
  then show ?thesis
    unfolding publish_claim_def clock_Now_def wp_bindM [of "observe g" for g] wp_observe now [symmetric]
    by (rule calm_Do [OF c])
qed

lemma taken_rows:
  assumes "prompt_env c settings" "distinct (map xr_id R)" "I = due_ids now (os_batchSize settings) R" "now = e_now c k"
  shows "map xr_id (taken settings now R) = map xr_id R"
    "\<forall>x \<in> set (taken settings now R). xr_id x \<in> I \<longrightarrow> claimed_row c x"
proof -
  show "map xr_id (taken settings now R) = map xr_id R"
    unfolding taken_def by (rule ids_update_where) simp
  have "claimed_row c (claim_row (os_owner settings) (now + os_lease settings) x)" if "x \<in> set R" "xr_id x \<in> I" for x
  proof -
    have "claimable now x" using claim_ids_claimable [OF assms(2) that(1)] that(2) assms(3) by (simp add: due_ids_def)
    then show ?thesis
      using assms(1,4) by (auto simp: claimed_row_def claim_row_def claimable_def prompt_env_def)
  qed
  then show "\<forall>x \<in> set (taken settings now R). xr_id x \<in> I \<longrightarrow> claimed_row c x"
    by (auto simp: taken_def set_update_where assms(3) split: if_splits)
qed

text \<open>The published rows of a batch, and the messages it sent.\<close>

definition batch_done :: "(uuid \<Rightarrow> string) \<Rightarrow> string \<Rightarrow> uuid set \<Rightarrow> st \<Rightarrow> st \<Rightarrow> bool" where
  "batch_done us url I s s' \<longleftrightarrow>
     list_all2 (\<lambda>x y. if xr_id x \<in> I then xr_published_at y \<noteq> None \<and> event_content y = event_content x else y = x)
       (db_outbox (st_db s)) (db_outbox (st_db s'))
     \<and> (\<exists>msgs. st_broker s' = st_broker s @ map SendMessage msgs
          \<and> mset msgs = mset (map (row_message us url) (filter (\<lambda>x. xr_id x \<in> I) (db_outbox (st_db s)))))"

lemma batch_doneI:
  assumes d: "distinct (map xr_id R)" "R = db_outbox (st_db s)" and I: "I = due_ids now (os_batchSize settings) R"
    and A: "mset A = mset (filter (\<lambda>x. xr_id x \<in> I) (taken settings now R))" "list_all2 (\<lambda>x e. scanOutboxEvent x = Inr e) A es"
    and l: "list_all2 (\<lambda>x y. if x \<in> set A then xr_published_at y \<noteq> None \<and> event_content y = event_content x else y = x)
       (taken settings now R) (db_outbox (st_db s'))"
    and b: "st_broker s' = st_broker s @ map (\<lambda>e. SendMessage (notifier_message us url e)) es"
  shows "batch_done us url I s s' \<and> length es = length (filter (\<lambda>x. xr_id x \<in> I) R)"
proof -
  let ?cl = "claim_row (os_owner settings) (now + os_lease settings)"
  have sA: "set A = set (filter (\<lambda>x. xr_id x \<in> I) (taken settings now R))" using A(1) by (metis set_mset_mset)
  have f: "filter (\<lambda>x. xr_id x \<in> I) (taken settings now R) = map ?cl (filter (\<lambda>x. xr_id x \<in> I) R)"
    unfolding taken_def update_where_def I [symmetric] by (induction R) auto
  have cc: "event_content (?cl x) = event_content x" for x by (simp add: event_content_def claim_row_def)
  have "list_all2 (\<lambda>x y. if xr_id x \<in> I then xr_published_at y \<noteq> None \<and> event_content y = event_content x else y = x)
       R (db_outbox (st_db s'))"
  proof -
    have mem: "(if xr_id x \<in> I then ?cl x else x) \<in> set A \<longleftrightarrow> xr_id x \<in> I" if "x \<in> set R" for x
      using that by (auto simp: sA f)
    have "list_all2 (\<lambda>x y. if (if xr_id x \<in> I then ?cl x else x) \<in> set A
          then xr_published_at y \<noteq> None \<and> event_content y = event_content (if xr_id x \<in> I then ?cl x else x)
          else y = (if xr_id x \<in> I then ?cl x else x)) R (db_outbox (st_db s'))"
      using l unfolding taken_def update_where_def list_all2_map1 I [symmetric] .
    then show ?thesis by (rule list.rel_mono_strong) (use mem cc in \<open>auto split: if_splits\<close>)
  qed
  moreover have "\<exists>msgs. st_broker s' = st_broker s @ map SendMessage msgs
      \<and> mset msgs = mset (map (row_message us url) (filter (\<lambda>x. xr_id x \<in> I) R))"
  proof (intro exI conjI)
    show "st_broker s' = st_broker s @ map SendMessage (map (notifier_message us url) es)" using b by (simp add: comp_def)
    have "map (notifier_message us url) es = map (row_message us url) A"
      using A(2) by (induction rule: list_all2_induct) (simp_all add: scanned_event)
    then have "mset (map (notifier_message us url) es) = image_mset (row_message us url) (mset A)" by simp
    also have "\<dots> = mset (map (row_message us url) (map ?cl (filter (\<lambda>x. xr_id x \<in> I) R)))"
      unfolding A(1) f by (simp only: mset_map)
    also have "map (row_message us url) (map ?cl (filter (\<lambda>x. xr_id x \<in> I) R)) = map (row_message us url) (filter (\<lambda>x. xr_id x \<in> I) R)"
      using content_sel(2) [OF cc] by simp
    finally show "mset (map (notifier_message us url) es) = mset (map (row_message us url) (filter (\<lambda>x. xr_id x \<in> I) R))" .
  qed
  moreover have "length es = length (filter (\<lambda>x. xr_id x \<in> I) R)"
    using list_all2_lengthD [OF A(2)] arg_cong [OF A(1), of size] f by (simp add: size_mset [symmetric] del: size_mset)
  ultimately show ?thesis using d(2) by (simp add: batch_done_def)
qed

lemma calm_Execute:
  assumes p: "prompt_env c settings" and R: "db_outbox (st_db s) = R" "distinct (map xr_id R)" "\<forall>x \<in> set R. is_ok (scanOutboxEvent x)"
    and I: "I = due_ids (e_now c (st_tick s)) (os_batchSize settings) R"
  shows "wpM (publish_Execute u url settings) c s
    (\<lambda>r s'. r = (length (filter (\<lambda>x. xr_id x \<in> I) R), None) \<and> batch_done (e_uuid_text c) url I s s') (\<lambda>_ _. False)"
proof -
  let ?now = "e_now c (st_tick s)" and ?R1 = "taken settings (e_now c (st_tick s)) R"
  note t = taken_rows [OF p R(2) I HOL.refl]
  have rest: "wpM (publish_batch u url settings es 0) c s1
      (\<lambda>r s'. r = (length (filter (\<lambda>x. xr_id x \<in> I) R), None) \<and> batch_done (e_uuid_text c) url I s s') (\<lambda>_ _. False)"
    if h: "db_outbox (st_db s1) = ?R1" "st_broker s1 = st_broker s"
      "mset A = mset (filter (\<lambda>x. xr_id x \<in> I) ?R1)" "list_all2 (\<lambda>x e. scanOutboxEvent x = Inr e) A es" for s1 es A
  proof (rule wpM_mono [OF calm_batch [OF p h(1) _ _ _ h(4)]])
    have sA: "set A = set (filter (\<lambda>x. xr_id x \<in> I) ?R1)" using h(3) by (metis set_mset_mset)
    show "distinct (map xr_id ?R1)" "set A \<subseteq> set ?R1" "\<forall>x \<in> set A. claimed_row c x" using t R(2) sA by auto
    have "mset (map xr_id A) = mset (map xr_id (filter (\<lambda>x. xr_id x \<in> I) ?R1))" using h(3) by simp
    moreover have "distinct (map xr_id (filter (\<lambda>x. xr_id x \<in> I) ?R1))" using t(1) R(2) by (simp add: distinct_map_filter)
    ultimately show "distinct (map xr_id A)" using mset_eq_imp_distinct_iff by blast
  next
    fix r and s' :: st assume "r = (0 + length es, None)
       \<and> list_all2 (\<lambda>x y. if x \<in> set A then xr_published_at y \<noteq> None \<and> event_content y = event_content x else y = x)
             ?R1 (db_outbox (st_db s'))
       \<and> st_broker s' = st_broker s1 @ map (\<lambda>e. SendMessage (notifier_message (e_uuid_text c) url e)) es"
    then show "r = (length (filter (\<lambda>x. xr_id x \<in> I) R), None) \<and> batch_done (e_uuid_text c) url I s s'"
      using batch_doneI [OF R(2) R(1) [symmetric] I h(3,4), of s' "e_uuid_text c" url] h(2) by simp
  qed simp
  show ?thesis
    unfolding publish_Execute_def wp_bindM wp_tryM
    by (rule wpM_mono [OF calm_claim [OF p R(1,3) HOL.refl I]]) (auto intro: rest)
qed

section \<open>Properties\<close>

text \<open>An event of a wallet, due at once, and a publisher with a lease of a minute.\<close>

definition sample_row :: "uuid \<Rightarrow> outbox_row" where
  "sample_row i = \<lparr>xr_id = i, xr_aggregate_type = ''wallet'', xr_aggregate_id = 1, xr_event_type = ''T'',
     xr_event_version = 1, xr_correlation_id = ''c'', xr_causation_id = None, xr_partition_key = ''1'',
     xr_payload = ''{}'', xr_occurred_at = 7, xr_attempts = 0, xr_next_attempt_at = 7, xr_locked_by = None,
     xr_locked_until = None, xr_last_error = None, xr_published_at = None\<rparr>"

definition sample_publisher :: outbox_settings where
  "sample_publisher = \<lparr>os_owner = ''a'', os_lease = 60, os_batchSize = 5, os_backoffBase = 1, os_backoffMax = 8\<rparr>"

definition sample_outbox :: "outbox_row list \<Rightarrow> st" where
  "sample_outbox R = empty_st\<lparr>st_db := (st_db empty_st)\<lparr>db_outbox := R\<rparr>\<rparr>"

lemma sample_rows_ok: "distinct (map xr_id [sample_row 5, sample_row 6])" "unclaimed (sample_row i)"
  by (simp_all add: sample_row_def unclaimed_def)

lemma quiet_returning [simp]: "returning_ok quiet_env"
  by (simp add: returning_ok_def quiet_env_def)

lemma sample_due:
  "due_ids (e_now quiet_env (st_tick (sample_outbox R))) (os_batchSize sample_publisher)
     (db_outbox (st_db (sample_outbox [sample_row 5, sample_row 6]))) = {5, 6}"
proof -
  have "due_ids 1000 5 [sample_row 5, sample_row 6] = {5, 6}" by code_simp
  then show ?thesis by (simp add: sample_outbox_def sample_publisher_def quiet_env_def)
qed

lemma sample_prompt:
  "prompt_env quiet_env sample_publisher" "distinct (map xr_id (db_outbox (st_db (sample_outbox [sample_row 5, sample_row 6]))))"
  "\<forall>x \<in> set (db_outbox (st_db (sample_outbox [sample_row 5, sample_row 6]))). is_ok (scanOutboxEvent x)"
  by (simp_all add: prompt_env_def calm_def quiet_env_def sample_publisher_def sample_outbox_def sample_row_def
      scanOutboxEvent_def RehydrateOutboxEvent_def is_ok_def)

lemma sample_length: "length (filter (\<lambda>x. xr_id x \<in> {5, 6}) (db_outbox (st_db (sample_outbox [sample_row 5, sample_row 6])))) = 2"
  by (simp add: sample_outbox_def sample_row_def)

lemma sample_batch:
  "\<exists>s' x y. publish_Execute sample_uow ''q'' sample_publisher quiet_env (sample_outbox [sample_row 5, sample_row 6])
      = (Inr (2, None), s') \<and> db_outbox (st_db s') = [x, y] \<and> xr_published_at x \<noteq> None"
proof -
  let ?s = "sample_outbox [sample_row 5, sample_row 6]"
  have "wpM (publish_Execute sample_uow ''q'' sample_publisher) quiet_env ?s
      (\<lambda>r s'. r = (2, None) \<and> batch_done (e_uuid_text quiet_env) ''q'' {5, 6} ?s s') (\<lambda>_ _. False)"
    using calm_Execute [OF sample_prompt(1) HOL.refl sample_prompt(2,3) sample_due [symmetric], of sample_uow "''q''"]
    unfolding sample_length by (simp add: sample_outbox_def)
  then obtain s' where s': "publish_Execute sample_uow ''q'' sample_publisher quiet_env ?s = (Inr (2, None), s')"
    "batch_done (e_uuid_text quiet_env) ''q'' {5, 6} ?s s'"
    by (cases "publish_Execute sample_uow ''q'' sample_publisher quiet_env ?s") (auto simp: wpM_def split: sum.splits)
  then show ?thesis
    by (auto simp: batch_done_def sample_outbox_def list_all2_Cons1) (simp add: sample_row_def)
qed

lemma reached_after:
  assumes "distinct (map xr_id R)" "\<forall>x \<in> set R. unclaimed x"
    and "publish_Execute u url settings quiet_env (sample_outbox R) = (r, s')"
  shows "\<exists>b. publication_reachable (e_uuid_text quiet_env) url b \<and> stands_at s' b"
proof -
  let ?b = "fresh_publication\<lparr>pb_rows := R\<rparr>"
  have "publication_step (e_uuid_text quiet_env) url fresh_publication ?b"
    by (rule appends [OF _ HOL.refl]) (use assms(1,2) in \<open>simp add: fresh_publication_def appended_def\<close>)
  moreover have "stands_at (sample_outbox R) ?b"
    by (simp add: stands_at_def sample_outbox_def empty_st_def fresh_publication_def)
  ultimately show ?thesis
    using execute_steps [OF honest_samples(1) quiet_returning _ assms(3)] unfolding publication_reachable_def
    by (meson converse_rtranclp_into_rtranclp)
qed

text \<open>
  C29. Nothing is marked published that was not sent: whatever several publishers do, die or
  fail to hear, an event marked as published is in the queue with everything its row says.
\<close>

theorem published_was_sent:
  assumes "publication_reachable us url b" and "x \<in> set (pb_rows b)" and "xr_published_at x \<noteq> None"
  shows "SendMessage (row_message us url x) \<in> set (pb_broker b)"
proof -
  have inv: "distinct (map xr_id (pb_rows b))" "claims_ok us url b" "sends_ok us url b" "marks_ok b"
    using reachable_inv [OF assms(1)] by (simp_all add: publication_inv_def)
  obtain e where e: "e \<in> set (pb_sent b)" "oe_id e = xr_id x" using inv(4) assms(2,3) by (auto simp: marks_ok_def)
  obtain y where y: "y \<in> set (pb_rows b)" "xr_id y = oe_id e" "row_message us url y = notifier_message us url e"
    using inv(2,3) e(1) unfolding claims_ok_def sends_ok_def by blast
  have "y = x" using inv(1) assms(2) y(1,2) e(2) by (metis distinct_map inj_on_eq_iff)
  then show ?thesis using inv(3) e(1) y(3) by (simp add: sends_ok_def)
qed

theorem published_was_sent_witness:
  "\<exists>b x. publication_reachable (e_uuid_text quiet_env) ''q'' b \<and> x \<in> set (pb_rows b)
    \<and> xr_published_at x \<noteq> None \<and> SendMessage (row_message (e_uuid_text quiet_env) ''q'' x) \<in> set (pb_broker b)"
proof -
  obtain s' x y where s': "publish_Execute sample_uow ''q'' sample_publisher quiet_env (sample_outbox [sample_row 5, sample_row 6])
      = (Inr (2, None), s')" "db_outbox (st_db s') = [x, y]" "xr_published_at x \<noteq> None"
    using sample_batch by blast
  obtain b where b: "publication_reachable (e_uuid_text quiet_env) ''q'' b" "stands_at s' b"
    using reached_after [OF sample_rows_ok(1) _ s'(1)] sample_rows_ok(2) by auto
  have "x \<in> set (pb_rows b)" using b(2) s'(2) by (simp add: stands_at_def)
  with published_was_sent [OF b(1) this s'(3)] b(1) s'(3) show ?thesis by blast
qed

text \<open>
  C30. A claim that was overtaken is powerless: once an event was claimed again, marking it or
  rescheduling it under the older claim changes nothing and never counts as published.
\<close>

theorem overtaken_claim_powerless:
  assumes "publication_reachable us url b" and "e \<in> set (pb_claimed b)" and "e' \<in> set (pb_claimed b)"
    and "oe_id e = oe_id e'" and "oe_attempts e < oe_attempts e'"
    and "honest_commit c" and "db_outbox (st_db s) = pb_rows b"
  shows "db_outbox (st_db (snd (publish_mark u (Receipt e) c s))) = pb_rows b
    \<and> fst (publish_mark u (Receipt e) c s) \<noteq> Inr True
    \<and> db_outbox (st_db (snd (publish_reschedule u settings (Receipt e) cause c s))) = pb_rows b"
proof -
  have inv: "distinct (map xr_id (pb_rows b))" "claims_ok us url b"
    using reachable_inv [OF assms(1)] by (simp_all add: publication_inv_def)
  have none: "\<not> held_by (Receipt e) clock x" if "x \<in> set (pb_rows b)" for x clock
  proof
    assume h: "held_by (Receipt e) clock x"
    obtain y where y: "y \<in> set (pb_rows b)" "xr_id y = oe_id e'" "oe_attempts e' \<le> xr_attempts y"
      using inv(2) assms(3) by (auto simp: claims_ok_def)
    have "y = x" using inv(1) that y(1,2) h assms(4) by (metis distinct_map inj_on_eq_iff held_by_def Receipt_def receipt.select_convs(1))
    then show False using h y(3) assms(5) by (simp add: held_by_def Receipt_def)
  qed
  have same: "update_where (held_by (Receipt e) clock) f (pb_rows b) = pb_rows b"
    "affected (held_by (Receipt e) clock) (pb_rows b) = 0" for clock f
    using none by (simp_all add: update_where_def affected_def map_idI filter_empty_conv)
  have "mark_effect (Receipt e) (pb_rows b) ok R' \<Longrightarrow> R' = pb_rows b \<and> \<not> ok" for ok R'
    by (simp add: mark_effect_def same)
  then have "db_outbox (st_db s') = pb_rows b \<and> r \<noteq> Inr True" if "publish_mark u (Receipt e) c s = (r, s')" for r s'
    using publish_mark_outcome [OF assms(6) that] assms(7) by (cases r) (auto simp: unit_outcome_def)
  moreover have "db_outbox (st_db s') = pb_rows b" if "publish_reschedule u settings (Receipt e) cause c s = (r, s')" for r s'
    using publish_reschedule_outcome [OF assms(6) that] assms(7) by (auto simp: fail_effect_def same)
  ultimately show ?thesis by (metis prod.collapse)
qed

text \<open>The same surroundings a little later, after the lease of the first claim.\<close>

definition later_env :: env where
  "later_env = quiet_env\<lparr>e_now := \<lambda>_. 2000, e_server_clock := \<lambda>_. 2000\<rparr>"

lemma later_env_ok: "honest_commit later_env" "returning_ok later_env" "e_uuid_text later_env = e_uuid_text quiet_env"
  by (simp_all add: later_env_def honest_commit_def returning_ok_def quiet_env_def)

theorem overtaken_claim_powerless_witness:
  "\<exists>b e e'. publication_reachable (e_uuid_text quiet_env) ''q'' b \<and> e \<in> set (pb_claimed b) \<and> e' \<in> set (pb_claimed b)
    \<and> oe_id e = oe_id e' \<and> oe_attempts e < oe_attempts e'
    \<and> fst (publish_mark sample_uow (Receipt e) quiet_env (sample_outbox (pb_rows b))) \<noteq> Inr True"
proof -
  let ?us = "e_uuid_text quiet_env" and ?R = "[sample_row 5]"
  let ?b0 = "fresh_publication\<lparr>pb_rows := ?R\<rparr>"
  define p1 where "p1 = publish_claim sample_uow sample_publisher quiet_env (sample_outbox ?R)"
  define p2 where "p2 = publish_claim sample_uow sample_publisher later_env (snd p1)"
  let ?b1 = "?b0\<lparr>pb_rows := db_outbox (st_db (snd p1)), pb_claimed := (case fst p1 of Inl _ \<Rightarrow> [] | Inr es \<Rightarrow> es) @ pb_claimed ?b0\<rparr>"
  let ?b2 = "?b1\<lparr>pb_rows := db_outbox (st_db (snd p2)), pb_claimed := (case fst p2 of Inl _ \<Rightarrow> [] | Inr es \<Rightarrow> es) @ pb_claimed ?b1\<rparr>"
  have "publication_step ?us ''q'' fresh_publication ?b0"
    by (rule appends [OF _ HOL.refl]) (simp add: fresh_publication_def appended_def sample_rows_ok(2))
  moreover have "publication_step ?us ''q'' ?b0 ?b1"
    by (rule claims [OF honest_samples(1) quiet_returning, where s = "sample_outbox ?R" and u = sample_uow
        and settings = sample_publisher and r = "fst p1" and s' = "snd p1"])
      (simp_all add: p1_def sample_outbox_def)
  moreover have "publication_step ?us ''q'' ?b1 ?b2"
    by (rule claims [OF later_env_ok(1,2), where s = "snd p1" and u = sample_uow and settings = sample_publisher
        and r = "fst p2" and s' = "snd p2"]) (simp_all add: p2_def)
  ultimately have r: "publication_reachable ?us ''q'' ?b2"
    unfolding publication_reachable_def by (meson converse_rtranclp_into_rtranclp rtranclp.rtrancl_refl)
  have "case fst p1 of Inl _ \<Rightarrow> False | Inr es \<Rightarrow> map (\<lambda>e. (oe_id e, oe_attempts e)) es = [(5, 1)]"
    unfolding p1_def by code_simp
  then obtain e where e: "fst p1 = Inr [e]" "oe_id e = 5" "oe_attempts e = 1" by (auto split: sum.splits)
  have "case fst p2 of Inl _ \<Rightarrow> False | Inr es \<Rightarrow> map (\<lambda>e. (oe_id e, oe_attempts e)) es = [(5, 2)]"
    unfolding p1_def p2_def by code_simp
  then obtain e' where e': "fst p2 = Inr [e']" "oe_id e' = 5" "oe_attempts e' = 2" by (auto split: sum.splits)
  have m: "e \<in> set (pb_claimed ?b2)" "e' \<in> set (pb_claimed ?b2)" using e(1) e'(1) by simp_all
  moreover have "oe_id e = oe_id e'" "oe_attempts e < oe_attempts e'" using e e' by simp_all
  moreover have "db_outbox (st_db (sample_outbox (pb_rows ?b2))) = pb_rows ?b2" by (simp add: sample_outbox_def)
  ultimately show ?thesis using overtaken_claim_powerless [OF r m _ _ honest_samples(1)] r by blast
qed

text \<open>
  No event is lost or altered: whatever the publishers do, every event stays in the outbox
  and says the same, and once it is marked published its row never changes again.
\<close>

theorem events_kept:
  assumes "publication_reachable us url b" and "(publication_step us url)\<^sup>*\<^sup>* b b'" and "x \<in> set (pb_rows b)"
  shows "\<exists>y \<in> set (pb_rows b'). evolves x y"
proof -
  have "publication_inv us url b' \<and> (\<exists>y \<in> set (pb_rows b'). evolves x y)"
    using assms(2)
  proof (induction rule: rtranclp_induct)
    case base
    show ?case using reachable_inv [OF assms(1)] assms(3) evolves_refl by blast
  next
    case (step b1 b2)
    then obtain y where y: "y \<in> set (pb_rows b1)" "evolves x y" and inv: "publication_inv us url b1" by blast
    have "rows_evolve (pb_rows b1) (pb_rows b2)"
      by (rule step_evolves [OF step.hyps(2)]) (use inv in \<open>simp add: publication_inv_def\<close>)
    then obtain z where "z \<in> set (pb_rows b2)" "evolves y z"
      using y(1) unfolding rows_evolve_def by (metis Un_iff image_eqI set_append set_map)
    moreover from this y(2) have "evolves x z" by (auto simp: evolves_def)
    ultimately show ?case using step_inv [OF step.hyps(2) inv] by blast
  qed
  then show ?thesis by blast
qed

theorem events_kept_witness:
  "\<exists>b'. (publication_step (e_uuid_text quiet_env) ''q'')\<^sup>*\<^sup>* (fresh_publication\<lparr>pb_rows := [sample_row 5, sample_row 6]\<rparr>) b'
    \<and> list_ex (\<lambda>y. xr_published_at y \<noteq> None) (pb_rows b') \<and> (\<exists>y \<in> set (pb_rows b'). evolves (sample_row 5) y)"
proof -
  let ?b = "fresh_publication\<lparr>pb_rows := [sample_row 5, sample_row 6]\<rparr>" and ?us = "e_uuid_text quiet_env"
  obtain s' x y where s': "publish_Execute sample_uow ''q'' sample_publisher quiet_env (sample_outbox [sample_row 5, sample_row 6])
      = (Inr (2, None), s')" "db_outbox (st_db s') = [x, y]" "xr_published_at x \<noteq> None"
    using sample_batch by blast
  have "publication_step ?us ''q'' fresh_publication ?b"
    by (rule appends [OF _ HOL.refl]) (use sample_rows_ok in \<open>simp add: fresh_publication_def appended_def\<close>)
  then have r: "publication_reachable ?us ''q'' ?b" unfolding publication_reachable_def by blast
  have "stands_at (sample_outbox [sample_row 5, sample_row 6]) ?b"
    by (simp add: stands_at_def sample_outbox_def empty_st_def fresh_publication_def)
  from execute_steps [OF honest_samples(1) quiet_returning this s'(1)]
  obtain b' where b': "(publication_step ?us ''q'')\<^sup>*\<^sup>* ?b b'" "stands_at s' b'" by blast
  with events_kept [OF r b'(1), of "sample_row 5"] s'(2,3) show ?thesis by (auto simp: stands_at_def)
qed

text \<open>
  C31. A batch of the publisher is a run of the machine: whatever fails in it, from a state the
  machine can be in it leads to one the machine can be in.
\<close>

theorem batch_refines_machine:
  assumes "honest_commit c" and "returning_ok c" and "publication_reachable (e_uuid_text c) url b" and "stands_at s b"
  shows "\<exists>b'. publication_reachable (e_uuid_text c) url b' \<and> stands_at (snd (publish_Execute u url settings c s)) b'"
  using execute_steps [OF assms(1,2,4), of u url settings "fst (publish_Execute u url settings c s)"] assms(3)
  unfolding publication_reachable_def by (metis prod.collapse rtranclp_trans)

theorem batch_refines_machine_witness:
  "\<exists>b'. publication_reachable (e_uuid_text lost_answer_env) ''q'' b'
    \<and> stands_at (snd (publish_Execute sample_uow ''q'' sample_publisher lost_answer_env (sample_outbox []))) b'"
  by (rule batch_refines_machine [OF honest_samples(2), where b = fresh_publication])
    (simp_all add: publication_reachable_def returning_ok_def lost_answer_env_def quiet_env_def stands_at_def
      fresh_publication_def sample_outbox_def empty_st_def)



text \<open>Two events of one wallet, and a queue that does not take the first message.\<close>

definition refusing_env :: env where
  "refusing_env = quiet_env\<lparr>e_broker := \<lambda>n. if n = 10 then Some ''throttled'' else None\<rparr>"

definition two_events :: st where
  "two_events = sample_outbox [(sample_row 5)\<lparr>xr_payload := ''first''\<rparr>, (sample_row 6)\<lparr>xr_payload := ''second''\<rparr>]"

text \<open>What the first batch leaves: the second event sent, the first put off.\<close>

definition after_refusal :: st where
  "after_refusal = (sample_outbox
     [(sample_row 5)\<lparr>xr_payload := ''first'', xr_attempts := 1, xr_next_attempt_at := 1002,
        xr_last_error := Some ''sqs: could not publish event u: throttled''\<rparr>,
      (sample_row 6)\<lparr>xr_payload := ''second'', xr_attempts := 1, xr_published_at := Some 1000\<rparr>])
     \<lparr>st_tick := 28, st_broker := [SendMessage (row_message (\<lambda>_. ''u'') ''q'' ((sample_row 6)\<lparr>xr_payload := ''second''\<rparr>))]\<rparr>"

lemma first_batch: "snd (publish_Execute sample_uow ''q'' sample_publisher refusing_env two_events) = after_refusal"
  by code_simp

lemma second_batch:
  "st_broker (snd (publish_Execute sample_uow ''q'' sample_publisher later_env after_refusal))
     = [SendMessage (row_message (\<lambda>_. ''u'') ''q'' ((sample_row 6)\<lparr>xr_payload := ''second''\<rparr>)),
        SendMessage (row_message (\<lambda>_. ''u'') ''q'' ((sample_row 5)\<lparr>xr_payload := ''first''\<rparr>))]"
proof -
  let ?R = "db_outbox (st_db after_refusal)"
  have p: "prompt_env later_env sample_publisher"
    by (simp add: prompt_env_def calm_def later_env_def quiet_env_def sample_publisher_def)
  have R: "distinct (map xr_id ?R)" "\<forall>x \<in> set ?R. is_ok (scanOutboxEvent x)"
    by (simp_all add: after_refusal_def sample_outbox_def sample_row_def scanOutboxEvent_def RehydrateOutboxEvent_def is_ok_def)
  have "due_ids 2000 5 ?R = {5}" by code_simp
  then have I: "{5} = due_ids (e_now later_env (st_tick after_refusal)) (os_batchSize sample_publisher) ?R"
    by (simp add: later_env_def sample_publisher_def)
  have t: "e_uuid_text later_env = (\<lambda>_. ''u'')" by (simp add: later_env_def quiet_env_def)
  have "batch_done (\<lambda>_. ''u'') ''q'' {5} after_refusal (snd (publish_Execute sample_uow ''q'' sample_publisher later_env after_refusal))"
    using calm_Execute [OF p HOL.refl R I, of sample_uow "''q''"] unfolding t
    by (cases "publish_Execute sample_uow ''q'' sample_publisher later_env after_refusal") (auto simp: wpM_def split: sum.splits)
  then show ?thesis
    by (auto simp: batch_done_def after_refusal_def sample_outbox_def row_message_def sample_row_def)
qed

text \<open>
  One publisher alone may change the order of a wallet's events: when the queue refuses the
  first of two, the second goes out at once and the first only after its backoff.
\<close>

theorem refused_event_overtaken:
  "let s1 = snd (publish_Execute sample_uow ''q'' sample_publisher refusing_env two_events);
       s2 = snd (publish_Execute sample_uow ''q'' sample_publisher later_env s1) in
   map (\<lambda>x. case x of SendMessage m \<Rightarrow> (qm_groupID m, qm_body m) | _ \<Rightarrow> ([], None)) (st_broker s2)
     = [(''1'', Some ''second''), (''1'', Some ''first'')]"
  unfolding Let_def first_batch second_batch by (simp add: row_message_def sample_row_def)

end
