(* ===== verification/System.thy ===== *)
theory System
  imports History Consumer Publication Queries
begin

text \<open>
  The service as a whole: its state is the tables, its steps are complete executions of its use
  cases, in any order and under any surroundings - a request, a delivery of the queue, a batch of
  retries, a wallet being opened, a batch of publications, each of which may fail at any point.
  Queries are no steps: they change nothing. Facts: every state the service can reach is sound,
  its history is never rewritten, and what it answered once has its effect once, for good.
\<close>

section \<open>Publishing changes only the outbox\<close>

abbreviation only_outbox :: "st \<Rightarrow> st \<Rightarrow> bool" where
  "only_outbox s s' \<equiv> \<exists>rows. st_db s' = (st_db s)\<lparr>db_outbox := rows\<rparr>"

lemma outbox_field: "st_db s' = st_db s \<Longrightarrow> only_outbox s s'" for s s' :: st
  by (rule exI [of _ "db_outbox (st_db s)"]) simp

interpretation outbox_only: undoable_relation only_outbox
proof unfold_locales
  show "only_outbox s s" for s :: st by (rule exI [of _ "db_outbox (st_db s)"]) simp
  then show "only_outbox s (s\<lparr>st_tick := n\<rparr>)" for s :: st and n by simp
  show "only_outbox s s' \<Longrightarrow> only_outbox s (s'\<lparr>st_db := st_db s\<rparr>)" for s s' :: st
    by (rule exI [of _ "db_outbox (st_db s)"]) simp
qed auto

lemma publish_only_outbox: "follows only_outbox (publish_Execute u url settings)"
proof -
  have claim: "follows only_outbox (publish_claim u settings)"
    unfolding publish_claim_def Outbox_Claim_def sql_claim_outbox_def Let_def
    by (intro outbox_only.rules outbox_only.unit_do outbox_only.stmt) auto
  have mark: "follows only_outbox (publish_mark u rc)" for rc
    unfolding publish_mark_def Outbox_MarkPublished_def sql_mark_published_def
    by (intro outbox_only.rules outbox_only.unit_do outbox_only.stmt) auto
  have fail: "follows only_outbox (publish_reschedule u settings rc cause)" for rc cause
    unfolding publish_reschedule_def Outbox_MarkFailed_def sql_mark_failed_def Let_def
    by (intro outbox_only.rules outbox_only.unit_do outbox_only.stmt) auto
  have call: "follows only_outbox (call_broker x)" for x
    by (rule outbox_only.call) (rule outbox_field, simp)
  have deliver: "follows only_outbox (publish_deliver u url settings e)" for e
    unfolding publish_deliver_def notifier_Send_def Let_def
    by (intro outbox_only.rules mark fail call)
  have "follows only_outbox (publish_batch u url settings es n)" for es n
    by (induction es arbitrary: n) (auto intro!: outbox_only.rules deliver)
  then show ?thesis unfolding publish_Execute_def by (intro outbox_only.rules claim)
qed

section \<open>The steps\<close>

inductive service_step :: "db \<Rightarrow> db \<Rightarrow> bool" where
  processes: "\<lbrakk>honest_commit c; process_Execute u settings input c s = (res, s')\<rbrakk> \<Longrightarrow> service_step (st_db s) (st_db s')"
| dispatches: "\<lbrakk>honest_commit c; dispatch cn q (wager_listener url u settings) m c s = (r, s')\<rbrakk>
    \<Longrightarrow> service_step (st_db s) (st_db s')"
| retries: "\<lbrakk>honest_commit c; retry_Execute u rsettings c s = Some (n, s')\<rbrakk> \<Longrightarrow> service_step (st_db s) (st_db s')"
| opens: "\<lbrakk>honest_commit c; open_Execute u oinput c s = (w, s')\<rbrakk> \<Longrightarrow> service_step (st_db s) (st_db s')"
| publishes: "publish_Execute u url osettings c s = (p, s') \<Longrightarrow> service_step (st_db s) (st_db s')"

definition service_reachable :: "db \<Rightarrow> bool" where
  "service_reachable d \<longleftrightarrow> service_step\<^sup>*\<^sup>* empty_db d"

definition onward :: "db \<Rightarrow> book \<Rightarrow> db \<Rightarrow> bool" where
  "onward d B d' \<longleftrightarrow> (\<exists>B'. sound_book d' B' \<and> continues d B d' B')"

lemma onward_refl: "sound_book d B \<Longrightarrow> onward d B d"
  unfolding onward_def using continues_refl [of d d B] by blast

lemma onward_process:
  assumes c: "honest_commit c" and B: "sound_book (st_db s) B" and r: "process_Execute u settings input c s = (res, s')"
  shows "onward (st_db s) B (st_db s')"
proof -
  have h: "holds (st_db s) B" using B by (simp add: sound_book_def)
  show ?thesis
    using wp_process_Execute [OF c h, of u settings input] r process_continues [OF _ B] onward_refl [OF B]
    unfolding wpM_def onward_def by (auto split: sum.splits)
qed

lemma onward_dispatch:
  assumes c: "honest_commit c" and B: "sound_book (st_db s) B" and r: "dispatch cn q (wager_listener url u settings) m c s = (x, s')"
  shows "onward (st_db s) B (st_db s')"
proof -
  have h: "holds (st_db s) B" using B by (simp add: sound_book_def)
  from dispatch_run [OF r] show ?thesis
  proof (elim disjE conjE exE)
    assume "st_db s' = st_db s"
    then show ?thesis using onward_refl [OF B] by simp
  next
    fix answer s1 assume a: "ls_Handle (wager_listener url u settings) (deliveryOf m) c s = (answer, s1)" "st_db s' = st_db s1"
    then have "listener_Handle u settings (deliveryOf m) c s = (answer, s1)" by (simp add: wager_listener_def)
    then show ?thesis
      using wp_listener_Handle [OF c h, of u settings "deliveryOf m"] a(2) process_continues [OF _ B] onward_refl [OF B]
      unfolding wpM_def onward_def by (auto split: sum.splits)
  qed
qed

lemma onward_attempt:
  assumes c: "honest_commit c" and B: "onward d B (st_db s)"
  shows "onward d B (st_db (snd (retry_attempt u settings c s)))"
proof -
  obtain B1 where B1: "sound_book (st_db s) B1" "continues d B (st_db s) B1" using B by (auto simp: onward_def)
  have k: "onward d B d2" if "retry_effect c settings B1 (st_db s) d2" for d2
    using that retried_continues [OF _ B1(1)] continues_trans [OF B1(2)] unfolding retry_effect_def onward_def by blast
  have "holds (st_db s) B1" using B1 by (simp add: sound_book_def)
  from wp_retry_attempt [OF c this, of u settings] show ?thesis
    using k B by (cases "retry_attempt u settings c s") (auto simp: wpM_def split: sum.splits)
qed

lemma step_onward: "service_step d d' \<Longrightarrow> sound_book d B \<Longrightarrow> onward d B d'"
proof (induction rule: service_step.induct)
  case (processes c u settings input s res s')
  then show ?case by (blast intro: onward_process)
next
  case (dispatches c cn q url u settings m s r s')
  then show ?case by (blast intro: onward_dispatch)
next
  case (retries c u rsettings s n s')
  have "\<exists>n eo s'. retry_loop u rsettings c 0 s = Some ((n, eo), s') \<and> 0 \<le> n \<and> n \<le> max 0 (rs_batchSize rsettings)
      \<and> onward (st_db s) B (st_db s')"
    by (rule retry_loop_rule [where P = "onward (st_db s) B"])
      (use onward_attempt [OF retries(1)] onward_refl [OF retries.prems] in auto)
  then show ?case using retries(2) by (auto simp: retry_Execute_def)
next
  case (opens c u oinput s w s')
  have h: "holds (st_db s) B" using opens.prems by (simp add: sound_book_def)
  show ?case
    using wp_open_Execute [OF opens(1) h, of u oinput] opens(2) opened_continues [OF _ opens.prems] onward_refl [OF opens.prems]
    unfolding wpM_def onward_def by (auto split: sum.splits) blast+
next
  case (publishes u url osettings c s p s')
  obtain rows where d: "st_db s' = (st_db s)\<lparr>db_outbox := rows\<rparr>"
    using follows_run [OF publish_only_outbox publishes(1)] by blast
  have "sound_book (st_db s') B"
    using publishes.prems by (simp add: d sound_book_def holds_def represents_def inbox_ok_def)
  then show ?case unfolding onward_def using continues_refl [of "st_db s'" "st_db s" B] d by auto
qed

lemma steps_onward: "service_step\<^sup>*\<^sup>* d d' \<Longrightarrow> sound_book d B \<Longrightarrow> onward d B d'"
proof (induction rule: rtranclp_induct)
  case base
  then show ?case by (rule onward_refl)
next
  case (step d1 d2)
  then obtain B1 where B1: "sound_book d1 B1" "continues d B d1 B1" by (auto simp: onward_def)
  from step_onward [OF step.hyps(2) B1(1)] show ?case
    using continues_trans [OF B1(2)] by (auto simp: onward_def)
qed

lemma empty_sound: "sound_book empty_db empty_book"
  using empty_book_inv by (simp add: sound_book_def holds_def represents_def empty_db_def empty_book_def inbox_ok_def)

section \<open>What was answered stays answered\<close>

lemma known_later:
  assumes k: "known input h d B t" and B': "sound_book d' B'" and co: "continues d B d' B'"
  shows "\<exists>t'. known input h d' B' t' \<and> kept_tx t t'"
proof -
  have "t \<in> set (bk_txs B)" using k by (simp add: known_def)
  with co obtain t' where t': "t' \<in> set (bk_txs B')" "kept_tx t t'" unfolding continues_def by (metis grown_in)
  have "set (db_inbox d) \<subseteq> set (db_inbox d')" using co by (auto simp: continues_def prefix_def)
  then have "known input h d' B' t'"
    using k B' t' by (auto simp: known_def kept_tx_def same_identity_def split: if_splits)
  with t'(2) show ?thesis by blast
qed

lemma known_onward:
  assumes "known input h d B t" and "service_step\<^sup>*\<^sup>* d d'"
  shows "\<exists>B' t'. known input h d' B' t' \<and> kept_tx t t'"
proof -
  have "sound_book d B" using assms(1) by (simp add: known_def)
  from steps_onward [OF assms(2) this] known_later [OF assms(1)] show ?thesis unfolding onward_def by blast
qed

text \<open>A message that is known leaves no trace when it comes again.\<close>

lemma known_redelivered:
  assumes k: "known input h d B t" and q: "FromQueue input" and o: "process_outcome c input h B d res d2"
  shows "d2 = d"
proof -
  obtain r where r: "r \<in> set (db_inbox d)" "same_message ConsumerName (pi_messageID input) r"
    using k q by (auto simp: known_def)
  have "\<not> recorded input x d d2" for x using r q unfolding recorded_def by auto
  with o show ?thesis by cases auto
qed

lemma listener_again:
  assumes c: "honest_commit c" and i: "delivery_input c m = Inr input" and q: "FromQueue input"
    and k: "known input (payload_hash c input) (st_db s) B t"
    and r: "listener_Handle u settings m c s = (answer, s')"
  shows "st_db s' = st_db s"
proof -
  have h: "holds (st_db s) B" using k by (simp add: known_def sound_book_def)
  have "d2 = st_db s" if "process_outcome c input (payload_hash c input) B (st_db s) res d2" for res d2
    by (rule known_redelivered [OF k q that])
  then show ?thesis
    using wp_listener_Handle [OF c h, of u settings m] r i by (auto simp: wpM_def split: sum.splits)
qed

text \<open>
  Surroundings at different moments share the two libraries an input depends on: the validator
  and the one that reads and writes identifiers.
\<close>

definition same_libraries :: "env \<Rightarrow> env \<Rightarrow> bool" where
  "same_libraries c c' \<longleftrightarrow> e_validate c' = e_validate c \<and> e_uuid_parse c' = e_uuid_parse c \<and> e_uuid_text c' = e_uuid_text c"

lemma same_libraries_input:
  assumes "same_libraries c c'"
  shows "payload_hash c' input = payload_hash c input" "delivery_input c' m = delivery_input c m"
proof -
  have e: "e_validate c' = e_validate c" "e_uuid_parse c' = e_uuid_parse c" "e_uuid_text c' = e_uuid_text c"
    using assms by (simp_all add: same_libraries_def)
  show "payload_hash c' input = payload_hash c input" by (simp add: payload_hash_def e)
  have v: "message_Validate c' = message_Validate c" by (rule ext) (simp add: message_Validate_def e)
  have d: "message_Decode c' = message_Decode c" unfolding message_Decode_def v by (rule refl)
  have w: "WagerInputFromMessage c' = WagerInputFromMessage c"
    by (intro ext) (simp add: WagerInputFromMessage_def Identifier_def e)
  show "delivery_input c' m = delivery_input c m" unfolding delivery_input_def d w by (rule refl)
qed

lemma delivery_from_queue:
  assumes "documented_engine (e_validate c)" and "delivery_input c m = Inr input"
  shows "FromQueue input"
proof -
  obtain wager where w: "message_Decode c (dm_body m) = Inr wager"
    "WagerInputFromMessage c wager (HashBytes (dm_body m)) (correlationOf m wager) = Inr input"
    using assms(2) unfolding delivery_input_Inr by blast
  show ?thesis using message_Decode_Inr(1) [OF assms(1) w(1)] input_fields(2) [OF w(2)] by (auto simp: FromQueue_def)
qed

lemma reachable_sound: "service_reachable d \<Longrightarrow> \<exists>B. sound_book d B"
  using steps_onward [OF _ empty_sound] unfolding service_reachable_def onward_def by blast

section \<open>Properties\<close>

text \<open>
  C1. The books balance in every state the service can reach from empty tables, however requests,
  deliveries, retries, openings and publications follow each other and whatever fails: the tables
  are those of a book in which every wallet has the balance its ledger entries add up to, and
  never less than zero; a processed operation that moves money has exactly one entry, for its
  wallet and its amount; and no operation was reversed twice.
\<close>

theorem service_always_consistent:
  assumes "service_reachable d"
  shows "\<exists>B. represents d B
    \<and> (\<forall>w \<in> set (bk_wallets B). 0 \<le> amount_of (w_balance w) \<and> amount_of (w_balance w) = ledger_sum B (w_id w))
    \<and> (\<forall>t \<in> set (bk_txs B). t_status t = Processed \<and> MovesBalance (t_kind t) \<longrightarrow>
         (\<exists>!e. e \<in> set (bk_entries B) \<and> le_transactionID e = t_id t))
    \<and> (\<forall>e \<in> set (bk_entries B). \<exists>t \<in> set (bk_txs B). t_id t = le_transactionID e \<and> t_status t = Processed
         \<and> le_walletID e = t_walletID t \<and> le_amount e = t_amount t \<and> le_balanceAfter e = t_resultBalance t)
    \<and> (\<forall>t \<in> set (bk_txs B). \<forall>u \<in> set (bk_txs B). processed_reversal t \<and> processed_reversal u
         \<and> t_referenceTransactionID t = t_referenceTransactionID u \<longrightarrow> t = u)"
proof -
  obtain B where "sound_book d B" using reachable_sound [OF assms] by blast
  then have B: "represents d B" "book_inv B" by (simp_all add: sound_book_def holds_def)
  note inv = B(2) [unfolded book_inv_def txs_ok_def entries_ok_def reversals_ok_def]
  have w: "0 \<le> amount_of (w_balance w) \<and> amount_of (w_balance w) = ledger_sum B (w_id w)"
    if "w \<in> set (bk_wallets B)" for w
    using book_wallet_inv [OF B(2) that] ledger_sum_balance [OF B(2) that] by (simp add: wallet_inv_def)
  have e1: "\<exists>!e. e \<in> set (bk_entries B) \<and> le_transactionID e = t_id t"
    if t: "t \<in> set (bk_txs B)" "t_status t = Processed \<and> MovesBalance (t_kind t)" for t
  proof -
    obtain e where "e \<in> set (bk_entries B)" "le_transactionID e = t_id t" using inv t by (auto simp: moves_def)
    moreover have "inj_on le_transactionID (set (bk_entries B))" using inv by (simp add: distinct_map)
    ultimately show ?thesis by (intro ex_ex1I) (auto simp: inj_on_def)
  qed
  have e2: "\<exists>t \<in> set (bk_txs B). t_id t = le_transactionID e \<and> t_status t = Processed
      \<and> le_walletID e = t_walletID t \<and> le_amount e = t_amount t \<and> le_balanceAfter e = t_resultBalance t"
    if "e \<in> set (bk_entries B)" for e
    using inv that by (fastforce simp: entry_for_def moves_def)
  have r: "t = u" if t: "t \<in> set (bk_txs B)" and u: "u \<in> set (bk_txs B)"
    and p: "processed_reversal t \<and> processed_reversal u \<and> t_referenceTransactionID t = t_referenceTransactionID u" for t u
  proof -
    obtain t0 where "t0 \<in> set (bk_txs B)" "t_id t0 = t_referenceTransactionID t"
      using inv t p unfolding undoes_def by blast
    then have "t_referenceTransactionID t \<noteq> uuid_Nil" using book_tx_wf(1) [OF B(2)] by (auto simp: tx_wf_def)
    then have "clash t u" using p by (simp add: clash_def)
    then have "t_id t = t_id u" using inv t u by blast
    then show ?thesis using id_unique(1) [OF _ t u] inv by blast
  qed
  show ?thesis by (intro exI [of _ B] conjI ballI impI B(1)) (use w e1 e2 r in blast)+
qed

text \<open>A state the service reaches: a wallet opened in calm surroundings.\<close>

definition started :: st where
  "started = sample_st\<lparr>st_db := empty_db\<rparr>"

definition opened_db :: db where
  "opened_db = st_db (snd (open_Execute sample_uow sample_open quiet_env started))"

lemma opened_reachable: "service_reachable opened_db" "service_reachable (st_db started)"
proof -
  have "service_step (st_db started) opened_db"
    unfolding opened_db_def by (rule opens [OF honest_samples(1)]) (rule prod.collapse [symmetric])
  then show "service_reachable opened_db" by (simp add: service_reachable_def started_def)
  show "service_reachable (st_db started)" by (simp add: service_reachable_def started_def)
qed

theorem service_always_consistent_witness:
  "service_reachable opened_db \<and> (\<exists>B. represents opened_db B
    \<and> (\<forall>w \<in> set (bk_wallets B). 0 \<le> amount_of (w_balance w) \<and> amount_of (w_balance w) = ledger_sum B (w_id w)))"
  using service_always_consistent [OF opened_reachable(1)] opened_reachable(1) by blast

text \<open>
  C8. The history is never rewritten. From any state the service can reach to any later one,
  operations, wallets, ledger entries and handled messages are only added: an operation keeps
  what identifies it and stays exactly as it is once it is terminal, a wallet keeps its player and
  its currency, and ledger and inbox are extended at their end.
\<close>

theorem history_kept:
  assumes "service_reachable d" and "service_step\<^sup>*\<^sup>* d d'"
  shows "\<exists>B B'. represents d B \<and> represents d' B'
    \<and> (\<forall>t \<in> set (bk_txs B). \<exists>t' \<in> set (bk_txs B'). same_identity t t' \<and> (Terminal (t_status t) \<longrightarrow> t' = t))
    \<and> (\<forall>w \<in> set (bk_wallets B). \<exists>w' \<in> set (bk_wallets B'). w_id w' = w_id w \<and> w_playerID w' = w_playerID w
         \<and> currency (w_balance w') = currency (w_balance w))
    \<and> prefix (bk_entries B) (bk_entries B') \<and> prefix (db_inbox d) (db_inbox d')"
proof -
  obtain B where B: "sound_book d B" using reachable_sound [OF assms(1)] by blast
  then obtain B' where B': "sound_book d' B'" "continues d B d' B'"
    using steps_onward [OF assms(2)] unfolding onward_def by blast
  have "\<exists>t' \<in> set (bk_txs B'). kept_tx t t'" if "t \<in> set (bk_txs B)" for t
    using B'(2) that grown_in unfolding continues_def by metis
  moreover have "\<exists>w' \<in> set (bk_wallets B'). kept_wallet w w'" if "w \<in> set (bk_wallets B)" for w
    using B'(2) that grown_in unfolding continues_def by metis
  ultimately show ?thesis
    using B B' unfolding sound_book_def holds_def kept_tx_def kept_wallet_def continues_def by blast
qed

theorem history_kept_witness:
  "service_reachable (st_db started) \<and> service_step\<^sup>*\<^sup>* (st_db started) opened_db
    \<and> (\<exists>B'. represents opened_db B' \<and> prefix (db_inbox (st_db started)) (db_inbox opened_db))"
proof -
  have "service_step\<^sup>*\<^sup>* (st_db started) opened_db"
    using opened_reachable(1) by (simp add: service_reachable_def started_def)
  with history_kept [OF opened_reachable(2) this] opened_reachable(2) show ?thesis by blast
qed

text \<open>
  An answer holds for good. Once an execution answered, whatever the service does afterwards,
  executing the same input again - at any later moment, with other settings and other faults -
  changes neither the book nor the outbox; and if it answers, it answers with the same operation,
  marked as a replay, and with the same result if that was final.
\<close>

theorem answered_for_good:
  assumes "service_reachable (st_db s)" and "honest_commit c"
    and "process_Execute u settings input c s = (first, s1)"
    and "service_step\<^sup>*\<^sup>* (st_db s1) (st_db s2)"
    and "honest_commit c'" and "same_libraries c c'"
    and "process_Execute u' settings' input c' s2 = (second, s3)"
  shows "case first of Inl _ \<Rightarrow> True
    | Inr res \<Rightarrow> (\<exists>B. represents (st_db s2) B \<and> represents (st_db s3) B) \<and> db_outbox (st_db s3) = db_outbox (st_db s2)
      \<and> (case second of Inl _ \<Rightarrow> True
         | Inr res2 \<Rightarrow> pr_transactionID res2 = pr_transactionID res \<and> pr_idempotentReplay res2
           \<and> (Terminal (pr_status res) \<longrightarrow> pr_status res2 = pr_status res \<and> pr_balance res2 = pr_balance res
                \<and> pr_failureCode res2 = pr_failureCode res))"
proof (cases first)
  case (Inr res)
  obtain B where B: "sound_book (st_db s) B" using reachable_sound [OF assms(1)] by blast
  then have h: "holds (st_db s) B" by (simp add: sound_book_def)
  have "process_outcome c input (payload_hash c input) B (st_db s) res (st_db s1)"
    using result_of_wpM(1) [OF wp_process_Execute [OF assms(2) h]] assms(3) Inr by blast
  from first_answer [OF this B] obtain B1 t where a: "answered input (payload_hash c input) res (st_db s1) B1 t" by blast
  then have k: "known input (payload_hash c input) (st_db s1) B1 t" by (simp add: answered_def)
  from known_onward [OF k assms(4)] obtain B2 t2 where k2: "known input (payload_hash c' input) (st_db s2) B2 t2"
    and t2: "kept_tx t t2" using same_libraries_input(1) [OF assms(6)] by auto
  have r2: "represents (st_db s2) B2" using k2 by (simp add: known_def sound_book_def holds_def)
  have res: "pr_transactionID res = t_id t" "pr_status res = t_status t" "pr_balance res = t_resultBalance t"
    "pr_failureCode res = t_failureCode t" using a by (cases res, simp add: answered_def WagerResult_def)+
  have same: "t_id t2 = t_id t" "Terminal (t_status t) \<longrightarrow> t2 = t" using t2 by (auto simp: kept_tx_def same_identity_def)
  note again = known_executed [OF assms(5) k2 assms(7)]
  have "pr_transactionID res2 = t_id t2 \<and> pr_idempotentReplay res2 \<and> pr_status res2 = t_status t2
      \<and> pr_balance res2 = t_resultBalance t2 \<and> pr_failureCode res2 = t_failureCode t2" if "second = Inr res2" for res2
    using again that by (cases res2) (simp add: WagerResult_def)
  then show ?thesis using again r2 res same Inr by (auto simp: holds_def split: sum.splits)
qed simp

theorem answered_for_good_witness:
  "\<exists>first s1 second s3. process_Execute sample_uow sample_settings sample_input quiet_env (started\<lparr>st_db := opened_db\<rparr>) = (first, s1)
    \<and> process_Execute sample_uow sample_settings sample_input lost_answer_env s1 = (second, s3)
    \<and> (is_ok first \<longrightarrow> db_outbox (st_db s3) = db_outbox (st_db s1))"
proof -
  let ?s = "started\<lparr>st_db := opened_db\<rparr>"
  obtain first s1 where p: "process_Execute sample_uow sample_settings sample_input quiet_env ?s = (first, s1)" by fastforce
  obtain second s3 where q: "process_Execute sample_uow sample_settings sample_input lost_answer_env s1 = (second, s3)" by fastforce
  have "service_reachable (st_db ?s)" using opened_reachable(1) by simp
  from answered_for_good [OF this honest_samples(1) p _ honest_samples(2) _ q] p q show ?thesis
    by (auto simp: same_libraries_def lost_answer_env_def is_ok_def split: sum.splits)
qed

text \<open>
  C2. A message has its effect once, however often the broker delivers it. If a delivery changed
  the tables - even where the service never learned whether its commit was applied - then,
  whatever the service does afterwards, a delivery of the same body changes nothing: no table
  has a row more or a column different, and no event is announced again.
\<close>

theorem delivered_once:
  assumes "service_reachable (st_db s)" and "honest_commit c" and "documented_engine (e_validate c)"
    and "dispatch cn q (wager_listener url u settings) m c s = (r, s1)"
    and "service_step\<^sup>*\<^sup>* (st_db s1) (st_db s2)"
    and "honest_commit c'" and "same_libraries c c'" and "sm_body m' = sm_body m"
    and "dispatch cn' q' (wager_listener url' u' settings') m' c' s2 = (r', s3)"
  shows "st_db s1 = st_db s \<or> st_db s3 = st_db s2"
proof (subst disj_commute, rule disjCI)
  assume moved: "st_db s1 \<noteq> st_db s"
  obtain B where B: "sound_book (st_db s) B" using reachable_sound [OF assms(1)] by blast
  then have h: "holds (st_db s) B" by (simp add: sound_book_def)
  obtain answer s0 where a: "listener_Handle u settings (deliveryOf m) c s = (answer, s0)" "st_db s1 = st_db s0"
    using dispatch_run [OF assms(4)] moved by (auto simp: wager_listener_def)
  then obtain input res where i: "delivery_input c (deliveryOf m) = Inr input"
    and o: "process_outcome c input (payload_hash c input) B (st_db s) res (st_db s1)"
    using wp_listener_Handle [OF assms(2) h, of u settings "deliveryOf m"] moved
    by (auto simp: wpM_def split: sum.splits)
  from first_answer [OF o B] obtain B1 t where "answered input (payload_hash c input) res (st_db s1) B1 t" by blast
  then have k: "known input (payload_hash c input) (st_db s1) B1 t" by (simp add: answered_def)
  from known_onward [OF k assms(5)] obtain B2 t2 where k2: "known input (payload_hash c' input) (st_db s2) B2 t2"
    using same_libraries_input(1) [OF assms(7)] by auto
  have "dm_body (deliveryOf m') = dm_body (deliveryOf m)" using assms(8) by (simp add: deliveryOf_def)
  from same_body_input [OF this i] obtain cid where i': "delivery_input c' (deliveryOf m') = Inr (input\<lparr>pi_correlationID := cid\<rparr>)"
    using same_libraries_input(2) [OF assms(7)] by metis
  have q: "FromQueue (input\<lparr>pi_correlationID := cid\<rparr>)"
    using delivery_from_queue [OF assms(3) i] by (simp add: FromQueue_def)
  from dispatch_run [OF assms(9)] show "st_db s3 = st_db s2"
    using listener_again [OF assms(6) i' q, of s2 B2 t2] k2 by (auto simp: wager_listener_def known_correlation)
qed

theorem delivered_once_witness:
  "\<exists>r s1 r' s3. dispatch sample_consumer ''q'' (wager_listener ''q'' sample_uow sample_settings) sample_message strict_env
      (started\<lparr>st_db := opened_db\<rparr>) = (r, s1)
    \<and> dispatch sample_consumer ''q'' (wager_listener ''q'' sample_uow sample_settings) sample_message strict_env s1 = (r', s3)
    \<and> (st_db s1 = opened_db \<or> st_db s3 = st_db s1)"
proof -
  let ?s = "started\<lparr>st_db := opened_db\<rparr>" and ?l = "wager_listener ''q'' sample_uow sample_settings"
  obtain r s1 where p: "dispatch sample_consumer ''q'' ?l sample_message strict_env ?s = (r, s1)" by fastforce
  obtain r' s3 where q: "dispatch sample_consumer ''q'' ?l sample_message strict_env s1 = (r', s3)" by fastforce
  have "honest_commit strict_env" by (simp add: strict_env_def honest_commit_def quiet_env_def)
  moreover have "service_reachable (st_db ?s)" using opened_reachable(1) by simp
  ultimately have "st_db s1 = st_db ?s \<or> st_db s3 = st_db s1"
    using delivered_once [OF _ _ strict_documented p rtranclp.rtrancl_refl _ _ refl q] by (simp add: same_libraries_def)
  with p q show ?thesis by auto
qed

end
