(* ===== verification/Api.thy ===== *)
theory Api
  imports Server System
begin

text \<open>
  What the HTTP API promises: the answer to a submission tells what became of it, a submission
  may be sent again, no route does anything without a credential that permits it, and a provider
  sees its own operations only.
\<close>

section \<open>Errors of the use cases\<close>

text \<open>
  A use case that fails after changing the tables fails with an unknown commit, and no handler
  takes that for anything else.
\<close>

lemma fault_plain:
  "as_conflict (fault_error f) = None" "as_validation (fault_error f) = None" "as_wallet_conflict (fault_error f) = None"
  "\<not> errors_is (fault_error f) (EWagering x)"
  by (cases f; simp)+

lemma unknown_commit_plain:
  assumes "unknown_commit e"
  shows "as_conflict e = None" "as_validation e = None" "as_wallet_conflict e = None" "\<not> errors_is e (EWagering x)" "e \<noteq> EPanic"
  using assms by (auto simp: unknown_commit_def fault_plain)

lemma fail_unknown:
  assumes "unknown_commit e"
  shows "failProcessing r e = fail r e" "failValidation r e = fail r e" "rs_status (fail r e) = 503"
    "\<exists>p. rs_content (fail r e) = ProblemBody p \<and> pb_Code p = CodeCommitUnknown"
  using unknown_commit_plain [OF assms] unknown_commit_only [OF assms]
  by (simp_all add: failProcessing_def failValidation_def fail_def writeProblem_def)

lemma process_unknown:
  assumes "honest_commit c"
  shows "wpM (process_Execute u settings input) c s (\<lambda>_ _. True) (\<lambda>e s'. st_db s' = st_db s \<or> unknown_commit e)"
proof -
  have "wpM (uow_Do u fn) c s' (\<lambda>_ _. True) (\<lambda>e s'. st_db s' = st_db s \<or> unknown_commit e)"
    if "st_db s' = st_db s" for s' and fn :: "process_result M"
    using wp_Do_unknown [OF assms, of u fn s'] that by simp
  then show ?thesis by (auto simp: process_Execute_def wp Let_def split: sum.splits)
qed

section \<open>Submissions\<close>

text \<open>The input a submission becomes; its body decides all but three fields.\<close>

definition body_value :: "(string \<Rightarrow> json \<Rightarrow> 'a \<Rightarrow> 'a result) \<Rightarrow> 'a \<Rightarrow> string \<Rightarrow> 'a option" where
  "body_value set_field target body =
     (case json_first body of
        None \<Rightarrow> None
      | Some (v, rest) \<Rightarrow>
          (case decode_struct set_field v target of
             Inl err \<Rightarrow> None
           | Inr x \<Rightarrow> if skip_space rest = [] then Some x else None))"

lemma decode_Inr: "decode err_text r set_field target = Inr x \<Longrightarrow> body_value set_field target (rq_body r) = Some x"
  by (auto simp: decode_def body_value_def Let_def split: if_splits option.splits prod.splits sum.splits)

lemma decode_Inl: "decode err_text r set_field target = Inl response \<Longrightarrow> \<exists>p. rs_content response = ProblemBody p"
  by (auto simp: decode_def writeProblem_def Let_def split: if_splits option.splits prod.splits sum.splits)

definition submission :: "env \<Rightarrow> http_request \<Rightarrow> principal \<Rightarrow> process_input \<Rightarrow> bool" where
  "submission c r p input \<longleftrightarrow> (\<exists>request cid. body_value set_wager_request wager_request_zero (rq_body r) = Some request
     \<and> wager_toInput c request (rq_header r ''Idempotency-Key'') cid = Inr input \<and> pi_providerID input = pl_providerID p)"

definition submitted ::
  "env \<Rightarrow> server \<Rightarrow> http_request \<Rightarrow> book \<Rightarrow> st \<Rightarrow> nat \<Rightarrow> content \<Rightarrow> st \<Rightarrow> bool" where
  "submitted c sv r B s status answer s' \<longleftrightarrow>
     (case answer of
        ResultBody b \<Rightarrow> \<exists>p input res. credential sv r = Inr p \<and> principal_Provider p \<and> submission c r p input
          \<and> process_outcome c input (payload_hash c input) B (st_db s) res (st_db s')
          \<and> b = resultOf res \<and> status = statusOf (pr_status res)
      | ProblemBody p \<Rightarrow> st_db s' = st_db s
          \<or> status = 503 \<and> pb_Code p = CodeCommitUnknown
            \<and> (\<exists>p input res. credential sv r = Inr p \<and> principal_Provider p \<and> submission c r p input
                 \<and> process_outcome c input (payload_hash c input) B (st_db s) res (st_db s'))
      | NoContent \<Rightarrow> status = 500 \<and> st_db s' = st_db s
      | _ \<Rightarrow> False)"

lemma submitted_problem:
  "(\<exists>p. rs_content x = ProblemBody p) \<Longrightarrow> st_db s' = st_db s \<Longrightarrow> submitted c sv r B s (rs_status x) (rs_content x) s'"
  by (auto simp: submitted_def)

lemma writeProblem_content: "\<exists>p. rs_content (writeProblem r status d t os) = ProblemBody p"
  by (simp add: writeProblem_def)

lemma fail_content: "\<exists>p. rs_content (fail r e) = ProblemBody p"
  by (simp add: fail_def writeProblem_content)

lemma failValidation_content: "\<exists>p. rs_content (failValidation r e) = ProblemBody p"
  by (simp add: failValidation_def fail_content writeProblem_content split: option.split)

lemma failProcessing_content: "\<exists>p. rs_content (failProcessing r e) = ProblemBody p"
  by (auto simp: failProcessing_def failValidation_content writeProblem_content split: option.split)

lemmas problem_contents = writeProblem_content fail_content failValidation_content failProcessing_content

lemma wp_submitTransaction:
  assumes c: "honest_commit c" and h: "holds (st_db s) B" and p: "credential sv r0 = Inr p" "principal_Provider p"
    and r: "rq_principal r = Some p" "rq_body r = rq_body r0" "rq_header r = rq_header r0"
  shows "wpM (submitTransaction h r) c s (\<lambda>x s'. submitted c sv r0 B s (rs_status x) (rs_content x) s')
    (\<lambda>e s'. e = EPanic \<and> submitted c sv r0 B s 500 NoContent s')"
proof (cases "decode (hs_err_text h) r set_wager_request wager_request_zero")
  case (Inl x)
  then show ?thesis by (simp add: submitTransaction_def wp submitted_problem decode_Inl)
next
  case (Inr request)
  show ?thesis
  proof (cases "wager_toInput c request (rq_header r ''Idempotency-Key'') (rq_correlation r)")
    case (Inl e)
    with Inr show ?thesis by (simp add: submitTransaction_def wp submitted_problem problem_contents)
  next
    case i: (Inr input)
    have "pi_providerID input = wq_providerID request"
      using i by (auto simp: wager_toInput_def bindR_eq_Inr split: prod.splits)
    then have sub: "submission c r0 p input" if "wq_providerID request = pl_providerID p"
      using decode_Inr [OF Inr] i r that unfolding submission_def by auto
    let ?o = "\<lambda>res s'. process_outcome c input (payload_hash c input) B (st_db s) res (st_db s')"
    have run: "wpM (process_Execute u settings input) c s ?o
        (\<lambda>e s'. st_db s' = st_db s \<or> unknown_commit e \<and> (\<exists>res. ?o res s'))" for u settings
      by (rule wpM_mono [OF wpM_conj [OF wp_process_Execute [OF c h] process_unknown [OF c]]]) auto
    have "submitted c sv r0 B s (rs_status (failProcessing r e)) (rs_content (failProcessing r e)) s'"
      if "unknown_commit e" "?o res s'" "wq_providerID request = pl_providerID p" for e res s'
      using fail_unknown [OF that(1), of r] p sub that by (auto simp: submitted_def)
    then show ?thesis
      using Inr i r p sub
      by (auto simp: submitTransaction_def wp principalFrom_def wp_callM submitted_problem problem_contents
          intro!: wpM_mono [OF run]) (auto simp: submitted_def writeJSON_def unknown_commit_def)
  qed
qed

section \<open>Getting to a handler\<close>

text \<open>A response that refuses a request says so and leaves everything as it is.\<close>

lemma wp_secured:
  assumes "\<And>e. credential sv r = Inl e \<Longrightarrow> Q (writeProblem r 401 CodeUnauthenticated ''a bearer token is required'' []) s
      \<and> Q (writeProblem r 401 CodeUnauthenticated ''the credential is not valid'' []) s"
    and "\<And>p. credential sv r = Inr p \<Longrightarrow>
      wpM (next (r\<lparr>rq_principal := Some p, rq_limit := Some (hs_maxBodyBytes (sv_handlers sv))\<rparr>)) c s Q E"
  shows "wpM (secured sv next r) c s Q E"
  using assms
  by (auto simp: secured_def authenticated_def credential_def bodyLimited_def wp split: option.splits sum.splits)

lemma wp_principal_only:
  assumes "\<not> allowed p \<Longrightarrow> Q (writeProblem r 403 CodeForbidden detail []) s" and "allowed p \<Longrightarrow> wpM (next r) c s Q E"
    and "rq_principal r = Some p"
  shows "wpM (principal_only allowed detail next r) c s Q E"
  using assms by (auto simp: principal_only_def wp)

lemma wp_limited:
  assumes "Q (writeProblem r 503 CodeUnavailable ''the service is above its write capacity, please retry'' []) s"
    and "Q (writeProblem r 503 CodeUnavailable ''the request was cancelled'' []) s" and "wpM (next r) c s Q E"
  shows "wpM (limited a next r) c s Q E"
  using assms by (auto simp: limited_def wp split: admission.split)

lemma wp_submit:
  assumes c: "honest_commit c" and h: "holds (st_db s) B"
  shows "wpM (serve sv a Submit r) c s (\<lambda>x s'. submitted c sv r B s (rs_status x) (rs_content x) s')
    (\<lambda>e s'. st_db s' = st_db s)"
proof (rule wp_serve)
  fix cid t
  let ?r = "r\<lparr>rq_correlation := cid\<rparr>" and ?s = "s\<lparr>st_tick := t\<rparr>"
  have start: "submitted c sv r B ?s = submitted c sv r B s" by (simp add: fun_eq_iff submitted_def split: content.split)
  have cred: "credential sv ?r = credential sv r" by (simp add: credential_def)
  show "wpM (endpoint sv a Submit ?r) c ?s (\<lambda>x s'. submitted c sv r B s (rs_status x) (rs_content x) s')
      (\<lambda>e s'. e = EPanic \<and> submitted c sv r B s 500 NoContent s')"
  proof (simp add: providerOnly_def, rule wp_secured)
    fix p assume p: "credential sv ?r = Inr p"
    let ?r' = "?r\<lparr>rq_principal := Some p, rq_limit := Some (hs_maxBodyBytes (sv_handlers sv))\<rparr>"
    have "wpM (submitTransaction (sv_handlers sv) ?r') c ?s (\<lambda>x s'. submitted c sv r B s (rs_status x) (rs_content x) s')
        (\<lambda>e s'. e = EPanic \<and> submitted c sv r B s 500 NoContent s')" if "principal_Provider p"
      using wp_submitTransaction [OF c, of ?s B sv r p ?r'] h p that unfolding start cred by simp
    then show "wpM (principal_only principal_Provider ''this operation is restricted to gaming providers''
          (limited a (submitTransaction (sv_handlers sv))) ?r') c ?s
        (\<lambda>x s'. submitted c sv r B s (rs_status x) (rs_content x) s') (\<lambda>e s'. e = EPanic \<and> submitted c sv r B s 500 NoContent s')"
      by (intro wp_principal_only wp_limited) (simp_all add: submitted_problem problem_contents)
  qed (simp add: submitted_problem problem_contents)
qed

section \<open>Requests are steps of the service\<close>

abbreviation leads_to :: "st \<Rightarrow> st \<Rightarrow> bool" where
  "leads_to s s' \<equiv> service_step\<^sup>*\<^sup>* (st_db s) (st_db s')"

lemma wp_use_cases:
  assumes "honest_commit c"
  shows "wpM (process_Execute u settings input) c s (\<lambda>_ s'. leads_to s s') (\<lambda>_ s'. leads_to s s')"
    "wpM (open_Execute u oinput) c s (\<lambda>_ s'. leads_to s s') (\<lambda>_ s'. leads_to s s')"
  using processes [OF assms] opens [OF assms] by (auto simp: wpM_def split: prod.split sum.split)

lemma wp_reading: "follows reads_only m \<Longrightarrow> wpM m c s (\<lambda>_ s'. leads_to s s') (\<lambda>_ s'. leads_to s s')"
  by (auto simp: wpM_def dest: follows_run split: prod.split sum.split)

lemma wp_callM_leads:
  assumes "wpM m c s (\<lambda>_ s'. leads_to s s') (\<lambda>_ s'. leads_to s s')"
  shows "wpM (callM m answer) c s (\<lambda>_ s'. leads_to s s') (\<lambda>e s'. e = EPanic \<and> leads_to s s')"
  unfolding wp_callM by (rule wpM_mono [OF assms]) auto

lemma wp_handlers_lead:
  assumes "honest_commit c"
  shows "wpM (endpoint sv a e r) c s (\<lambda>_ s'. leads_to s s') (\<lambda>e s'. e = EPanic \<and> leads_to s s')"
proof -
  note use = wp_callM_leads [OF wp_use_cases(1) [OF assms]] wp_callM_leads [OF wp_use_cases(2) [OF assms]]
    wp_callM_leads [OF wp_reading]
  note d = internalOnly_def providerOnly_def providerOrInternal_def
  have h: "wpM (openWallet h r) c s (\<lambda>_ s'. leads_to s s') (\<lambda>e s'. e = EPanic \<and> leads_to s s')"
    "wpM (submitTransaction h r) c s (\<lambda>_ s'. leads_to s s') (\<lambda>e s'. e = EPanic \<and> leads_to s s')"
    "wpM (getWallet h r) c s (\<lambda>_ s'. leads_to s s') (\<lambda>e s'. e = EPanic \<and> leads_to s s')"
    "wpM (getLedger h r) c s (\<lambda>_ s'. leads_to s s') (\<lambda>e s'. e = EPanic \<and> leads_to s s')"
    "wpM (reconcile h r) c s (\<lambda>_ s'. leads_to s s') (\<lambda>e s'. e = EPanic \<and> leads_to s s')"
    "wpM (getTransaction h r) c s (\<lambda>_ s'. leads_to s s') (\<lambda>e s'. e = EPanic \<and> leads_to s s')"
    "wpM (getProviderTransaction h r) c s (\<lambda>_ s'. leads_to s s') (\<lambda>e s'. e = EPanic \<and> leads_to s s')" for h r
    by (auto simp: openWallet_def submitTransaction_def getWallet_def getLedger_def reconcile_def getTransaction_def
        getProviderTransaction_def Let_def wp split: sum.split intro!: use reads_queries)
  show ?thesis
    by (cases e) (auto simp: d live_def ready_def Let_def wp intro!: wp_secured wp_principal_only wp_limited h)
qed

lemma served_leads:
  assumes "honest_commit c" and "serve sv a e r c s = (x, s')"
  shows "leads_to s s'"
proof -
  have "wpM (serve sv a e r) c s (\<lambda>_ s'. leads_to s s') (\<lambda>_ s'. st_db s' = st_db s)"
  proof (rule wp_serve)
    fix cid t
    show "wpM (endpoint sv a e (r\<lparr>rq_correlation := cid\<rparr>)) c (s\<lparr>st_tick := t\<rparr>) (\<lambda>_ s'. leads_to s s')
        (\<lambda>e s'. e = EPanic \<and> leads_to s s')"
      using wp_handlers_lead [OF assms(1), of sv a e _ "s\<lparr>st_tick := t\<rparr>"] by simp
  qed
  then show ?thesis using assms(2) by (auto simp: wpM_def split: sum.splits)
qed

section \<open>What a lookup finds\<close>

text \<open>Whatever the closure returns, the unit of work returns.\<close>

lemma wp_run_result:
  assumes "\<And>s. wpM fn c s (\<lambda>x _. R x) (\<lambda>_ _. True)"
  shows "wpM (uow_Read u fn) c s (\<lambda>x _. R x) (\<lambda>_ _. True)"
proof -
  have commit: "wpM (uow_commit d x) c s (\<lambda>x _. R x) (\<lambda>_ _. True)" if "R x" for d x s
    using that by (simp add: wpM_def uow_commit_def Let_def split: commit_report.split)
  have rollback: "wpM (uow_rollback d e) c s (\<lambda>x _. R x) (\<lambda>_ _. True)" for d e s
    by (rule wp_rollback) simp
  show ?thesis
    unfolding uow_Read_def wp_uow_run
    by (auto simp: wp applyTimeouts_def split: option.split intro!: commit rollback wpM_mono [OF assms])
qed

lemma wp_findOne_provider:
  "wpM (Transactions_findOne (\<lambda>row. tr_provider_id row = Some providerID \<and> P row)) c s
     (\<lambda>x _. \<forall>t. x = Some t \<longrightarrow> t_providerID t = providerID) (\<lambda>_ _. True)"
proof -
  have scanned: "t_providerID t = text_of (tr_provider_id row)" if "scanTransaction (row, cur) = Inr t" for row cur t
    using that by (auto simp: scanTransaction_def bindR_eq_Inr Rehydrate_eq_Inr split: option.splits)
  have first: "first_row rows = Some x \<Longrightarrow> x \<in> set rows" for rows :: "(tx_row \<times> string) list" and x
    by (cases rows) (auto simp: first_row_def)
  show ?thesis
    by (auto simp: Transactions_findOne_def scan_one_def sql_select_transactions_def wp bindR_eq_Inr text_of_def
        split: option.splits sum.splits dest!: first scanned)
qed

lemma wp_ByExternalID:
  "wpM (findTransaction_ByExternalID u providerID externalID) c s (\<lambda>t _. t_providerID t = providerID) (\<lambda>_ _. True)"
  unfolding findTransaction_ByExternalID_def findTransaction_read_def Transactions_FindByExternalID_def
  by (auto simp: wp split: option.split intro!: wpM_mono [OF wp_run_result [OF wp_findOne_provider]])

definition shown_to :: "server \<Rightarrow> http_request \<Rightarrow> content \<Rightarrow> bool" where
  "shown_to sv r answer \<longleftrightarrow> (\<forall>b. answer = TransactionBody b \<longrightarrow> (\<exists>p. credential sv r = Inr p
     \<and> (principal_Internal p \<or> principal_Provider p \<and> tp_ProviderID b = Some (pl_providerID p))))"

lemma shown_problem: "(\<exists>p. rs_content x = ProblemBody p) \<Longrightarrow> shown_to sv r (rs_content x)"
  by (auto simp: shown_to_def)

lemma wp_callM_any:
  assumes "\<And>y. R (answer y)"
  shows "wpM (callM m answer) c s (\<lambda>x _. R x) (\<lambda>e _. e = EPanic)"
  unfolding wp_callM using assms by (auto intro!: wpM_mono [OF wpM_True])

lemma refusals:
  "pathUUID c r name = Inl x \<Longrightarrow> \<exists>p. rs_content x = ProblemBody p"
  "ledger_limit r = Inl x \<Longrightarrow> \<exists>p. rs_content x = ProblemBody p"
  "ledger_cursor r = Inl x \<Longrightarrow> \<exists>p. rs_content x = ProblemBody p"
  by (auto simp: pathUUID_def ledger_limit_def ledger_cursor_def Let_def writeProblem_def split: option.splits if_splits sum.splits)

lemma wp_lookups_shown:
  assumes "credential sv r0 = Inr p" "rq_principal r = Some p" "principal_Provider p \<or> principal_Internal p"
  shows "wpM (getTransaction h r) c s (\<lambda>x _. shown_to sv r0 (rs_content x)) (\<lambda>e _. e = EPanic)"
    "wpM (getProviderTransaction h r) c s (\<lambda>x _. shown_to sv r0 (rs_content x)) (\<lambda>e _. e = EPanic)"
proof -
  have own: "shown_to sv r0 (rs_content (writeJSON 200 (TransactionBody (transactionOf t))))"
    if "\<not> not_own p (t_providerID t)" for t
    using assms that
    by (auto simp: shown_to_def writeJSON_def not_own_def transactionOf_def optional_def principal_Provider_def)
  show "wpM (getTransaction h r) c s (\<lambda>x _. shown_to sv r0 (rs_content x)) (\<lambda>e _. e = EPanic)"
    using assms(2) own
    by (auto simp: getTransaction_def wp principalFrom_def shown_problem problem_contents refusals
        split: sum.split intro!: wp_callM_any)
  show "wpM (getProviderTransaction h r) c s (\<lambda>x _. shown_to sv r0 (rs_content x)) (\<lambda>e _. e = EPanic)"
    using assms(2) own
    by (auto simp: getProviderTransaction_def Let_def wp principalFrom_def shown_problem problem_contents wp_callM
        intro!: wpM_mono [OF wp_ByExternalID])
qed

lemma wp_others_shown:
  assumes "e \<noteq> GetTransaction" "e \<noteq> GetProviderTransaction"
  shows "wpM (endpoint sv a e r) c s (\<lambda>x _. shown_to sv r0 (rs_content x)) (\<lambda>e _. e = EPanic)"
proof -
  note d = internalOnly_def providerOnly_def
  have w: "shown_to sv r0 (rs_content (writeJSON st x))" if "\<forall>b. x \<noteq> TransactionBody b" for st x
    using that by (simp add: shown_to_def writeJSON_def)
  show ?thesis
    using assms
    by (cases e) (auto simp: d openWallet_def submitTransaction_def getWallet_def getLedger_def reconcile_def live_def
        ready_def Let_def wp w shown_problem problem_contents refusals decode_Inl split: sum.split option.split
        intro!: wp_secured wp_principal_only wp_limited wp_callM_any)
qed

section \<open>Properties\<close>

definition result_of :: "http_response result \<Rightarrow> result_response option" where
  "result_of x = (case x of Inl e \<Rightarrow> None | Inr response \<Rightarrow>
     (case rs_content response of ResultBody b \<Rightarrow> Some b | _ \<Rightarrow> None))"


text \<open>A server whose identity provider accepts one token, and a submission to it.\<close>

definition sample_server :: server where
  "sample_server =
     \<lparr>sv_handlers = \<lparr>hs_unitOfWork = sample_uow, hs_settings = sample_settings, hs_maxBodyBytes = 65536, hs_err_text = \<lambda>_. []\<rparr>,
      sv_tokens = Some (\<lambda>token. if token = ''t'' then Some (''s'', json_print False (JObj
        [(''provider_id'', JStr ''p''), (''realm_access'', JObj [(''roles'', JArr [JStr RoleProvider])])])) else None),
      sv_checks = []\<rparr>"

definition sample_request :: http_request where
  "sample_request =
     \<lparr>rq_header = \<lambda>name. if name = ''Authorization'' then ''Bearer t'' else if name = ''Idempotency-Key'' then ''k'' else [],
      rq_query = \<lambda>_. [], rq_param = \<lambda>_. [],
      rq_body = json_print False (JObj [(''providerId'', JStr ''p''), (''playerId'', JStr ''u''), (''walletId'', JStr ''u''),
        (''kind'', JStr ''WIN'')]),
      rq_broken = False, rq_limit = None, rq_correlation = [], rq_principal = None\<rparr>"


text \<open>Sending the same again, and what it finds.\<close>

lemma same_submission:
  assumes "submission c r p input" "submission c' r' p' input'" "same_libraries c c'" "rq_body r' = rq_body r"
    "rq_header r' ''Idempotency-Key'' = rq_header r ''Idempotency-Key''"
  obtains cid where "input' = input\<lparr>pi_correlationID := cid\<rparr>"
proof -
  have e: "e_uuid_parse c' = e_uuid_parse c" using assms(3) by (simp add: same_libraries_def)
  obtain request cid cid' where t: "wager_toInput c request (rq_header r ''Idempotency-Key'') cid = Inr input"
    "wager_toInput c' request (rq_header r ''Idempotency-Key'') cid' = Inr input'"
    using assms(1,2,4,5) unfolding submission_def by auto
  have "input' = input\<lparr>pi_correlationID := cid'\<rparr>"
    using t by (auto simp: wager_toInput_def e bindR_eq_Inr split: prod.splits)
  then show thesis by (rule that)
qed

lemma submitted_effect:
  assumes "submitted c sv r B s status answer s'" "st_db s' \<noteq> st_db s \<or> (\<exists>b. answer = ResultBody b)"
  obtains p input res where "submission c r p input" "process_outcome c input (payload_hash c input) B (st_db s) res (st_db s')"
    "\<forall>b. answer = ResultBody b \<longrightarrow> b = resultOf res"
  using assms by (cases answer) (auto simp: submitted_def)

text \<open>What a second submission of a known operation does.\<close>

lemma resubmitted:
  assumes c: "honest_commit c" and k: "known input (payload_hash c input) (st_db s) B t"
    and same: "\<forall>p i. submission c r p i \<longrightarrow> (\<exists>cid. i = input\<lparr>pi_correlationID := cid\<rparr>)"
    and x: "serve sv a Submit r c s = (x, s')"
  shows "represents (st_db s') B" "db_outbox (st_db s') = db_outbox (st_db s)"
    "result_of x = Some b \<Longrightarrow> b = resultOf (WagerResult t True)"
proof -
  have h: "holds (st_db s) B" using k by (simp add: known_def sound_book_def)
  have sub: "st_db s' = st_db s \<and> result_of x = None \<or> (\<exists>p i res. submission c r p i
      \<and> process_outcome c i (payload_hash c i) B (st_db s) res (st_db s') \<and> (\<forall>b. result_of x = Some b \<longrightarrow> b = resultOf res))"
    using wp_submit [OF c h, of sv a r] x
    by (auto simp: wpM_def submitted_def result_of_def split: sum.splits content.splits)
  have "represents d B \<and> db_outbox d = db_outbox (st_db s) \<and> res = WagerResult t True\<lparr>pr_inboxOutcome := pr_inboxOutcome res\<rparr>"
    if sub: "submission c r p i" and out: "process_outcome c i (payload_hash c i) B (st_db s) res d" for p i res d
  proof -
    obtain cid where i: "i = input\<lparr>pi_correlationID := cid\<rparr>" using same sub by blast
    have "known i (payload_hash c i) (st_db s) B t" using k unfolding i by (simp add: known_correlation)
    from known_answer [OF this out] show ?thesis by simp
  qed
  note known = this
  have "resultOf res = resultOf (WagerResult t True)"
    if "res = WagerResult t True\<lparr>pr_inboxOutcome := pr_inboxOutcome res\<rparr>" for res
    by (subst that) (simp add: resultOf_def)
  note same_result = this
  have "represents (st_db s') B \<and> db_outbox (st_db s') = db_outbox (st_db s)
      \<and> (\<forall>b. result_of x = Some b \<longrightarrow> b = resultOf (WagerResult t True))"
    using sub
  proof (elim disjE conjE exE)
    assume "st_db s' = st_db s" "result_of x = None"
    then show ?thesis using h by (simp add: holds_def)
  next
    fix p i res assume "submission c r p i" "process_outcome c i (payload_hash c i) B (st_db s) res (st_db s')"
      and b: "\<forall>b. result_of x = Some b \<longrightarrow> b = resultOf res"
    from known [OF this(1,2)] same_result b show ?thesis by metis
  qed
  then show "represents (st_db s') B" "db_outbox (st_db s') = db_outbox (st_db s)"
    "result_of x = Some b \<Longrightarrow> b = resultOf (WagerResult t True)" by simp_all
qed

lemma resultOf_replayed:
  assumes "kept_tx t t2" and "status_Valid (t_status t)"
  shows "rp_TransactionID (resultOf (WagerResult t2 True)) = rp_TransactionID (resultOf (WagerResult t r))
    \<and> rp_IdempotentReplay (resultOf (WagerResult t2 True))
    \<and> (rp_Status (resultOf (WagerResult t r)) \<in> {''PROCESSED'', ''REJECTED'', ''FAILED''}
         \<longrightarrow> resultOf (WagerResult t2 True) = resultOf (WagerResult t r)\<lparr>rp_IdempotentReplay := True\<rparr>)"
proof -
  have "t_id t2 = t_id t" "Terminal (t_status t) \<longrightarrow> t2 = t"
    using assms(1) by (simp_all add: kept_tx_def same_identity_def)
  then show ?thesis
    using assms(2) by (cases "t_status t") (simp_all add: resultOf_def WagerResult_def Terminal_def status_Valid_def)
qed

text \<open>
  C4. A client may send a submission again, as the API tells it to when the outcome is unknown.
  If the first one took effect - it was answered with a result, or changed the tables though it
  was not - then, whatever the service does in between, another one with the same body and key
  changes neither the book nor the outbox; and when both were answered with a result, it is about
  the same operation, marked as a replay, and the very same once the operation was concluded.
\<close>

theorem resubmitted_once:
  assumes "service_reachable (st_db s)" and "honest_commit c" and "serve sv a Submit r c s = (x, s1)"
    and "service_step\<^sup>*\<^sup>* (st_db s1) (st_db s2)"
    and "honest_commit c'" and "same_libraries c c'"
    and "rq_body r' = rq_body r" and "rq_header r' ''Idempotency-Key'' = rq_header r ''Idempotency-Key''"
    and "serve sv' a' Submit r' c' s2 = (x', s3)"
  shows "st_db s1 = st_db s \<and> result_of x = None
    \<or> (\<exists>B. represents (st_db s2) B \<and> represents (st_db s3) B) \<and> db_outbox (st_db s3) = db_outbox (st_db s2)
      \<and> (case (result_of x, result_of x') of
           (Some b, Some b') \<Rightarrow> rp_TransactionID b' = rp_TransactionID b \<and> rp_IdempotentReplay b'
             \<and> (rp_Status b \<in> {''PROCESSED'', ''REJECTED'', ''FAILED''} \<longrightarrow> b' = b\<lparr>rp_IdempotentReplay := True\<rparr>)
         | _ \<Rightarrow> True)"
proof (cases "st_db s1 = st_db s \<and> result_of x = None")
  case False
  obtain B where B: "sound_book (st_db s) B" using reachable_sound [OF assms(1)] by blast
  then have h: "holds (st_db s) B" by (simp add: sound_book_def)
  obtain p input res where i: "submission c r p input"
    and o: "process_outcome c input (payload_hash c input) B (st_db s) res (st_db s1)"
    and b: "\<And>b. result_of x = Some b \<Longrightarrow> b = resultOf res"
    using wp_submit [OF assms(2) h, of sv a r] assms(3) False
    by (auto simp: wpM_def submitted_def result_of_def split: sum.splits content.splits)
  from first_answer [OF o B] obtain B1 t where a: "answered input (payload_hash c input) res (st_db s1) B1 t" by blast
  then have "known input (payload_hash c input) (st_db s1) B1 t" by (simp add: answered_def)
  from known_onward [OF this assms(4)] obtain B2 t2 where k2: "known input (payload_hash c' input) (st_db s2) B2 t2"
    and t2: "kept_tx t t2" using same_libraries_input(1) [OF assms(6)] by auto
  have same: "\<forall>q i. submission c' r' q i \<longrightarrow> (\<exists>cid. i = input\<lparr>pi_correlationID := cid\<rparr>)"
    using same_submission [OF i _ assms(6-8)] by blast
  note again = resubmitted [OF assms(5) k2 same assms(9)]
  have r2: "represents (st_db s2) B2" using k2 by (simp add: known_def sound_book_def holds_def)
  have valid: "status_Valid (t_status t)" using a by (auto simp: answered_simps sound_book_def holds_def dest: book_tx_wf(3))
  have "b = resultOf (WagerResult t (pr_idempotentReplay res))" if "result_of x = Some b" for b
    using b [OF that] a by (cases res) (simp add: answered_def WagerResult_def resultOf_def)
  then have both: "rp_TransactionID b' = rp_TransactionID b \<and> rp_IdempotentReplay b'
      \<and> (rp_Status b \<in> {''PROCESSED'', ''REJECTED'', ''FAILED''} \<longrightarrow> b' = b\<lparr>rp_IdempotentReplay := True\<rparr>)"
    if "result_of x = Some b" "result_of x' = Some b'" for b b'
    using resultOf_replayed [OF t2 valid] again(3) [OF that(2)] that(1) by simp
  show ?thesis
    by (intro disjI2 conjI exI [of _ B2] r2 again(1,2), simp only: prod.case split: option.split) (blast dest: both)
qed simp

theorem resubmitted_once_witness:
  "\<exists>x s1 x' s3. serve sample_server SlotTaken Submit sample_request strict_env (started\<lparr>st_db := opened_db\<rparr>) = (x, s1)
    \<and> serve sample_server SlotTaken Submit sample_request strict_env s1 = (x', s3)
    \<and> (result_of x \<noteq> None \<longrightarrow> db_outbox (st_db s3) = db_outbox (st_db s1))"
proof -
  let ?s = "started\<lparr>st_db := opened_db\<rparr>"
  obtain x s1 where p: "serve sample_server SlotTaken Submit sample_request strict_env ?s = (x, s1)" by fastforce
  obtain x' s3 where q: "serve sample_server SlotTaken Submit sample_request strict_env s1 = (x', s3)" by fastforce
  have c: "honest_commit strict_env" by (simp add: strict_env_def honest_commit_def quiet_env_def)
  have "service_reachable (st_db ?s)" using opened_reachable(1) by simp
  from resubmitted_once [OF this c p rtranclp.rtrancl_refl c _ refl refl q] p q show ?thesis
    by (auto simp: same_libraries_def)
qed



text \<open>
  C7. A provider sees its own operations only: an operation in the answer to any request is one of
  the provider its credential names, or the credential is that of the internal service.
\<close>

theorem providers_see_their_own:
  assumes "serve sv a e r c s = (Inr response, s')" and "rs_content response = TransactionBody b"
  shows "\<exists>p. credential sv r = Inr p
    \<and> (principal_Internal p \<or> principal_Provider p \<and> tp_ProviderID b = Some (pl_providerID p))"
proof -
  let ?P = "\<lambda>(_ :: nat) answer (_ :: st). shown_to sv r answer"
  have n: "shown_to sv r NoContent" by (simp add: shown_to_def)
  have "wpM (serve sv a e r) c s (\<lambda>x s'. ?P (rs_status x) (rs_content x) s') (\<lambda>_ s'. st_db s' = st_db s)"
  proof (rule wp_serve)
    fix cid t
    let ?r = "r\<lparr>rq_correlation := cid\<rparr>" and ?s = "s\<lparr>st_tick := t\<rparr>"
    have cred: "credential sv ?r = credential sv r" by (simp add: credential_def)
    have "wpM (endpoint sv a e ?r) c ?s (\<lambda>x _. shown_to sv r (rs_content x)) (\<lambda>e _. e = EPanic)"
    proof (cases "e = GetTransaction \<or> e = GetProviderTransaction")
      case True
      then show ?thesis
        by (auto simp: providerOrInternal_def cred shown_problem problem_contents
            intro!: wp_secured wp_principal_only wp_lookups_shown)
    qed (simp add: wp_others_shown)
    then show "wpM (endpoint sv a e ?r) c ?s (\<lambda>x s'. ?P (rs_status x) (rs_content x) s') (\<lambda>e s'. e = EPanic \<and> ?P 500 NoContent s')"
      using n by simp
  qed
  with assms show ?thesis by (auto simp: wpM_def shown_to_def)
qed

text \<open>The provider looks its operation up.\<close>

definition lookup_request :: http_request where
  "lookup_request = sample_request\<lparr>rq_param := \<lambda>_. ''i''\<rparr>"

definition lookup_st :: st where
  "lookup_st = sample_st\<lparr>st_db := sample_db\<lparr>db_transactions := [tx_row_of (keyed_tx CHR ''a'')]\<rparr>\<rparr>"

lemma sample_credential:
  "credential sample_server lookup_request = Inr \<lparr>pl_subject = ''s'', pl_providerID = ''p'', pl_roles = [RoleProvider]\<rparr>"
proof -
  let ?claims = "JObj [(''provider_id'', JStr ''p''), (''realm_access'', JObj [(''roles'', JArr [JStr RoleProvider])])]"
  have "TrimSpace ''t'' = ''t''" by (simp add: TrimSpace_def is_space_def blank_end_def)
  moreover have "lower_char CHR ''B'' = CHR ''b''" by code_simp
  ultimately have token: "BearerToken ''Bearer t'' = Some ''t''" by (simp add: BearerToken_def Let_def) (simp add: lower_char_def)
  have "writable ?claims" by (simp add: valid_utf8_ascii RoleProvider_def)
  then have "json_first (json_print False ?claims) = Some (?claims, [])"
    using json_first_printed [of ?claims "[]" False] by simp
  moreover have "skip_space [] = []" by simp
  moreover have "decode_struct set_claims ?claims \<lparr>cl_providerID = [], cl_roles = []\<rparr>
      = Inr \<lparr>cl_providerID = ''p'', cl_roles = [RoleProvider]\<rparr>"
    by (simp add: decode_struct_def set_claims_def set_realm_access_def decode_string_def decode_string_list_def named_def lower_char_def)
  ultimately have "json_Unmarshal set_claims (json_print False ?claims) \<lparr>cl_providerID = [], cl_roles = []\<rparr>
      = Inr \<lparr>cl_providerID = ''p'', cl_roles = [RoleProvider]\<rparr>"
    unfolding json_Unmarshal_def by (simp only: option.case prod.case simp_thms if_False)
  then have "Verify (sv_tokens sample_server) ''t'' = Inr \<lparr>pl_subject = ''s'', pl_providerID = ''p'', pl_roles = [RoleProvider]\<rparr>"
    by (simp add: Verify_def sample_server_def del: json_print.simps)
  moreover have "rq_header lookup_request ''Authorization'' = ''Bearer t''"
    by (simp add: lookup_request_def sample_request_def del: json_print.simps)
  ultimately show ?thesis by (simp add: credential_def token)
qed

lemma lookup_shown:
  "\<exists>response s'. serve sample_server SlotTaken GetTransaction lookup_request strict_env lookup_st = (Inr response, s')
    \<and> rs_content response = TransactionBody (transactionOf (keyed_tx CHR ''a''))"
proof -
  have "is_lower_hex CHR ''a''" by (simp add: is_lower_hex_def is_digit_def)
  note h = keyed_holds [OF this]
  have c: "calm strict_env" by (simp add: calm_def strict_env_def quiet_env_def)
  let ?t = "keyed_tx CHR ''a''"
  have found: "wpM (findTransaction_ByID u 7) strict_env s (\<lambda>t _. t = ?t) (\<lambda>_ _. False)" if "st_db s = st_db lookup_st" for u s
  proof -
    have hs: "holds (st_db s) (with_tx ?t sample_book)" using h that by (simp add: lookup_st_def)
    have "fst (findTransaction_ByID u 7 strict_env s) = Inr ?t"
      using calm_ByID [OF c hs, of u 7] by (simp add: with_tx_def sample_book_def empty_book_def keyed_tx_def new_tx_def)
    then show ?thesis by (cases "findTransaction_ByID u 7 strict_env s") (simp add: wpM_def)
  qed
  have own: "\<not> not_own \<lparr>pl_subject = ''s'', pl_providerID = ''p'', pl_roles = [RoleProvider]\<rparr> (t_providerID ?t)"
    by (simp add: not_own_def keyed_tx_def new_tx_def sample_command_def)
  let ?Q = "\<lambda>status answer (s' :: st). answer = TransactionBody (transactionOf ?t)"
  have "wpM (endpoint sample_server SlotTaken GetTransaction (lookup_request\<lparr>rq_correlation := cid\<rparr>)) strict_env (lookup_st\<lparr>st_tick := n\<rparr>)
      (\<lambda>x _. rs_content x = TransactionBody (transactionOf ?t)) (\<lambda>e s'. False)" for cid n
  proof (simp add: providerOrInternal_def, rule wp_secured)
    show "wpM (principal_only (\<lambda>p. principal_Provider p \<or> principal_Internal p) ''this operation requires a wagering role''
        (getTransaction (sv_handlers sample_server))
        (lookup_request\<lparr>rq_correlation := cid, rq_principal := Some p, rq_limit := Some (hs_maxBodyBytes (sv_handlers sample_server))\<rparr>))
        strict_env (lookup_st\<lparr>st_tick := n\<rparr>) (\<lambda>x _. rs_content x = TransactionBody (transactionOf ?t)) (\<lambda>e s'. False)"
      if "credential sample_server (lookup_request\<lparr>rq_correlation := cid\<rparr>) = Inr p" for p
    proof -
      have p: "p = \<lparr>pl_subject = ''s'', pl_providerID = ''p'', pl_roles = [RoleProvider]\<rparr>"
        using that sample_credential by (simp add: credential_def)
      have "e_uuid_parse strict_env = (\<lambda>_. Some 7)" by (simp add: strict_env_def)
      then show ?thesis
        by (intro wp_principal_only)
          (auto simp: p principal_Provider_def HasRole_def getTransaction_def wp pathUUID_def wp_callM principalFrom_def own writeJSON_def
            intro!: wpM_mono [OF found])
    qed
  qed (use sample_credential in \<open>simp add: credential_def\<close>)
  note handled = this
  have "wpM (observed (endpoint sample_server SlotTaken GetTransaction) (lookup_request\<lparr>rq_correlation := cid\<rparr>)) strict_env
      (lookup_st\<lparr>st_tick := n\<rparr>) (\<lambda>x s'. ?Q (rs_status x) (rs_content x) s') (\<lambda>e s'. False)" for cid n
    unfolding wp_observed by (rule wpM_mono [OF handled]) auto
  moreover have "CorrelationID (rq_header lookup_request correlationHeader) = None"
    by (simp add: lookup_request_def sample_request_def correlationHeader_def CorrelationID_def)
  moreover have "e_new_id strict_env n = Some (of_nat (n + 100))" for n by (simp add: strict_env_def quiet_env_def)
  ultimately have "wpM (serve sample_server SlotTaken GetTransaction lookup_request) strict_env lookup_st
      (\<lambda>x s'. ?Q (rs_status x) (rs_content x) s') (\<lambda>e s'. False)"
    by (simp add: serve_def correlation_def wp del: endpoint.simps)
  then show ?thesis by (auto simp: wpM_def split: prod.splits sum.splits)
qed

theorem providers_see_their_own_witness:
  "\<exists>response s' b. serve sample_server SlotTaken GetTransaction lookup_request strict_env lookup_st = (Inr response, s')
    \<and> rs_content response = TransactionBody b \<and> tp_ProviderID b = Some ''p''"
proof -
  obtain response s' where r: "serve sample_server SlotTaken GetTransaction lookup_request strict_env lookup_st = (Inr response, s')"
    "rs_content response = TransactionBody (transactionOf (keyed_tx CHR ''a''))" using lookup_shown by blast
  from providers_see_their_own [OF r] have "tp_ProviderID (transactionOf (keyed_tx CHR ''a'')) = Some ''p''"
    by (simp add: sample_credential principal_Internal_def HasRole_def RoleProvider_def RoleInternal_def)
  with r show ?thesis by blast
qed

end
