(* ===== verification/Slots.thy ===== *)
theory Slots
  imports Server
begin

text \<open>
  Bounded concurrency: a buffered channel of empty structs, into which a send takes a slot and
  from which a receive gives one back, as the limiter of \<open>http/middleware.go\<close> and the loop of
  \<open>sqs/consumer.go\<close> use it. The locale holds what such a use guarantees; the machine of the
  limiter is an instance here, that of the consumer's loop in \<open>Watch\<close>.
\<close>

section \<open>The channel\<close>

record slots =
  sl_capacity :: nat
  sl_taken :: nat

text \<open>\<open>make(chan struct{}, n)\<close> panics for a negative size.\<close>

definition make_slots :: "i64 \<Rightarrow> slots option" where
  "make_slots n = (if n <s 0 then None else Some \<lparr>sl_capacity = nat (sint n), sl_taken = 0\<rparr>)"

text \<open>A send and a receive; \<open>None\<close> where it blocks.\<close>

definition take_slot :: "slots \<Rightarrow> slots option" where
  "take_slot s = (if sl_taken s < sl_capacity s then Some (s\<lparr>sl_taken := sl_taken s + 1\<rparr>) else None)"

definition free_slot :: "slots \<Rightarrow> slots option" where
  "free_slot s = (if 0 < sl_taken s then Some (s\<lparr>sl_taken := sl_taken s - 1\<rparr>) else None)"

lemma take_slot_eq: "take_slot s = Some t \<longleftrightarrow> sl_taken s < sl_capacity s \<and> t = s\<lparr>sl_taken := sl_taken s + 1\<rparr>"
  by (auto simp: take_slot_def)

lemma free_slot_eq: "free_slot s = Some t \<longleftrightarrow> 0 < sl_taken s \<and> t = s\<lparr>sl_taken := sl_taken s - 1\<rparr>"
  by (auto simp: free_slot_def)

lemma one_less: "x \<in> set xs \<Longrightarrow> length (remove1 x xs) + 1 = length xs"
  by (induction xs) auto

text \<open>A machine that can always take a step that comes closer to a goal can reach it.\<close>

lemma reach_by_measure:
  fixes m :: "'s \<Rightarrow> nat"
  assumes step: "\<And>s. P s \<Longrightarrow> \<not> Q s \<Longrightarrow> \<exists>s'. step s s' \<and> P s' \<and> m s' < m s" and "P s"
  shows "\<exists>s'. step\<^sup>*\<^sup>* s s' \<and> P s' \<and> Q s'"
  using assms(2)
proof (induction "m s" arbitrary: s rule: less_induct)
  case less
  show ?case
  proof (cases "Q s")
    case True
    with less.prems show ?thesis by blast
  next
    case False
    then obtain t where t: "step s t" "P t" "m t < m s" using step [OF less.prems] by blast
    from less.hyps [OF t(3,2)] t(1) show ?thesis by (meson converse_rtranclp_into_rtranclp)
  qed
qed

text \<open>
  A machine whose users hold one slot each: a user comes by taking a slot and goes by giving it
  back. Then the slots taken are the users, no more of them than the channel has room for, and
  giving back never blocks.
\<close>

locale slot_users =
  fixes step :: "'s \<Rightarrow> 's \<Rightarrow> bool" and slots_of :: "'s \<Rightarrow> slots" and users :: "'s \<Rightarrow> nat"
  assumes one_each: "step s s' \<Longrightarrow> slots_of s' = slots_of s \<and> users s' = users s
    \<or> take_slot (slots_of s) = Some (slots_of s') \<and> users s' = users s + 1
    \<or> free_slot (slots_of s) = Some (slots_of s') \<and> users s' + 1 = users s"
begin

lemma step_keeps:
  assumes "step s s'" and "users s = sl_taken (slots_of s) \<and> sl_taken (slots_of s) \<le> sl_capacity (slots_of s)"
  shows "users s' = sl_taken (slots_of s') \<and> sl_taken (slots_of s') \<le> sl_capacity (slots_of s')
    \<and> sl_capacity (slots_of s') = sl_capacity (slots_of s)"
  using one_each [OF assms(1)] assms(2) by (auto simp: take_slot_eq free_slot_eq)

lemma users_are_slots:
  assumes "step\<^sup>*\<^sup>* s0 s" and "users s0 = 0" and "sl_taken (slots_of s0) = 0"
  shows "users s = sl_taken (slots_of s) \<and> sl_taken (slots_of s) \<le> sl_capacity (slots_of s)
    \<and> sl_capacity (slots_of s) = sl_capacity (slots_of s0)"
  using assms
proof (induction rule: rtranclp_induct)
  case (step s s')
  with step_keeps [OF step.hyps(2)] show ?case by simp
qed simp

lemma never_more_users:
  "step\<^sup>*\<^sup>* s0 s \<Longrightarrow> users s0 = 0 \<Longrightarrow> sl_taken (slots_of s0) = 0 \<Longrightarrow> users s \<le> sl_capacity (slots_of s0)"
  using users_are_slots [of s0 s] by simp

lemma freeing_never_blocks:
  "step\<^sup>*\<^sup>* s0 s \<Longrightarrow> users s0 = 0 \<Longrightarrow> sl_taken (slots_of s0) = 0 \<Longrightarrow> 0 < users s \<Longrightarrow> free_slot (slots_of s) \<noteq> None"
  using users_are_slots [of s0 s] by (simp add: free_slot_def)

lemma taking_blocks_iff:
  "step\<^sup>*\<^sup>* s0 s \<Longrightarrow> users s0 = 0 \<Longrightarrow> sl_taken (slots_of s0) = 0
    \<Longrightarrow> take_slot (slots_of s) = None \<longleftrightarrow> users s = sl_capacity (slots_of s0)"
  using users_are_slots [of s0 s] by (auto simp: take_slot_def split: if_splits)

end

section \<open>The limiter of the API\<close>

record limiter =
  lm_slots :: slots
  lm_wait :: duration

definition newLimiter :: "i64 \<Rightarrow> duration \<Rightarrow> limiter option" where
  "newLimiter concurrency wait = map_option (\<lambda>s. \<lparr>lm_slots = s, lm_wait = wait\<rparr>) (make_slots concurrency)"

text \<open>
  Requests to limited routes, each with a number of its own: those in the \<open>select\<close> of \<open>limited\<close>,
  those inside the handler, and those that left it or were turned away, with what the \<open>select\<close>
  chose for them. The timer and the end of the request's context are events from outside. The
  deferred receive runs when the handler returns and when it panics.
\<close>

record writes =
  wr_limiter :: limiter
  wr_waiting :: "nat list"
  wr_inside :: "nat list"
  wr_over :: "(nat \<times> admission) list"

definition newcomer :: "nat \<Rightarrow> writes \<Rightarrow> bool" where
  "newcomer r w \<longleftrightarrow> r \<notin> set (wr_waiting w) \<union> set (wr_inside w) \<union> fst ` set (wr_over w)"

abbreviation set_slots :: "slots \<Rightarrow> writes \<Rightarrow> writes" where
  "set_slots sl w \<equiv> w\<lparr>wr_limiter := (wr_limiter w)\<lparr>lm_slots := sl\<rparr>\<rparr>"

inductive write_step :: "writes \<Rightarrow> writes \<Rightarrow> bool" where
  arrives: "newcomer r w \<Longrightarrow> write_step w (w\<lparr>wr_waiting := r # wr_waiting w\<rparr>)"
| enters: "\<lbrakk>r \<in> set (wr_waiting w); take_slot (lm_slots (wr_limiter w)) = Some sl\<rbrakk>
    \<Longrightarrow> write_step w (set_slots sl w\<lparr>wr_waiting := remove1 r (wr_waiting w), wr_inside := r # wr_inside w\<rparr>)"
| shed: "r \<in> set (wr_waiting w)
    \<Longrightarrow> write_step w (w\<lparr>wr_waiting := remove1 r (wr_waiting w), wr_over := (r, WaitOver) # wr_over w\<rparr>)"
| gone: "r \<in> set (wr_waiting w)
    \<Longrightarrow> write_step w (w\<lparr>wr_waiting := remove1 r (wr_waiting w), wr_over := (r, RequestGone) # wr_over w\<rparr>)"
| leaves: "\<lbrakk>r \<in> set (wr_inside w); free_slot (lm_slots (wr_limiter w)) = Some sl\<rbrakk>
    \<Longrightarrow> write_step w (set_slots sl w\<lparr>wr_inside := remove1 r (wr_inside w), wr_over := (r, SlotTaken) # wr_over w\<rparr>)"

inductive_cases write_step_cases: "write_step w w'"

definition no_writes :: "limiter \<Rightarrow> writes" where
  "no_writes l = \<lparr>wr_limiter = l, wr_waiting = [], wr_inside = [], wr_over = []\<rparr>"

definition writes_reachable :: "limiter \<Rightarrow> writes \<Rightarrow> bool" where
  "writes_reachable l w \<longleftrightarrow> write_step\<^sup>*\<^sup>* (no_writes l) w"

interpretation writers: slot_users write_step "\<lambda>w. lm_slots (wr_limiter w)" "\<lambda>w. length (wr_inside w)"
proof unfold_locales
  fix w w' assume "write_step w w'"
  then show "lm_slots (wr_limiter w') = lm_slots (wr_limiter w) \<and> length (wr_inside w') = length (wr_inside w)
    \<or> take_slot (lm_slots (wr_limiter w)) = Some (lm_slots (wr_limiter w')) \<and> length (wr_inside w') = length (wr_inside w) + 1
    \<or> free_slot (lm_slots (wr_limiter w)) = Some (lm_slots (wr_limiter w')) \<and> length (wr_inside w') + 1 = length (wr_inside w)"
    by (cases rule: write_step_cases) (auto simp: one_less simp flip: Suc_eq_plus1 dest!: one_less)
qed

lemma new_limiter:
  "newLimiter n wait = Some l \<Longrightarrow> sl_taken (lm_slots l) = 0 \<and> int (sl_capacity (lm_slots l)) = sint n"
  by (auto simp: newLimiter_def make_slots_def i64_less split: if_splits)

text \<open>A request is in one place at a time.\<close>

definition placed_once :: "writes \<Rightarrow> bool" where
  "placed_once w \<longleftrightarrow> distinct (wr_waiting w @ wr_inside w @ map fst (wr_over w))"

lemma write_step_placed: "write_step w w' \<Longrightarrow> placed_once w \<Longrightarrow> placed_once w'"
  by (induction rule: write_step.induct)
    (auto simp: placed_once_def newcomer_def distinct_remove1 dest: notin_set_remove1)

lemma writes_placed: "writes_reachable l w \<Longrightarrow> placed_once w"
  unfolding writes_reachable_def
proof (induction rule: rtranclp_induct)
  case base
  show ?case by (simp add: placed_once_def no_writes_def)
next
  case (step w w')
  from step.hyps(2) step.IH show ?case by (rule write_step_placed)
qed

text \<open>
  C38. The limiter keeps its promise in every interleaving of requests: never more of them are
  inside a limited handler than \<open>HTTP_WRITE_CONCURRENCY\<close>; a request that waits is let in or stays
  waiting exactly as there is a free slot or none, and one that leaves never waits for it; when
  the last has left all slots are free again, so no slot is ever lost, whichever way a request ended.
\<close>

theorem writes_limited:
  assumes "newLimiter n wait = Some l" and "writes_reachable l w"
  shows "int (length (wr_inside w)) \<le> sint n
    \<and> (\<forall>r \<in> set (wr_waiting w). (\<exists>w'. write_step w w' \<and> r \<in> set (wr_inside w')) \<longleftrightarrow> int (length (wr_inside w)) < sint n)
    \<and> (\<forall>r \<in> set (wr_inside w). \<exists>w'. write_step w w' \<and> (r, SlotTaken) \<in> set (wr_over w'))
    \<and> (wr_inside w = [] \<longrightarrow> lm_slots (wr_limiter w) = lm_slots l)"
proof -
  note l = new_limiter [OF assms(1)]
  have w: "write_step\<^sup>*\<^sup>* (no_writes l) w" using assms(2) by (simp add: writes_reachable_def)
  have z: "length (wr_inside (no_writes l)) = 0" "sl_taken (lm_slots (wr_limiter (no_writes l))) = 0"
    "lm_slots (wr_limiter (no_writes l)) = lm_slots l"
    using l by (simp_all add: no_writes_def)
  note facts = writers.users_are_slots [OF w z(1,2)] writers.taking_blocks_iff [OF w z(1,2)] writers.freeing_never_blocks [OF w z(1,2)]
  have once: "placed_once w" by (rule writes_placed [OF assms(2)])
  have "(\<exists>w'. write_step w w' \<and> r \<in> set (wr_inside w')) \<longleftrightarrow> int (length (wr_inside w)) < sint n" if r: "r \<in> set (wr_waiting w)" for r
  proof
    have out: "r \<notin> set (wr_inside w)" using once r by (auto simp: placed_once_def)
    assume "\<exists>w'. write_step w w' \<and> r \<in> set (wr_inside w')"
    then have "take_slot (lm_slots (wr_limiter w)) \<noteq> None"
      using out by (auto elim!: write_step_cases dest: notin_set_remove1)
    then show "int (length (wr_inside w)) < sint n" using facts l z(3) by (auto simp: take_slot_def split: if_splits)
  next
    assume "int (length (wr_inside w)) < sint n"
    then obtain sl where "take_slot (lm_slots (wr_limiter w)) = Some sl" using facts(2) l z(3) by auto
    from write_step.enters [OF r this] show "\<exists>w'. write_step w w' \<and> r \<in> set (wr_inside w')" by force
  qed
  moreover have "\<exists>w'. write_step w w' \<and> (r, SlotTaken) \<in> set (wr_over w')" if r: "r \<in> set (wr_inside w)" for r
  proof -
    obtain sl where "free_slot (lm_slots (wr_limiter w)) = Some sl" using facts(3) length_pos_if_in_set [OF r] by auto
    from write_step.leaves [OF r this] show ?thesis by force
  qed
  moreover have "lm_slots (wr_limiter w) = lm_slots l" if "wr_inside w = []"
    using facts(1) l z(3) that by simp
  ultimately show ?thesis using facts(1) l z(3) by simp
qed

theorem writes_limited_witness:
  "\<exists>l w. newLimiter 1 0 = Some l \<and> writes_reachable l w \<and> wr_inside w = [0] \<and> wr_waiting w = [1]
    \<and> \<not> (\<exists>w'. write_step w w' \<and> 1 \<in> set (wr_inside w'))"
proof -
  let ?l = "\<lparr>lm_slots = \<lparr>sl_capacity = 1, sl_taken = 0\<rparr>, lm_wait = 0\<rparr>"
  let ?w = "\<lparr>wr_limiter = \<lparr>lm_slots = \<lparr>sl_capacity = 1, sl_taken = 1\<rparr>, lm_wait = 0\<rparr>, wr_waiting = [1], wr_inside = [0], wr_over = []\<rparr>"
  have n: "newLimiter 1 0 = Some ?l" by (simp add: newLimiter_def make_slots_def i64_less)
  have "write_step (no_writes ?l) ((no_writes ?l)\<lparr>wr_waiting := [0]\<rparr>)"
    using write_step.arrives [of 0 "no_writes ?l"] by (simp add: newcomer_def no_writes_def)
  moreover have "write_step ((no_writes ?l)\<lparr>wr_waiting := [0]\<rparr>) ((no_writes ?l)\<lparr>wr_waiting := [1, 0]\<rparr>)"
    using write_step.arrives [of 1 "(no_writes ?l)\<lparr>wr_waiting := [0]\<rparr>"] by (simp add: newcomer_def no_writes_def)
  moreover have "write_step ((no_writes ?l)\<lparr>wr_waiting := [1, 0]\<rparr>) ?w"
    using write_step.enters [of 0 "(no_writes ?l)\<lparr>wr_waiting := [1, 0]\<rparr>" "\<lparr>sl_capacity = 1, sl_taken = 1\<rparr>"]
    by (simp add: no_writes_def take_slot_def)
  ultimately have r: "writes_reachable ?l ?w"
    unfolding writes_reachable_def by (meson converse_rtranclp_into_rtranclp rtranclp.rtrancl_refl)
  from writes_limited [OF n r] n r show ?thesis by (intro exI [of _ ?l] exI [of _ ?w]) simp
qed

end
