(* ===== verification/Watch.thy ===== *)
theory Watch
  imports Slots Consumer
begin

text \<open>
  The loop that polls a queue: \<open>watch\<close>, \<open>receive\<close> and \<open>wait\<close> of \<open>sqs/consumer.go\<close>, with the goroutines
  it starts, as a machine. Its state says where the loop is; a step goes from one channel
  operation to the next. What the broker answers, when a handler ends and when the context is
  cancelled are events from outside.
\<close>

text \<open>The request of \<open>receive\<close>, which asks for one message, and the durations it converts.\<close>

record receive_request =
  rr_QueueUrl :: string
  rr_MaxNumberOfMessages :: nat
  rr_WaitTimeSeconds :: int
  rr_VisibilityTimeout :: int

definition receive :: "consumer_settings \<Rightarrow> string \<Rightarrow> receive_request" where
  "receive settings queueURL =
     \<lparr>rr_QueueUrl = queueURL, rr_MaxNumberOfMessages = 1,
      rr_WaitTimeSeconds = cs_waitTime settings div 1000000000,
      rr_VisibilityTimeout = cs_visibility settings div 1000000000\<rparr>"

datatype watch_at = AtLoop | AtSlot | AtReceive receive_request | AtFailure | AtPause | AtWait | AtEnd

record watch =
  wt_queue :: string
  wt_settings :: consumer_settings
  wt_slots :: slots
  wt_at :: watch_at
  wt_cancelled :: bool
  wt_handlers :: "sqs_message list"
  wt_handled :: "sqs_message list"

text \<open>
  The broker answers with at most as many messages as it was asked for, as SQS documents. The
  deferred \<open>handlers.Wait()\<close> is \<open>AtWait\<close>, the end of \<open>watch\<close> is \<open>AtEnd\<close>.
\<close>

inductive watch_step :: "watch \<Rightarrow> watch \<Rightarrow> bool" where
  cancel: "watch_step v (v\<lparr>wt_cancelled := True\<rparr>)"
| goes_on: "\<lbrakk>wt_at v = AtLoop; \<not> wt_cancelled v\<rbrakk> \<Longrightarrow> watch_step v (v\<lparr>wt_at := AtSlot\<rparr>)"
| loop_over: "\<lbrakk>wt_at v = AtLoop; wt_cancelled v\<rbrakk> \<Longrightarrow> watch_step v (v\<lparr>wt_at := AtWait\<rparr>)"
| slot: "\<lbrakk>wt_at v = AtSlot; take_slot (wt_slots v) = Some sl\<rbrakk>
    \<Longrightarrow> watch_step v (v\<lparr>wt_slots := sl, wt_at := AtReceive (receive (wt_settings v) (wt_queue v))\<rparr>)"
| slot_over: "\<lbrakk>wt_at v = AtSlot; wt_cancelled v\<rbrakk> \<Longrightarrow> watch_step v (v\<lparr>wt_at := AtWait\<rparr>)"
| fails: "\<lbrakk>wt_at v = AtReceive q; free_slot (wt_slots v) = Some sl\<rbrakk>
    \<Longrightarrow> watch_step v (v\<lparr>wt_slots := sl, wt_at := AtFailure\<rparr>)"
| failure_over: "\<lbrakk>wt_at v = AtFailure; wt_cancelled v\<rbrakk> \<Longrightarrow> watch_step v (v\<lparr>wt_at := AtWait\<rparr>)"
| pauses: "\<lbrakk>wt_at v = AtFailure; \<not> wt_cancelled v\<rbrakk> \<Longrightarrow> watch_step v (v\<lparr>wt_at := AtPause\<rparr>)"
| pause_over: "\<lbrakk>wt_at v = AtPause; wt_cancelled v\<rbrakk> \<Longrightarrow> watch_step v (v\<lparr>wt_at := AtWait\<rparr>)"
| paused: "wt_at v = AtPause \<Longrightarrow> watch_step v (v\<lparr>wt_at := AtLoop\<rparr>)"
| nothing: "\<lbrakk>wt_at v = AtReceive q; free_slot (wt_slots v) = Some sl\<rbrakk>
    \<Longrightarrow> watch_step v (v\<lparr>wt_slots := sl, wt_at := AtLoop\<rparr>)"
| messages: "\<lbrakk>wt_at v = AtReceive q; ms \<noteq> []; length ms \<le> rr_MaxNumberOfMessages q\<rbrakk>
    \<Longrightarrow> watch_step v (v\<lparr>wt_at := AtLoop, wt_handlers := ms @ wt_handlers v\<rparr>)"
| handled: "\<lbrakk>m \<in> set (wt_handlers v); free_slot (wt_slots v) = Some sl\<rbrakk>
    \<Longrightarrow> watch_step v (v\<lparr>wt_slots := sl, wt_handlers := remove1 m (wt_handlers v), wt_handled := m # wt_handled v\<rparr>)"
| ends: "\<lbrakk>wt_at v = AtWait; wt_handlers v = []\<rbrakk> \<Longrightarrow> watch_step v (v\<lparr>wt_at := AtEnd\<rparr>)"

inductive_cases watch_step_cases: "watch_step v v'"

definition watch :: "consumer_settings \<Rightarrow> string \<Rightarrow> slots \<Rightarrow> watch" where
  "watch settings queueURL sl = \<lparr>wt_queue = queueURL, wt_settings = settings, wt_slots = sl, wt_at = AtLoop,
     wt_cancelled = False, wt_handlers = [], wt_handled = []\<rparr>"

definition watch_reachable :: "consumer_settings \<Rightarrow> string \<Rightarrow> watch \<Rightarrow> bool" where
  "watch_reachable settings queueURL v \<longleftrightarrow>
     (\<exists>sl. make_slots (of_int (cs_workers settings)) = Some sl \<and> watch_step\<^sup>*\<^sup>* (watch settings queueURL sl) v)"

text \<open>Who holds a slot: every handler, and the loop while it waits for the broker.\<close>

definition receiving :: "watch \<Rightarrow> bool" where
  "receiving v \<longleftrightarrow> (case wt_at v of AtReceive q \<Rightarrow> True | _ \<Rightarrow> False)"

definition slot_holders :: "watch \<Rightarrow> nat" where
  "slot_holders v = length (wt_handlers v) + (if receiving v then 1 else 0)"

definition asks_for_one :: "watch \<Rightarrow> bool" where
  "asks_for_one v \<longleftrightarrow> (\<forall>q. wt_at v = AtReceive q \<longrightarrow> rr_MaxNumberOfMessages q = 1)"

lemma watch_asks: "watch_step v v' \<Longrightarrow> asks_for_one v \<Longrightarrow> asks_for_one v'"
  by (induction rule: watch_step.induct) (auto simp: asks_for_one_def receive_def)

text \<open>One message takes over the slot of the request that received it.\<close>

definition steady_step :: "watch \<Rightarrow> watch \<Rightarrow> bool" where
  "steady_step v v' \<longleftrightarrow> asks_for_one v \<and> watch_step v v'"

interpretation watchers: slot_users steady_step wt_slots slot_holders
proof unfold_locales
  fix v v' assume "steady_step v v'"
  then have a: "asks_for_one v" and s: "watch_step v v'" by (auto simp: steady_step_def)
  from s show "wt_slots v' = wt_slots v \<and> slot_holders v' = slot_holders v
    \<or> take_slot (wt_slots v) = Some (wt_slots v') \<and> slot_holders v' = slot_holders v + 1
    \<or> free_slot (wt_slots v) = Some (wt_slots v') \<and> slot_holders v' + 1 = slot_holders v"
  proof (cases rule: watch_step.cases)
    case (messages q ms)
    with a have "length ms = 1" by (cases ms) (auto simp: asks_for_one_def)
    with messages show ?thesis by (simp add: slot_holders_def receiving_def)
  next
    case (handled m sl)
    with one_less [OF handled(2)] handled show ?thesis by (simp add: slot_holders_def receiving_def)
  qed (auto simp: slot_holders_def receiving_def)
qed

lemma watch_steady: "watch_step\<^sup>*\<^sup>* v v' \<Longrightarrow> asks_for_one v \<Longrightarrow> steady_step\<^sup>*\<^sup>* v v' \<and> asks_for_one v'"
proof (induction rule: rtranclp_induct)
  case (step v1 v2)
  then have "steady_step v1 v2" by (simp add: steady_step_def)
  with step watch_asks [OF step.hyps(2)] show ?case by (auto intro: rtranclp.rtrancl_into_rtrancl)
qed simp

lemma watch_counts:
  assumes "watch_reachable settings queueURL v" and "0 \<le> cs_workers settings" "cs_workers settings < 2 ^ 63"
  shows "slot_holders v = sl_taken (wt_slots v) \<and> int (slot_holders v) \<le> cs_workers settings"
proof -
  obtain sl where sl: "make_slots (of_int (cs_workers settings)) = Some sl" "watch_step\<^sup>*\<^sup>* (watch settings queueURL sl) v"
    using assms(1) by (auto simp: watch_reachable_def)
  have n: "sint (of_int (cs_workers settings) :: i64) = cs_workers settings"
    using assms(2,3) by (simp add: sint_of_int_i64 wrap64_id)
  have z: "slot_holders (watch settings queueURL sl) = 0" "sl_taken (wt_slots (watch settings queueURL sl)) = 0"
    "asks_for_one (watch settings queueURL sl)" "int (sl_capacity (wt_slots (watch settings queueURL sl))) = cs_workers settings"
    using sl(1) n assms(2)
    by (auto simp: watch_def slot_holders_def receiving_def asks_for_one_def make_slots_def split: if_splits)
  have "steady_step\<^sup>*\<^sup>* (watch settings queueURL sl) v" using watch_steady [OF sl(2) z(3)] by blast
  from watchers.users_are_slots [OF this z(1,2)] z(4) show ?thesis by simp
qed

text \<open>A loop that has ended started nothing it did not wait for, and starts nothing more.\<close>

lemma watch_settled: "watch_step v v' \<Longrightarrow> wt_at v = AtEnd \<longrightarrow> wt_handlers v = [] \<Longrightarrow> wt_at v' = AtEnd \<longrightarrow> wt_handlers v' = []"
  by (induction rule: watch_step.induct) auto

lemma watch_end_settled: "watch_reachable settings queueURL v \<Longrightarrow> wt_at v = AtEnd \<Longrightarrow> wt_handlers v = []"
proof -
  have "watch_step\<^sup>*\<^sup>* v0 v \<Longrightarrow> wt_at v0 = AtEnd \<longrightarrow> wt_handlers v0 = [] \<Longrightarrow> wt_at v = AtEnd \<longrightarrow> wt_handlers v = []" for v0
    by (induction rule: rtranclp_induct) (auto dest: watch_settled)
  then show "watch_reachable settings queueURL v \<Longrightarrow> wt_at v = AtEnd \<Longrightarrow> wt_handlers v = []"
    by (auto simp: watch_reachable_def watch_def)
qed

text \<open>
  The consumer handles at most as many messages at a time as it has workers, counting the one
  it is asking the broker for, whatever the broker answers and whenever handlers end; a handler
  that ends never waits to give its slot back; and when the loop has ended - which is what
  \<open>Stop\<close> waits for - no handler runs, and none is started.
\<close>

theorem workers_bounded:
  assumes "watch_reachable settings queueURL v" and "0 < cs_workers settings" "cs_workers settings < 2 ^ 63"
  shows "int (length (wt_handlers v)) + (if receiving v then 1 else 0) \<le> cs_workers settings
    \<and> (\<forall>m \<in> set (wt_handlers v). \<exists>v'. watch_step v v' \<and> m \<in> set (wt_handled v'))
    \<and> (wt_at v = AtEnd \<longrightarrow> wt_handlers v = [] \<and> (\<forall>v'. watch_step v v' \<longrightarrow> wt_at v' = AtEnd \<and> wt_handlers v' = []))"
proof -
  note n = watch_counts [OF assms(1) less_imp_le [OF assms(2)] assms(3)]
  have "\<exists>v'. watch_step v v' \<and> m \<in> set (wt_handled v')" if m: "m \<in> set (wt_handlers v)" for m
  proof -
    have "0 < sl_taken (wt_slots v)" using n length_pos_if_in_set [OF m] unfolding slot_holders_def by linarith
    then obtain sl where "free_slot (wt_slots v) = Some sl" by (auto simp: free_slot_def)
    from watch_step.handled [OF m this] show ?thesis by force
  qed
  moreover have "wt_handlers v = [] \<and> (\<forall>v'. watch_step v v' \<longrightarrow> wt_at v' = AtEnd \<and> wt_handlers v' = [])" if "wt_at v = AtEnd"
    using watch_end_settled [OF assms(1) that] that by (auto elim!: watch_step_cases)
  ultimately show ?thesis using n by (auto simp: slot_holders_def)
qed

theorem workers_bounded_witness:
  "let settings = cn_settings sample_consumer;
       v = (watch settings ''q'' \<lparr>sl_capacity = 4, sl_taken = 1\<rparr>)\<lparr>wt_handlers := [sample_message]\<rparr> in
   watch_reachable settings ''q'' v \<and> (\<exists>v'. watch_step v v' \<and> sample_message \<in> set (wt_handled v'))"
proof -
  let ?settings = "cn_settings sample_consumer"
  let ?v = "watch ?settings ''q'' \<lparr>sl_capacity = 4, sl_taken = 0\<rparr>"
  let ?v1 = "?v\<lparr>wt_at := AtSlot\<rparr>"
  let ?v2 = "?v1\<lparr>wt_slots := \<lparr>sl_capacity = 4, sl_taken = 1\<rparr>, wt_at := AtReceive (receive ?settings ''q'')\<rparr>"
  let ?v3 = "(watch ?settings ''q'' \<lparr>sl_capacity = 4, sl_taken = 1\<rparr>)\<lparr>wt_handlers := [sample_message]\<rparr>"
  have w: "cs_workers ?settings = 4" by (simp add: sample_consumer_def)
  have "watch_step ?v ?v1" by (rule watch_step.goes_on) (simp_all add: watch_def)
  moreover have "watch_step ?v1 ?v2"
    using watch_step.slot [of ?v1 "\<lparr>sl_capacity = 4, sl_taken = 1\<rparr>"] by (simp add: watch_def take_slot_def)
  moreover have "watch_step ?v2 ?v3"
    using watch_step.messages [of ?v2 "receive ?settings ''q''" "[sample_message]"] by (simp add: watch_def receive_def)
  ultimately have "watch_step\<^sup>*\<^sup>* ?v ?v3" by (meson converse_rtranclp_into_rtranclp rtranclp.rtrancl_refl)
  then have r: "watch_reachable ?settings ''q'' ?v3"
    unfolding watch_reachable_def w by (intro exI [of _ "\<lparr>sl_capacity = 4, sl_taken = 0\<rparr>"]) (simp add: make_slots_def i64_less)
  from workers_bounded [OF r] w have "\<exists>v'. watch_step ?v3 v' \<and> sample_message \<in> set (wt_handled v')" by simp
  with r show ?thesis by (simp add: Let_def)
qed

end
