(* ===== verification/Jobs.thy ===== *)
theory Jobs
  imports Config System "HOL-Library.Signed_Division"
begin

text \<open>
  The recurring jobs: \<open>jobs/*.go\<close>, and the settings \<open>app/app.go\<close> hands to each component. A job is
  a value of the types that implement its interface; a run of it is a computation over the
  tables. The scheduler is a machine of one goroutine per job: the timers and the \<open>select\<close> between
  a tick and the end of the context are events from outside. Facts: a run ends and consists of
  steps of the service; once the scheduler has stopped, no job runs again.
\<close>

section \<open>Settings\<close>

text \<open>A \<open>time.Duration\<close> where the component keeps it as a 64-bit integer.\<close>

definition nanoseconds :: "duration \<Rightarrow> i64" where
  "nanoseconds d = of_int d"

definition unit_settings_of :: "config \<Rightarrow> uow_settings" where
  "unit_settings_of c = NewUnitOfWork
     \<lparr>us_lockTimeout = bc_LockTimeout (cf_Database c), us_statementTimeout = bc_StatementTimeout (cf_Database c),
      us_retryAttempts = sint (bc_RetryAttempts (cf_Database c))\<rparr>"

definition process_settings_of :: "config \<Rightarrow> process_settings" where
  "process_settings_of c =
     \<lparr>ps_referenceBackoff = rc_BackoffBase (cf_Reference c), ps_referenceTTL = rc_TTL (cf_Reference c)\<rparr>"

definition retry_settings_of :: "config \<Rightarrow> reference_settings" where
  "retry_settings_of c =
     \<lparr>rs_backoffBase = nanoseconds (rc_BackoffBase (cf_Reference c)), rs_backoffMax = nanoseconds (rc_BackoffMax (cf_Reference c)),
      rs_batchSize = sint (rc_BatchSize (cf_Reference c))\<rparr>"

definition publish_settings_of :: "config \<Rightarrow> outbox_settings" where
  "publish_settings_of c =
     \<lparr>os_owner = ac_InstanceID (cf_App c), os_lease = xc_Lease (cf_Outbox c),
      os_batchSize = nat (sint (xc_BatchSize (cf_Outbox c))),
      os_backoffBase = nanoseconds (xc_BackoffBase (cf_Outbox c)), os_backoffMax = nanoseconds (xc_BackoffMax (cf_Outbox c))\<rparr>"

definition consumer_settings_of :: "config \<Rightarrow> consumer_settings" where
  "consumer_settings_of c =
     \<lparr>cs_workers = sint (uc_Workers (cf_Consumer c)), cs_waitTime = uc_WaitTime (cf_Consumer c),
      cs_visibility = uc_Visibility (cf_Consumer c), cs_messageDeadline = uc_MessageDeadline (cf_Consumer c),
      cs_backoffBase = nanoseconds (uc_BackoffBase (cf_Consumer c)), cs_backoffMax = nanoseconds (uc_BackoffMax (cf_Consumer c)),
      cs_maxReceiveCount = uc_MaxReceiveCount (cf_Consumer c), cs_shutdownTimeout = ac_ShutdownTimeout (cf_App c)\<rparr>"

section \<open>The jobs\<close>

datatype job = PublishOutboxJob duration i64 | RetryPendingReferenceJob duration

fun job_Name :: "job \<Rightarrow> string" where
  "job_Name (PublishOutboxJob interval runs) = ''outbox-publisher''"
| "job_Name (RetryPendingReferenceJob interval) = ''reference-worker''"

fun job_Interval :: "job \<Rightarrow> duration" where
  "job_Interval (PublishOutboxJob interval runs) = interval"
| "job_Interval (RetryPendingReferenceJob interval) = interval"

definition backlogEvery :: int where
  "backlogEvery = 20"

text \<open>A run after \<open>j.runs++\<close>.\<close>

definition publish_job_Run :: "uow_settings \<Rightarrow> string \<Rightarrow> outbox_settings \<Rightarrow> i64 \<Rightarrow> unit M" where
  "publish_job_Run unitOfWork queueURL settings runs =
     bindM (if sint runs smod backlogEvery = 1 then bindM (publish_ReportPending unitOfWork) (\<lambda>_. returnM ()) else returnM ()) (\<lambda>_.
     bindM (publish_Execute unitOfWork queueURL settings) (\<lambda>(_, err).
     case err of None \<Rightarrow> returnM () | Some e \<Rightarrow> throwM e))"

text \<open>\<open>errors.Join\<close>: nothing if all are nil.\<close>

definition errors_Join :: "go_error option list \<Rightarrow> unit result" where
  "errors_Join errs = (case concat (map (\<lambda>e. case e of None \<Rightarrow> [] | Some x \<Rightarrow> [x]) errs) of [] \<Rightarrow> Inr () | es \<Rightarrow> Inl (EWrap es))"

text \<open>A panic goes on; it is no error to be joined.\<close>

definition retry_job_Run ::
  "uow_settings \<Rightarrow> reference_settings \<Rightarrow> env \<Rightarrow> st \<Rightarrow> (unit result \<times> st) option" where
  "retry_job_Run unitOfWork settings c s =
     (case retry_Execute unitOfWork settings c s of
        None \<Rightarrow> None
      | Some ((_, err), s1) \<Rightarrow>
          if err = Some EPanic then Some (Inl EPanic, s1)
          else (case retry_ReportPending unitOfWork c s1 of
              (Inr _, s2) \<Rightarrow> Some (errors_Join [err, None], s2)
            | (Inl e, s2) \<Rightarrow> Some (if e = EPanic then Inl EPanic else errors_Join [err, Some e], s2)))"

text \<open>Which jobs there are, and a run of one: what it returns, the tables, and the job after it.\<close>

definition scheduled :: "config \<Rightarrow> job list" where
  "scheduled c =
     (if xc_Enabled (cf_Outbox c) then [PublishOutboxJob (xc_PollInterval (cf_Outbox c)) 0] else [])
     @ (if rc_Enabled (cf_Reference c) then [RetryPendingReferenceJob (rc_PollInterval (cf_Reference c))] else [])"

fun counted :: "job \<Rightarrow> job" where
  "counted (PublishOutboxJob interval runs) = PublishOutboxJob interval (runs + 1)"
| "counted (RetryPendingReferenceJob interval) = RetryPendingReferenceJob interval"

fun job_Run :: "config \<Rightarrow> job \<Rightarrow> env \<Rightarrow> st \<Rightarrow> (unit result \<times> st) option" where
  "job_Run cfg (PublishOutboxJob interval runs) c s =
     Some (publish_job_Run (unit_settings_of cfg) (qc_EventsQueue (cf_SQS cfg)) (publish_settings_of cfg) (runs + 1) c s)"
| "job_Run cfg (RetryPendingReferenceJob interval) c s = retry_job_Run (unit_settings_of cfg) (retry_settings_of cfg) c s"

text \<open>
  What \<open>runOnce\<close> makes of a result: a panic is recovered, an error is logged at a level unless the
  run was cancelled or out of time. Whatever it is, the loop goes on.
\<close>

datatype run_note = RunQuiet | RunWarning | RunFailure | RunPanicked

definition runOnce :: "unit result \<Rightarrow> run_note" where
  "runOnce r =
     (case r of
        Inr _ \<Rightarrow> RunQuiet
      | Inl err \<Rightarrow>
          if err = EPanic then RunPanicked
          else if errors_is err ECanceled \<or> errors_is err EDeadlineExceeded then RunQuiet
          else if errors_is err (ERepo RepoTransient) \<or> errors_is err (ERepo RepoLockTimeout) then RunWarning
          else RunFailure)"

section \<open>Runs are steps of the service\<close>

lemma publish_report_reads: "follows reads_only (publish_ReportPending u)"
  unfolding publish_ReportPending_def clock_Now_def by (intro reads reading.unit_read)

lemma publish_job_steps:
  assumes "publish_job_Run u url settings runs c s = (r, s')"
  shows "service_step\<^sup>*\<^sup>* (st_db s) (st_db s')"
proof -
  let ?report = "if sint runs smod backlogEvery = 1 then bindM (publish_ReportPending u) (\<lambda>_. returnM ()) else returnM ()"
  have f: "follows reads_only ?report" by (auto intro!: reads publish_report_reads)
  obtain a s1 where a: "?report c s = (a, s1)" by fastforce
  have d: "st_db s1 = st_db s" using follows_run [OF f a] by simp
  obtain p s2 where p: "publish_Execute u url settings c s1 = (p, s2)" by fastforce
  have "st_db s' = st_db s \<or> st_db s' = st_db s2"
    using assms a p d unfolding publish_job_Run_def
    by (auto simp: bindM_def returnM_def throwM_def split: sum.splits option.splits prod.splits)
  then show ?thesis using service_step.publishes [OF p] d by auto
qed

lemma retry_job_steps:
  assumes "honest_commit c"
  shows "\<exists>r s'. retry_job_Run u settings c s = Some (r, s') \<and> service_step\<^sup>*\<^sup>* (st_db s) (st_db s')"
proof -
  have "\<exists>n err s1. retry_loop u settings c 0 s = Some ((n, err), s1) \<and> 0 \<le> n \<and> n \<le> max 0 (rs_batchSize settings) \<and> True"
    by (rule retry_loop_rule [where P = "\<lambda>_. True"]) auto
  then obtain n err s1 where x: "retry_Execute u settings c s = Some ((n, err), s1)" by (auto simp: retry_Execute_def)
  have st: "service_step (st_db s) (st_db s1)" by (rule service_step.retries [OF assms x])
  obtain q s2 where q: "retry_ReportPending u c s1 = (q, s2)" by fastforce
  have "st_db s2 = st_db s1" using follows_run [OF reads_queries(6) q] by simp
  with x q st show ?thesis by (auto simp: retry_job_Run_def split: sum.split)
qed



section \<open>The scheduler\<close>

datatype phase = JobDue | JobRunning | JobPausing | JobEnded

record scheduler =
  sd_jobs :: "(job \<times> phase) list"
  sd_cancelled :: bool

definition scheduler_Start :: "job list \<Rightarrow> scheduler" where
  "scheduler_Start js = \<lparr>sd_jobs = map (\<lambda>j. (j, JobDue)) js, sd_cancelled = False\<rparr>"

text \<open>
  The loop of \<open>run\<close>: it runs, and then the \<open>select\<close> takes a tick or the end of the context, either
  of them if both are there. \<open>Stop\<close> cancels and waits until every loop has ended.
\<close>

inductive scheduler_step :: "scheduler \<Rightarrow> scheduler \<Rightarrow> bool" where
  begins: "\<lbrakk>i < length (sd_jobs d); sd_jobs d ! i = (j, JobDue)\<rbrakk>
    \<Longrightarrow> scheduler_step d (d\<lparr>sd_jobs := (sd_jobs d)[i := (j, JobRunning)]\<rparr>)"
| returns: "\<lbrakk>i < length (sd_jobs d); sd_jobs d ! i = (j, JobRunning)\<rbrakk>
    \<Longrightarrow> scheduler_step d (d\<lparr>sd_jobs := (sd_jobs d)[i := (counted j, JobPausing)]\<rparr>)"
| ticks: "\<lbrakk>i < length (sd_jobs d); sd_jobs d ! i = (j, JobPausing)\<rbrakk>
    \<Longrightarrow> scheduler_step d (d\<lparr>sd_jobs := (sd_jobs d)[i := (j, JobDue)]\<rparr>)"
| ends: "\<lbrakk>i < length (sd_jobs d); sd_jobs d ! i = (j, JobPausing); sd_cancelled d\<rbrakk>
    \<Longrightarrow> scheduler_step d (d\<lparr>sd_jobs := (sd_jobs d)[i := (j, JobEnded)]\<rparr>)"
| stops: "scheduler_step d (d\<lparr>sd_cancelled := True\<rparr>)"

inductive_cases scheduler_step_cases: "scheduler_step d d'"

definition all_stopped :: "scheduler \<Rightarrow> bool" where
  "all_stopped d \<longleftrightarrow> list_all (\<lambda>(j, p). p = JobEnded) (sd_jobs d)"

definition runs_now :: "scheduler \<Rightarrow> nat" where
  "runs_now d = length (filter (\<lambda>(j, p). p = JobRunning) (sd_jobs d))"

lemma scheduler_jobs: "scheduler_step d d' \<Longrightarrow> length (sd_jobs d') = length (sd_jobs d)"
  by (induction rule: scheduler_step.induct) auto

lemma runs_at_most: "runs_now d \<le> length (sd_jobs d)"
  by (simp add: runs_now_def)

lemma stopped_runs_nothing: "all_stopped d \<Longrightarrow> runs_now d = 0"
  by (auto simp: all_stopped_def runs_now_def list_all_iff filter_empty_conv)

lemma stopped_stays: "scheduler_step d d' \<Longrightarrow> all_stopped d \<Longrightarrow> all_stopped d'"
  by (induction rule: scheduler_step.induct) (auto simp: all_stopped_def list_all_length)

end
