(* ===== verification/Instance.thy ===== *)
theory Instance
  imports Watch Jobs
begin

text \<open>
  One running instance: \<open>app/lifecycle.go\<close> over the machines of its parts - the limiter of the API,
  the consumer's loop if it is enabled, the scheduler - and requests that are not limited. A step
  of the instance is a step of one part, or one of its lifecycle: stopping begins with the
  entrances, goes on with the jobs and closes the pool last, in the reverse order of starting,
  which is how fx runs hooks. A hook that runs out of time lets the next one run.

  What uses a connection is counted as a request, a handler or a run in progress: each of them
  runs its units of work one after the other.
\<close>

datatype stage = Serving | StoppingEntrances | StoppingJobs | PoolClosed

record running =
  in_writes :: writes
  in_reads :: nat
  in_watch :: "watch option"
  in_jobs :: scheduler
  in_stage :: stage
  in_late :: bool

text \<open>
  Starting: the hooks in the order they are registered, each with what its dependency answered,
  until one fails.
\<close>

record dependencies =
  dp_Ping :: "unit result"
  dp_VerifyQueues :: "unit result"
  dp_Connect :: "unit result"
  dp_Listen :: "unit result"

definition consumer_loop :: "config \<Rightarrow> watch option result" where
  "consumer_loop c =
     (if uc_Enabled (cf_Consumer c)
      then (case make_slots (uc_Workers (cf_Consumer c)) of
          None \<Rightarrow> Inl EPanic
        | Some sl \<Rightarrow> Inr (Some (watch (consumer_settings_of c) (qc_WagerQueueURL (cf_SQS c)) sl)))
      else Inr None)"

definition components :: "config \<Rightarrow> running result" where
  "components c =
     (case newLimiter (hc_WriteConcurrency (cf_HTTP c)) (hc_WriteQueueWait (cf_HTTP c)) of
        None \<Rightarrow> Inl EPanic
      | Some l \<Rightarrow> bindR (consumer_loop c) (\<lambda>loop. Inr
          \<lparr>in_writes = no_writes l, in_reads = 0, in_watch = loop, in_jobs = scheduler_Start (scheduled c),
           in_stage = Serving, in_late = False\<rparr>))"

definition start :: "dependencies \<Rightarrow> config \<Rightarrow> running result" where
  "start dp c = bindR (dp_Ping dp) (\<lambda>_. bindR (dp_VerifyQueues dp) (\<lambda>_. bindR (dp_Connect dp) (\<lambda>_.
     bindR (dp_Listen dp) (\<lambda>_. components c))))"

text \<open>
  When the hook of the entrances has waited long enough: \<open>http.Server.Shutdown\<close> returns once no
  request is active, \<open>Consumer.Stop\<close> once the loop has ended; otherwise both go on without.
\<close>

definition entrances_quiet :: "running \<Rightarrow> bool" where
  "entrances_quiet n \<longleftrightarrow> wr_waiting (in_writes n) = [] \<and> wr_inside (in_writes n) = [] \<and> in_reads n = 0
     \<and> (\<forall>v. in_watch n = Some v \<longrightarrow> wt_at v = AtEnd)"

definition StopReceiving :: "running \<Rightarrow> running" where
  "StopReceiving n = n\<lparr>in_watch := map_option (\<lambda>v. v\<lparr>wt_cancelled := True\<rparr>) (in_watch n)\<rparr>"

definition open_entrance :: "running \<Rightarrow> bool" where
  "open_entrance n \<longleftrightarrow> in_stage n \<in> {Serving, StoppingEntrances}"

inductive run_step :: "running \<Rightarrow> running \<Rightarrow> bool" where
  writes: "\<lbrakk>write_step (in_writes n) w; open_entrance n \<or> length (wr_waiting w) \<le> length (wr_waiting (in_writes n))\<rbrakk>
    \<Longrightarrow> run_step n (n\<lparr>in_writes := w\<rparr>)"
| read_begins: "open_entrance n \<Longrightarrow> run_step n (n\<lparr>in_reads := in_reads n + 1\<rparr>)"
| read_ends: "0 < in_reads n \<Longrightarrow> run_step n (n\<lparr>in_reads := in_reads n - 1\<rparr>)"
| watches: "\<lbrakk>in_watch n = Some v; watch_step v v'\<rbrakk> \<Longrightarrow> run_step n (n\<lparr>in_watch := Some v'\<rparr>)"
| schedules: "scheduler_step (in_jobs n) d \<Longrightarrow> run_step n (n\<lparr>in_jobs := d\<rparr>)"
| interrupted: "in_stage n = Serving \<Longrightarrow> run_step n (StopReceiving n\<lparr>in_stage := StoppingEntrances\<rparr>)"
| entrances_stopped: "in_stage n = StoppingEntrances
    \<Longrightarrow> run_step n (n\<lparr>in_jobs := (in_jobs n)\<lparr>sd_cancelled := True\<rparr>, in_stage := StoppingJobs,
      in_late := in_late n \<or> \<not> entrances_quiet n\<rparr>)"
| jobs_stopped: "in_stage n = StoppingJobs
    \<Longrightarrow> run_step n (n\<lparr>in_stage := PoolClosed, in_late := in_late n \<or> \<not> all_stopped (in_jobs n)\<rparr>)"

inductive_cases run_step_cases: "run_step n n'"

definition run_reachable :: "config \<Rightarrow> running \<Rightarrow> bool" where
  "run_reachable c n \<longleftrightarrow> (\<exists>dp n0. start dp c = Inr n0 \<and> run_step\<^sup>*\<^sup>* n0 n)"

text \<open>The requests, handlers and runs in progress: those of the budget's slices, and the others.\<close>

definition handling :: "running \<Rightarrow> nat" where
  "handling n = (case in_watch n of None \<Rightarrow> 0 | Some v \<Rightarrow> length (wt_handlers v))"

definition in_use :: "running \<Rightarrow> nat" where
  "in_use n = length (wr_inside (in_writes n)) + handling n + runs_now (in_jobs n)"

section \<open>The parts of a reachable instance\<close>

definition parts_from :: "running \<Rightarrow> running \<Rightarrow> bool" where
  "parts_from n0 n \<longleftrightarrow> write_step\<^sup>*\<^sup>* (in_writes n0) (in_writes n)
     \<and> (case in_watch n0 of None \<Rightarrow> in_watch n = None | Some v0 \<Rightarrow> \<exists>v. in_watch n = Some v \<and> watch_step\<^sup>*\<^sup>* v0 v)
     \<and> scheduler_step\<^sup>*\<^sup>* (in_jobs n0) (in_jobs n)"

lemma run_step_parts: "run_step n n' \<Longrightarrow> parts_from n0 n \<Longrightarrow> parts_from n0 n'"
proof (induction rule: run_step.induct)
  case (interrupted n)
  then show ?case
    by (auto simp: parts_from_def StopReceiving_def split: option.splits intro: rtranclp.rtrancl_into_rtrancl watch_step.cancel)
next
  case (entrances_stopped n)
  then show ?case by (auto simp: parts_from_def split: option.splits intro: rtranclp.rtrancl_into_rtrancl scheduler_step.stops)
qed (auto simp: parts_from_def split: option.splits intro: rtranclp.rtrancl_into_rtrancl)

lemma reachable_parts:
  assumes "run_reachable c n"
  obtains n0 where "components c = Inr n0" "parts_from n0 n"
proof -
  obtain dp n0 where s: "start dp c = Inr n0" "run_step\<^sup>*\<^sup>* n0 n" using assms by (auto simp: run_reachable_def)
  have c: "components c = Inr n0" using s(1) by (auto simp: start_def bindR_eq_Inr)
  have "parts_from n0 n" using s(2)
  proof (induction rule: rtranclp_induct)
    case base
    show ?case by (simp add: parts_from_def split: option.split)
  next
    case (step m n)
    from step.hyps(2) step.IH show ?case by (rule run_step_parts)
  qed
  with c that show thesis by blast
qed

lemma components_parts:
  "components c = Inr n0 \<Longrightarrow> \<exists>l. newLimiter (hc_WriteConcurrency (cf_HTTP c)) (hc_WriteQueueWait (cf_HTTP c)) = Some l
    \<and> in_writes n0 = no_writes l \<and> in_jobs n0 = scheduler_Start (scheduled c)
    \<and> (if uc_Enabled (cf_Consumer c)
       then \<exists>sl. make_slots (uc_Workers (cf_Consumer c)) = Some sl
         \<and> in_watch n0 = Some (watch (consumer_settings_of c) (qc_WagerQueueURL (cf_SQS c)) sl)
       else in_watch n0 = None)"
  by (auto simp: components_def consumer_loop_def bindR_eq_Inr split: option.splits if_splits)

lemma running_writes:
  assumes "run_reachable c n"
  obtains l where "newLimiter (hc_WriteConcurrency (cf_HTTP c)) (hc_WriteQueueWait (cf_HTTP c)) = Some l"
    "writes_reachable l (in_writes n)"
proof -
  obtain n0 where n0: "components c = Inr n0" "parts_from n0 n" by (rule reachable_parts [OF assms])
  with that components_parts [OF n0(1)] show thesis by (auto simp: parts_from_def writes_reachable_def)
qed

lemma running_watch:
  assumes "run_reachable c n" and "in_watch n = Some v"
  shows "watch_reachable (consumer_settings_of c) (qc_WagerQueueURL (cf_SQS c)) v \<and> uc_Enabled (cf_Consumer c)"
proof -
  obtain n0 where n0: "components c = Inr n0" "parts_from n0 n" by (rule reachable_parts [OF assms(1)])
  have e: "uc_Enabled (cf_Consumer c)"
    using components_parts [OF n0(1)] n0(2) assms(2) by (auto simp: parts_from_def split: if_splits)
  have w: "(of_int (cs_workers (consumer_settings_of c)) :: i64) = uc_Workers (cf_Consumer c)"
    by (simp add: consumer_settings_of_def)
  show ?thesis
    using components_parts [OF n0(1)] n0(2) assms(2) e unfolding watch_reachable_def w by (auto simp: parts_from_def)
qed

lemma writes_within:
  assumes "run_reachable c n"
  shows "int (length (wr_inside (in_writes n))) \<le> sint (hc_WriteConcurrency (cf_HTTP c))"
proof -
  obtain l where l: "newLimiter (hc_WriteConcurrency (cf_HTTP c)) (hc_WriteQueueWait (cf_HTTP c)) = Some l"
    "write_step\<^sup>*\<^sup>* (no_writes l) (in_writes n)"
    by (rule running_writes [OF assms]) (simp add: writes_reachable_def)
  from writers.never_more_users [OF l(2)] new_limiter [OF l(1)] show ?thesis by (simp add: no_writes_def)
qed

lemma watch_counted:
  assumes "run_reachable c n" and "in_watch n = Some v" and "0 < sint (uc_Workers (cf_Consumer c))"
  shows "slot_holders v = sl_taken (wt_slots v) \<and> int (slot_holders v) \<le> sint (uc_Workers (cf_Consumer c))"
proof -
  have w: "cs_workers (consumer_settings_of c) < 2 ^ 63" "0 \<le> cs_workers (consumer_settings_of c)"
    using sint_lt [of "uc_Workers (cf_Consumer c)"] assms(3) by (simp_all add: consumer_settings_of_def)
  from watch_counts [OF conjunct1 [OF running_watch [OF assms(1,2)]] w(2,1)] show ?thesis
    by (simp add: consumer_settings_of_def)
qed

lemma handling_within:
  assumes "run_reachable c n" and "0 < sint (uc_Workers (cf_Consumer c))"
  shows "int (handling n) \<le> (if uc_Enabled (cf_Consumer c) then sint (uc_Workers (cf_Consumer c)) else 0)"
proof (cases "in_watch n")
  case None
  with assms(2) show ?thesis by (simp add: handling_def)
next
  case (Some v)
  with watch_counted [OF assms(1) Some assms(2)] running_watch [OF assms(1) Some] show ?thesis
    by (simp add: handling_def slot_holders_def split: if_splits)
qed

lemma runs_within:
  assumes "run_reachable c n"
  shows "int (runs_now (in_jobs n)) \<le> (if xc_Enabled (cf_Outbox c) then 1 else 0) + (if rc_Enabled (cf_Reference c) then 1 else 0)"
proof -
  obtain n0 where n0: "components c = Inr n0" "parts_from n0 n" by (rule reachable_parts [OF assms])
  have "scheduler_step\<^sup>*\<^sup>* d0 d \<Longrightarrow> length (sd_jobs d) = length (sd_jobs d0)" for d0 d
    by (induction rule: rtranclp_induct) (auto dest: scheduler_jobs)
  then have "length (sd_jobs (in_jobs n)) = length (scheduled c)"
    using components_parts [OF n0(1)] n0(2) by (auto simp: parts_from_def scheduler_Start_def)
  with runs_at_most [of "in_jobs n"] show ?thesis by (auto simp: scheduled_def)
qed

text \<open>
  C35. The budget that is checked at the start is kept while the instance runs: with a configuration
  that \<open>Load\<close> answered, whose sizes do not overflow, there are at every moment - while serving and
  while stopping - at most so many limited requests, message handlers and job runs in progress
  that, together with the reserved connections, they fit the pool.
\<close>

theorem budget_kept:
  assumes "Load su = Inr c" and "run_reachable c n"
    and "sint (hc_WriteConcurrency (cf_HTTP c)) < 2 ^ 61" "sint (uc_Workers (cf_Consumer c)) < 2 ^ 61"
      "sint (bc_Reserved (cf_Database c)) < 2 ^ 61"
  shows "int (in_use n) + sint (bc_Reserved (cf_Database c)) \<le> sint (bc_MaxConns (cf_Database c))"
proof -
  have g: "in_range c" "Fits (ConnectionBudget c)" using Load_good [OF assms(1)] by (simp_all add: consistent_def)
  have w: "0 < sint (uc_Workers (cf_Consumer c))" using g(1) by (simp add: in_range_def)
  show ?thesis
    using Fits_sum [OF g(2,1) assms(3-5)] writes_within [OF assms(2)] handling_within [OF assms(2) w] runs_within [OF assms(2)]
    unfolding in_use_def by simp
qed

section \<open>Stopping\<close>

text \<open>What each stage has brought about, if it was in time.\<close>

definition stage_inv :: "running \<Rightarrow> bool" where
  "stage_inv n \<longleftrightarrow> (in_stage n \<noteq> Serving \<longrightarrow> (\<forall>v. in_watch n = Some v \<longrightarrow> wt_cancelled v))
     \<and> (in_stage n \<in> {Serving, StoppingEntrances} \<longrightarrow> \<not> in_late n)
     \<and> (in_stage n \<in> {StoppingJobs, PoolClosed} \<longrightarrow> sd_cancelled (in_jobs n) \<and> (\<not> in_late n \<longrightarrow> entrances_quiet n))
     \<and> (in_stage n = PoolClosed \<and> \<not> in_late n \<longrightarrow> all_stopped (in_jobs n))"

lemma quiet_writes: "write_step w w' \<Longrightarrow> wr_waiting w = [] \<Longrightarrow> wr_inside w = [] \<Longrightarrow> wr_inside w' = [] \<and> length (wr_waiting w') = 1"
  by (induction rule: write_step.induct) auto

lemma watch_step_keeps: "watch_step v v' \<Longrightarrow> (wt_cancelled v \<longrightarrow> wt_cancelled v') \<and> (wt_at v = AtEnd \<longrightarrow> wt_at v' = AtEnd)"
  by (induction rule: watch_step.induct) auto

lemma scheduler_stays: "scheduler_step d d' \<Longrightarrow> sd_cancelled d \<Longrightarrow> sd_cancelled d'"
  by (induction rule: scheduler_step.induct) auto

lemma stage_step: "run_step n n' \<Longrightarrow> stage_inv n \<Longrightarrow> stage_inv n'"
proof (induction rule: run_step.induct)
  case (writes n w)
  then show ?case by (auto simp: stage_inv_def entrances_quiet_def open_entrance_def dest: quiet_writes)
next
  case (watches n v v')
  with watch_step_keeps [OF watches(2)] show ?case by (auto simp: stage_inv_def entrances_quiet_def)
next
  case (schedules n d)
  with stopped_stays [OF schedules(1)] scheduler_stays [OF schedules(1)] show ?case
    by (auto simp: stage_inv_def entrances_quiet_def)
qed (auto simp: stage_inv_def entrances_quiet_def open_entrance_def StopReceiving_def)

lemma run_reachable_step: "run_reachable c n \<Longrightarrow> run_step\<^sup>*\<^sup>* n n' \<Longrightarrow> run_reachable c n'"
  unfolding run_reachable_def by (meson rtranclp_trans)

lemma reachable_stage:
  assumes "run_reachable c n"
  shows "stage_inv n"
proof -
  obtain dp n0 where s: "start dp c = Inr n0" "run_step\<^sup>*\<^sup>* n0 n" using assms by (auto simp: run_reachable_def)
  have "in_stage n0 = Serving" "\<not> in_late n0"
    using s(1) by (auto simp: start_def components_def bindR_eq_Inr split: option.splits)
  then have "stage_inv n0" by (simp add: stage_inv_def)
  with s(2) show ?thesis by (induction rule: rtranclp_induct) (auto intro: stage_step)
qed

lemma closed_in_time:
  assumes r: "run_reachable c n" and closed: "in_stage n = PoolClosed" "\<not> in_late n"
  shows "in_use n = 0 \<and> in_reads n = 0 \<and> wr_waiting (in_writes n) = []"
proof -
  have q: "entrances_quiet n" "all_stopped (in_jobs n)"
    using reachable_stage [OF r] closed by (simp_all add: stage_inv_def)
  have "wt_handlers v = []" if "in_watch n = Some v" for v
    using watch_end_settled [OF conjunct1 [OF running_watch [OF r that]]] q(1) that by (simp add: entrances_quiet_def)
  then show ?thesis
    using q stopped_runs_nothing [OF q(2)] by (simp add: in_use_def handling_def entrances_quiet_def split: option.split)
qed

text \<open>
  C37. The connection pool is closed last: when every hook was in time, then from the moment the
  pool closes no request, message handler or job run is in progress, and none ever starts again.
\<close>

theorem pool_closed_last:
  assumes "run_reachable c n" and "in_stage n = PoolClosed" and "\<not> in_late n" and "run_step\<^sup>*\<^sup>* n n'"
  shows "in_use n' = 0 \<and> in_reads n' = 0 \<and> wr_waiting (in_writes n') = []"
proof -
  have "in_stage n' = PoolClosed \<and> \<not> in_late n'" using assms(4,2,3)
  proof (induction rule: rtranclp_induct)
    case (step m n')
    then show ?case by (auto elim!: run_step_cases simp: StopReceiving_def)
  qed simp
  with closed_in_time [OF run_reachable_step [OF assms(1,4)]] show ?thesis by blast
qed

section \<open>Stopping can always succeed\<close>

text \<open>How far a part is from its end.\<close>

definition watch_left :: "watch \<Rightarrow> nat" where
  "watch_left v = length (wt_handlers v)
     + (case wt_at v of AtReceive q \<Rightarrow> 3 | AtWait \<Rightarrow> 1 | AtEnd \<Rightarrow> 0 | _ \<Rightarrow> 2)"

definition entrances_left :: "running \<Rightarrow> nat" where
  "entrances_left n = length (wr_waiting (in_writes n)) + length (wr_inside (in_writes n)) + in_reads n
     + (case in_watch n of None \<Rightarrow> 0 | Some v \<Rightarrow> watch_left v)"

fun phase_left :: "phase \<Rightarrow> nat" where
  "phase_left JobDue = 3"
| "phase_left JobRunning = 2"
| "phase_left JobPausing = 1"
| "phase_left JobEnded = 0"

definition jobs_left :: "scheduler \<Rightarrow> nat" where
  "jobs_left d = sum_list (map (\<lambda>(j, p). phase_left p) (sd_jobs d))"

lemma watch_comes_closer:
  assumes "wt_cancelled v" and "wt_at v \<noteq> AtEnd" and "slot_holders v = sl_taken (wt_slots v)"
  shows "\<exists>v'. watch_step v v' \<and> watch_left v' < watch_left v"
proof (cases "wt_at v")
  case AtLoop
  from watch_step.loop_over [OF this assms(1)] AtLoop show ?thesis by (force simp: watch_left_def)
next
  case AtSlot
  from watch_step.slot_over [OF this assms(1)] AtSlot show ?thesis by (force simp: watch_left_def)
next
  case (AtReceive q)
  then obtain sl where "free_slot (wt_slots v) = Some sl"
    using assms(3) by (auto simp: slot_holders_def receiving_def free_slot_def)
  from watch_step.fails [OF AtReceive this] AtReceive show ?thesis by (force simp: watch_left_def)
next
  case AtFailure
  from watch_step.failure_over [OF this assms(1)] AtFailure show ?thesis by (force simp: watch_left_def)
next
  case AtPause
  from watch_step.pause_over [OF this assms(1)] AtPause show ?thesis by (force simp: watch_left_def)
next
  case AtWait
  show ?thesis
  proof (cases "wt_handlers v")
    case Nil
    from watch_step.ends [OF AtWait Nil] AtWait show ?thesis by (force simp: watch_left_def)
  next
    case (Cons m ms)
    then obtain sl where "free_slot (wt_slots v) = Some sl" using assms(3) by (auto simp: slot_holders_def free_slot_def)
    from watch_step.handled [of m, OF _ this] Cons show ?thesis by (force simp: watch_left_def)
  qed
qed (use assms(2) in simp)

lemma writes_come_closer:
  assumes "writes_reachable l w" and "sl_taken (lm_slots l) = 0" and "wr_waiting w \<noteq> [] \<or> wr_inside w \<noteq> []"
  shows "\<exists>w'. write_step w w' \<and> length (wr_waiting w') \<le> length (wr_waiting w)
    \<and> length (wr_waiting w') + length (wr_inside w') < length (wr_waiting w) + length (wr_inside w)"
proof (cases "wr_waiting w")
  case (Cons r rs)
  from write_step.gone [of r w] Cons show ?thesis by force
next
  case Nil
  then obtain r rs where r: "wr_inside w = r # rs" using assms(3) by (cases "wr_inside w") auto
  have "free_slot (lm_slots (wr_limiter w)) \<noteq> None"
    using writers.freeing_never_blocks [OF assms(1) [unfolded writes_reachable_def]] assms(2) r by (simp add: no_writes_def)
  then obtain sl where "free_slot (lm_slots (wr_limiter w)) = Some sl" by blast
  from write_step.leaves [of r, OF _ this] r show ?thesis by force
qed

lemma entrances_come_closer:
  assumes r: "run_reachable c n" and s: "in_stage n = StoppingEntrances" and w: "0 < sint (uc_Workers (cf_Consumer c))"
    and q: "\<not> entrances_quiet n"
  shows "\<exists>n'. run_step n n' \<and> in_stage n' = StoppingEntrances \<and> in_late n' = in_late n \<and> entrances_left n' < entrances_left n"
proof -
  obtain l where l: "newLimiter (hc_WriteConcurrency (cf_HTTP c)) (hc_WriteQueueWait (cf_HTTP c)) = Some l"
    "writes_reachable l (in_writes n)" by (rule running_writes [OF r])
  consider (requests) "wr_waiting (in_writes n) \<noteq> [] \<or> wr_inside (in_writes n) \<noteq> []" | (reads) "0 < in_reads n"
    | (messages) v where "in_watch n = Some v" "wt_at v \<noteq> AtEnd"
    using q by (auto simp: entrances_quiet_def)
  then show ?thesis
  proof cases
    case requests
    then obtain w' where "write_step (in_writes n) w'" "length (wr_waiting w') \<le> length (wr_waiting (in_writes n))"
      "length (wr_waiting w') + length (wr_inside w') < length (wr_waiting (in_writes n)) + length (wr_inside (in_writes n))"
      using writes_come_closer [OF l(2) conjunct1 [OF new_limiter [OF l(1)]] requests] by blast
    with run_step.writes [of n w'] s show ?thesis by (force simp: entrances_left_def)
  next
    case reads
    with run_step.read_ends [of n] s show ?thesis by (force simp: entrances_left_def)
  next
    case (messages v)
    have "wt_cancelled v" using reachable_stage [OF r] s messages(1) by (simp add: stage_inv_def)
    then obtain v' where "watch_step v v'" "watch_left v' < watch_left v"
      using watch_comes_closer [OF _ messages(2)] watch_counted [OF r messages(1) w] by blast
    with run_step.watches [OF messages(1)] messages(1) s show ?thesis by (force simp: entrances_left_def)
  qed
qed

lemma jobs_come_closer:
  assumes "sd_cancelled d" and "\<not> all_stopped d"
  shows "\<exists>d'. scheduler_step d d' \<and> jobs_left d' < jobs_left d"
proof -
  obtain i j p where i: "i < length (sd_jobs d)" "sd_jobs d ! i = (j, p)" "p \<noteq> JobEnded"
    using assms(2) by (force simp: all_stopped_def list_all_length)
  let ?to = "\<lambda>x. d\<lparr>sd_jobs := (sd_jobs d)[i := x]\<rparr>"
  have le: "phase_left p \<le> sum_list (map (\<lambda>(j, p). phase_left p) (sd_jobs d))"
    using elem_le_sum_list [of i "map (\<lambda>(j, p). phase_left p) (sd_jobs d)"] i by simp
  have less: "jobs_left (?to (j', p')) < jobs_left d" if "phase_left p' < phase_left p" for j' p'
    using that le i by (simp add: jobs_left_def map_update sum_list_update)
  show ?thesis
    using i(3) less scheduler_step.begins [OF i(1)] scheduler_step.returns [OF i(1)] scheduler_step.ends [OF i(1) _ assms(1)] i(2)
    by (cases p) force+
qed

lemma entrances_can_stop:
  assumes "run_reachable c n" and "in_stage n = StoppingEntrances" and "\<not> in_late n" and "0 < sint (uc_Workers (cf_Consumer c))"
  shows "\<exists>n'. run_step\<^sup>*\<^sup>* n n' \<and> in_stage n' = StoppingJobs \<and> \<not> in_late n'"
proof -
  let ?P = "\<lambda>n. run_reachable c n \<and> in_stage n = StoppingEntrances \<and> \<not> in_late n"
  have "\<exists>n'. run_step n n' \<and> ?P n' \<and> entrances_left n' < entrances_left n" if "?P n" "\<not> entrances_quiet n" for n
    using entrances_come_closer [OF _ _ assms(4) that(2)] that(1) run_reachable_step [of c n] by (metis r_into_rtranclp)
  from reach_by_measure [where P = ?P and Q = entrances_quiet, OF this] assms(1-3)
  obtain m where m: "run_step\<^sup>*\<^sup>* n m" "in_stage m = StoppingEntrances" "\<not> in_late m" "entrances_quiet m" by blast
  from rtranclp.rtrancl_into_rtrancl [OF m(1) run_step.entrances_stopped [OF m(2)]] m(3,4) show ?thesis by force
qed

lemma jobs_can_stop:
  assumes "run_reachable c n" and "in_stage n = StoppingJobs" and "\<not> in_late n"
  shows "\<exists>n'. run_step\<^sup>*\<^sup>* n n' \<and> in_stage n' = PoolClosed \<and> \<not> in_late n'"
proof -
  let ?P = "\<lambda>n. in_stage n = StoppingJobs \<and> \<not> in_late n \<and> sd_cancelled (in_jobs n)"
  have closer: "\<exists>n'. run_step n n' \<and> ?P n' \<and> jobs_left (in_jobs n') < jobs_left (in_jobs n)"
    if p: "?P n" and a: "\<not> all_stopped (in_jobs n)" for n
  proof -
    obtain d where d: "scheduler_step (in_jobs n) d" "jobs_left d < jobs_left (in_jobs n)"
      using jobs_come_closer [OF _ a] p by blast
    from run_step.schedules [OF d(1)] d(2) scheduler_stays [OF d(1)] p show ?thesis by force
  qed
  have "?P n" using assms reachable_stage [OF assms(1)] by (simp add: stage_inv_def)
  with reach_by_measure [where P = ?P and Q = "\<lambda>n. all_stopped (in_jobs n)", OF closer]
  obtain m where m: "run_step\<^sup>*\<^sup>* n m" "in_stage m = StoppingJobs" "\<not> in_late m" "all_stopped (in_jobs m)"
    by blast
  from rtranclp.rtrancl_into_rtrancl [OF m(1) run_step.jobs_stopped [OF m(2)]] m(3,4) show ?thesis by force
qed

lemma can_stop:
  assumes "Load su = Inr c" and "run_reachable c n" and "in_stage n = Serving"
  shows "\<exists>n'. run_step\<^sup>*\<^sup>* n n' \<and> in_stage n' = PoolClosed \<and> \<not> in_late n' \<and> in_use n' = 0"
proof -
  have w: "0 < sint (uc_Workers (cf_Consumer c))" using Load_good [OF assms(1)] by (simp add: in_range_def)
  let ?n1 = "StopReceiving n\<lparr>in_stage := StoppingEntrances\<rparr>"
  have s1: "run_step\<^sup>*\<^sup>* n ?n1" using run_step.interrupted [OF assms(3)] by blast
  have r1: "run_reachable c ?n1" by (rule run_reachable_step [OF assms(2) s1])
  obtain n2 where n2: "run_step\<^sup>*\<^sup>* ?n1 n2" "in_stage n2 = StoppingJobs" "\<not> in_late n2"
    using entrances_can_stop [OF r1 _ _ w] reachable_stage [OF assms(2)] assms(3) by (auto simp: StopReceiving_def stage_inv_def)
  obtain n3 where n3: "run_step\<^sup>*\<^sup>* n2 n3" "in_stage n3 = PoolClosed" "\<not> in_late n3"
    using jobs_can_stop [OF run_reachable_step [OF r1 n2(1)] n2(2,3)] by blast
  have s3: "run_step\<^sup>*\<^sup>* n n3" using s1 n2(1) n3(1) by (meson rtranclp_trans)
  have "in_use n3 = 0" using closed_in_time [OF run_reachable_step [OF assms(2) s3] n3(2,3)] by simp
  with s3 n3 show ?thesis by blast
qed


text \<open>
  What the budget leaves out: a request that reads is not limited, so any number of them may be in
  progress, each with a connection of its own.
\<close>

theorem reads_unlimited:
  assumes "run_reachable c n" and "in_stage n = Serving"
  shows "\<exists>n'. run_reachable c n' \<and> in_reads n' = in_reads n + k"
proof -
  have "run_step\<^sup>*\<^sup>* n (n\<lparr>in_reads := in_reads n + k\<rparr>)"
  proof (induction k)
    case (Suc k)
    from run_step.read_begins [of "n\<lparr>in_reads := in_reads n + k\<rparr>"] assms(2) Suc show ?case
      by (force simp: open_entrance_def intro: rtranclp.rtrancl_into_rtrancl)
  qed simp
  from run_reachable_step [OF assms(1) this] show ?thesis by force
qed

section \<open>An instance\<close>

definition sound_dependencies :: dependencies where
  "sound_dependencies = \<lparr>dp_Ping = Inr (), dp_VerifyQueues = Inr (), dp_Connect = Inr (), dp_Listen = Inr ()\<rparr>"

lemma sample_sizes:
  "\<exists>c. Load (sample_surroundings Map.empty) = Inr c \<and> sint (hc_WriteConcurrency (cf_HTTP c)) = 12
    \<and> sint (uc_Workers (cf_Consumer c)) = 4 \<and> sint (bc_Reserved (cf_Database c)) = 2
    \<and> sint (bc_MaxConns (cf_Database c)) = 20 \<and> xc_Enabled (cf_Outbox c)"
  by (simp add: Load_def load_defs unset_vars set_vars [OF _ _ trimmed_u] sample_values sample_lookup budget_defs)

text \<open>One that has started and whose publisher runs.\<close>

lemma sample_running:
  assumes "0 \<le> sint (hc_WriteConcurrency (cf_HTTP c))" "0 \<le> sint (uc_Workers (cf_Consumer c))" "xc_Enabled (cf_Outbox c)"
  shows "\<exists>n. run_reachable c n \<and> in_stage n = Serving \<and> in_use n = 1"
proof -
  have "\<not> hc_WriteConcurrency (cf_HTTP c) <s 0" "\<not> uc_Workers (cf_Consumer c) <s 0" using assms(1,2) by (simp_all add: i64_less)
  then have "\<exists>n0. components c = Inr n0 \<and> in_stage n0 = Serving"
    by (cases "uc_Enabled (cf_Consumer c)") (simp_all add: components_def consumer_loop_def newLimiter_def make_slots_def bindR_def)
  then obtain n0 where n0: "components c = Inr n0" "in_stage n0 = Serving" by blast
  obtain l where l: "in_writes n0 = no_writes l" "in_jobs n0 = scheduler_Start (scheduled c)"
    using components_parts [OF n0(1)] by blast
  have h: "handling n0 = 0"
    using components_parts [OF n0(1)] by (auto simp: handling_def watch_def split: if_splits)
  have r: "run_reachable c n0"
    unfolding run_reachable_def using n0(1) by (intro exI [of _ sound_dependencies]) (auto simp: start_def sound_dependencies_def bindR_def)
  let ?j = "PublishOutboxJob (xc_PollInterval (cf_Outbox c)) 0"
  let ?d = "(in_jobs n0)\<lparr>sd_jobs := (sd_jobs (in_jobs n0))[0 := (?j, JobRunning)]\<rparr>"
  have "scheduler_step (in_jobs n0) ?d"
    by (rule scheduler_step.begins) (simp_all add: l(2) scheduler_Start_def scheduled_def assms(3))
  then have "run_step n0 (n0\<lparr>in_jobs := ?d\<rparr>)" by (rule run_step.schedules)
  with run_reachable_step [OF r] have "run_reachable c (n0\<lparr>in_jobs := ?d\<rparr>)" by blast
  moreover have "in_use (n0\<lparr>in_jobs := ?d\<rparr>) = 1"
    using h by (simp add: in_use_def handling_def runs_now_def l no_writes_def scheduler_Start_def scheduled_def assms(3))
  ultimately show ?thesis using n0(2) by force
qed

lemma sample_serving:
  "\<exists>c n. Load (sample_surroundings Map.empty) = Inr c \<and> sint (hc_WriteConcurrency (cf_HTTP c)) = 12
    \<and> sint (uc_Workers (cf_Consumer c)) = 4 \<and> sint (bc_Reserved (cf_Database c)) = 2
    \<and> run_reachable c n \<and> in_stage n = Serving \<and> in_use n = 1"
proof -
  obtain c where c: "Load (sample_surroundings Map.empty) = Inr c" "sint (hc_WriteConcurrency (cf_HTTP c)) = 12"
    "sint (uc_Workers (cf_Consumer c)) = 4" "sint (bc_Reserved (cf_Database c)) = 2" "xc_Enabled (cf_Outbox c)"
    using sample_sizes by blast
  have "\<exists>n. run_reachable c n \<and> in_stage n = Serving \<and> in_use n = 1" by (rule sample_running) (simp_all add: c)
  with c show ?thesis by blast
qed

theorem budget_kept_witness:
  "\<exists>c n. Load (sample_surroundings Map.empty) = Inr c \<and> run_reachable c n \<and> in_use n = 1
    \<and> int (in_use n) + sint (bc_Reserved (cf_Database c)) \<le> sint (bc_MaxConns (cf_Database c))"
proof -
  obtain c n where c: "Load (sample_surroundings Map.empty) = Inr c" "run_reachable c n" "in_use n = 1"
    and s: "sint (hc_WriteConcurrency (cf_HTTP c)) < 2 ^ 61" "sint (uc_Workers (cf_Consumer c)) < 2 ^ 61"
      "sint (bc_Reserved (cf_Database c)) < 2 ^ 61"
    using sample_serving by force
  from budget_kept [OF c(1,2) s] c show ?thesis by blast
qed

theorem pool_closed_last_witness:
  "\<exists>c n. run_reachable c n \<and> in_stage n = PoolClosed \<and> \<not> in_late n \<and> in_use n = 0 \<and> in_reads n = 0"
proof -
  obtain c n where c: "Load (sample_surroundings Map.empty) = Inr c" and n: "run_reachable c n" "in_stage n = Serving"
    using sample_serving by blast
  obtain m where m: "run_step\<^sup>*\<^sup>* n m" "in_stage m = PoolClosed" "\<not> in_late m" using can_stop [OF c n] by blast
  have r: "run_reachable c m" by (rule run_reachable_step [OF n(1) m(1)])
  from pool_closed_last [OF r m(2,3) rtranclp.rtrancl_refl] r m(2,3) show ?thesis by blast
qed


end
