(* ===== verification/Dependencies.thy ===== *)
theory Dependencies
  imports Instance Server
begin

text \<open>
  What an instance depends on and how it asks: the queues (\<open>sqs/client.go\<close>), the identity provider
  (\<open>Connect\<close> of \<open>auth/verifier.go\<close>), the database (\<open>postgres/client.go\<close>), and the health checks over
  them (\<open>observability/health.go\<close>, \<open>registerHealthChecks\<close>). The network, the AWS client, the pool and the
  JOSE and OIDC libraries are the parameter \<open>network\<close>; what the program makes of their answers is here.
\<close>

section \<open>The network\<close>

datatype fetched = BadAddress | Unreachable | Answered nat string

text \<open>A key of a JWKS, as far as the program looks at it.\<close>

record jwk =
  jk_valid :: bool
  jk_rsa :: bool
  jk_use :: string
  jk_algorithm :: string

record network =
  nw_get :: "string \<Rightarrow> fetched"
  nw_keys :: "json \<Rightarrow> jwk list option"
  nw_queue :: "string \<Rightarrow> (string \<rightharpoonup> string) result"
  nw_ping :: "unit result"
  nw_listen :: "string \<Rightarrow> unit result"
  nw_arrange :: "(string \<times> string) list \<Rightarrow> (string \<times> string) list"
  nw_verifier :: "string \<Rightarrow> string \<Rightarrow> string \<Rightarrow> string \<Rightarrow> (string \<times> string) option"

section \<open>Queues and database\<close>

definition attributes :: "network \<Rightarrow> string \<Rightarrow> (string \<rightharpoonup> string) result" where
  "attributes nw queueURL = nw_queue nw queueURL"

definition QueueARN :: "network \<Rightarrow> string \<Rightarrow> string result" where
  "QueueARN nw queueURL =
     bindR (attributes nw queueURL) (\<lambda>found.
     case found ''QueueArn'' of
       None \<Rightarrow> Inl (EText (''sqs: queue '' @ queueURL @ '' did not report its arn''))
     | Some arn \<Rightarrow> Inr arn)"

fun verify_each :: "network \<Rightarrow> (string \<times> string) list \<Rightarrow> unit result" where
  "verify_each nw [] = Inr ()"
| "verify_each nw ((name, url) # queues) =
     (case attributes nw url of
        Inl err \<Rightarrow> Inl (EWrap [EText (''sqs: queue '' @ name @ '' is not reachable at '' @ url), err])
      | Inr _ \<Rightarrow> verify_each nw queues)"

text \<open>A Go map is iterated in an order of the runtime's choosing: that of \<open>nw_arrange\<close>.\<close>

definition queues_of :: "config \<Rightarrow> (string \<times> string) list" where
  "queues_of c = [(''wager-transactions'', qc_WagerQueueURL (cf_SQS c)),
     (''wager-transactions-dlq'', qc_WagerDLQURL (cf_SQS c)), (''wallet-events'', qc_EventsQueue (cf_SQS c))]"

definition VerifyQueues :: "network \<Rightarrow> config \<Rightarrow> unit result" where
  "VerifyQueues nw c = verify_each nw (nw_arrange nw (queues_of c))"

definition Ping :: "network \<Rightarrow> unit result" where
  "Ping nw = (case nw_ping nw of Inl err \<Rightarrow> Inl (EWrap [EText ''postgres: database is not reachable'', err]) | Inr _ \<Rightarrow> Inr ())"

section \<open>The identity provider\<close>

definition TrimSlash :: "string \<Rightarrow> string" where
  "TrimSlash s = (if s \<noteq> [] \<and> last s = CHR ''/'' then butlast s else s)"

definition set_discovery :: "string \<Rightarrow> json \<Rightarrow> string \<Rightarrow> string result" where
  "set_discovery k v issuer = (if named ''issuer'' k then decode_string v issuer else Inr issuer)"

text \<open>The first document of the body is read; what follows it is not looked at.\<close>

definition checkDiscovery :: "network \<Rightarrow> oidc_config \<Rightarrow> unit result" where
  "checkDiscovery nw settings =
     (case nw_get nw (TrimSlash (oc_DiscoveryURL settings) @ ''/.well-known/openid-configuration'') of
        BadAddress \<Rightarrow> Inl (EText ''auth: invalid discovery url'')
      | Unreachable \<Rightarrow> Inl (EText ''auth: identity provider is not reachable'')
      | Answered status body \<Rightarrow>
          if status \<noteq> 200 then Inl (EText ''auth: discovery answered with an error'')
          else (case json_first body of
              None \<Rightarrow> Inl (EText ''auth: discovery document could not be read'')
            | Some (v, rest) \<Rightarrow>
                (case decode_struct set_discovery v [] of
                   Inl err \<Rightarrow> Inl (EWrap [EText ''auth: discovery document could not be read'', err])
                 | Inr issuer \<Rightarrow>
                     if issuer \<noteq> oc_Issuer settings then Inl (EText ''auth: discovery announces another issuer'')
                     else Inr ())))"

definition RS256 :: string where
  "RS256 = ''RS256''"

definition usable_key :: "jwk \<Rightarrow> bool" where
  "usable_key k \<longleftrightarrow> jk_valid k \<and> jk_rsa k \<and> (jk_use k = ''sig'' \<or> jk_use k = [])
     \<and> (jk_algorithm k = RS256 \<or> jk_algorithm k = [])"

text \<open>At most a mebibyte is read, and it must be one document.\<close>

definition checkJWKS :: "network \<Rightarrow> string \<Rightarrow> unit result" where
  "checkJWKS nw address =
     (case nw_get nw address of
        BadAddress \<Rightarrow> Inl (EText ''auth: invalid JWKS url'')
      | Unreachable \<Rightarrow> Inl (EText ''auth: JWKS is not reachable'')
      | Answered status body \<Rightarrow>
          if status \<noteq> 200 then Inl (EText ''auth: JWKS answered with an error'')
          else (case Option.bind (json_first (take (2 ^ 20) body)) (\<lambda>(v, rest). map_option (\<lambda>ks. (ks, rest)) (nw_keys nw v)) of
              None \<Rightarrow> Inl (EText ''auth: JWKS could not be read'')
            | Some (keys, rest) \<Rightarrow>
                if skip_space rest \<noteq> [] then Inl (EText ''auth: JWKS contains trailing content'')
                else if list_ex usable_key keys then Inr ()
                else Inl (EText ''auth: JWKS has no usable RS256 signing key'')))"

record verifier =
  vf_settings :: oidc_config
  vf_tokens :: tokens

definition NewVerifier :: "oidc_config \<Rightarrow> verifier" where
  "NewVerifier settings = \<lparr>vf_settings = settings, vf_tokens = None\<rparr>"

definition Connect :: "network \<Rightarrow> verifier \<Rightarrow> unit result \<times> verifier" where
  "Connect nw v =
     (let settings = vf_settings v in
      case bindR (checkDiscovery nw settings) (\<lambda>_. checkJWKS nw (oc_JWKSURL settings)) of
        Inl err \<Rightarrow> (Inl err, v)
      | Inr _ \<Rightarrow> (Inr (), v\<lparr>vf_tokens :=
          Some (nw_verifier nw (oc_Issuer settings) (oc_JWKSURL settings) (oc_Audience settings))\<rparr>))"

section \<open>Starting with them\<close>

definition dependencies_of :: "network \<Rightarrow> config \<Rightarrow> dependencies" where
  "dependencies_of nw c = \<lparr>dp_Ping = Ping nw, dp_VerifyQueues = VerifyQueues nw c,
     dp_Connect = fst (Connect nw (NewVerifier (cf_OIDC c))), dp_Listen = nw_listen nw (hc_Addr (cf_HTTP c))\<rparr>"

text \<open>The verifier once the hooks have run: the first that fails ends the start.\<close>

definition verifier_after :: "network \<Rightarrow> config \<Rightarrow> verifier" where
  "verifier_after nw c =
     (case bindR (Ping nw) (\<lambda>_. VerifyQueues nw c) of
        Inl _ \<Rightarrow> NewVerifier (cf_OIDC c) | Inr _ \<Rightarrow> snd (Connect nw (NewVerifier (cf_OIDC c))))"

section \<open>Health\<close>

text \<open>The probes by name, each with what it answers now; registering a name again replaces its probe.\<close>

type_synonym probes = "(string \<times> unit result) list"

definition health_Register :: "string \<Rightarrow> unit result \<Rightarrow> probes \<Rightarrow> probes" where
  "health_Register name probe h = (name, probe) # filter (\<lambda>(k, _). k \<noteq> name) h"

definition registerHealthChecks :: "network \<Rightarrow> config \<Rightarrow> probes" where
  "registerHealthChecks nw c =
     health_Register ''sqs'' (bindR (QueueARN nw (qc_WagerQueueURL (cf_SQS c))) (\<lambda>_. Inr ()))
       (health_Register ''postgres'' (Ping nw) [])"

definition health_checks :: "(go_error \<Rightarrow> string) \<Rightarrow> probes \<Rightarrow> (string \<times> string option) list" where
  "health_checks Error h =
     map (\<lambda>(name, probe). (name, case probe of Inl err \<Rightarrow> Some (Error err) | Inr _ \<Rightarrow> None)) h"

section \<open>What follows\<close>

lemma verify_each_Inr: "verify_each nw qs = Inr u \<longleftrightarrow> (\<forall>(name, url) \<in> set qs. is_ok (nw_queue nw url))"
  by (induction nw qs rule: verify_each.induct) (auto simp: attributes_def is_ok_iff split: sum.splits)

lemma Connect_Inr:
  "fst (Connect nw v) = Inr u \<longleftrightarrow> checkDiscovery nw (vf_settings v) = Inr () \<and> checkJWKS nw (oc_JWKSURL (vf_settings v)) = Inr ()"
  by (auto simp: Connect_def Let_def bindR_def split: sum.splits)

text \<open>
  An instance that serves has found its database, all three queues and an identity provider that
  announces the configured issuer and has a key to verify with, and only then are credentials
  accepted at all: until \<open>Connect\<close> has succeeded, every token is refused.
\<close>

theorem started_with_dependencies:
  assumes "start (dependencies_of nw c) c = Inr n" and "\<And>qs. mset (nw_arrange nw qs) = mset qs"
  shows "nw_ping nw = Inr () \<and> (\<forall>(name, url) \<in> set (queues_of c). is_ok (nw_queue nw url))
    \<and> checkDiscovery nw (cf_OIDC c) = Inr () \<and> checkJWKS nw (oc_JWKSURL (cf_OIDC c)) = Inr ()
    \<and> vf_tokens (verifier_after nw c) = Some (nw_verifier nw (oc_Issuer (cf_OIDC c)) (oc_JWKSURL (cf_OIDC c)) (oc_Audience (cf_OIDC c)))"
proof -
  have p: "Ping nw = Inr ()" "VerifyQueues nw c = Inr ()" and co: "fst (Connect nw (NewVerifier (cf_OIDC c))) = Inr ()"
    using assms(1) by (auto simp: start_def dependencies_of_def bindR_eq_Inr)
  have "set (nw_arrange nw (queues_of c)) = set (queues_of c)" using assms(2) by (metis set_mset_mset)
  then have "\<forall>(name, url) \<in> set (queues_of c). is_ok (nw_queue nw url)"
    using p(2) by (simp add: VerifyQueues_def verify_each_Inr)
  moreover have "nw_ping nw = Inr ()" using p(1) by (auto simp: Ping_def split: sum.splits)
  moreover have "checkDiscovery nw (cf_OIDC c) = Inr ()" "checkJWKS nw (oc_JWKSURL (cf_OIDC c)) = Inr ()"
    using co by (simp_all add: Connect_Inr NewVerifier_def)
  ultimately show ?thesis using p by (simp add: verifier_after_def bindR_def Connect_def Let_def NewVerifier_def)
qed

theorem accepted_once_connected:
  assumes "Verify (vf_tokens (verifier_after nw c)) token = Inr p"
  shows "checkDiscovery nw (cf_OIDC c) = Inr () \<and> checkJWKS nw (oc_JWKSURL (cf_OIDC c)) = Inr ()
    \<and> (\<exists>payload. nw_verifier nw (oc_Issuer (cf_OIDC c)) (oc_JWKSURL (cf_OIDC c)) (oc_Audience (cf_OIDC c)) token
         = Some (pl_subject p, payload))"
  using assms
  by (auto simp: verifier_after_def Connect_def Let_def NewVerifier_def Verify_def bindR_def split: sum.splits option.splits)

text \<open>What is announced is the configured issuer, as the first document of an answer of 200 has it.\<close>

lemma discovery_issuer:
  assumes "checkDiscovery nw settings = Inr ()"
  obtains body v rest where "nw_get nw (TrimSlash (oc_DiscoveryURL settings) @ ''/.well-known/openid-configuration'') = Answered 200 body"
    "json_first body = Some (v, rest)" "decode_struct set_discovery v [] = Inr (oc_Issuer settings)"
  using assms by (auto simp: checkDiscovery_def split: fetched.splits if_splits option.splits sum.splits)

text \<open>Ready is what the database and the inbound queue say; the other dependencies are not asked again.\<close>

lemma ready_iff:
  "health_Ready (health_checks Error (registerHealthChecks nw c))
     \<longleftrightarrow> is_ok (nw_ping nw) \<and> is_ok (QueueARN nw (qc_WagerQueueURL (cf_SQS c)))"
  by (auto simp: health_Ready_def health_checks_def registerHealthChecks_def health_Register_def Ping_def bindR_def
      is_ok_iff split: sum.splits)

end
