(* ===== verification/Spec2Isabelle.thy ===== *)
theory Spec2Isabelle
  imports Fingerprint Shutdown Promptness Api Dependencies
begin

text \<open>
  A verification development of the wagering wallet service: a Go program that keeps player
  wallets, applies the wagering operations of game providers to them exactly once, over HTTP and
  from a queue, records every movement in an append-only ledger and announces what it did
  through an outbox.

  \<^bold>\<open>The parts and how they interact.\<close> A request or a queue message becomes an input, is
  validated, and a use case runs it in one unit of work over five tables: wallets, operations
  (\<open>wager_transactions\<close>), ledger entries, inbox and outbox. The use case reads what it needs,
  asks the domain to decide, applies the decision to a wallet and an operation, and writes back.
  Operations that wait for the one they refer to are retried by a job; events in the outbox are
  published by another. The layers below follow the packages under \<open>src/internal\<close>.

  \<^bold>\<open>Standard library and errors.\<close> \<open>Prelude\<close>: 64-bit integers, time as nanoseconds, identifiers.
  \<open>GoStd\<close>: decimal digits, UTF-8, blanks, JSON strings. \<open>JsonText\<close>: reading JSON text, with
  fuel that is proved to be enough; \<open>JsonPrint\<close>: writing it, and that reading gives back what was
  written. \<open>Sha256\<close>: the hash, its constants computed from the roots
  of primes. \<open>Errors\<close>: the sentinels of all packages as one datatype, and error chains
  (\<open>errors.Is\<close>, \<open>errors.As\<close>); a Go result \<open>(T, error)\<close> is a sum.

  \<^bold>\<open>Domain\<close> (\<open>internal/domain\<close>). \<open>Money\<close> (\<open>money/money.go\<close>): exact amounts on machine words,
  parsing and printing. \<open>Wallet\<close> (\<open>wallet/wallet.go\<close>, \<open>ledger.go\<close>): movements and ledger
  entries. \<open>Wagering\<close> (\<open>wagering/transaction.go\<close>, \<open>kind.go\<close>): an operation and its transitions.
  \<open>Decision\<close> (\<open>wagering/decision.go\<close>): what is done with an operation. \<open>Event\<close> and \<open>Messaging\<close>
  (\<open>event\<close>, \<open>messaging\<close>): events, inbox messages, outbox events and claim receipts.

  \<^bold>\<open>Persistence\<close> (\<open>internal/infrastructure/postgres\<close>). \<open>Names\<close>, \<open>Rows\<close>: text columns, rows and
  scanning. \<open>Store\<close>: each SQL statement as a function on the tables, with the unique and foreign
  keys the program relies on. \<open>Exec\<close>: a state and error monad over the tables and an
  environment that decides everything the program cannot foresee; weakest preconditions.
  \<open>Repositories\<close> (\<open>repositories/*_sql.go\<close>): the repository methods and the classification of
  driver errors. \<open>UnitOfWork\<close> (\<open>unit_of_work.go\<close>): attempts, timeouts, rollback, commit, recovered
  panics; its contract is the locale \<open>atomic_runner\<close>, interpreted for \<open>Do\<close> and \<open>Read\<close>.
  \<open>Book\<close>: the abstract state the tables stand for, and its invariant \<open>book_inv\<close>; \<open>BookSql\<close>: every
  repository method refines an operation of the book. \<open>Frame\<close>: locales for what a computation
  leaves alone, interpreted for reading, the broker, a variable and the growing outbox. \<open>Calm\<close>:
  surroundings in which nothing fails, for total statements.

  \<^bold>\<open>Application\<close> (\<open>internal/application\<close>). \<open>Inputs\<close> (\<open>dto\<close>, \<open>idempotency\<close>, \<open>mapper\<close>): inputs, their
  validation, the idempotency hash; \<open>Fingerprint\<close>: what the hash identifies. \<open>Settlement\<close>: the movement, events and backoff the use cases
  share; \<open>Carry\<close>: what settling does to the book. \<open>ProcessWager\<close>, \<open>ProcessProps\<close>
  (\<open>usecase/process_wager_transaction.go\<close>), \<open>RetryPending\<close>, \<open>RetryProps\<close>
  (\<open>retry_pending_reference.go\<close>), \<open>OpenWallet\<close> (\<open>open_wallet.go\<close>), \<open>Queries\<close> (the four read use
  cases), \<open>PublishOutbox\<close> (\<open>publish_outbox.go\<close> and the SQS notifier) and \<open>Publication\<close>, the state
  machine of several publishers on one outbox. \<open>Footprint\<close>: a locale for what all writing use
  cases leave alone, interpreted for the broker and the outbox; \<open>History\<close>: what they never lose.

  \<^bold>\<open>The queue\<close> (\<open>internal/application/dto/message\<close>, \<open>internal/infrastructure/sqs\<close>). \<open>Message\<close>: the
  contract of a queue message and its decoding. \<open>Listener\<close>: from a delivery to the use case, and
  the classification of its failures. \<open>Consumer\<close>: dispatch and acknowledgement, over the contract
  \<open>queue_listener\<close> between consumer and listener. \<open>Shutdown\<close>: stopping, as a machine whose steps are
  the consumer's critical sections. \<open>Promptness\<close>: a valid operation, and the message that brings it,
  is settled where nothing fails.

  \<^bold>\<open>The API\<close> (\<open>internal/infrastructure/http\<close>, \<open>auth\<close>). \<open>Cursor\<close>: cursors, on URL-safe base64.
  \<open>Responses\<close>: the bodies of answers down to their JSON. \<open>Credentials\<close>: bearer tokens, claims, roles.
  \<open>Handlers\<close>: from a request to its answer, one definition per handler. \<open>Server\<close>: middleware as
  functions on handlers, and each route as the composition the router builds. \<open>Api\<close>: what the API
  promises, over the use cases.

  \<^bold>\<open>The process\<close> (\<open>internal/infrastructure/config\<close>, \<open>jobs\<close>, \<open>internal/app\<close>). \<open>Config\<close>: the settings, read
  by a state monad over the problems found so far, and the budget of database connections.
  \<open>Slots\<close>: channels of slots, the locale \<open>slot_users\<close> for what holds one slot each, and the limiter of
  the API as a machine. \<open>Watch\<close>: the loop that polls the queue, with its goroutines, as another.
  \<open>Jobs\<close>: the recurring jobs, their scheduler, and the settings \<open>app.go\<close> hands out. \<open>Instance\<close>: these
  machines together under the hooks of \<open>lifecycle.go\<close>, from start to stop. \<open>Dependencies\<close>: how an instance
  asks for its queues, its database and its identity provider, and the health checks over them.

  \<^bold>\<open>The whole\<close>. \<open>System\<close>: the service as a machine whose state is the tables and whose steps are
  complete executions of the use cases in any order, each under surroundings of its own; the
  properties that span components are about what it reaches from empty tables.

  \<^bold>\<open>What the lemmas show.\<close> Money: parsing and printing are inverse and every error is
  characterised. Wallet and operations: exact effects, refusals, transitions along a state
  diagram, every reachable operation can be stored and read back. Decision: equal to a table over
  the integers, when a reversal is processed, that it undoes its original, when an operation
  waits. Unit of work: all or nothing under every fault and retry. Use cases: each refines an
  abstract effect on the book and keeps its invariant (a balance is the sum of its entries, an
  original is reversed at most once, a handled message names its operation); executing an input
  again changes nothing; where nothing fails, a valid new operation is settled and its message
  deleted; a retry batch ends and nothing waits past its deadline; queries change
  nothing and answer exactly. Publication: nothing is marked that was not sent, an overtaken
  claim is powerless, no event is lost, a batch where nothing fails publishes all it claims, and
  a refused message is overtaken by a later one of the same wallet. Queue: what reaches the use
  case is fit for it; a message is deleted only when its operation is settled or the dead letter
  queue has it, and it gets there only when it left no trace; stopping forgets no message. The
  service: its books balance in every state it reaches, its history is never rewritten, an answer
  holds for good and a message has its effect once, however often it is delivered. API: the answer
  to a submission is the truth about it, it may be sent again, nothing happens without a credential
  that permits it, and a provider sees its own operations only. Process: a configuration
  that loads is in its ranges and consistent (a demand or a pool size beyond its machine integer
  escapes the check); what the budget counts never exceeds the pool while the instance runs (reads
  are not counted); a job's runs are steps of the service; an instance serves only with all it depends on, and accepts
  a token only once its identity provider was found to be the configured one; stopping cannot get stuck, and when it
  is in time the pool closes after everything that uses it.

  \<^bold>\<open>Bounds and fuel.\<close> Integers of the code are 64-bit words read by \<open>sint\<close> or, where the code
  cannot overflow, \<open>int\<close> and \<open>nat\<close>. The loop of a retry batch is a partial function that is proved
  to end. A unit of work has as many attempts as its settings say. The JSON reader gets one unit of
  fuel per byte and one more; any result it can have with more it has with that.

  \<^bold>\<open>Assumptions, each a named hypothesis.\<close> \<open>honest_commit\<close>: an error the server reports for
  \<open>COMMIT\<close> means the transaction aborted. \<open>returning_ok\<close>: \<open>RETURNING\<close> yields rows the statement
  changed. \<open>documented_engine\<close>: the validator package interprets its tags as documented. \<open>calm\<close> and
  \<open>prompt_env\<close>: nothing fails, \<open>fresh_ids\<close>: identifiers are new, and \<open>timely\<close>: clocks run, for the
  statements that something is done.

  \<^bold>\<open>Not modelled, and why.\<close> Units of work run one after the other: row locks appear as rows other
  transactions hold (\<open>e_locked\<close>), and interleaving is modelled between units of work only, in
  \<open>Publication\<close>. CHECK constraints and triggers appear as faults a statement may have. Timestamps
  keep nanoseconds where the database keeps microseconds. The text of a UUID, JSONB
  normalisation, the validator's engine and the rounding of an age are parameters. Logging,
  metrics and crash points have no effect on the state and are left out. Timers, deadlines and the
  choices of a \<open>select\<close> are events from outside in the machines. The verification of a token and the keys for it, the
  matching of routes, the HTTP server, the connection pool, fx and the AWS client are libraries.
  The remaining packages - ports, mocks, collectors of metrics - hold no logic of their own and are
  listed in the manifest with the reason.
\<close>

end
